(* ===== verification/Sml_Prelude.thy ===== *)
theory Sml_Prelude
  imports Main "HOL-Library.Word"
begin

text \<open>
  Shared vocabulary of the development: the Rust integer type \<open>usize\<close> (64 bits) with the
  saturating and checked operations the crate uses instead of \<open>+\<close> and \<open>-\<close>, slice access
  that returns an option (\<open>get\<close>, \<open>get_mut\<close>), the \<open>Result\<close> type, and the lemmas on lists
  and words that several components use.
\<close>

section \<open>Results\<close>

text \<open>Rust's \<open>Result<T, E>\<close>: \<open>Inl\<close> carries the error, \<open>Inr\<close> the value.\<close>

type_synonym ('e, 'a) rust_result = "'e + 'a"

abbreviation Err :: "'e \<Rightarrow> ('e, 'a) rust_result" where
  "Err \<equiv> Inl"

abbreviation Ok :: "'a \<Rightarrow> ('e, 'a) rust_result" where
  "Ok \<equiv> Inr"

text \<open>The question-mark operator: an error returns early, a value continues.\<close>

definition try_then :: "('e, 'a) rust_result \<Rightarrow> ('a \<Rightarrow> ('e, 'b) rust_result) \<Rightarrow> ('e, 'b) rust_result" where
  "try_then r k = (case r of Inl e \<Rightarrow> Inl e | Inr a \<Rightarrow> k a)"

lemma try_then_simps [simp]:
  "try_then (Inl e) k = Inl e"
  "try_then (Inr a) k = k a"
  by (simp_all add: try_then_def)

lemma try_then_Inr_iff: "try_then r k = Inr b \<longleftrightarrow> (\<exists>a. r = Inr a \<and> k a = Inr b)"
  by (cases r) simp_all

definition is_ok :: "('e, 'a) rust_result \<Rightarrow> bool" where
  "is_ok r = (case r of Inl _ \<Rightarrow> False | Inr _ \<Rightarrow> True)"

lemma is_ok_simps [simp]: "\<not> is_ok (Inl e)" "is_ok (Inr a)"
  by (simp_all add: is_ok_def)

lemma is_ok_iff: "is_ok r \<longleftrightarrow> (\<exists>a. r = Inr a)"
  by (cases r) simp_all

section \<open>Machine integers\<close>

type_synonym usize = "64 word"

definition usize_max :: usize where
  "usize_max = 18446744073709551615"

definition saturating_add :: "usize \<Rightarrow> usize \<Rightarrow> usize" where
  "saturating_add a b = (if unat a + unat b < 2 ^ 64 then a + b else usize_max)"

definition saturating_sub :: "usize \<Rightarrow> usize \<Rightarrow> usize" where
  "saturating_sub a b = (if b \<le> a then a - b else 0)"

definition checked_sub :: "usize \<Rightarrow> usize \<Rightarrow> usize option" where
  "checked_sub a b = (if b \<le> a then Some (a - b) else None)"

definition usize_of_bool :: "bool \<Rightarrow> usize" where
  "usize_of_bool b = (if b then 1 else 0)"

lemma unat_lt_64 [simp]: "unat (a :: usize) < 2 ^ 64"
  using unsigned_less [of a] by simp

lemma unat_saturating_add:
  "unat (saturating_add a b) = min (unat a + unat b) (2 ^ 64 - 1)"
  using unat_lt_64 [of a] unat_lt_64 [of b]
  by (auto simp: saturating_add_def usize_max_def unat_word_ariths)

lemma saturating_add_code [code]:
  "saturating_add a b = (if a \<le> usize_max - b then a + b else usize_max)"
proof -
  have "b \<le> usize_max" using unat_lt_64 [of b] by (simp add: word_le_nat_alt usize_max_def)
  then have "unat (usize_max - b) = (2 ^ 64 - 1) - unat b"
    by (simp add: unat_sub word_le_nat_alt usize_max_def)
  then have "a \<le> usize_max - b \<longleftrightarrow> unat a + unat b < 2 ^ 64"
    using unat_lt_64 [of b] by (auto simp: word_le_nat_alt)
  then show ?thesis by (simp add: saturating_add_def)
qed

lemma unat_saturating_sub: "unat (saturating_sub a b) = unat a - unat b"
  by (auto simp: saturating_sub_def unat_sub word_le_nat_alt)

lemma unat_saturating_add_exact:
  "unat a + unat b < 2 ^ 64 \<Longrightarrow> unat (saturating_add a b) = unat a + unat b"
  by (simp add: unat_saturating_add)

lemma checked_sub_Some_iff: "checked_sub a b = Some c \<longleftrightarrow> unat b \<le> unat a \<and> unat c = unat a - unat b"
  by (auto simp: checked_sub_def word_le_nat_alt unat_sub word_unat_eq_iff)

lemma checked_sub_None_iff: "checked_sub a b = None \<longleftrightarrow> unat a < unat b"
  by (auto simp: checked_sub_def word_le_nat_alt)

lemma unat_usize_of_bool [simp]: "unat (usize_of_bool b) = (if b then 1 else 0)"
  by (simp add: usize_of_bool_def)

lemma unat_of_nat_usize: "n < 2 ^ 64 \<Longrightarrow> unat (of_nat n :: usize) = n"
  by (simp add: unat_of_nat take_bit_nat_eq_self)

section \<open>Slices\<close>

text \<open>
  \<open>slice.get(i)\<close> and \<open>slice.get_mut(i)\<close>: an index out of range is \<open>None\<close>, never a panic.
\<close>

definition slice_get :: "'a list \<Rightarrow> usize \<Rightarrow> 'a option" where
  "slice_get xs i = (if unat i < length xs then Some (xs ! unat i) else None)"

lemma slice_get_Some_iff: "slice_get xs i = Some x \<longleftrightarrow> unat i < length xs \<and> xs ! unat i = x"
  by (auto simp: slice_get_def)

lemma slice_get_in_range [simp]: "unat i < length xs \<Longrightarrow> slice_get xs i = Some (xs ! unat i)"
  by (simp add: slice_get_def)

lemma slice_get_None_iff: "slice_get xs i = None \<longleftrightarrow> length xs \<le> unat i"
  by (auto simp: slice_get_def)

section \<open>Lists read around a ring\<close>

text \<open>The \<open>i\<close>-th position after \<open>h\<close> in a ring of \<open>n\<close> cells.\<close>

abbreviation ring_pos :: "nat \<Rightarrow> nat \<Rightarrow> nat \<Rightarrow> nat" where
  "ring_pos n h i \<equiv> (h + i) mod n"

lemma ring_pos_inj:
  assumes "i < n" "j < n" "ring_pos n h i = ring_pos n h j"
  shows "i = j"
proof (rule linorder_cases [of i j])
  assume "i < j"
  with assms(3) have "n dvd j - i"
    using mod_eq_dvd_iff_nat [of "h + i" "h + j" n] by simp
  with \<open>i < j\<close> assms(2) show ?thesis
    by (auto dest: dvd_imp_le)
next
  assume "j < i"
  with assms(3) have "n dvd i - j"
    using mod_eq_dvd_iff_nat [of "h + j" "h + i" n] by simp
  with \<open>j < i\<close> assms(1) show ?thesis
    by (auto dest: dvd_imp_le)
qed simp

lemma ring_pos_less: "0 < n \<Longrightarrow> ring_pos n h i < n"
  by simp

lemma nth_ring_update:
  assumes "i < length xs" "j < length xs"
  shows "xs[ring_pos (length xs) h j := v] ! ring_pos (length xs) h i =
    (if i = j then v else xs ! ring_pos (length xs) h i)"
proof -
  have "ring_pos (length xs) h i < length xs" using assms(1) by (intro ring_pos_less) (rule le_less_trans [OF le0])
  then show ?thesis
    using ring_pos_inj [OF assms, of h]
    by (cases "i = j") (metis nth_list_update_eq, metis nth_list_update_neq)
qed

lemma ring_pos_Suc_head: "ring_pos n ((h + 1) mod n) i = ring_pos n h (Suc i)"
  by (simp add: mod_add_left_eq)

lemma ring_pos_pred_head:
  assumes "0 < n" "h' = (h + (n - 1)) mod n"
  shows "ring_pos n h' (Suc i) = ring_pos n h i"
proof -
  have "ring_pos n h' (Suc i) = (h + (n - 1) + Suc i) mod n"
    unfolding assms(2) by (rule mod_add_left_eq)
  also have "h + (n - 1) + Suc i = h + i + n" using assms(1) by simp
  finally show ?thesis by simp
qed

end
