(* ===== verification/Event_Queue.thy ===== *)
theory Event_Queue
  imports Sml_Prelude
begin

text \<open>
  The allocation-free ring buffer \<open>EventQueue<E, N>\<close> of src/src/utility.rs and the \<open>Queue<E>\<close>
  interface of src/src/policy.rs. The array \<open>events\<close> has the const generic \<open>N\<close> as its length;
  \<open>head\<close> and \<open>len\<close> are \<open>usize\<close> words, moved only by the saturating operations the code uses.
  Mutating methods return the new queue with their result. The locale \<open>bounded_queue\<close> states
  what the \<open>Queue\<close> trait promises; the ring buffer is shown to implement it for every \<open>N\<close>.
\<close>

section \<open>The ring buffer\<close>

datatype queue_full = QueueFull

record 'e event_queue =
  events :: "'e option list"
  head :: usize
  queue_len :: usize

definition EventQueue_cap :: "'e event_queue \<Rightarrow> usize" where
  "EventQueue_cap q = of_nat (length (events q))"

definition EventQueue_new :: "usize \<Rightarrow> 'e event_queue" where
  "EventQueue_new n = \<lparr>events = replicate (unat n) None, head = 0, queue_len = 0\<rparr>"

definition EventQueue_len :: "'e event_queue \<Rightarrow> usize" where
  "EventQueue_len q = queue_len q"

definition EventQueue_is_empty :: "'e event_queue \<Rightarrow> bool" where
  "EventQueue_is_empty q \<longleftrightarrow> queue_len q = 0"

definition tail_index :: "usize \<Rightarrow> 'e event_queue \<Rightarrow> usize" where
  "tail_index n q =
     (if saturating_sub n (queue_len q) \<le> head q
      then saturating_sub (head q) (saturating_sub n (queue_len q))
      else saturating_add (head q) (queue_len q))"

definition EventQueue_defer ::
  "'e event_queue \<Rightarrow> 'e \<Rightarrow> 'e event_queue \<times> (queue_full, unit) rust_result" where
  "EventQueue_defer q e =
     (let n = EventQueue_cap q in
      if queue_len q = n \<or> n = 0 then (q, Err QueueFull)
      else let tail = tail_index n q in
        case slice_get (events q) tail of
          None \<Rightarrow> (q, Err QueueFull)
        | Some _ \<Rightarrow>
            (q\<lparr>events := (events q)[unat tail := Some e],
               queue_len := saturating_add (queue_len q) 1\<rparr>, Ok ()))"

definition EventQueue_process ::
  "'e event_queue \<Rightarrow> 'e \<Rightarrow> 'e event_queue \<times> (queue_full, unit) rust_result" where
  "EventQueue_process q e =
     (let n = EventQueue_cap q in
      if queue_len q = n \<or> n = 0 then (q, Err QueueFull)
      else let new_head = (if head q = 0 then saturating_sub n 1 else saturating_sub (head q) 1) in
        case slice_get (events q) new_head of
          None \<Rightarrow> (q, Err QueueFull)
        | Some _ \<Rightarrow>
            (q\<lparr>head := new_head, events := (events q)[unat new_head := Some e],
               queue_len := saturating_add (queue_len q) 1\<rparr>, Ok ()))"

text \<open>\<open>Option::take\<close> empties the slot even when it held nothing.\<close>

definition EventQueue_pop :: "'e event_queue \<Rightarrow> 'e event_queue \<times> 'e option" where
  "EventQueue_pop q =
     (if queue_len q = 0 then (q, None)
      else case slice_get (events q) (head q) of
        None \<Rightarrow> (q, None)
      | Some slot \<Rightarrow>
          (let q' = q\<lparr>events := (events q)[unat (head q) := None]\<rparr> in
           case slot of
             None \<Rightarrow> (q', None)
           | Some e \<Rightarrow>
               (q'\<lparr>head := (if head q = saturating_sub (EventQueue_cap q) 1 then 0
                            else saturating_add (head q) 1),
                  queue_len := saturating_sub (queue_len q) 1\<rparr>, Some e)))"

lemma EventQueue_pop_decreases:
  "EventQueue_pop q = (q', Some e) \<Longrightarrow> unat (queue_len q') < unat (queue_len q)"
  by (auto simp: EventQueue_pop_def Let_def unat_saturating_sub unat_eq_0 word_neq_0_conv
      split: if_splits option.splits) (simp_all add: unat_gt_0)

function EventQueue_clear :: "'e event_queue \<Rightarrow> 'e event_queue" where
  "EventQueue_clear q =
     (case EventQueue_pop q of (q', Some _) \<Rightarrow> EventQueue_clear q' | (q', None) \<Rightarrow> q')"
  by pat_completeness auto
termination
  by (relation "measure (\<lambda>q. unat (queue_len q))") (auto dest: EventQueue_pop_decreases [OF sym])

declare EventQueue_clear.simps [simp del]

section \<open>The invariant and the list a queue stands for\<close>

abbreviation cells :: "'e event_queue \<Rightarrow> nat" where
  "cells q \<equiv> length (events q)"

abbreviation cell_at :: "'e event_queue \<Rightarrow> nat \<Rightarrow> 'e option" where
  "cell_at q i \<equiv> events q ! ring_pos (cells q) (unat (head q)) i"

definition EventQueue_inv :: "'e event_queue \<Rightarrow> bool" where
  "EventQueue_inv q \<longleftrightarrow>
     cells q < 2 ^ 64 \<and> unat (queue_len q) \<le> cells q \<and>
     (cells q = 0 \<or> unat (head q) < cells q) \<and>
     (\<forall>i < cells q. (cell_at q i = None) \<longleftrightarrow> unat (queue_len q) \<le> i)"

definition EventQueue_contents :: "'e event_queue \<Rightarrow> 'e list" where
  "EventQueue_contents q = map (\<lambda>i. the (cell_at q i)) [0..<unat (queue_len q)]"

lemma EventQueue_invD:
  assumes "EventQueue_inv q"
  shows "unat (EventQueue_cap q) = cells q" "unat (queue_len q) \<le> cells q"
    "0 < cells q \<Longrightarrow> unat (head q) < cells q"
    "i < cells q \<Longrightarrow> cell_at q i = None \<longleftrightarrow> unat (queue_len q) \<le> i"
  using assms
  by (auto simp: EventQueue_inv_def EventQueue_cap_def unat_of_nat_usize)

lemma EventQueue_full_test:
  assumes "EventQueue_inv q"
  shows "(queue_len q = EventQueue_cap q \<or> EventQueue_cap q = 0) \<longleftrightarrow> unat (queue_len q) = cells q"
  using EventQueue_invD(1,2) [OF assms]
  by (auto simp: word_unat_eq_iff)

lemma length_contents [simp]: "length (EventQueue_contents q) = unat (queue_len q)"
  by (simp add: EventQueue_contents_def)

lemma nth_contents:
  "i < unat (queue_len q) \<Longrightarrow> EventQueue_contents q ! i = the (cell_at q i)"
  by (simp add: EventQueue_contents_def)

lemma tail_index_wraps:
  assumes "unat (head q) < unat n" "unat (queue_len q) < unat n"
  shows "unat (tail_index n q) = (unat (head q) + unat (queue_len q)) mod unat n"
proof -
  let ?n = "unat n" and ?h = "unat (head q)" and ?l = "unat (queue_len q)"
  show ?thesis
  proof (cases "?n - ?l \<le> ?h")
    case True
    then have "(?h + ?l) mod ?n = ?h + ?l - ?n"
      using assms le_mod_geq [of ?n "?h + ?l"] by simp
    with True assms show ?thesis
      by (simp add: tail_index_def word_le_nat_alt unat_saturating_sub)
  next
    case False
    then have "?h + ?l < ?n" by linarith
    moreover from this have "?h + ?l < 2 ^ 64"
      using unat_lt_64 [of n] by linarith
    ultimately show ?thesis using False
      by (simp add: tail_index_def word_le_nat_alt unat_saturating_sub unat_saturating_add_exact)
  qed
qed

lemma unat_tail_index:
  assumes "EventQueue_inv q" "unat (queue_len q) < cells q"
  shows "unat (tail_index (EventQueue_cap q) q) =
    ring_pos (cells q) (unat (head q)) (unat (queue_len q))"
proof -
  have "0 < cells q" using assms(2) by linarith
  with tail_index_wraps [of q "EventQueue_cap q"] EventQueue_invD(1,3) [OF assms(1)] assms(2)
  show ?thesis by simp
qed

lemma EventQueue_new_inv: "EventQueue_inv (EventQueue_new n)"
  using unat_lt_64 [of n] by (auto simp: EventQueue_inv_def EventQueue_new_def)

lemma EventQueue_new_contents: "EventQueue_contents (EventQueue_new n) = []"
  by (simp add: EventQueue_contents_def EventQueue_new_def)

lemma EventQueue_new_cells: "cells (EventQueue_new n) = unat n"
  by (simp add: EventQueue_new_def)

lemma EventQueue_defer_full:
  assumes "EventQueue_inv q" "unat (queue_len q) = cells q"
  shows "EventQueue_defer q e = (q, Err QueueFull)" "EventQueue_process q e = (q, Err QueueFull)"
  using EventQueue_full_test [OF assms(1)] assms(2)
  by (auto simp: EventQueue_defer_def EventQueue_process_def Let_def)

lemma EventQueue_defer_room:
  assumes "EventQueue_inv q" "unat (queue_len q) < cells q"
  shows "EventQueue_defer q e =
    (q\<lparr>events := (events q)[ring_pos (cells q) (unat (head q)) (unat (queue_len q)) := Some e],
       queue_len := saturating_add (queue_len q) 1\<rparr>, Ok ())"
proof -
  have "unat (tail_index (EventQueue_cap q) q) < cells q"
    using unat_tail_index [OF assms] assms(2) by (metis le_less_trans le0 ring_pos_less)
  then show ?thesis
    using EventQueue_full_test [OF assms(1)] assms(2) unat_tail_index [OF assms]
    by (simp add: EventQueue_defer_def Let_def)
qed

lemma EventQueue_defer_correct:
  assumes inv: "EventQueue_inv q" and room: "unat (queue_len q) < cells q"
    and q': "fst (EventQueue_defer q e) = q'"
  shows "snd (EventQueue_defer q e) = Ok () \<and> EventQueue_inv q' \<and> cells q' = cells q \<and>
    EventQueue_contents q' = EventQueue_contents q @ [e]"
proof -
  let ?l = "unat (queue_len q)"
  have d: "q' = q\<lparr>events := (events q)[ring_pos (cells q) (unat (head q)) ?l := Some e],
      queue_len := saturating_add (queue_len q) 1\<rparr>"
    using q' EventQueue_defer_room [OF inv room] by simp
  have len: "unat (queue_len q') = Suc ?l" and c: "cells q' = cells q"
    using d room EventQueue_invD(1) [OF inv] inv
    by (auto simp: unat_saturating_add EventQueue_inv_def)
  have cell: "cell_at q' i = (if i = ?l then Some e else cell_at q i)" if "i < cells q" for i
    using that room by (simp add: d nth_ring_update)
  have "EventQueue_inv q'"
    using inv room len c cell EventQueue_invD(4) [OF inv]
    by (auto simp: EventQueue_inv_def d)
  moreover have "EventQueue_contents q' = EventQueue_contents q @ [e]"
    using room cell len c by (auto simp: EventQueue_contents_def intro!: map_cong)
  ultimately show ?thesis using EventQueue_defer_room [OF inv room] c by simp
qed

lemma new_head_ring:
  assumes "EventQueue_inv q" "0 < cells q"
  shows "unat (if head q = 0 then saturating_sub (EventQueue_cap q) 1 else saturating_sub (head q) 1) =
    (unat (head q) + (cells q - 1)) mod cells q"
proof (cases "head q = 0")
  case True
  with assms EventQueue_invD(1) [OF assms(1)] show ?thesis
    by (simp add: unat_saturating_sub)
next
  case False
  then have "0 < unat (head q)" by (simp add: unat_gt_0)
  then have "unat (head q) + (cells q - 1) = (unat (head q) - 1) + cells q"
    using assms(2) by linarith
  moreover have "unat (head q) - 1 < cells q"
    using EventQueue_invD(3) [OF assms] by simp
  ultimately have "(unat (head q) + (cells q - 1)) mod cells q = unat (head q) - 1"
    by (metis mod_add_self2 mod_less)
  then show ?thesis
    using False by (simp only: if_False unat_saturating_sub unat_1)
qed

lemma EventQueue_process_correct:
  assumes inv: "EventQueue_inv q" and room: "unat (queue_len q) < cells q"
    and q': "fst (EventQueue_process q e) = q'"
  shows "snd (EventQueue_process q e) = Ok () \<and> EventQueue_inv q' \<and> cells q' = cells q \<and>
    EventQueue_contents q' = e # EventQueue_contents q"
proof -
  let ?l = "unat (queue_len q)" and ?n = "cells q" and ?h = "unat (head q)"
  define nh where
    "nh = (if head q = 0 then saturating_sub (EventQueue_cap q) 1 else saturating_sub (head q) 1)"
  have n: "0 < ?n" using room by linarith
  have nh: "unat nh = (?h + (?n - 1)) mod ?n"
    unfolding nh_def by (rule new_head_ring [OF inv n])
  then have nh_less: "unat nh < ?n" using n by (metis mod_less_divisor)
  have run: "EventQueue_process q e = (q\<lparr>head := nh, events := (events q)[unat nh := Some e],
      queue_len := saturating_add (queue_len q) 1\<rparr>, Ok ())"
    using EventQueue_full_test [OF inv] room nh_less
    by (simp add: EventQueue_process_def Let_def nh_def [symmetric])
  then have d: "q' = q\<lparr>head := nh, events := (events q)[unat nh := Some e],
      queue_len := saturating_add (queue_len q) 1\<rparr>"
    using q' by simp
  have len: "unat (queue_len q') = Suc ?l" and c: "cells q' = ?n"
    using d room EventQueue_invD(1) [OF inv] inv
    by (auto simp: unat_saturating_add EventQueue_inv_def)
  have pos: "ring_pos ?n (unat nh) (Suc i) = ring_pos ?n ?h i" for i
    by (rule ring_pos_pred_head [OF n nh])
  have cell0: "cell_at q' 0 = Some e" using nh_less by (simp add: d)
  have cellS: "cell_at q' (Suc i) = cell_at q i" if "Suc i < ?n" for i
    using that nth_ring_update [of "Suc i" "events q" 0 "unat nh" "Some e"] nh_less n pos [of i]
    by (simp add: d)
  have "(cell_at q' i = None) = (unat (queue_len q') \<le> i)" if "i < ?n" for i
    using that cell0 cellS len EventQueue_invD(4) [OF inv] by (cases i) auto
  then have "EventQueue_inv q'"
    using inv room len c nh_less by (auto simp: EventQueue_inv_def d)
  moreover have "EventQueue_contents q' = e # EventQueue_contents q"
  proof (rule nth_equalityI)
    fix i assume "i < length (EventQueue_contents q')"
    then have "i < Suc ?l" by (simp add: len)
    with room len cell0 cellS show "EventQueue_contents q' ! i = (e # EventQueue_contents q) ! i"
      by (cases i) (auto simp: nth_contents)
  qed (simp add: len)
  ultimately show ?thesis using run c by simp
qed

lemma EventQueue_pop_empty: "EventQueue_contents q = [] \<Longrightarrow> EventQueue_pop q = (q, None)"
proof -
  assume "EventQueue_contents q = []"
  then have "unat (queue_len q) = 0" by (metis length_contents list.size(3))
  then show ?thesis by (simp add: EventQueue_pop_def unat_eq_0)
qed

lemma next_head_ring:
  assumes "EventQueue_inv q" "0 < cells q"
  shows "unat (if head q = saturating_sub (EventQueue_cap q) 1 then 0 else saturating_add (head q) 1) =
    (unat (head q) + 1) mod cells q"
proof -
  have n: "unat (EventQueue_cap q) = cells q" "unat (head q) < cells q" "cells q < 2 ^ 64"
    using EventQueue_invD(1,3) [OF assms(1)] assms by (auto simp: EventQueue_inv_def)
  show ?thesis
  proof (cases "unat (head q) = cells q - 1")
    case True
    with n(1) have "head q = saturating_sub (EventQueue_cap q) 1"
      by (simp add: word_unat_eq_iff unat_saturating_sub)
    moreover have "(unat (head q) + 1) mod cells q = 0"
      using True assms(2) by (metis Suc_eq_plus1 Suc_diff_1 mod_self)
    ultimately show ?thesis by simp
  next
    case False
    with n(1) have "head q \<noteq> saturating_sub (EventQueue_cap q) 1"
      by (simp add: word_unat_eq_iff unat_saturating_sub)
    moreover have "unat (head q) + 1 < cells q" using False n(2) by linarith
    ultimately show ?thesis using n(3) by (simp add: unat_saturating_add)
  qed
qed

lemma EventQueue_pop_correct:
  assumes inv: "EventQueue_inv q" and cont: "EventQueue_contents q = e # es"
    and q': "fst (EventQueue_pop q) = q'"
  shows "snd (EventQueue_pop q) = Some e \<and> EventQueue_inv q' \<and> cells q' = cells q \<and>
    EventQueue_contents q' = es"
proof -
  let ?l = "unat (queue_len q)" and ?n = "cells q" and ?h = "unat (head q)"
  define nh where
    "nh = (if head q = saturating_sub (EventQueue_cap q) 1 then 0 else saturating_add (head q) 1)"
  have l: "?l = Suc (length es)" using cont by (metis length_Cons length_contents)
  then have n: "0 < ?n" and h: "?h < ?n" and ln: "?l \<le> ?n"
    using EventQueue_invD(2,3) [OF inv] by linarith+
  have nh: "unat nh = (?h + 1) mod ?n"
    unfolding nh_def by (rule next_head_ring [OF inv n])
  have "cell_at q 0 = Some e"
    using cont nth_contents [of 0 q] l EventQueue_invD(4) [OF inv, of 0] n by auto
  then have slot: "events q ! ?h = Some e" using h by simp
  have run: "EventQueue_pop q = (q\<lparr>events := (events q)[?h := None], head := nh,
      queue_len := saturating_sub (queue_len q) 1\<rparr>, Some e)"
    using l h slot
    by (auto simp: EventQueue_pop_def Let_def EventQueue_cap_def nh_def [unfolded EventQueue_cap_def])
  then have d: "q' = q\<lparr>events := (events q)[?h := None], head := nh,
      queue_len := saturating_sub (queue_len q) 1\<rparr>"
    using q' by simp
  have len: "unat (queue_len q') = length es" and c: "cells q' = ?n"
    using d l by (auto simp: unat_saturating_sub)
  have cell: "cell_at q' i = (if Suc i = ?n then None else cell_at q (Suc i))" if "i < ?n" for i
  proof -
    have "cell_at q' i = (events q)[?h := None] ! ring_pos ?n ?h (Suc i)"
      using ring_pos_Suc_head [of ?h ?n i] nh by (simp add: d)
    also have "\<dots> = (if Suc i = ?n then None else cell_at q (Suc i))"
    proof (cases "Suc i = ?n")
      case True
      then have "?h + Suc i = ?h + ?n" by simp
      then have "ring_pos ?n ?h (Suc i) = ?h" using h by (metis mod_add_self2 mod_less)
      with True h show ?thesis by simp
    next
      case False
      with that have "Suc i < ?n" by simp
      with nth_ring_update [of "Suc i" "events q" 0 ?h None] n h False show ?thesis by simp
    qed
    finally show ?thesis .
  qed
  have "(cell_at q' i = None) = (unat (queue_len q') \<le> i)" if "i < ?n" for i
    using that cell len l ln EventQueue_invD(4) [OF inv, of "Suc i"] by auto
  then have "EventQueue_inv q'"
    using inv len c n nh l ln by (auto simp: EventQueue_inv_def d)
  moreover have "EventQueue_contents q' = es"
  proof (rule nth_equalityI)
    fix i assume "i < length (EventQueue_contents q')"
    then have i: "i < length es" by (simp add: len)
    then have "EventQueue_contents q' ! i = the (cell_at q (Suc i))"
      using cell [of i] l ln len by (simp add: nth_contents)
    also have "\<dots> = EventQueue_contents q ! Suc i"
      using i l by (simp add: nth_contents)
    finally show "EventQueue_contents q' ! i = es ! i" by (simp add: cont)
  qed (simp add: len)
  ultimately show ?thesis using run c by simp
qed

text \<open>Clearing drops every event: the loop of pops empties the queue and keeps it well formed.\<close>

lemma EventQueue_clear_contents:
  assumes "EventQueue_inv q"
  shows "EventQueue_inv (EventQueue_clear q) \<and> cells (EventQueue_clear q) = cells q \<and>
    EventQueue_contents (EventQueue_clear q) = []"
  using assms
proof (induction q rule: EventQueue_clear.induct)
  case (1 q)
  show ?case
  proof (cases "EventQueue_contents q")
    case Nil
    with "1.prems" show ?thesis
      by (subst (1 2 3) EventQueue_clear.simps) (simp add: EventQueue_pop_empty)
  next
    case (Cons e es)
    obtain q' where q': "EventQueue_pop q = (q', Some e)" "EventQueue_inv q'" "cells q' = cells q"
      using EventQueue_pop_correct [OF "1.prems" Cons refl] by (metis prod.collapse)
    with "1.IH" [OF q'(1) [symmetric] refl] show ?thesis
      by (subst (1 2 3) EventQueue_clear.simps) simp
  qed
qed

section \<open>The Queue interface\<close>

text \<open>
  \<open>trait Queue<E>\<close>: what the generated machines and \<open>EventQueues\<close> rely on. \<open>q_list\<close> is the
  sequence of events in the order \<open>pop\<close> returns them, \<open>q_cap\<close> how many the queue can hold.
\<close>

locale bounded_queue =
  fixes q_new :: 'q
    and q_defer :: "'q \<Rightarrow> 'e \<Rightarrow> 'q \<times> (queue_full, unit) rust_result"
    and q_process :: "'q \<Rightarrow> 'e \<Rightarrow> 'q \<times> (queue_full, unit) rust_result"
    and q_pop :: "'q \<Rightarrow> 'q \<times> 'e option"
    and q_inv :: "'q \<Rightarrow> bool"
    and q_list :: "'q \<Rightarrow> 'e list"
    and q_cap :: nat
  assumes new_inv: "q_inv q_new"
    and new_list: "q_list q_new = []"
    and list_bound: "q_inv q \<Longrightarrow> length (q_list q) \<le> q_cap"
    and defer_full: "q_inv q \<Longrightarrow> length (q_list q) = q_cap \<Longrightarrow> q_defer q e = (q, Err QueueFull)"
    and process_full: "q_inv q \<Longrightarrow> length (q_list q) = q_cap \<Longrightarrow> q_process q e = (q, Err QueueFull)"
    and defer_room: "q_inv q \<Longrightarrow> length (q_list q) < q_cap \<Longrightarrow>
      \<exists>q'. q_defer q e = (q', Ok ()) \<and> q_inv q' \<and> q_list q' = q_list q @ [e]"
    and process_room: "q_inv q \<Longrightarrow> length (q_list q) < q_cap \<Longrightarrow>
      \<exists>q'. q_process q e = (q', Ok ()) \<and> q_inv q' \<and> q_list q' = e # q_list q"
    and pop_empty: "q_inv q \<Longrightarrow> q_list q = [] \<Longrightarrow> q_pop q = (q, None)"
    and pop_cons: "q_inv q \<Longrightarrow> q_list q = e # es \<Longrightarrow>
      \<exists>q'. q_pop q = (q', Some e) \<and> q_inv q' \<and> q_list q' = es"
begin

lemma defer_inv: "q_inv q \<Longrightarrow> q_inv (fst (q_defer q e))"
  using defer_full defer_room list_bound by (metis fst_conv le_neq_implies_less)

lemma process_inv: "q_inv q \<Longrightarrow> q_inv (fst (q_process q e))"
  using process_full process_room list_bound by (metis fst_conv le_neq_implies_less)

lemma pop_inv: "q_inv q \<Longrightarrow> q_inv (fst (q_pop q))"
  using pop_empty pop_cons by (cases "q_list q") (metis fst_conv)+

lemma defer_list:
  "q_inv q \<Longrightarrow> length (q_list q) < q_cap \<Longrightarrow> q_list (fst (q_defer q e)) = q_list q @ [e]"
  using defer_room by (metis fst_conv)

lemma process_list:
  "q_inv q \<Longrightarrow> length (q_list q) < q_cap \<Longrightarrow> q_list (fst (q_process q e)) = e # q_list q"
  using process_room by (metis fst_conv)

lemma defer_list_cases:
  "q_inv q \<Longrightarrow> q_list (fst (q_defer q e)) = q_list q \<or> q_list (fst (q_defer q e)) = q_list q @ [e]"
  using defer_full defer_list list_bound by (metis fst_conv le_neq_implies_less)

lemma process_list_cases:
  "q_inv q \<Longrightarrow> q_list (fst (q_process q e)) = q_list q \<or> q_list (fst (q_process q e)) = e # q_list q"
  using process_full process_list list_bound by (metis fst_conv le_neq_implies_less)

lemma pop_None_iff: "q_inv q \<Longrightarrow> snd (q_pop q) = None \<longleftrightarrow> q_list q = []"
  using pop_empty pop_cons by (cases "q_list q") (metis option.distinct(1) snd_conv)+

lemma defer_ok_iff: "q_inv q \<Longrightarrow> is_ok (snd (q_defer q e)) \<longleftrightarrow> length (q_list q) < q_cap"
  using defer_full defer_room list_bound
  by (metis is_ok_simps le_neq_implies_less nless_le snd_conv)

lemma process_ok_iff: "q_inv q \<Longrightarrow> is_ok (snd (q_process q e)) \<longleftrightarrow> length (q_list q) < q_cap"
  using process_full process_room list_bound
  by (metis is_ok_simps le_neq_implies_less nless_le snd_conv)

lemma process_then_pop:
  assumes "q_inv q" "length (q_list q) < q_cap"
  shows "snd (q_pop (fst (q_process q e))) = Some e"
  using process_room [OF assms] pop_cons by (metis fst_conv snd_conv)

end

text \<open>Every \<open>EventQueue<E, N>\<close> implements the interface with capacity \<open>N\<close>.\<close>

definition EventQueue_ok :: "usize \<Rightarrow> 'e event_queue \<Rightarrow> bool" where
  "EventQueue_ok n q \<longleftrightarrow> EventQueue_inv q \<and> cells q = unat n"

interpretation evq: bounded_queue "EventQueue_new n" EventQueue_defer EventQueue_process
    EventQueue_pop "EventQueue_ok n" EventQueue_contents "unat n"
  for n :: usize
proof unfold_locales
  fix q :: "'a event_queue" and e :: 'a and es
  show "EventQueue_ok n (EventQueue_new n)"
    by (simp add: EventQueue_ok_def EventQueue_new_inv EventQueue_new_cells)
  show "EventQueue_contents (EventQueue_new n) = []"
    by (rule EventQueue_new_contents)
  assume q: "EventQueue_ok n q"
  then have inv: "EventQueue_inv q" and c: "cells q = unat n"
    by (simp_all add: EventQueue_ok_def)
  show "length (EventQueue_contents q) \<le> unat n"
    using EventQueue_invD(2) [OF inv] c by simp
  show "EventQueue_contents q = [] \<Longrightarrow> EventQueue_pop q = (q, None)"
    by (rule EventQueue_pop_empty)
  show "length (EventQueue_contents q) = unat n \<Longrightarrow> EventQueue_defer q e = (q, Err QueueFull)"
    using EventQueue_defer_full(1) [OF inv] c by simp
  show "length (EventQueue_contents q) = unat n \<Longrightarrow> EventQueue_process q e = (q, Err QueueFull)"
    using EventQueue_defer_full(2) [OF inv] c by simp
  show "length (EventQueue_contents q) < unat n \<Longrightarrow> \<exists>q'. EventQueue_defer q e = (q', Ok ()) \<and>
      EventQueue_ok n q' \<and> EventQueue_contents q' = EventQueue_contents q @ [e]"
    using EventQueue_defer_correct [OF inv _ refl, of e] c
    by (metis EventQueue_ok_def length_contents prod.collapse)
  show "length (EventQueue_contents q) < unat n \<Longrightarrow> \<exists>q'. EventQueue_process q e = (q', Ok ()) \<and>
      EventQueue_ok n q' \<and> EventQueue_contents q' = e # EventQueue_contents q"
    using EventQueue_process_correct [OF inv _ refl, of e] c
    by (metis EventQueue_ok_def length_contents prod.collapse)
  show "EventQueue_contents q = e # es \<Longrightarrow> \<exists>q'. EventQueue_pop q = (q', Some e) \<and>
      EventQueue_ok n q' \<and> EventQueue_contents q' = es"
    using EventQueue_pop_correct [OF inv _ refl, of e es] c
    by (metis EventQueue_ok_def prod.collapse)
qed

section \<open>Whole runs of a queue\<close>

text \<open>
  An arbitrary client: a sequence of \<open>defer\<close>, \<open>process\<close> and \<open>pop\<close> calls, and what each
  call returns. The reference is a list with a capacity.
\<close>

datatype 'e queue_op = OpDefer 'e | OpProcess 'e | OpPop

datatype 'e queue_reply = Pushed "(queue_full, unit) rust_result" | Popped "'e option"

fun queue_step :: "'e event_queue \<Rightarrow> 'e queue_op \<Rightarrow> 'e event_queue \<times> 'e queue_reply" where
  "queue_step q (OpDefer e) = (case EventQueue_defer q e of (q', r) \<Rightarrow> (q', Pushed r))"
| "queue_step q (OpProcess e) = (case EventQueue_process q e of (q', r) \<Rightarrow> (q', Pushed r))"
| "queue_step q OpPop = (case EventQueue_pop q of (q', r) \<Rightarrow> (q', Popped r))"

fun queue_run :: "'e event_queue \<Rightarrow> 'e queue_op list \<Rightarrow> 'e queue_reply list" where
  "queue_run q [] = []"
| "queue_run q (x # xs) = (case queue_step q x of (q', r) \<Rightarrow> r # queue_run q' xs)"

fun deque_step :: "nat \<Rightarrow> 'e list \<Rightarrow> 'e queue_op \<Rightarrow> 'e list \<times> 'e queue_reply" where
  "deque_step n es (OpDefer e) =
     (if length es < n then (es @ [e], Pushed (Ok ())) else (es, Pushed (Err QueueFull)))"
| "deque_step n es (OpProcess e) =
     (if length es < n then (e # es, Pushed (Ok ())) else (es, Pushed (Err QueueFull)))"
| "deque_step n [] OpPop = ([], Popped None)"
| "deque_step n (e # es) OpPop = (es, Popped (Some e))"

fun deque_run :: "nat \<Rightarrow> 'e list \<Rightarrow> 'e queue_op list \<Rightarrow> 'e queue_reply list" where
  "deque_run n es [] = []"
| "deque_run n es (x # xs) = (case deque_step n es x of (es', r) \<Rightarrow> r # deque_run n es' xs)"

lemma queue_step_simulates:
  assumes "EventQueue_ok n q"
  shows "EventQueue_ok n (fst (queue_step q x)) \<and>
    EventQueue_contents (fst (queue_step q x)) = fst (deque_step (unat n) (EventQueue_contents q) x) \<and>
    snd (queue_step q x) = snd (deque_step (unat n) (EventQueue_contents q) x)"
proof (cases x)
  case (OpDefer e)
  then show ?thesis
    using assms evq.defer_full [OF assms, of e] evq.defer_room [OF assms, of e] evq.list_bound [OF assms]
    by (cases "length (EventQueue_contents q) < unat n") auto
next
  case (OpProcess e)
  then show ?thesis
    using assms evq.process_full [OF assms, of e] evq.process_room [OF assms, of e] evq.list_bound [OF assms]
    by (cases "length (EventQueue_contents q) < unat n") auto
next
  case OpPop
  then show ?thesis
    using assms evq.pop_empty [OF assms] evq.pop_cons [OF assms]
    by (cases "EventQueue_contents q") fastforce+
qed

lemma queue_run_simulates:
  "EventQueue_ok n q \<Longrightarrow> queue_run q xs = deque_run (unat n) (EventQueue_contents q) xs"
proof (induction xs arbitrary: q)
  case (Cons x xs)
  then show ?case
    using queue_step_simulates [OF Cons.prems, of x] by (auto split: prod.splits)
qed simp

text \<open>
  C8. For every capacity and every sequence of \<open>defer\<close>, \<open>process\<close> and \<open>pop\<close> calls, a fresh
  \<open>EventQueue<E, N>\<close> answers exactly as a list of at most \<open>N\<close> events does: \<open>defer\<close> appends,
  \<open>process\<close> puts its event in front of everything deferred, \<open>pop\<close> takes the first, and a full
  queue refuses both insertions and keeps its events.
\<close>

theorem EventQueue_refines_deque:
  "queue_run (EventQueue_new n) xs = deque_run (unat n) [] xs"
  using queue_run_simulates [OF evq.new_inv, of n xs] by (simp add: evq.new_list)

text \<open>
  C9. The write position is computed without overflow: whenever head and length are below \<open>N\<close>,
  even with all three near \<open>usize::MAX\<close>, the index is \<open>(head + len) mod N\<close> of unbounded numbers.
\<close>

theorem tail_index_no_overflow:
  assumes "unat (head q) < unat n" "unat (queue_len q) < unat n"
  shows "unat (tail_index n q) = (unat (head q) + unat (queue_len q)) mod unat n"
  by (rule tail_index_wraps [OF assms])

theorem tail_index_no_overflow_witness:
  "unat (tail_index 18446744073709551615
      \<lparr>events = [] :: nat option list, head = 18446744073709551613, queue_len = 5\<rparr>) = 3"
  using tail_index_no_overflow [of "\<lparr>events = [] :: nat option list,
      head = 18446744073709551613, queue_len = 5\<rparr>" 18446744073709551615]
  by simp

text \<open>
  \<open>clear\<close> terminates on every queue and, from a well-formed one, leaves an empty
  well-formed queue of the same capacity.
\<close>

theorem EventQueue_clear_empties:
  assumes "EventQueue_ok n q"
  shows "EventQueue_ok n (EventQueue_clear q) \<and> EventQueue_contents (EventQueue_clear q) = []"
  using assms EventQueue_clear_contents [of q] by (simp add: EventQueue_ok_def)

theorem EventQueue_clear_empties_witness:
  "EventQueue_contents (EventQueue_clear (fst (EventQueue_process (EventQueue_new 2) (7 :: nat)))) = []"
proof -
  have "EventQueue_ok 2 (fst (EventQueue_process (EventQueue_new 2) (7 :: nat)))"
    by (intro evq.process_inv evq.new_inv)
  then show ?thesis using EventQueue_clear_empties by blast
qed

end
