(* ===== verification/Event_Queues.thy ===== *)
theory Event_Queues
  imports Event_Queue "HOL-Library.Multiset"
begin

text \<open>
  \<open>EventQueues\<close> of src/src/utility.rs: a deferred and a processed queue, and the dispatch of one
  external event with the queue work it triggers. The dispatch callback is the user's: a function
  of the machine, the queues and the event that returns both, changed as it likes, with its
  status. The drain loop stops only when the processed queue is empty, so it is a
  \<open>partial_function\<close>: \<open>None\<close> is a call that never returns.
\<close>

section \<open>Statuses, summaries and the pair of queues\<close>

record dispatch_status =
  handled :: bool
  transitioned :: bool

record dispatch_summary =
  n_dispatched :: usize
  n_handled :: usize
  n_transitioned :: usize

definition DispatchSummary_default :: dispatch_summary where
  "DispatchSummary_default = \<lparr>n_dispatched = 0, n_handled = 0, n_transitioned = 0\<rparr>"

definition DispatchSummary_record :: "dispatch_summary \<Rightarrow> dispatch_status \<Rightarrow> dispatch_summary" where
  "DispatchSummary_record s st =
     \<lparr>n_dispatched = saturating_add (n_dispatched s) 1,
      n_handled = saturating_add (n_handled s) (usize_of_bool (handled st)),
      n_transitioned = saturating_add (n_transitioned s) (usize_of_bool (transitioned st))\<rparr>"

record 'e event_queues =
  deferred :: "'e event_queue"
  processed :: "'e event_queue"

definition EventQueues_new :: "usize \<Rightarrow> usize \<Rightarrow> 'e event_queues" where
  "EventQueues_new d p = \<lparr>deferred = EventQueue_new d, processed = EventQueue_new p\<rparr>"

definition EventQueues_defer ::
  "'e event_queues \<Rightarrow> 'e \<Rightarrow> 'e event_queues \<times> (queue_full, unit) rust_result" where
  "EventQueues_defer qs e = (case EventQueue_defer (deferred qs) e of (q, r) \<Rightarrow> (qs\<lparr>deferred := q\<rparr>, r))"

definition EventQueues_process ::
  "'e event_queues \<Rightarrow> 'e \<Rightarrow> 'e event_queues \<times> (queue_full, unit) rust_result" where
  "EventQueues_process qs e = (case EventQueue_process (processed qs) e of (q, r) \<Rightarrow> (qs\<lparr>processed := q\<rparr>, r))"

definition EventQueues_deferred_len :: "'e event_queues \<Rightarrow> usize" where
  "EventQueues_deferred_len qs = EventQueue_len (deferred qs)"

definition EventQueues_processed_len :: "'e event_queues \<Rightarrow> usize" where
  "EventQueues_processed_len qs = EventQueue_len (processed qs)"

section \<open>Dispatch\<close>

type_synonym ('m, 'e) dispatcher =
  "'m \<Rightarrow> 'e event_queues \<Rightarrow> 'e \<Rightarrow> 'm \<times> 'e event_queues \<times> dispatch_status"

partial_function (option) drain_processed ::
  "('m, 'e) dispatcher \<Rightarrow> 'm \<Rightarrow> 'e event_queues \<Rightarrow> dispatch_summary
    \<Rightarrow> ('m \<times> 'e event_queues \<times> dispatch_summary) option" where
  "drain_processed f m qs s =
     (case EventQueue_pop (processed qs) of
        (p, None) \<Rightarrow> Some (m, qs\<lparr>processed := p\<rparr>, s)
      | (p, Some e) \<Rightarrow>
          (case f m (qs\<lparr>processed := p\<rparr>) e of
             (m', qs', st) \<Rightarrow> drain_processed f m' qs' (DispatchSummary_record s st)))"

fun retry_deferred ::
  "('m, 'e) dispatcher \<Rightarrow> nat \<Rightarrow> 'm \<Rightarrow> 'e event_queues \<Rightarrow> dispatch_summary
    \<Rightarrow> ('m \<times> 'e event_queues \<times> dispatch_summary) option" where
  "retry_deferred f 0 m qs s = Some (m, qs, s)"
| "retry_deferred f (Suc n) m qs s =
     (case EventQueue_pop (deferred qs) of
        (d, None) \<Rightarrow> retry_deferred f n m (qs\<lparr>deferred := d\<rparr>) s
      | (d, Some e) \<Rightarrow>
          (case f m (qs\<lparr>deferred := d\<rparr>) e of
             (m', qs', st) \<Rightarrow>
               (case drain_processed f m' qs' (DispatchSummary_record s st) of
                  None \<Rightarrow> None
                | Some (m'', qs'', s'') \<Rightarrow> retry_deferred f n m'' qs'' s'')))"

definition EventQueues_dispatch ::
  "('m, 'e) dispatcher \<Rightarrow> 'm \<Rightarrow> 'e event_queues \<Rightarrow> 'e
    \<Rightarrow> ('m \<times> 'e event_queues \<times> dispatch_summary) option" where
  "EventQueues_dispatch f m qs e =
     (case f m qs e of (m1, qs1, st) \<Rightarrow>
        (case drain_processed f m1 qs1 (DispatchSummary_record DispatchSummary_default st) of
           None \<Rightarrow> None
         | Some (m2, qs2, s2) \<Rightarrow>
             (if 0 < n_transitioned s2
              then retry_deferred f (unat (EventQueue_len (deferred qs2))) m2 qs2 s2
              else Some (m2, qs2, s2))))"

section \<open>Well-formed queues stay well formed\<close>

definition queues_ok :: "usize \<Rightarrow> usize \<Rightarrow> 'e event_queues \<Rightarrow> bool" where
  "queues_ok d p qs \<longleftrightarrow> EventQueue_ok d (deferred qs) \<and> EventQueue_ok p (processed qs)"

lemma queues_ok_new: "queues_ok d p (EventQueues_new d p)"
  by (simp add: queues_ok_def EventQueues_new_def evq.new_inv)

lemma queues_ok_defer: "queues_ok d p qs \<Longrightarrow> queues_ok d p (fst (EventQueues_defer qs e))"
  using evq.defer_inv [of d "deferred qs" e]
  by (cases "EventQueue_defer (deferred qs) e") (simp add: queues_ok_def EventQueues_defer_def)

lemma queues_ok_process: "queues_ok d p qs \<Longrightarrow> queues_ok d p (fst (EventQueues_process qs e))"
  using evq.process_inv [of p "processed qs" e]
  by (cases "EventQueue_process (processed qs) e") (simp add: queues_ok_def EventQueues_process_def)

section \<open>The drain loop\<close>

lemma drain_processed_empty:
  assumes "EventQueue_contents (processed qs) = []"
  shows "drain_processed f m qs s = Some (m, qs, s)"
  using EventQueue_pop_empty [OF assms] by (subst drain_processed.simps) simp

lemma drain_processed_cons:
  assumes "queues_ok d p qs" "EventQueue_contents (processed qs) = e # es"
  obtains q where "EventQueue_ok p q" "EventQueue_contents q = es"
    "drain_processed f m qs s = (case f m (qs\<lparr>processed := q\<rparr>) e of
       (m', qs', st) \<Rightarrow> drain_processed f m' qs' (DispatchSummary_record s st))"
proof -
  obtain q where "EventQueue_pop (processed qs) = (q, Some e)" "EventQueue_ok p q"
      "EventQueue_contents q = es"
    using evq.pop_cons [OF _ assms(2), of p] assms(1) by (auto simp: queues_ok_def)
  then show thesis by (intro that [of q]) (simp_all add: drain_processed.simps [of f m qs s])
qed

text \<open>
  A dispatcher respects a rank when the events it adds to the processed queue rank below the
  event it handles; the queue then shrinks in the multiset order of ranks at each iteration.
\<close>

definition rank_decreasing :: "usize \<Rightarrow> usize \<Rightarrow> ('e \<Rightarrow> nat) \<Rightarrow> ('m, 'e) dispatcher \<Rightarrow> bool" where
  "rank_decreasing d p rank f \<longleftrightarrow>
     (\<forall>m qs e m' qs' st. queues_ok d p qs \<longrightarrow> f m qs e = (m', qs', st) \<longrightarrow>
        queues_ok d p qs' \<and>
        (\<exists>added. mset (EventQueue_contents (processed qs')) =
                   mset (EventQueue_contents (processed qs)) + added \<and>
                 (\<forall>x \<in># added. rank x < rank e)))"

lemma drain_processed_terminates:
  assumes f: "rank_decreasing d p rank f" and ok: "queues_ok d p qs"
  shows "\<exists>m' qs' s'. drain_processed f m qs s = Some (m', qs', s') \<and> queues_ok d p qs' \<and>
    EventQueue_contents (processed qs') = []"
  using ok
proof (induction "image_mset rank (mset (EventQueue_contents (processed qs)))"
    arbitrary: m qs s rule: wf_induct_rule [OF wf_mult [OF wf_less_than]])
  case (1 qs)
  show ?case
  proof (cases "EventQueue_contents (processed qs)")
    case Nil
    with "1.prems" show ?thesis by (simp add: drain_processed_empty)
  next
    case (Cons e es)
    obtain q where q: "EventQueue_ok p q" "EventQueue_contents q = es"
      and step: "drain_processed f m qs s = (case f m (qs\<lparr>processed := q\<rparr>) e of
         (m', qs', st) \<Rightarrow> drain_processed f m' qs' (DispatchSummary_record s st))"
      by (rule drain_processed_cons [OF "1.prems" Cons])
    obtain m' qs' st where run: "f m (qs\<lparr>processed := q\<rparr>) e = (m', qs', st)"
      by (metis prod_cases3)
    have "queues_ok d p (qs\<lparr>processed := q\<rparr>)"
      using "1.prems" q(1) by (simp add: queues_ok_def)
    then obtain added where ok': "queues_ok d p qs'"
      and added: "mset (EventQueue_contents (processed qs')) = mset es + added"
        "\<forall>x \<in># added. rank x < rank e"
      using f run q(2) unfolding rank_decreasing_def by fastforce
    have "(image_mset rank (mset es) + image_mset rank added,
        image_mset rank (mset es) + {#rank e#}) \<in> mult less_than"
      by (rule one_step_implies_mult) (use added(2) in auto)
    then show ?thesis
      using "1.hyps" [OF _ ok'] step run added(1) Cons by simp
  qed
qed

lemma retry_deferred_terminates:
  assumes f: "rank_decreasing d p rank f" and ok: "queues_ok d p qs"
  shows "\<exists>m' qs' s'. retry_deferred f n m qs s = Some (m', qs', s') \<and> queues_ok d p qs'"
  using ok
proof (induction n arbitrary: m qs s)
  case (Suc n)
  obtain q x where pop: "EventQueue_pop (deferred qs) = (q, x)" by force
  have q: "queues_ok d p (qs\<lparr>deferred := q\<rparr>)"
    using Suc.prems evq.pop_inv [of d "deferred qs"] pop by (simp add: queues_ok_def)
  show ?case
  proof (cases x)
    case None
    with pop Suc.IH [OF q] show ?thesis by simp
  next
    case (Some e)
    obtain m1 qs1 st where run: "f m (qs\<lparr>deferred := q\<rparr>) e = (m1, qs1, st)"
      by (metis prod_cases3)
    with f q have "queues_ok d p qs1" unfolding rank_decreasing_def by blast
    from drain_processed_terminates [OF f this, of m1 "DispatchSummary_record s st"] Suc.IH
    show ?thesis using pop Some run by fastforce
  qed
qed simp

lemma EventQueues_dispatch_returns:
  assumes f: "rank_decreasing d p rank f" and ok: "queues_ok d p qs"
  shows "\<exists>m' qs' s'. EventQueues_dispatch f m qs e = Some (m', qs', s') \<and> queues_ok d p qs'"
proof -
  obtain m1 qs1 st where run: "f m qs e = (m1, qs1, st)" by (metis prod_cases3)
  with f ok have "queues_ok d p qs1" unfolding rank_decreasing_def by blast
  from drain_processed_terminates [OF f this]
  obtain m2 qs2 s2 where drain: "drain_processed f m1 qs1
      (DispatchSummary_record DispatchSummary_default st) = Some (m2, qs2, s2)"
    and ok2: "queues_ok d p qs2" by blast
  show ?thesis
    using retry_deferred_terminates [OF f ok2] ok2 run drain
    by (auto simp: EventQueues_dispatch_def)
qed

text \<open>
  C10. A dispatch returns whenever the callback only requests events of smaller rank than the one
  it handles, whatever it defers: the drain loops empty the processed queue, the retry loop is
  bounded by the number of events deferred when it starts, and both queues stay well formed.
\<close>

theorem EventQueues_dispatch_terminates:
  assumes f: "rank_decreasing d p rank f" and ok: "queues_ok d p qs"
  shows "\<exists>m' qs' s'. EventQueues_dispatch f m qs e = Some (m', qs', s') \<and> queues_ok d p qs'"
  by (rule EventQueues_dispatch_returns [OF f ok])

section \<open>What is retried, and in which order\<close>

text \<open>A dispatcher instrumented with the sequence of events it was offered.\<close>

definition logging :: "('m, 'e) dispatcher \<Rightarrow> ('m \<times> 'e list, 'e) dispatcher" where
  "logging f ml qs e = (case f (fst ml) qs e of (m', qs', st) \<Rightarrow> ((m', snd ml @ [e]), qs', st))"

text \<open>A dispatcher whose only queue operation is to defer.\<close>

definition only_defers :: "usize \<Rightarrow> usize \<Rightarrow> ('m, 'e) dispatcher \<Rightarrow> bool" where
  "only_defers d p f \<longleftrightarrow>
     (\<forall>m qs e m' qs' st. queues_ok d p qs \<longrightarrow> f m qs e = (m', qs', st) \<longrightarrow>
        queues_ok d p qs' \<and>
        EventQueue_contents (processed qs') = EventQueue_contents (processed qs) \<and>
        (\<exists>ys. EventQueue_contents (deferred qs') = EventQueue_contents (deferred qs) @ ys))"

lemma only_defersD:
  assumes "only_defers d p f" "queues_ok d p qs" "f m qs e = (m', qs', st)"
  obtains ys where "queues_ok d p qs'"
    "EventQueue_contents (processed qs') = EventQueue_contents (processed qs)"
    "EventQueue_contents (deferred qs') = EventQueue_contents (deferred qs) @ ys"
  using assms unfolding only_defers_def by blast

lemma retry_deferred_logged:
  assumes f: "only_defers d p f"
    and "queues_ok d p qs" "EventQueue_contents (processed qs) = []"
    and "n \<le> length (EventQueue_contents (deferred qs))"
  shows "\<exists>m' qs' s'. retry_deferred (logging f) n (m, log) qs s =
    Some ((m', log @ take n (EventQueue_contents (deferred qs))), qs', s')"
  using assms(2-)
proof (induction n arbitrary: m log qs s)
  case (Suc n)
  then obtain x xs where c: "EventQueue_contents (deferred qs) = x # xs"
    by (cases "EventQueue_contents (deferred qs)") auto
  then obtain q where pop: "EventQueue_pop (deferred qs) = (q, Some x)"
    and q: "EventQueue_ok d q" "EventQueue_contents q = xs"
    using evq.pop_cons [of d "deferred qs" x xs] Suc.prems(1) by (auto simp: queues_ok_def)
  let ?qs = "qs\<lparr>deferred := q\<rparr>"
  have ok: "queues_ok d p ?qs" using q Suc.prems(1) by (simp add: queues_ok_def)
  obtain m1 qs1 st where run: "f m ?qs x = (m1, qs1, st)" by (metis prod_cases3)
  then obtain ys where qs1: "queues_ok d p qs1" "EventQueue_contents (processed qs1) = []"
      "EventQueue_contents (deferred qs1) = xs @ ys"
    using only_defersD [OF f ok run] Suc.prems(2) q(2) by auto
  have n: "n \<le> length (EventQueue_contents (deferred qs1))"
    using Suc.prems(3) c qs1(3) by (simp del: length_contents)
  show ?case
    using Suc.IH [OF qs1(1,2) n, of m1 "log @ [x]" "DispatchSummary_record s st"]
      Suc.prems(3) c qs1(3)
    by (simp add: pop run logging_def drain_processed_empty [OF qs1(2)] del: length_contents)
qed simp

text \<open>
  C11. With a callback that only defers, a dispatch offers the external event first and then, if
  it changed state, each event deferred at that moment exactly once, in the order they were
  deferred; events deferred again meanwhile are not retried by the same dispatch, and without a
  state change nothing is retried.
\<close>

theorem EventQueues_dispatch_retries_once:
  assumes f: "only_defers d p f" and ok: "queues_ok d p qs"
    and idle: "EventQueue_contents (processed qs) = []"
    and run: "f m qs e = (m1, qs1, st)"
  shows "\<exists>m' qs' s'. EventQueues_dispatch (logging f) (m, []) qs e =
    Some ((m', e # (if transitioned st then EventQueue_contents (deferred qs1) else [])), qs', s')"
proof -
  obtain ys where qs1: "queues_ok d p qs1" "EventQueue_contents (processed qs1) = []"
    using only_defersD [OF f ok run] idle by metis
  have t: "0 < n_transitioned (DispatchSummary_record DispatchSummary_default st) \<longleftrightarrow> transitioned st"
    by (simp add: DispatchSummary_record_def DispatchSummary_default_def word_less_nat_alt
        unat_saturating_add)
  show ?thesis
    using retry_deferred_logged [OF f qs1, of "unat (queue_len (deferred qs1))" m1 "[e]"] t
    by (simp add: EventQueues_dispatch_def logging_def run drain_processed_empty [OF qs1(2)]
        EventQueue_len_def)
qed

section \<open>The counters\<close>

definition summary_ok :: "dispatch_summary \<Rightarrow> bool" where
  "summary_ok s \<longleftrightarrow> n_handled s \<le> n_dispatched s \<and> n_transitioned s \<le> n_dispatched s"

lemma record_summary_ok: "summary_ok s \<Longrightarrow> summary_ok (DispatchSummary_record s st)"
  by (auto simp: summary_ok_def DispatchSummary_record_def word_le_nat_alt unat_saturating_add)

lemma drain_processed_summary_ok:
  assumes "drain_processed f m qs s = Some r"
  shows "summary_ok s \<longrightarrow> summary_ok (snd (snd r))"
proof (rule drain_processed.raw_induct [where P = "\<lambda>f m qs s r. summary_ok s \<longrightarrow> summary_ok (snd (snd r))",
      OF _ assms])
  fix rec :: "('a, 'b) dispatcher \<Rightarrow> 'a \<Rightarrow> 'b event_queues \<Rightarrow> dispatch_summary
      \<Rightarrow> ('a \<times> 'b event_queues \<times> dispatch_summary) option"
    and f :: "('a, 'b) dispatcher" and m :: 'a and qs :: "'b event_queues" and s r
  assume IH: "\<And>f m qs s r. rec f m qs s = Some r \<Longrightarrow> summary_ok s \<longrightarrow> summary_ok (snd (snd r))"
    and eq: "(case EventQueue_pop (processed qs) of (p, None) \<Rightarrow> Some (m, qs\<lparr>processed := p\<rparr>, s)
       | (p, Some e) \<Rightarrow> (case f m (qs\<lparr>processed := p\<rparr>) e of
           (m', qs', st) \<Rightarrow> rec f m' qs' (DispatchSummary_record s st))) = Some r"
  obtain p x where pop: "EventQueue_pop (processed qs) = (p, x)" by force
  show "summary_ok s \<longrightarrow> summary_ok (snd (snd r))"
  proof (cases x)
    case None
    with eq pop show ?thesis by auto
  next
    case (Some e)
    obtain m' qs' st where "f m (qs\<lparr>processed := p\<rparr>) e = (m', qs', st)"
      by (metis prod_cases3)
    with eq pop Some have "rec f m' qs' (DispatchSummary_record s st) = Some r" by simp
    from IH [OF this] show ?thesis by (blast intro: record_summary_ok)
  qed
qed

lemma retry_deferred_summary_ok:
  "retry_deferred f n m qs s = Some (m', qs', s') \<Longrightarrow> summary_ok s \<Longrightarrow> summary_ok s'"
proof (induction f n m qs s rule: retry_deferred.induct)
  case (2 f n m qs s)
  then show ?case
    by (auto split: prod.splits option.splits
        dest!: drain_processed_summary_ok intro: record_summary_ok)
qed simp

text \<open>
  In the summary of any dispatch that returns, whatever the callback does, the counts of
  handled events and of transitions never exceed the count of events offered to the machine,
  also where the counters saturate.
\<close>

theorem EventQueues_dispatch_counts:
  assumes "EventQueues_dispatch f m qs e = Some (m', qs', s)"
  shows "n_handled s \<le> n_dispatched s \<and> n_transitioned s \<le> n_dispatched s"
proof -
  have "summary_ok DispatchSummary_default"
    by (simp add: summary_ok_def DispatchSummary_default_def)
  with assms have "summary_ok s"
    by (auto simp: EventQueues_dispatch_def split: prod.splits option.splits if_splits
        dest!: drain_processed_summary_ok retry_deferred_summary_ok intro: record_summary_ok)
  then show ?thesis by (simp add: summary_ok_def)
qed

section \<open>Concrete dispatchers for the witnesses\<close>

definition countdown :: "(unit, nat) dispatcher" where
  "countdown m qs e =
     (m, if 0 < e then fst (EventQueues_process qs (e - 1)) else qs,
      \<lparr>handled = True, transitioned = True\<rparr>)"

definition defer_nonzero :: "(unit, nat) dispatcher" where
  "defer_nonzero m qs e =
     (m, if 0 < e then fst (EventQueues_defer qs e) else qs,
      \<lparr>handled = True, transitioned = (e = 0)\<rparr>)"

lemma EventQueues_process_fields:
  "deferred (fst (EventQueues_process qs e)) = deferred qs"
  "processed (fst (EventQueues_process qs e)) = fst (EventQueue_process (processed qs) e)"
  by (simp_all add: EventQueues_process_def split_beta)

lemma EventQueues_defer_fields:
  "deferred (fst (EventQueues_defer qs e)) = fst (EventQueue_defer (deferred qs) e)"
  "processed (fst (EventQueues_defer qs e)) = processed qs"
  by (simp_all add: EventQueues_defer_def split_beta)

lemma countdown_rank: "rank_decreasing d p id countdown"
  unfolding rank_decreasing_def
proof (intro allI impI)
  fix m qs e m' qs' st
  assume ok: "queues_ok d p qs" and run: "countdown m qs e = (m', qs', st)"
  show "queues_ok d p qs' \<and> (\<exists>added. mset (EventQueue_contents (processed qs')) =
      mset (EventQueue_contents (processed qs)) + added \<and> (\<forall>x \<in># added. id x < id e))"
  proof (cases "0 < e")
    case True
    with run have qs': "qs' = fst (EventQueues_process qs (e - 1))" by (simp add: countdown_def)
    have "EventQueue_ok p (processed qs)" using ok by (simp add: queues_ok_def)
    from evq.process_list_cases [OF this, of "e - 1"] show ?thesis
    proof
      assume "EventQueue_contents (fst (EventQueue_process (processed qs) (e - 1))) =
        EventQueue_contents (processed qs)"
      then show ?thesis
        using qs' queues_ok_process [OF ok] by (auto simp: EventQueues_process_fields)
    next
      assume "EventQueue_contents (fst (EventQueue_process (processed qs) (e - 1))) =
        (e - 1) # EventQueue_contents (processed qs)"
      then show ?thesis
        using qs' queues_ok_process [OF ok] True
        by (auto simp: EventQueues_process_fields intro!: exI [of _ "{#e - 1#}"])
    qed
  qed (use ok run in \<open>auto simp: countdown_def\<close>)
qed

lemma defer_nonzero_only_defers: "only_defers d p defer_nonzero"
  unfolding only_defers_def
proof (intro allI impI)
  fix m qs e m' qs' st
  assume ok: "queues_ok d p qs" and run: "defer_nonzero m qs e = (m', qs', st)"
  show "queues_ok d p qs' \<and> EventQueue_contents (processed qs') = EventQueue_contents (processed qs) \<and>
      (\<exists>ys. EventQueue_contents (deferred qs') = EventQueue_contents (deferred qs) @ ys)"
  proof (cases "0 < e")
    case True
    with run have qs': "qs' = fst (EventQueues_defer qs e)" by (simp add: defer_nonzero_def)
    have "EventQueue_ok d (deferred qs)" using ok by (simp add: queues_ok_def)
    from evq.defer_list_cases [OF this, of e] show ?thesis
      using qs' queues_ok_defer [OF ok] by (auto simp: EventQueues_defer_fields)
  qed (use ok run in \<open>auto simp: defer_nonzero_def\<close>)
qed

theorem EventQueues_dispatch_terminates_witness:
  "\<exists>m' qs' s'. EventQueues_dispatch countdown () (EventQueues_new 2 2) 3 = Some (m', qs', s') \<and>
    queues_ok 2 2 qs'"
  by (rule EventQueues_dispatch_terminates [OF countdown_rank queues_ok_new])

theorem EventQueues_dispatch_retries_once_witness:
  "\<exists>m' qs' s'. EventQueues_dispatch (logging defer_nonzero) ((), [])
      (fst (EventQueues_defer (fst (EventQueues_defer (EventQueues_new 3 2) 5)) 4)) 0 =
    Some ((m', [0, 5, 4]), qs', s')"
proof -
  let ?qa = "EventQueues_new 3 2 :: nat event_queues"
  let ?qb = "fst (EventQueues_defer ?qa 5)"
  let ?qc = "fst (EventQueues_defer ?qb 4)"
  have ok0: "queues_ok 3 2 ?qa" and ok1: "queues_ok 3 2 ?qb" and ok: "queues_ok 3 2 ?qc"
    by (intro queues_ok_defer queues_ok_new)+
  have "EventQueue_contents (deferred ?qa) = []" "EventQueue_contents (processed ?qa) = []"
    by (simp_all add: EventQueues_new_def EventQueue_new_contents)
  moreover from this have "EventQueue_contents (deferred ?qb) = [5]"
    using ok0 evq.defer_list [of 3 "deferred ?qa" 5]
    by (simp add: queues_ok_def EventQueues_defer_fields del: length_contents)
  moreover from this have "EventQueue_contents (deferred ?qc) = [5, 4]"
    using ok1 evq.defer_list [of 3 "deferred ?qb" 4]
    by (simp add: queues_ok_def EventQueues_defer_fields(1) [of ?qb] del: length_contents)
  ultimately show ?thesis
    using EventQueues_dispatch_retries_once [OF defer_nonzero_only_defers ok, of "()" 0 "()" ?qc]
    by (simp add: defer_nonzero_def EventQueues_defer_fields(2))
qed

theorem EventQueues_dispatch_counts_witness:
  "\<exists>m' qs' s. EventQueues_dispatch countdown () (EventQueues_new 1 1) 0 = Some (m', qs', s) \<and>
    n_handled s \<le> n_dispatched s \<and> n_transitioned s \<le> n_dispatched s"
proof -
  obtain m' qs' s where "EventQueues_dispatch countdown () (EventQueues_new 1 1) 0 = Some (m', qs', s)"
    using EventQueues_dispatch_returns [OF countdown_rank queues_ok_new] by blast
  with EventQueues_dispatch_counts [OF this] show ?thesis by blast
qed

end
