(* ===== verification/Utilities.thy ===== *)
theory Utilities
  imports Event_Queue
begin

text \<open>
  The remaining runtime utilities of src/src/utility.rs: child-first routing in a two-level
  hierarchy, runtime dispatch tables, pools of machines and orthogonal regions. A mutable
  closure is a function that also takes and returns the state \<open>'w\<close> it captures; a slice that
  the code borrows mutably (\<open>AsMut<[M]>\<close>) is a list of machines.
\<close>

section \<open>Hierarchical\<close>

datatype hierarchical_dispatch = Child | ChildTerminated | Parent | Unhandled

record ('p, 'c) hierarchical =
  parent :: 'p
  child :: 'c
  child_active :: bool

definition Hierarchical_new :: "'p \<Rightarrow> 'c \<Rightarrow> ('p, 'c) hierarchical" where
  "Hierarchical_new p c = \<lparr>parent = p, child = c, child_active = False\<rparr>"

definition Hierarchical_new_active :: "'p \<Rightarrow> 'c \<Rightarrow> ('p, 'c) hierarchical" where
  "Hierarchical_new_active p c = \<lparr>parent = p, child = c, child_active = True\<rparr>"

definition activate_child :: "('p, 'c) hierarchical \<Rightarrow> ('p, 'c) hierarchical" where
  "activate_child h = h\<lparr>child_active := True\<rparr>"

definition deactivate_child :: "('p, 'c) hierarchical \<Rightarrow> ('p, 'c) hierarchical" where
  "deactivate_child h = h\<lparr>child_active := False\<rparr>"

definition reset_child :: "('p, 'c) hierarchical \<Rightarrow> 'c \<Rightarrow> ('p, 'c) hierarchical" where
  "reset_child h c = h\<lparr>child := c, child_active := True\<rparr>"

definition child_is_active :: "('p, 'c) hierarchical \<Rightarrow> bool" where
  "child_is_active h = child_active h"

text \<open>\<open>is_terminated\<close> is the child's \<open>Terminated\<close> implementation.\<close>

definition Hierarchical_process_event ::
  "('c \<Rightarrow> bool) \<Rightarrow> ('w \<Rightarrow> 'c \<Rightarrow> 'e \<Rightarrow> 'w \<times> 'c \<times> bool) \<Rightarrow> ('w \<Rightarrow> 'p \<Rightarrow> 'e \<Rightarrow> 'w \<times> 'p \<times> bool)
    \<Rightarrow> 'w \<Rightarrow> ('p, 'c) hierarchical \<Rightarrow> 'e \<Rightarrow> 'w \<times> ('p, 'c) hierarchical \<times> hierarchical_dispatch" where
  "Hierarchical_process_event is_terminated child_dispatch parent_dispatch w h e =
     (let (w1, h1, child_handled) =
        (if child_active h
         then (case child_dispatch w (child h) e of (w', c', b) \<Rightarrow> (w', h\<lparr>child := c'\<rparr>, b))
         else (w, h, False)) in
      if child_handled
      then (w1, h1, if is_terminated (child h1) then ChildTerminated else Child)
      else (case parent_dispatch w1 (parent h1) e of
              (w2, p', b) \<Rightarrow> (w2, h1\<lparr>parent := p'\<rparr>, if b then Parent else Unhandled)))"

definition Hierarchical_process_event_with_completion ::
  "('c \<Rightarrow> bool) \<Rightarrow> ('w \<Rightarrow> 'c \<Rightarrow> 'e \<Rightarrow> 'w \<times> 'c \<times> bool) \<Rightarrow> ('w \<Rightarrow> 'p \<Rightarrow> 'e \<Rightarrow> 'w \<times> 'p \<times> bool)
    \<Rightarrow> ('w \<Rightarrow> 'p \<Rightarrow> 'w \<times> 'p \<times> bool)
    \<Rightarrow> 'w \<Rightarrow> ('p, 'c) hierarchical \<Rightarrow> 'e \<Rightarrow> 'w \<times> ('p, 'c) hierarchical \<times> hierarchical_dispatch" where
  "Hierarchical_process_event_with_completion is_terminated child_dispatch parent_dispatch
       child_completion w h e =
     (let (w1, h1, child_handled) =
        (if child_active h
         then (case child_dispatch w (child h) e of (w', c', b) \<Rightarrow> (w', h\<lparr>child := c'\<rparr>, b))
         else (w, h, False)) in
      if child_handled
      then (if is_terminated (child h1)
            then (case child_completion w1 (parent h1) of
                    (w2, p', b) \<Rightarrow>
                      (let h2 = h1\<lparr>parent := p'\<rparr> in
                       if b then (w2, h2\<lparr>child_active := False\<rparr>, Parent)
                       else (w2, h2, ChildTerminated)))
            else (w1, h1, Child))
      else (case parent_dispatch w1 (parent h1) e of
              (w2, p', b) \<Rightarrow> (w2, h1\<lparr>parent := p'\<rparr>, if b then Parent else Unhandled)))"

section \<open>DispatchTable\<close>

record ('m, 'raw, 'r) dispatch_table =
  table_machine :: 'm
  first_id :: usize
  handlers :: "('m \<Rightarrow> 'raw \<Rightarrow> 'm \<times> 'r) list"

definition DispatchTable_dispatch ::
  "('m, 'raw, 'r) dispatch_table \<Rightarrow> 'raw \<Rightarrow> usize \<Rightarrow> ('m, 'raw, 'r) dispatch_table \<times> 'r option" where
  "DispatchTable_dispatch t raw i =
     (case checked_sub i (first_id t) of
        None \<Rightarrow> (t, None)
      | Some index \<Rightarrow>
          (case slice_get (handlers t) index of
             None \<Rightarrow> (t, None)
           | Some handler \<Rightarrow>
               (case handler (table_machine t) raw of
                  (m', r) \<Rightarrow> (t\<lparr>table_machine := m'\<rparr>, Some r))))"

section \<open>SmPool\<close>

record 'e indexed_event =
  index :: usize
  event :: 'e

definition with_id :: "usize \<Rightarrow> 'e \<Rightarrow> 'e indexed_event" where
  "with_id i e = \<lparr>index = i, event = e\<rparr>"

fun SmPool_reset_from :: "('w \<Rightarrow> nat \<Rightarrow> 'w \<times> 'm) \<Rightarrow> 'w \<Rightarrow> nat \<Rightarrow> 'm list \<Rightarrow> 'w \<times> 'm list" where
  "SmPool_reset_from init w i [] = (w, [])"
| "SmPool_reset_from init w i (_ # ms) =
     (case init w i of (w', m') \<Rightarrow>
        (case SmPool_reset_from init w' (Suc i) ms of (w'', ms') \<Rightarrow> (w'', m' # ms')))"

definition SmPool_reset :: "('w \<Rightarrow> nat \<Rightarrow> 'w \<times> 'm) \<Rightarrow> 'w \<Rightarrow> 'm list \<Rightarrow> 'w \<times> 'm list" where
  "SmPool_reset init w ms = SmPool_reset_from init w 0 ms"

definition SmPool_process_indexed ::
  "('m \<Rightarrow> 'e \<Rightarrow> 'm \<times> 'r) \<Rightarrow> 'm list \<Rightarrow> usize \<Rightarrow> 'e \<Rightarrow> 'm list \<times> 'r option" where
  "SmPool_process_indexed dispatch ms i e =
     (case slice_get ms i of
        None \<Rightarrow> (ms, None)
      | Some m \<Rightarrow> (case dispatch m e of (m', r) \<Rightarrow> (ms[unat i := m'], Some r)))"

fun SmPool_process_event_batch ::
  "('w \<Rightarrow> 'm \<Rightarrow> 'e \<Rightarrow> 'w \<times> 'm) \<Rightarrow> 'w \<Rightarrow> 'm list \<Rightarrow> usize \<Rightarrow> 'e indexed_event list
    \<Rightarrow> 'w \<times> 'm list \<times> usize" where
  "SmPool_process_event_batch dispatch w ms handled_count [] = (w, ms, handled_count)"
| "SmPool_process_event_batch dispatch w ms handled_count (x # xs) =
     (case slice_get ms (index x) of
        None \<Rightarrow> SmPool_process_event_batch dispatch w ms handled_count xs
      | Some m \<Rightarrow>
          (case dispatch w m (event x) of
             (w', m') \<Rightarrow> SmPool_process_event_batch dispatch w' (ms[unat (index x) := m'])
                           (saturating_add handled_count 1) xs))"

fun SmPool_process_indexed_batch ::
  "('w \<Rightarrow> 'm \<Rightarrow> 'e \<Rightarrow> 'w \<times> 'm) \<Rightarrow> 'w \<Rightarrow> 'm list \<Rightarrow> usize \<Rightarrow> usize list \<Rightarrow> 'e
    \<Rightarrow> 'w \<times> 'm list \<times> usize" where
  "SmPool_process_indexed_batch dispatch w ms handled_count [] e = (w, ms, handled_count)"
| "SmPool_process_indexed_batch dispatch w ms handled_count (i # is) e =
     (case slice_get ms i of
        None \<Rightarrow> SmPool_process_indexed_batch dispatch w ms handled_count is e
      | Some m \<Rightarrow>
          (case dispatch w m e of
             (w', m') \<Rightarrow> SmPool_process_indexed_batch dispatch w' (ms[unat i := m'])
                           (saturating_add handled_count 1) is e))"

section \<open>OrthogonalRegions\<close>

text \<open>\<open>process\<close> is the region's \<open>Machine::process_event\<close>.\<close>

fun OrthogonalRegions_process_event ::
  "('m \<Rightarrow> 'e \<Rightarrow> 'm \<times> bool) \<Rightarrow> usize \<Rightarrow> 'm list \<Rightarrow> 'e \<Rightarrow> 'm list \<times> usize" where
  "OrthogonalRegions_process_event process handled_count [] e = ([], handled_count)"
| "OrthogonalRegions_process_event process handled_count (m # ms) e =
     (case process m e of
        (m', b) \<Rightarrow>
          (case OrthogonalRegions_process_event process
                  (saturating_add handled_count (usize_of_bool b)) ms e of
             (ms', n) \<Rightarrow> (m' # ms', n)))"

section \<open>Properties\<close>

lemma hierarchical_update_self [simp]: "h\<lparr>parent := parent h\<rparr> = h"
  by simp

text \<open>
  With a completion callback that declines and changes nothing, the completing variant routes
  exactly as \<open>process_event\<close>: same closure effects, same machines, same verdict.
\<close>

theorem process_event_with_declining_completion:
  "Hierarchical_process_event_with_completion tm cd pd (\<lambda>w p. (w, p, False)) w h e =
   Hierarchical_process_event tm cd pd w h e"
  by (auto simp: Hierarchical_process_event_with_completion_def Hierarchical_process_event_def
      Let_def split: prod.splits)

text \<open>
  The completing variant deactivates the child exactly when the active child handled the
  event, is terminated afterwards and the parent's completion callback accepted; the child keeps
  the state it ended in, so a later activation resumes it (shallow history).
\<close>

theorem child_deactivated_iff:
  assumes "Hierarchical_process_event_with_completion tm cd pd cc w h e = (w', h', r)"
    and "cd w (child h) e = (w1, c1, b1)" and "cc w1 (parent h) = (w2, p2, b2)"
  shows "(child_active h \<and> \<not> child_active h' \<longleftrightarrow> child_active h \<and> b1 \<and> tm c1 \<and> b2) \<and>
    child (activate_child h') = (if child_active h then c1 else child h)"
  using assms
  by (auto simp: Hierarchical_process_event_with_completion_def activate_child_def Let_def
      split: prod.splits if_splits)

theorem child_deactivated_iff_witness:
  "Hierarchical_process_event_with_completion (\<lambda>c. c = (9 :: nat)) (\<lambda>w c e. (w, e, True))
     (\<lambda>w p e. (w, p, True)) (\<lambda>w p. (w, p + 1, True)) () (Hierarchical_new_active (0 :: nat) 3) 9 =
     ((), \<lparr>parent = 1, child = 9, child_active = False\<rparr>, Parent) \<and>
   child (activate_child \<lparr>parent = 1 :: nat, child = 9 :: nat, child_active = False\<rparr>) = 9"
proof -
  have run: "Hierarchical_process_event_with_completion (\<lambda>c. c = (9 :: nat)) (\<lambda>w c e. (w, e, True))
      (\<lambda>w p e. (w, p, True)) (\<lambda>w p. (w, p + 1, True)) () (Hierarchical_new_active (0 :: nat) 3) 9 =
      ((), \<lparr>parent = 1, child = 9, child_active = False\<rparr>, Parent)"
    by (simp add: Hierarchical_process_event_with_completion_def Hierarchical_new_active_def)
  from run child_deactivated_iff [OF run] show ?thesis
    by (simp add: Hierarchical_new_active_def)
qed

text \<open>
  A dispatch table calls exactly the handler at offset \<open>id - first_id\<close> and returns its
  result; an id below \<open>first_id\<close> or past the last handler returns \<open>None\<close> and leaves the machine
  as it was. The offset is computed without wrap-around.
\<close>

theorem DispatchTable_dispatch_spec:
  "DispatchTable_dispatch t raw i =
     (if unat (first_id t) \<le> unat i \<and> unat i < unat (first_id t) + length (handlers t)
      then (let (m', r) = (handlers t ! (unat i - unat (first_id t))) (table_machine t) raw
            in (t\<lparr>table_machine := m'\<rparr>, Some r))
      else (t, None))"
proof (cases "checked_sub i (first_id t)")
  case None
  with checked_sub_None_iff [of i "first_id t"] show ?thesis
    by (simp add: DispatchTable_dispatch_def)
next
  case (Some k)
  then have k: "unat (first_id t) \<le> unat i" "unat k = unat i - unat (first_id t)"
    by (simp_all add: checked_sub_Some_iff)
  with Some show ?thesis
    by (auto simp: DispatchTable_dispatch_def slice_get_def split: prod.splits)
qed

lemma process_event_batch_spec:
  "SmPool_process_event_batch (\<lambda>w m e. (w, g m e)) w ms n xs = (w', ms', n') \<Longrightarrow>
   length ms' = length ms \<and>
   (\<forall>i < length ms. ms' ! i = fold (\<lambda>x m. g m (event x)) (filter (\<lambda>x. unat (index x) = i) xs) (ms ! i)) \<and>
   unat n' = min (unat n + length (filter (\<lambda>x. unat (index x) < length ms) xs)) (2 ^ 64 - 1)"
proof (induction xs arbitrary: ms n)
  case Nil
  then show ?case using unat_lt_64 [of n] by auto
next
  case (Cons x xs)
  show ?case
  proof (cases "unat (index x) < length ms")
    case True
    let ?ms = "ms[unat (index x) := g (ms ! unat (index x)) (event x)]"
    from Cons.prems True have "SmPool_process_event_batch (\<lambda>w m e. (w, g m e)) w ?ms
        (saturating_add n 1) xs = (w', ms', n')" by simp
    from Cons.IH [OF this] True show ?thesis
      by (auto simp: unat_saturating_add nth_list_update)
  next
    case False
    with Cons.prems have "SmPool_process_event_batch (\<lambda>w m e. (w, g m e)) w ms n xs = (w', ms', n')"
      by (simp add: slice_get_def)
    from Cons.IH [OF this] False show ?thesis by auto
  qed
qed

text \<open>
  C39. A batch of indexed events reaches exactly the machines it names: each machine of the pool
  ends as if its own events, in batch order, had been applied to it alone; indices out of range
  are skipped; and the returned count is the number of valid indices, saturating at
  \<open>usize::MAX\<close>.
\<close>

theorem SmPool_batch_per_machine:
  assumes "SmPool_process_event_batch (\<lambda>w m e. (w, g m e)) w ms 0 xs = (w', ms', n)"
  shows "length ms' = length ms \<and>
    (\<forall>i < length ms. ms' ! i =
       fold (\<lambda>x m. g m (event x)) (filter (\<lambda>x. unat (index x) = i) xs) (ms ! i)) \<and>
    unat n = min (length (filter (\<lambda>x. unat (index x) < length ms) xs)) (2 ^ 64 - 1)"
  using process_event_batch_spec [OF assms] by simp

theorem SmPool_batch_per_machine_witness:
  "SmPool_process_event_batch (\<lambda>w m e. (w, m + e)) () [10, 20 :: nat] 0
     [with_id 1 5, with_id 7 1, with_id 0 2] = ((), [12, 25], 2) \<and>
   [12, 25 :: nat] ! 1 = fold (\<lambda>x m. m + event x) [with_id 1 5] 20"
proof -
  have run: "SmPool_process_event_batch (\<lambda>w m e. (w, m + e)) () [10, 20 :: nat] 0
      [with_id 1 5, with_id 7 1, with_id 0 2] = ((), [12, 25], 2)"
    by (simp add: with_id_def slice_get_def saturating_add_def)
  from run SmPool_batch_per_machine [OF run] show ?thesis
    by (simp add: with_id_def)
qed

text \<open>
  Dispatching one event to a list of indices is the indexed batch that names each index
  with a clone of the event, for every closure and every storage.
\<close>

theorem SmPool_indexed_batch_is_event_batch:
  "SmPool_process_indexed_batch d w ms n is e =
   SmPool_process_event_batch d w ms n (map (\<lambda>i. with_id i e) is)"
  by (induction "is" arbitrary: w ms n) (auto simp: with_id_def split: option.splits prod.splits)

lemma orthogonal_regions_acc:
  "OrthogonalRegions_process_event pr n ms e = (ms', n') \<Longrightarrow>
   ms' = map (\<lambda>m. fst (pr m e)) ms \<and>
   unat n' = min (unat n + length (filter (\<lambda>m. snd (pr m e)) ms)) (2 ^ 64 - 1)"
proof (induction ms arbitrary: n ms' n')
  case Nil
  then show ?case using unat_lt_64 [of n] by auto
next
  case (Cons m ms)
  obtain m1 b where m1: "pr m e = (m1, b)" by force
  obtain ms1 n1 where rest: "OrthogonalRegions_process_event pr
      (saturating_add n (usize_of_bool b)) ms e = (ms1, n1)" by force
  from Cons.IH [OF rest] Cons.prems m1 rest show ?case
    by (auto simp: unat_saturating_add)
qed

text \<open>
  An event broadcast to orthogonal regions is processed by every region exactly once, each
  from its own state, and the result counts the regions that accepted it.
\<close>

theorem OrthogonalRegions_broadcast:
  "fst (OrthogonalRegions_process_event pr 0 ms e) = map (\<lambda>m. fst (pr m e)) ms \<and>
   unat (snd (OrthogonalRegions_process_event pr 0 ms e)) =
     min (length (filter (\<lambda>m. snd (pr m e)) ms)) (2 ^ 64 - 1)"
  using orthogonal_regions_acc [of pr 0 ms e] by (metis add_0 prod.collapse unat_0)

lemma SmPool_reset_from_spec:
  "snd (SmPool_reset_from (\<lambda>w i. (w, f i)) w k ms) = map f [k..<k + length ms]"
  by (induction ms arbitrary: k) (simp_all add: upt_conv_Cons split_beta del: upt_Suc)

end
