(* ===== verification/Tokens.thy ===== *)
theory Tokens
  imports Sml_Prelude
begin

text \<open>
  Token streams as a procedural macro receives them (\<open>TokenTree\<close> of Rust's \<open>proc_macro\<close>), and the
  stream reads the parsers of macros/src/parser use: \<open>peek(Token![..])\<close>, \<open>parse::<Token![..]>()\<close>,
  \<open>parse::<Ident>()\<close> and delimited groups. A parser maps the tokens left to its value and the rest,
  or to an error. Syntax that the crate hands to the \<open>syn\<close> package unread (Rust types, expressions,
  attributes, generics) is a parameter of the parsers that use it.
\<close>

datatype delimiter = Parenthesis | Brace | Bracket | NoneDelim

text \<open>A string literal carries its value and its suffix, as in \<open>"idle"_s\<close>.\<close>

datatype token =
    Ident string
  | LitStr string string
  | Literal string
  | Punct char bool  \<comment> \<open>the flag is \<open>Spacing::Joint\<close>\<close>
  | Group delimiter "token list"

datatype parse_error = ParseError string | OutOfFuel

type_synonym 'a parsed = "(parse_error, 'a \<times> token list) rust_result"

fun tokens_size :: "token list \<Rightarrow> nat" where
  "tokens_size [] = 0"
| "tokens_size (Group _ ts # rest) = 2 + tokens_size ts + tokens_size rest"
| "tokens_size (_ # rest) = Suc (tokens_size rest)"

lemma tokens_size_append [simp]: "tokens_size (xs @ ys) = tokens_size xs + tokens_size ys"
  by (induction xs rule: tokens_size.induct) auto

text \<open>Words that \<open>parse::<Ident>()\<close> refuses: the keywords of Rust and the underscore.\<close>

definition rust_keywords :: "string list" where
  "rust_keywords =
     [''_'', ''abstract'', ''as'', ''async'', ''await'', ''become'', ''box'', ''break'', ''const'',
      ''continue'', ''crate'', ''do'', ''dyn'', ''else'', ''enum'', ''extern'', ''false'',
      ''final'', ''fn'', ''for'', ''if'', ''impl'', ''in'', ''let'', ''loop'', ''macro'',
      ''match'', ''mod'', ''move'', ''mut'', ''override'', ''priv'', ''pub'', ''ref'',
      ''return'', ''Self'', ''self'', ''static'', ''struct'', ''super'', ''trait'', ''true'',
      ''try'', ''type'', ''typeof'', ''unsafe'', ''unsized'', ''use'', ''virtual'', ''where'',
      ''while'', ''yield'']"

definition is_keyword :: "string \<Rightarrow> bool" where
  "is_keyword s \<longleftrightarrow> s \<in> set rust_keywords"

section \<open>Stream reads\<close>

fun parse_ident :: "token list \<Rightarrow> string parsed" where
  "parse_ident (Ident s # ts) =
     (if is_keyword s then Err (ParseError ''expected identifier'') else Ok (s, ts))"
| "parse_ident ts = Err (ParseError ''expected identifier'')"

text \<open>A keyword token such as \<open>async\<close>, and the underscore.\<close>

fun eat_word :: "string \<Rightarrow> token list \<Rightarrow> token list option" where
  "eat_word w (Ident s # ts) = (if s = w then Some ts else None)"
| "eat_word w ts = None"

fun eat_punct :: "char \<Rightarrow> token list \<Rightarrow> token list option" where
  "eat_punct c (Punct d j # ts) = (if d = c then Some ts else None)"
| "eat_punct c ts = None"

text \<open>A two-character operator: the first character must be joint.\<close>

fun eat_punct2 :: "char \<Rightarrow> char \<Rightarrow> token list \<Rightarrow> token list option" where
  "eat_punct2 c d (Punct x True # Punct y j # ts) = (if x = c \<and> y = d then Some ts else None)"
| "eat_punct2 c d ts = None"

fun eat_group :: "delimiter \<Rightarrow> token list \<Rightarrow> (token list \<times> token list) option" where
  "eat_group d (Group e ts # rest) = (if e = d then Some (ts, rest) else None)"
| "eat_group d ts = None"

fun eat_litstr :: "token list \<Rightarrow> ((string \<times> string) \<times> token list) option" where
  "eat_litstr (LitStr v s # ts) = Some ((v, s), ts)"
| "eat_litstr ts = None"

lemma eat_word_Some: "eat_word w ts = Some ts' \<longleftrightarrow> ts = Ident w # ts'"
  by (cases "(w, ts)" rule: eat_word.cases) auto

lemma eat_punct_Some: "eat_punct c ts = Some ts' \<longleftrightarrow> (\<exists>j. ts = Punct c j # ts')"
  by (cases "(c, ts)" rule: eat_punct.cases) auto

lemma eat_punct2_Some:
  "eat_punct2 c d ts = Some ts' \<longleftrightarrow> (\<exists>j. ts = Punct c True # Punct d j # ts')"
  by (cases "(c, d, ts)" rule: eat_punct2.cases) auto

lemma eat_group_Some: "eat_group d ts = Some (body, ts') \<longleftrightarrow> ts = Group d body # ts'"
  by (cases "(d, ts)" rule: eat_group.cases) auto

lemma eat_litstr_Some: "eat_litstr ts = Some ((v, s), ts') \<longleftrightarrow> ts = LitStr v s # ts'"
  by (cases ts rule: eat_litstr.cases) auto

lemma parse_ident_Ok: "parse_ident ts = Ok (s, ts') \<longleftrightarrow> ts = Ident s # ts' \<and> \<not> is_keyword s"
  by (cases ts rule: parse_ident.cases) auto

lemma parse_ident_not_fuel: "parse_ident ts \<noteq> Err OutOfFuel"
  by (cases ts rule: parse_ident.cases) auto

lemmas eat_simps = eat_word_Some eat_punct_Some eat_punct2_Some eat_group_Some eat_litstr_Some
  parse_ident_Ok

section \<open>Reads consume tokens\<close>

named_theorems shorter

lemma eat_shorter [shorter]:
  "eat_word w ts = Some ts' \<Longrightarrow> length ts' < length ts"
  "eat_punct c ts = Some ts' \<Longrightarrow> length ts' < length ts"
  "eat_punct2 c d ts = Some ts' \<Longrightarrow> length ts' < length ts"
  "eat_group g ts = Some (content, ts') \<Longrightarrow> length ts' < length ts"
  "eat_litstr ts = Some (l, ts') \<Longrightarrow> length ts' < length ts"
  "parse_ident ts = Inr (i, ts') \<Longrightarrow> length ts' < length ts"
  by (cases l; auto simp: eat_simps)+

end
