(* ===== verification/Guard_Expr.thy ===== *)
theory Guard_Expr
  imports Tokens "HOL-Library.Sublist"
begin

text \<open>
  Guard expressions of macros/src/parser/transition.rs: the recursive-descent parser
  (\<open>parse_or\<close>, \<open>parse_and\<close>, \<open>parse_not\<close>, \<open>parse_primary\<close>), the token printer
  \<open>to_token_stream\<close>, \<open>Display\<close>, the worklist traversal \<open>visit_guards\<close>, and the value the printed
  Rust expression has at run time. Loops of the parser carry fuel; \<open>Suc (tokens_size ts)\<close> is enough.
\<close>

section \<open>Syntax\<close>

record async_ident =
  ident :: string
  is_async :: bool

datatype guard_expression =
    Guard async_ident
  | Not guard_expression
  | GroupExpr guard_expression
  | And guard_expression guard_expression
  | Or guard_expression guard_expression

text \<open>\<open>to_token_stream\<close>: the visitor gives the tokens of one guard.\<close>

fun to_token_stream :: "(async_ident \<Rightarrow> token list) \<Rightarrow> guard_expression \<Rightarrow> token list" where
  "to_token_stream visit (Guard a) = visit a"
| "to_token_stream visit (Not e) = Punct CHR ''!'' False # to_token_stream visit e"
| "to_token_stream visit (GroupExpr e) = [Group Parenthesis (to_token_stream visit e)]"
| "to_token_stream visit (And l r) =
     to_token_stream visit l @ [Punct CHR ''&'' True, Punct CHR ''&'' False] @ to_token_stream visit r"
| "to_token_stream visit (Or l r) =
     to_token_stream visit l @ [Punct CHR 0x7C True, Punct CHR 0x7C False] @ to_token_stream visit r"

definition AsyncIdent_fmt :: "async_ident \<Rightarrow> string" where
  "AsyncIdent_fmt a = (if is_async a then ident a @ ''().await'' else ident a @ ''()'')"

fun GuardExpression_fmt :: "guard_expression \<Rightarrow> string" where
  "GuardExpression_fmt (Guard a) = AsyncIdent_fmt a"
| "GuardExpression_fmt (Not e) = ''!'' @ GuardExpression_fmt e"
| "GuardExpression_fmt (GroupExpr e) = ''('' @ GuardExpression_fmt e @ '')''"
| "GuardExpression_fmt (And l r) = GuardExpression_fmt l @ '' && '' @ GuardExpression_fmt r"
| "GuardExpression_fmt (Or l r) =
     GuardExpression_fmt l @ [CHR '' '', CHR 0x7C, CHR 0x7C, CHR '' ''] @ GuardExpression_fmt r"

section \<open>The parser\<close>

function (sequential) parse_or :: "nat \<Rightarrow> token list \<Rightarrow> guard_expression parsed"
  and or_loop :: "nat \<Rightarrow> guard_expression \<Rightarrow> token list \<Rightarrow> guard_expression parsed"
  and parse_and :: "nat \<Rightarrow> token list \<Rightarrow> guard_expression parsed"
  and and_loop :: "nat \<Rightarrow> guard_expression \<Rightarrow> token list \<Rightarrow> guard_expression parsed"
  and parse_not :: "nat \<Rightarrow> token list \<Rightarrow> guard_expression parsed"
  and parse_primary :: "nat \<Rightarrow> token list \<Rightarrow> guard_expression parsed"
where
  "parse_or 0 ts = Err OutOfFuel"
| "parse_or (Suc n) ts = try_then (parse_and n ts) (\<lambda>(left, ts'). or_loop n left ts')"
| "or_loop 0 left ts = Err OutOfFuel"
| "or_loop (Suc n) left ts =
     (case eat_punct2 CHR 0x7C CHR 0x7C ts of
        None \<Rightarrow> Ok (left, ts)
      | Some ts' \<Rightarrow> try_then (parse_and n ts') (\<lambda>(right, ts''). or_loop n (Or left right) ts''))"
| "parse_and 0 ts = Err OutOfFuel"
| "parse_and (Suc n) ts = try_then (parse_not n ts) (\<lambda>(left, ts'). and_loop n left ts')"
| "and_loop 0 left ts = Err OutOfFuel"
| "and_loop (Suc n) left ts =
     (case eat_punct2 CHR ''&'' CHR ''&'' ts of
        None \<Rightarrow> Ok (left, ts)
      | Some ts' \<Rightarrow> try_then (parse_not n ts') (\<lambda>(right, ts''). and_loop n (And left right) ts''))"
| "parse_not 0 ts = Err OutOfFuel"
| "parse_not (Suc n) ts =
     (case eat_punct CHR ''!'' ts of
        Some ts' \<Rightarrow> try_then (parse_primary n ts') (\<lambda>(e, ts''). Ok (Not e, ts''))
      | None \<Rightarrow> parse_primary n ts)"
| "parse_primary 0 ts = Err OutOfFuel"
| "parse_primary (Suc n) ts =
     (case eat_group Parenthesis ts of
        Some (content, ts') \<Rightarrow>
          try_then (parse_or n content)
            (\<lambda>(e, left). if left = [] then Ok (GroupExpr e, ts') else Err (ParseError ''unexpected token''))
      | None \<Rightarrow>
          (case eat_word ''async'' ts of
             Some ts' \<Rightarrow>
               try_then (parse_ident ts') (\<lambda>(i, ts''). Ok (Guard \<lparr>ident = i, is_async = True\<rparr>, ts''))
           | None \<Rightarrow>
               try_then (parse_ident ts) (\<lambda>(i, ts''). Ok (Guard \<lparr>ident = i, is_async = False\<rparr>, ts''))))"
  by pat_completeness auto
termination
  by (relation "measure (case_sum (case_sum fst (case_sum fst fst)) (case_sum fst (case_sum fst fst)))")
    auto

text \<open>
  The parse of a whole bracket \<open>[..]\<close>: like \<open>syn\<close>'s, it fails when tokens are left over (inside a
  parenthesis too, where \<open>syn\<close> reports them when the whole parse ends).
\<close>

definition enough_fuel :: "token list \<Rightarrow> nat" where
  "enough_fuel ts = 4 * tokens_size ts + 4"

definition GuardExpression_parse :: "token list \<Rightarrow> guard_expression parsed" where
  "GuardExpression_parse ts = parse_or (enough_fuel ts) ts"

section \<open>The shape of parsed expressions\<close>

fun wf_primary :: "guard_expression \<Rightarrow> bool"
  and wf_not :: "guard_expression \<Rightarrow> bool"
  and wf_and :: "guard_expression \<Rightarrow> bool"
  and wf_or :: "guard_expression \<Rightarrow> bool"
where
  "wf_primary (Guard a) \<longleftrightarrow> \<not> is_keyword (ident a)"
| "wf_primary (GroupExpr e) \<longleftrightarrow> wf_or e"
| "wf_primary _ \<longleftrightarrow> False"
| "wf_not (Not e) \<longleftrightarrow> wf_primary e"
| "wf_not (Guard a) \<longleftrightarrow> \<not> is_keyword (ident a)"
| "wf_not (GroupExpr e) \<longleftrightarrow> wf_or e"
| "wf_not _ \<longleftrightarrow> False"
| "wf_and (And l r) \<longleftrightarrow> wf_and l \<and> wf_not r"
| "wf_and (Not e) \<longleftrightarrow> wf_primary e"
| "wf_and (Guard a) \<longleftrightarrow> \<not> is_keyword (ident a)"
| "wf_and (GroupExpr e) \<longleftrightarrow> wf_or e"
| "wf_and _ \<longleftrightarrow> False"
| "wf_or (Or l r) \<longleftrightarrow> wf_or l \<and> wf_and r"
| "wf_or (And l r) \<longleftrightarrow> wf_and l \<and> wf_not r"
| "wf_or (Not e) \<longleftrightarrow> wf_primary e"
| "wf_or (Guard a) \<longleftrightarrow> \<not> is_keyword (ident a)"
| "wf_or (GroupExpr e) \<longleftrightarrow> wf_or e"

lemma wf_weaken: "wf_primary e \<Longrightarrow> wf_not e" "wf_not e \<Longrightarrow> wf_and e" "wf_and e \<Longrightarrow> wf_or e"
  by (cases e; simp)+

definition guard_tokens :: "async_ident \<Rightarrow> token list" where
  "guard_tokens a = (if is_async a then [Ident ''async''] else []) @ [Ident (ident a)]"

abbreviation print_guard :: "guard_expression \<Rightarrow> token list" where
  "print_guard \<equiv> to_token_stream guard_tokens"

text \<open>Spacing flags are the only part of the input an expression does not determine.\<close>

fun erase_spacing :: "token list \<Rightarrow> token list" where
  "erase_spacing [] = []"
| "erase_spacing (Punct c j # ts) = Punct c False # erase_spacing ts"
| "erase_spacing (Group d body # ts) = Group d (erase_spacing body) # erase_spacing ts"
| "erase_spacing (t # ts) = t # erase_spacing ts"

lemma erase_spacing_append [simp]:
  "erase_spacing (xs @ ys) = erase_spacing xs @ erase_spacing ys"
  by (induction xs rule: erase_spacing.induct) auto

lemma tokens_size_erase: "tokens_size (erase_spacing ts) = tokens_size ts"
  by (induction ts rule: erase_spacing.induct) auto

lemma eat_punct2_erase:
  "eat_punct2 c d ts = Some ts' \<Longrightarrow> erase_spacing ts = Punct c False # Punct d False # erase_spacing ts'"
  by (auto simp: eat_punct2_Some)

lemma try_then_Ok_pair:
  "try_then r (\<lambda>(x, ts). k x ts) = Ok y \<longleftrightarrow> (\<exists>x ts. r = Ok (x, ts) \<and> k x ts = Ok y)"
  by (auto simp: try_then_Inr_iff split: prod.splits)

lemma parse_sound:
  "parse_or n ts = Ok (e, ts') \<Longrightarrow>
     wf_or e \<and> erase_spacing ts = erase_spacing (print_guard e @ ts')"
  "or_loop n l ts = Ok (e, ts') \<Longrightarrow> wf_or l \<Longrightarrow>
     wf_or e \<and> erase_spacing (print_guard l @ ts) = erase_spacing (print_guard e @ ts')"
  "parse_and n ts = Ok (e, ts') \<Longrightarrow>
     wf_and e \<and> erase_spacing ts = erase_spacing (print_guard e @ ts')"
  "and_loop n l ts = Ok (e, ts') \<Longrightarrow> wf_and l \<Longrightarrow>
     wf_and e \<and> erase_spacing (print_guard l @ ts) = erase_spacing (print_guard e @ ts')"
  "parse_not n ts = Ok (e, ts') \<Longrightarrow>
     wf_not e \<and> erase_spacing ts = erase_spacing (print_guard e @ ts')"
  "parse_primary n ts = Ok (e, ts') \<Longrightarrow>
     wf_primary e \<and> erase_spacing ts = erase_spacing (print_guard e @ ts')"
proof (induction n ts and n l ts and n ts and n l ts and n ts and n ts
    arbitrary: e ts' and e ts' and e ts' and e ts' and e ts' and e ts'
    rule: parse_or_or_loop_parse_and_and_loop_parse_not_parse_primary.induct)
  case (2 n ts)
  then show ?case
    by (auto simp: try_then_Ok_pair) (metis wf_weaken(3))+
next
  case (4 n left ts)
  then show ?case
    by (auto simp: try_then_Ok_pair split: option.splits dest!: eat_punct2_erase)
next
  case (6 n ts)
  then show ?case
    by (auto simp: try_then_Ok_pair) (metis wf_weaken(2))+
next
  case (8 n left ts)
  then show ?case
    by (auto simp: try_then_Ok_pair split: option.splits dest!: eat_punct2_erase)
next
  case (10 n ts)
  then show ?case
    by (auto simp: try_then_Ok_pair eat_simps wf_weaken split: option.splits)
next
  case (12 n ts)
  then show ?case
    by (auto simp: try_then_Ok_pair eat_simps guard_tokens_def split: option.splits if_splits)
qed simp_all

section \<open>Enough fuel\<close>

lemma print_guard_size_pos: "0 < tokens_size (print_guard e)"
  by (induction e) (auto simp: guard_tokens_def)

lemma rest_size:
  assumes "erase_spacing ts = erase_spacing (print_guard e @ ts')"
  shows "tokens_size ts' < tokens_size ts"
proof -
  have "tokens_size ts = tokens_size (print_guard e) + tokens_size ts'"
    using arg_cong [OF assms, of tokens_size] by (simp add: tokens_size_erase)
  then show ?thesis using print_guard_size_pos [of e] by simp
qed

lemma parse_consumes:
  "parse_or n ts = Ok (e, ts') \<Longrightarrow> tokens_size ts' < tokens_size ts"
  "parse_and n ts = Ok (e, ts') \<Longrightarrow> tokens_size ts' < tokens_size ts"
  "parse_not n ts = Ok (e, ts') \<Longrightarrow> tokens_size ts' < tokens_size ts"
  "parse_primary n ts = Ok (e, ts') \<Longrightarrow> tokens_size ts' < tokens_size ts"
  using parse_sound(1,3,5,6) rest_size by blast+

lemma eat_sizes:
  "eat_punct2 c d ts = Some ts' \<Longrightarrow> tokens_size ts = tokens_size ts' + 2"
  "eat_punct c ts = Some ts' \<Longrightarrow> tokens_size ts = tokens_size ts' + 1"
  "eat_group g ts = Some (body, ts') \<Longrightarrow> tokens_size ts = tokens_size body + tokens_size ts' + 2"
  by (auto simp: eat_simps)

lemma try_then_fuel:
  "try_then r (\<lambda>(x, ts). k x ts) = Err OutOfFuel \<longleftrightarrow>
     r = Err OutOfFuel \<or> (\<exists>x ts. r = Ok (x, ts) \<and> k x ts = Err OutOfFuel)"
  by (cases r) auto

lemma parse_enough_fuel:
  "4 * tokens_size ts + 4 \<le> n \<Longrightarrow> parse_or n ts \<noteq> Err OutOfFuel"
  "4 * tokens_size ts + 1 \<le> n \<Longrightarrow> or_loop n l ts \<noteq> Err OutOfFuel"
  "4 * tokens_size ts + 3 \<le> n \<Longrightarrow> parse_and n ts \<noteq> Err OutOfFuel"
  "4 * tokens_size ts + 1 \<le> n \<Longrightarrow> and_loop n l ts \<noteq> Err OutOfFuel"
  "4 * tokens_size ts + 2 \<le> n \<Longrightarrow> parse_not n ts \<noteq> Err OutOfFuel"
  "4 * tokens_size ts + 1 \<le> n \<Longrightarrow> parse_primary n ts \<noteq> Err OutOfFuel"
proof (induction n ts and n l ts and n ts and n l ts and n ts and n ts
    rule: parse_or_or_loop_parse_and_and_loop_parse_not_parse_primary.induct)
  case (2 n ts)
  then show ?case by (fastforce simp: try_then_fuel dest: parse_consumes)
next
  case (4 n left ts)
  then show ?case
    by (fastforce simp: try_then_fuel split: option.splits dest: parse_consumes eat_sizes)
next
  case (6 n ts)
  then show ?case by (fastforce simp: try_then_fuel dest: parse_consumes)
next
  case (8 n left ts)
  then show ?case
    by (fastforce simp: try_then_fuel split: option.splits dest: parse_consumes eat_sizes)
next
  case (10 n ts)
  then show ?case
    by (fastforce simp: try_then_fuel split: option.splits dest: parse_consumes eat_sizes)
next
  case (12 n ts)
  then show ?case
    by (fastforce simp: try_then_fuel parse_ident_not_fuel split: option.splits if_splits dest: eat_sizes)
qed simp_all

lemma parse_fuel_mono:
  "parse_or n ts \<noteq> Err OutOfFuel \<Longrightarrow> parse_or (Suc n) ts = parse_or n ts"
  "or_loop n l ts \<noteq> Err OutOfFuel \<Longrightarrow> or_loop (Suc n) l ts = or_loop n l ts"
  "parse_and n ts \<noteq> Err OutOfFuel \<Longrightarrow> parse_and (Suc n) ts = parse_and n ts"
  "and_loop n l ts \<noteq> Err OutOfFuel \<Longrightarrow> and_loop (Suc n) l ts = and_loop n l ts"
  "parse_not n ts \<noteq> Err OutOfFuel \<Longrightarrow> parse_not (Suc n) ts = parse_not n ts"
  "parse_primary n ts \<noteq> Err OutOfFuel \<Longrightarrow> parse_primary (Suc n) ts = parse_primary n ts"
proof (induction n ts and n l ts and n ts and n l ts and n ts and n ts
    rule: parse_or_or_loop_parse_and_and_loop_parse_not_parse_primary.induct)
  case (2 n ts)
  then show ?case
    unfolding parse_or.simps(2) [of "Suc n" ts] parse_or.simps(2) [of n ts]
    by (auto simp: try_then_fuel try_then_def simp del: parse_and.simps or_loop.simps split: option.splits sum.splits)
next
  case (4 n left ts)
  then show ?case
    unfolding or_loop.simps(2) [of "Suc n" left ts] or_loop.simps(2) [of n left ts]
    by (auto simp: try_then_fuel try_then_def simp del: parse_and.simps or_loop.simps split: option.splits sum.splits)
next
  case (6 n ts)
  then show ?case
    unfolding parse_and.simps(2) [of "Suc n" ts] parse_and.simps(2) [of n ts]
    by (auto simp: try_then_fuel try_then_def simp del: parse_not.simps and_loop.simps split: option.splits sum.splits)
next
  case (8 n left ts)
  then show ?case
    unfolding and_loop.simps(2) [of "Suc n" left ts] and_loop.simps(2) [of n left ts]
    by (auto simp: try_then_fuel try_then_def simp del: parse_not.simps and_loop.simps split: option.splits sum.splits)
next
  case (10 n ts)
  then show ?case
    unfolding parse_not.simps(2) [of "Suc n" ts] parse_not.simps(2) [of n ts]
    by (auto simp: try_then_fuel try_then_def simp del: parse_primary.simps split: option.splits sum.splits)
next
  case (12 n ts)
  then show ?case
    unfolding parse_primary.simps(2) [of "Suc n" ts] parse_primary.simps(2) [of n ts]
    by (auto simp: try_then_fuel try_then_def simp del: parse_or.simps split: option.splits sum.splits)
qed simp_all

section \<open>Completeness: printed expressions parse back\<close>

text \<open>A fuelled function settles on a value when every large enough fuel gives it.\<close>

definition settles :: "(nat \<Rightarrow> 'a) \<Rightarrow> 'a \<Rightarrow> bool" where
  "settles f r \<longleftrightarrow> (\<exists>N. \<forall>n \<ge> N. f n = r)"

lemma settlesI: "(\<And>n. N \<le> n \<Longrightarrow> f n = r) \<Longrightarrow> settles f r"
  by (auto simp: settles_def)

lemma settles_Suc:
  assumes "settles g r" "\<And>n. f (Suc n) = g n"
  shows "settles f r"
proof -
  obtain N where "\<forall>n \<ge> N. g n = r" using assms(1) by (auto simp: settles_def)
  with assms(2) have "f n = r" if "Suc N \<le> n" for n using that by (cases n) auto
  then show ?thesis by (rule settlesI)
qed

lemma settles_then:
  assumes "settles f (Ok (x, ts))" "settles (\<lambda>n. k n x ts) r"
  shows "settles (\<lambda>n. try_then (f n) (\<lambda>(x, ts). k n x ts)) r"
proof -
  obtain N M where "\<forall>n \<ge> N. f n = Ok (x, ts)" "\<forall>n \<ge> M. k n x ts = r"
    using assms by (auto simp: settles_def)
  then show ?thesis by (intro settlesI [of "max N M"]) simp
qed

lemma settles_const: "settles (\<lambda>n. r) r"
  by (auto simp: settles_def)

text \<open>The next token is no operator of the given level.\<close>

abbreviation no_or :: "token list \<Rightarrow> bool" where
  "no_or ts \<equiv> eat_punct2 CHR 0x7C CHR 0x7C ts = None"

abbreviation no_and :: "token list \<Rightarrow> bool" where
  "no_and ts \<equiv> eat_punct2 CHR ''&'' CHR ''&'' ts = None"

lemma settles_and_loop_stop: "no_and ts \<Longrightarrow> settles (\<lambda>n. and_loop n e ts) (Ok (e, ts))"
  by (rule settles_Suc [OF settles_const]) simp

lemma settles_or_loop_stop: "no_or ts \<Longrightarrow> settles (\<lambda>n. or_loop n e ts) (Ok (e, ts))"
  by (rule settles_Suc [OF settles_const]) simp

lemma primary_no_bang: "wf_primary e \<Longrightarrow> eat_punct c (print_guard e @ ts) = None"
  by (cases e) (auto simp: guard_tokens_def)

lemma async_is_keyword: "is_keyword ''async''"
  by (simp add: is_keyword_def rust_keywords_def)

lemma settles_print_guard_token:
  "\<not> is_keyword (ident a) \<Longrightarrow> settles (\<lambda>n. parse_primary n (guard_tokens a @ ts)) (Ok (Guard a, ts))"
proof (rule settles_Suc [OF settles_const])
  fix n assume a: "\<not> is_keyword (ident a)"
  then have "ident a \<noteq> ''async''" using async_is_keyword by metis
  with a show "parse_primary (Suc n) (guard_tokens a @ ts) = Ok (Guard a, ts)"
    by (cases a) (auto simp: guard_tokens_def)
qed

lemma settles_not_primary:
  assumes "wf_primary e" "settles (\<lambda>n. parse_primary n (print_guard e @ ts)) r"
  shows "settles (\<lambda>n. parse_not n (print_guard e @ ts)) r"
  by (rule settles_Suc [OF assms(2)]) (simp add: primary_no_bang [OF assms(1)])

lemma settles_and_not:
  assumes "settles (\<lambda>n. parse_not n (print_guard e @ ts)) (Ok (e, ts))"
    "settles (\<lambda>n. and_loop n e ts) r"
  shows "settles (\<lambda>n. parse_and n (print_guard e @ ts)) r"
  by (rule settles_Suc [OF settles_then [where k = and_loop, OF assms]]) simp

lemma settles_or_and:
  assumes "settles (\<lambda>n. parse_and n (print_guard e @ ts)) (Ok (e, ts))"
    "settles (\<lambda>n. or_loop n e ts) r"
  shows "settles (\<lambda>n. parse_or n (print_guard e @ ts)) r"
  by (rule settles_Suc [OF settles_then [where k = or_loop, OF assms]]) simp

lemma print_parses:
  "(wf_primary e \<longrightarrow> settles (\<lambda>n. parse_primary n (print_guard e @ ts)) (Ok (e, ts))) \<and>
   (wf_not e \<longrightarrow> settles (\<lambda>n. parse_not n (print_guard e @ ts)) (Ok (e, ts))) \<and>
   (wf_and e \<longrightarrow> settles (\<lambda>n. and_loop n e ts) r \<longrightarrow>
      settles (\<lambda>n. parse_and n (print_guard e @ ts)) r) \<and>
   (wf_or e \<longrightarrow> no_and ts \<longrightarrow> settles (\<lambda>n. or_loop n e ts) r \<longrightarrow>
      settles (\<lambda>n. parse_or n (print_guard e @ ts)) r)"
proof (induction e arbitrary: ts r)
  case (Guard a)
  have p: "settles (\<lambda>n. parse_primary n (print_guard (Guard a) @ ts)) (Ok (Guard a, ts))"
    if "\<not> is_keyword (ident a)" for ts
    using settles_print_guard_token [OF that] by simp
  have n: "settles (\<lambda>n. parse_not n (print_guard (Guard a) @ ts)) (Ok (Guard a, ts))"
    if "\<not> is_keyword (ident a)" for ts
    by (rule settles_not_primary [OF _ p [OF that]]) (simp add: that)
  note a = settles_and_not [OF n]
  show ?case
    using p n a settles_or_and [OF a [OF _ settles_and_loop_stop]] by (simp del: to_token_stream.simps)
next
  case (GroupExpr e)
  have p: "settles (\<lambda>n. parse_primary n (print_guard (GroupExpr e) @ ts)) (Ok (GroupExpr e, ts))"
    if "wf_or e" for ts
  proof -
    have inner: "settles (\<lambda>n. parse_or n (print_guard e)) (Ok (e, []))"
      using GroupExpr.IH [of "[]" "Ok (e, [])"] that settles_or_loop_stop [of "[]" e] by simp
    show ?thesis
      by (rule settles_Suc [OF settles_then [OF inner,
            where k = "\<lambda>n e left. if left = [] then Ok (GroupExpr e, ts) else Err (ParseError ''unexpected token'')"]])
        (simp_all add: settles_const)
  qed
  have n: "settles (\<lambda>n. parse_not n (print_guard (GroupExpr e) @ ts)) (Ok (GroupExpr e, ts))"
    if "wf_or e" for ts
    by (rule settles_not_primary [OF _ p [OF that]]) (simp add: that)
  note a = settles_and_not [OF n]
  show ?case
    using p n a settles_or_and [OF a [OF _ settles_and_loop_stop]] by (simp del: to_token_stream.simps)
next
  case (Not e)
  have n: "settles (\<lambda>n. parse_not n (print_guard (Not e) @ ts)) (Ok (Not e, ts))"
    if "wf_primary e" for ts
    by (rule settles_Suc [OF settles_then [of _ e ts "\<lambda>n e ts. Ok (Not e, ts)"]])
      (use Not.IH [of ts] that in \<open>auto simp: settles_const\<close>)
  note a = settles_and_not [OF n]
  show ?case
    using n a settles_or_and [OF a [OF _ settles_and_loop_stop]] by (simp del: to_token_stream.simps)
next
  case (And l r')
  have a: "settles (\<lambda>n. parse_and n (print_guard (And l r') @ ts)) r"
    if "wf_and l" "wf_not r'" "settles (\<lambda>n. and_loop n (And l r') ts) r" for ts r
  proof -
    have "settles (\<lambda>n. and_loop n l
        ([Punct CHR ''&'' True, Punct CHR ''&'' False] @ print_guard r' @ ts)) r"
      by (rule settles_Suc [OF settles_then [where x = r' and ts = ts and k = "\<lambda>n x. and_loop n (And l x)"]])
        (use And.IH(2) [of ts] that in auto)
    with And.IH(1) that(1) show ?thesis by simp
  qed
  show ?case
    using a settles_or_and [OF a [OF _ _ settles_and_loop_stop]] by (simp del: to_token_stream.simps)
next
  case (Or l r')
  have "settles (\<lambda>n. parse_or n (print_guard (Or l r') @ ts)) r"
    if wf: "wf_or l" "wf_and r'" and "no_and ts" "settles (\<lambda>n. or_loop n (Or l r') ts) r" for ts r
  proof -
    have right: "settles (\<lambda>n. parse_and n (print_guard r' @ ts)) (Ok (r', ts))"
      using Or.IH(2) [of ts "Ok (r', ts)"] wf(2) settles_and_loop_stop [OF that(3)] by blast
    have "settles (\<lambda>n. or_loop n l
        ([Punct CHR 0x7C True, Punct CHR 0x7C False] @ print_guard r' @ ts)) r"
      by (rule settles_Suc [OF settles_then [where k = "\<lambda>n x. or_loop n (Or l x)", OF right that(4)]]) simp
    with Or.IH(1) wf(1) show ?thesis by simp
  qed
  then show ?case by (simp del: to_token_stream.simps)
qed

lemma parse_or_settled:
  assumes "settles (\<lambda>n. parse_or n ts) r" "4 * tokens_size ts + 4 \<le> n"
  shows "parse_or n ts = r"
proof -
  have stable: "parse_or (n + k) ts = parse_or n ts" for k
  proof (induction k)
    case (Suc k)
    have "parse_or (n + k) ts \<noteq> Err OutOfFuel"
      using assms(2) by (intro parse_enough_fuel(1)) simp
    from parse_fuel_mono(1) [OF this] Suc.IH show ?case by simp
  qed simp
  obtain N where "\<forall>m \<ge> N. parse_or m ts = r" using assms(1) by (auto simp: settles_def)
  with stable [of N] show ?thesis by simp
qed

lemma print_guard_parses:
  assumes "wf_or e"
  shows "GuardExpression_parse (print_guard e) = Ok (e, [])"
  unfolding GuardExpression_parse_def
proof (rule parse_or_settled)
  show "settles (\<lambda>n. parse_or n (print_guard e)) (Ok (e, []))"
    using print_parses [of e "[]" "Ok (e, [])"] assms settles_or_loop_stop [of "[]" e] by simp
qed (simp add: enough_fuel_def)

text \<open>
  C12. Printing a guard expression of the grammar's shape and parsing the tokens gives it back,
  whatever follows in the bracket that is no operator; in particular the tokens the macro emits
  into the generated Rust carry the table's structure, so \<open>!\<close>, \<open>&&\<close>, \<open>||\<close> and parentheses bind in
  the generated code as in the table.
\<close>

theorem guard_print_parse_roundtrip:
  assumes "wf_or e"
  shows "GuardExpression_parse (print_guard e) = Ok (e, [])"
  by (rule print_guard_parses [OF assms])

theorem guard_print_parse_roundtrip_witness:
  "GuardExpression_parse (print_guard
      (And (Not (GroupExpr (Or (Guard \<lparr>ident = ''a'', is_async = True\<rparr>) (Guard \<lparr>ident = ''b'', is_async = False\<rparr>))))
           (Guard \<lparr>ident = ''c'', is_async = False\<rparr>))) =
    Ok (And (Not (GroupExpr (Or (Guard \<lparr>ident = ''a'', is_async = True\<rparr>) (Guard \<lparr>ident = ''b'', is_async = False\<rparr>))))
           (Guard \<lparr>ident = ''c'', is_async = False\<rparr>), [])"
  by (rule guard_print_parse_roundtrip) (simp add: is_keyword_def rust_keywords_def)

text \<open>
  C38. What the parser accepts has the grammar's shape (\<open>||\<close> and \<open>&&\<close> associate to the left, \<open>!\<close>
  applies to a primary, no guard is a keyword) and consists of exactly the tokens read: printing
  the result and appending the rest gives the input back, spacing aside. The parser always
  answers within its fuel.
\<close>

theorem guard_parse_sound:
  "(case GuardExpression_parse ts of
      Ok (e, rest) \<Rightarrow> wf_or e \<and> erase_spacing ts = erase_spacing (print_guard e @ rest)
    | Err err \<Rightarrow> err \<noteq> OutOfFuel)"
proof (cases "GuardExpression_parse ts")
  case (Inl err)
  then show ?thesis
    using parse_enough_fuel(1) [of ts "enough_fuel ts"]
    by (auto simp: GuardExpression_parse_def enough_fuel_def)
next
  case (Inr r)
  then show ?thesis
    using parse_sound(1) [of "enough_fuel ts" ts] by (cases r) (auto simp: GuardExpression_parse_def)
qed

section \<open>Visiting the guards of an expression\<close>

text \<open>The worklist of \<open>visit_guards\<close>: the end of the code's vector is the head of the list.\<close>

function visit_loop ::
  "(async_ident \<Rightarrow> 's \<Rightarrow> ('err, 's) rust_result) \<Rightarrow> guard_expression list \<Rightarrow> 's \<Rightarrow> ('err, 's) rust_result" where
  "visit_loop f [] s = Ok s"
| "visit_loop f (Guard a # stack) s = try_then (f a s) (visit_loop f stack)"
| "visit_loop f (Not e # stack) s = visit_loop f (e # stack) s"
| "visit_loop f (GroupExpr e # stack) s = visit_loop f (e # stack) s"
| "visit_loop f (And l r # stack) s = visit_loop f (r # l # stack) s"
| "visit_loop f (Or l r # stack) s = visit_loop f (r # l # stack) s"
  by pat_completeness auto
termination
  by (relation "measure (\<lambda>(f, stack, s). (\<Sum>e \<leftarrow> stack. Suc (2 * size e)))") auto

definition visit_guards ::
  "guard_expression \<Rightarrow> (async_ident \<Rightarrow> 's \<Rightarrow> ('err, 's) rust_result) \<Rightarrow> 's \<Rightarrow> ('err, 's) rust_result" where
  "visit_guards e f s = visit_loop f [e] s"

fun guards_of :: "guard_expression \<Rightarrow> async_ident list" where
  "guards_of (Guard a) = [a]"
| "guards_of (Not e) = guards_of e"
| "guards_of (GroupExpr e) = guards_of e"
| "guards_of (And l r) = guards_of l @ guards_of r"
| "guards_of (Or l r) = guards_of l @ guards_of r"

fun try_fold :: "('a \<Rightarrow> 's \<Rightarrow> ('err, 's) rust_result) \<Rightarrow> 'a list \<Rightarrow> 's \<Rightarrow> ('err, 's) rust_result" where
  "try_fold f [] s = Ok s"
| "try_fold f (x # xs) s = try_then (f x s) (try_fold f xs)"

lemma try_fold_append: "try_fold f (xs @ ys) s = try_then (try_fold f xs s) (try_fold f ys)"
  by (induction xs arbitrary: s) (auto simp: try_then_def split: sum.splits)

lemma visit_loop_fold:
  "visit_loop f stack s = try_fold f (concat (map (\<lambda>e. rev (guards_of e)) stack)) s"
  by (induction f stack s rule: visit_loop.induct)
    (auto simp: try_then_def split: sum.splits)

lemma visit_guards_fold: "visit_guards e f s = try_fold f (rev (guards_of e)) s"
  by (simp add: visit_guards_def visit_loop_fold)

text \<open>
  \<open>visit_guards\<close> terminates and hands every guard occurrence of the expression to the
  visitor exactly once, from the last written to the first, stopping at the first error with
  that error.
\<close>

theorem visit_guards_each_once:
  "visit_guards e f s = try_fold f (rev (guards_of e)) s"
  by (rule visit_guards_fold)

section \<open>The value of a guard expression\<close>

text \<open>
  The generated Rust evaluates the printed expression: a guard calls the context and returns
  early when it fails, \<open>&&\<close> and \<open>||\<close> short-circuit, \<open>!\<close> negates. \<open>call\<close> is the block generated for
  one guard; it threads the state it logs into.
\<close>

fun eval_guard ::
  "('s \<Rightarrow> async_ident \<Rightarrow> 's \<times> ('err, bool) rust_result) \<Rightarrow> 's \<Rightarrow> guard_expression
    \<Rightarrow> 's \<times> ('err, bool) rust_result" where
  "eval_guard call s (Guard a) = call s a"
| "eval_guard call s (Not e) =
     (case eval_guard call s e of (s', r) \<Rightarrow> (s', try_then r (\<lambda>b. Ok (\<not> b))))"
| "eval_guard call s (GroupExpr e) = eval_guard call s e"
| "eval_guard call s (And l r) =
     (case eval_guard call s l of
        (s', Inl err) \<Rightarrow> (s', Err err)
      | (s', Inr b) \<Rightarrow> if b then eval_guard call s' r else (s', Ok False))"
| "eval_guard call s (Or l r) =
     (case eval_guard call s l of
        (s', Inl err) \<Rightarrow> (s', Err err)
      | (s', Inr b) \<Rightarrow> if b then (s', Ok True) else eval_guard call s' r)"

fun guard_holds :: "(async_ident \<Rightarrow> bool) \<Rightarrow> guard_expression \<Rightarrow> bool" where
  "guard_holds v (Guard a) = v a"
| "guard_holds v (Not e) = (\<not> guard_holds v e)"
| "guard_holds v (GroupExpr e) = guard_holds v e"
| "guard_holds v (And l r) = (guard_holds v l \<and> guard_holds v r)"
| "guard_holds v (Or l r) = (guard_holds v l \<or> guard_holds v r)"

lemma subseq_append_left: "subseq xs ys \<Longrightarrow> subseq xs (ys @ zs)"
  using list_emb_append_mono [of "(=)" xs ys "[]" zs] by simp

lemma eval_guard_pure:
  "\<exists>log'. eval_guard (\<lambda>log a. (log @ [a], Ok (v a))) log e = (log @ log', Ok (guard_holds v e) :: ('err, bool) rust_result) \<and>
     subseq log' (guards_of e)"
proof (induction e arbitrary: log)
  case (Not e)
  from this [of log] show ?case by (auto simp: try_then_def)
next
  case (And l r)
  obtain l' where l': "eval_guard (\<lambda>log a. (log @ [a], Ok (v a))) log l = (log @ l', Ok (guard_holds v l) :: ('err, bool) rust_result)"
    "subseq l' (guards_of l)" using And.IH(1) [of log] by blast
  obtain r' where "eval_guard (\<lambda>log a. (log @ [a], Ok (v a))) (log @ l') r =
      ((log @ l') @ r', Ok (guard_holds v r) :: ('err, bool) rust_result)" "subseq r' (guards_of r)"
    using And.IH(2) [of "log @ l'"] by blast
  with l' show ?case
    by (cases "guard_holds v l") (auto intro: list_emb_append_mono subseq_append_left)
next
  case (Or l r)
  obtain l' where l': "eval_guard (\<lambda>log a. (log @ [a], Ok (v a))) log l = (log @ l', Ok (guard_holds v l) :: ('err, bool) rust_result)"
    "subseq l' (guards_of l)" using Or.IH(1) [of log] by blast
  obtain r' where "eval_guard (\<lambda>log a. (log @ [a], Ok (v a))) (log @ l') r =
      ((log @ l') @ r', Ok (guard_holds v r) :: ('err, bool) rust_result)" "subseq r' (guards_of r)"
    using Or.IH(2) [of "log @ l'"] by blast
  with l' show ?case
    by (cases "guard_holds v l") (auto intro: list_emb_append_mono subseq_append_left)
qed auto

text \<open>
  When no guard fails, the generated expression has the Boolean value of the table's guard
  expression, and the guards it calls are a subsequence of the guards as written: left to right,
  none twice, skipping what short-circuiting makes irrelevant.
\<close>

theorem eval_guard_value:
  "\<exists>log. eval_guard (\<lambda>log a. (log @ [a], Ok (v a))) [] e = (log, Ok (guard_holds v e)) \<and>
     subseq log (guards_of e)"
  using eval_guard_pure [of v "[]" e] by simp

end
