(* ===== verification/Machine_Ast.thy ===== *)
theory Machine_Ast
  imports Guard_Expr "HOL-Library.AList"
begin

text \<open>
  The data the macro works on: \<open>syn\<close> types as far as the macro looks into them, the rows of a
  transition table as parsed (macros/src/parser/input_state.rs, event.rs, output_state.rs,
  transition.rs, state_machine.rs) and the parsed machine of macros/src/parser/mod.rs.
  Spans are left out. A \<open>HashMap\<close> is an association list with distinct keys, changed only by
  \<open>AList.update\<close>; what the code does not look up by key it iterates in the list's order.
\<close>

section \<open>Types\<close>

text \<open>
  \<open>syn::Type\<close> with the parts that \<open>syn\<close>'s visitor walks through. A segment of a path has arguments in
  angle brackets (\<open>PathSegment\<close>) or is a function sugar \<open>F(A) -> B\<close> (\<open>FnSegment\<close>); \<open>for<'a: 'b>\<close> is the list
  of its lifetimes with their bounds. Of an expression (an array length, a constant argument) only
  the paths, types and labels that the visitor meets are kept, in its order; items inside a block
  expression are left out. \<open>TypeOther\<close> are \<open>_\<close>, \<open>!\<close> and verbatim tokens, which contain nothing to visit.
\<close>

type_synonym bound_lifetimes = "(string \<times> string list) list"

datatype rust_type =
    TypePath "rust_type option" bool "path_segment list"
  | TypeReference "string option" bool rust_type
  | TypeTuple "rust_type list"
  | TypeArray rust_type "expr_part list"
  | TypeSlice rust_type
  | TypePtr bool rust_type
  | TypeBareFn "bound_lifetimes option" "rust_type list" "rust_type option"
  | TypeTraitObject "type_param_bound list"
  | TypeImplTrait "type_param_bound list"
  | TypeParen rust_type
  | TypeGroup rust_type
  | TypeMacro "path_segment list"
  | TypeOther "token list"
and path_segment =
    PathSegment string "generic_argument list"
  | FnSegment string "rust_type list" "rust_type option"
and generic_argument =
    LifetimeArg string
  | TypeArg rust_type
  | ConstArg "expr_part list"
  | AssocType string "generic_argument list" rust_type
  | AssocConst string "generic_argument list" "expr_part list"
  | Constraint string "generic_argument list" "type_param_bound list"
and type_param_bound =
    TraitBound "bound_lifetimes option" "path_segment list"
  | LifetimeBound string
  | CaptureBound "string list"
  | VerbatimBound "token list"
and expr_part =
    ExprPath "rust_type option" bool "path_segment list"
  | ExprType rust_type
  | ExprLabel string

fun segment_ident :: "path_segment \<Rightarrow> string" where
  "segment_ident (PathSegment i _) = i"
| "segment_ident (FnSegment i _ _) = i"

text \<open>The types the table accepts for states, events and the temporary context.\<close>

fun supported_type :: "rust_type \<Rightarrow> bool" where
  "supported_type (TypeArray _ _) = True"
| "supported_type (TypePath _ _ _) = True"
| "supported_type (TypePtr _ _) = True"
| "supported_type (TypeReference _ _ _) = True"
| "supported_type (TypeSlice _) = True"
| "supported_type (TypeTuple _) = True"
| "supported_type _ = False"

text \<open>The type named by one identifier, as \<open>syn::parse_quote! { #ident }\<close> gives it.\<close>

definition ident_type :: "string \<Rightarrow> rust_type" where
  "ident_type i = TypePath None False [PathSegment i []]"

fun is_mutable_reference :: "rust_type \<Rightarrow> bool" where
  "is_mutable_reference (TypeReference _ m _) = m"
| "is_mutable_reference _ = False"

section \<open>Rows\<close>

datatype event_kind = Normal | Unexpected | Completion | Entry | Exit | Exception

record input_state =
  in_start :: bool
  in_wildcard :: bool
  in_ident :: string
  in_source :: string
  in_data_type :: "rust_type option"
  in_composite :: "string option"
  in_history :: bool

record output_state =
  out_ident :: string
  out_source :: string
  out_internal :: bool
  out_data_type :: "rust_type option"
  out_composite :: "string option"

record event_trigger =
  ev_ident :: string
  ev_source :: string
  ev_data_type :: "rust_type option"
  ev_kind :: event_kind
  ev_wildcard :: bool
  ev_external :: bool

record eval_action =
  ea_position :: nat
  ea_guard :: guard_expression
  ea_action :: async_ident

text \<open>Expressions in \<open>process(..)\<close> are kept as tokens.\<close>

type_synonym rust_expr = "token list"

record state_transition =
  st_in :: input_state
  st_event :: event_trigger
  st_guard :: "guard_expression option"
  st_action :: "async_ident option"
  st_additional_actions :: "async_ident list"
  st_process_events :: "rust_expr list"
  st_defer :: bool
  st_eval_actions :: "eval_action list"
  st_out :: output_state
  st_internal :: bool

record state_transitions =
  sts_in_states :: "input_state list"
  sts_event :: event_trigger
  sts_guard :: "guard_expression option"
  sts_action :: "async_ident option"
  sts_additional_actions :: "async_ident list"
  sts_process_events :: "rust_expr list"
  sts_defer :: bool
  sts_eval_actions :: "eval_action list"
  sts_out :: output_state

section \<open>Machines\<close>

datatype generic_param =
    LifetimeParam string
  | TypeParam string
  | ConstParam string

record state_machine =
  temporary_context_type :: "rust_type option"
  custom_error :: bool
  transitions :: "state_transition list"
  machine_name :: "string option"
  states_attr :: "token list list"
  events_attr :: "token list list"
  entry_exit_async :: bool
  fixed_error_type :: "rust_type option"
  event_generics :: "generic_param list"

definition StateMachine_new :: state_machine where
  "StateMachine_new = \<lparr>temporary_context_type = None, custom_error = False, transitions = [],
     machine_name = None, states_attr = [], events_attr = [], entry_exit_async = False,
     fixed_error_type = None, event_generics = []\<rparr>"

text \<open>One row with several source states becomes one transition per source state.\<close>

definition add_transitions :: "state_machine \<Rightarrow> state_transitions \<Rightarrow> state_machine" where
  "add_transitions sm ts = sm\<lparr>transitions := transitions sm @
     map (\<lambda>i. \<lparr>st_in = i, st_event = sts_event ts, st_guard = sts_guard ts, st_action = sts_action ts,
       st_additional_actions = sts_additional_actions ts, st_process_events = sts_process_events ts,
       st_defer = sts_defer ts, st_eval_actions = sts_eval_actions ts, st_out = sts_out ts,
       st_internal = out_internal (sts_out ts)\<rparr>) (sts_in_states ts)\<rparr>"

section \<open>The parsed machine\<close>

record transition =
  t_guard :: "guard_expression option"
  t_action :: "async_ident option"
  t_additional_actions :: "async_ident list"
  t_process_events :: "rust_expr list"
  t_defer :: bool
  t_eval_actions :: "eval_action list"
  t_default_output :: bool
  t_out_state :: string
  t_internal :: bool

record event_mapping =
  m_in_state :: string
  m_event :: string
  m_event_kind :: event_kind
  m_event_wildcard :: bool
  m_event_external :: bool
  m_transitions :: "transition list"

type_synonym event_mappings = "(string \<times> event_mapping) list"

type_synonym transition_map = "(string \<times> event_mappings) list"

record data_definitions =
  data_types :: "(string \<times> rust_type) list"
  all_lifetimes :: "string list"
  key_lifetimes :: "(string \<times> string list) list"

record parsed_state_machine =
  p_name :: "string option"
  p_temporary_context_type :: "rust_type option"
  p_custom_error :: bool
  p_states :: "(string \<times> string) list"
  p_starting_state :: string
  p_state_data :: data_definitions
  p_events :: "(string \<times> string) list"
  p_event_data :: data_definitions
  p_states_events_mapping :: transition_map
  p_entry_exit_async :: bool
  p_fixed_error_type :: "rust_type option"
  p_event_generics :: "generic_param list"

text \<open>\<open>HashMap::contains_key\<close> on the collected data types.\<close>

definition has_data :: "data_definitions \<Rightarrow> string \<Rightarrow> bool" where
  "has_data d k \<longleftrightarrow> map_of (data_types d) k \<noteq> None"

text \<open>All actions of a transition in order: \<open>action\<close>, then \<open>additional_actions\<close>.\<close>

definition transition_actions :: "transition \<Rightarrow> async_ident list" where
  "transition_actions t = (case t_action t of None \<Rightarrow> [] | Some a \<Rightarrow> [a]) @ t_additional_actions t"

text \<open>Every transition of a map with the state and mapping it belongs to.\<close>

definition all_mappings :: "transition_map \<Rightarrow> event_mapping list" where
  "all_mappings tm = concat (map (\<lambda>(_, ms). map snd ms) tm)"

definition all_transitions :: "transition_map \<Rightarrow> transition list" where
  "all_transitions tm = concat (map m_transitions (all_mappings tm))"

end
