(* ===== verification/Flat_Codegen.thy ===== *)
theory Flat_Codegen
  imports Machine_Ast "HOL-Library.List_Lexorder" "HOL-Library.Char_ord"
begin

text \<open>
  The generator of macros/src/codegen.rs for flat machines. \<open>generate_code\<close> turns a parsed machine
  into \<open>flat_code\<close>, the part of the emitted Rust that decides behaviour: the arms of the \<open>match\<close>
  statements with their candidate blocks in order, the lifecycle actions of every state and the
  switches that select the queueing and completion code. Flat_Machine gives that code its meaning.
  Type declarations, documentation attributes and the callback trait are emitted text without
  behaviour and are left out.
\<close>

section \<open>What the table uses\<close>

definition guard_is_async :: "guard_expression \<Rightarrow> bool" where
  "guard_is_async g \<longleftrightarrow> list_ex is_async (guards_of g)"

definition is_async_state_machine :: "parsed_state_machine \<Rightarrow> bool" where
  "is_async_state_machine sm \<longleftrightarrow>
     p_entry_exit_async sm \<or>
     list_ex (\<lambda>t. list_ex is_async (transition_actions t) \<or>
         (case t_guard t of None \<Rightarrow> False | Some g \<Rightarrow> guard_is_async g) \<or>
         list_ex (\<lambda>e. is_async (ea_action e) \<or> guard_is_async (ea_guard e)) (t_eval_actions t))
       (all_transitions (p_states_events_mapping sm))"

definition has_deferred_events :: "parsed_state_machine \<Rightarrow> bool" where
  "has_deferred_events sm \<longleftrightarrow> list_ex t_defer (all_transitions (p_states_events_mapping sm))"

definition has_queue_actions :: "parsed_state_machine \<Rightarrow> bool" where
  "has_queue_actions sm \<longleftrightarrow>
     has_deferred_events sm \<or>
     list_ex (\<lambda>t. t_process_events t \<noteq> []) (all_transitions (p_states_events_mapping sm))"

definition has_anonymous_completion :: "parsed_state_machine \<Rightarrow> bool" where
  "has_anonymous_completion sm \<longleftrightarrow>
     list_ex (\<lambda>m. m_event_kind m = Completion \<and> m_event_wildcard m)
       (all_mappings (p_states_events_mapping sm))"

text \<open>Event names without duplicates, sorted by name (\<open>sort_by_key(|event| event.to_string())\<close>).\<close>

fun push_new :: "'a list \<Rightarrow> 'a list \<Rightarrow> 'a list" where
  "push_new known [] = known"
| "push_new known (x # xs) = push_new (if x \<in> set known then known else known @ [x]) xs"

lemma set_push_new [simp]: "set (push_new known xs) = set known \<union> set xs"
  by (induction known xs rule: push_new.induct) auto

definition completion_events :: "parsed_state_machine \<Rightarrow> string list" where
  "completion_events sm =
     sort (push_new [] (map m_event
       (filter (\<lambda>m. m_event_kind m = Completion \<and> \<not> m_event_wildcard m)
         (all_mappings (p_states_events_mapping sm)))))"

definition external_events :: "parsed_state_machine \<Rightarrow> string list" where
  "external_events sm =
     sort (push_new [] (map m_event (filter m_event_external (all_mappings (p_states_events_mapping sm)))))"

definition has_completion_events :: "parsed_state_machine \<Rightarrow> bool" where
  "has_completion_events sm \<longleftrightarrow> has_anonymous_completion sm \<or> completion_events sm \<noteq> []"

definition has_exception_handlers :: "parsed_state_machine \<Rightarrow> bool" where
  "has_exception_handlers sm \<longleftrightarrow>
     list_ex (\<lambda>m. m_event_kind m = Exception) (all_mappings (p_states_events_mapping sm))"

section \<open>Action sequences\<close>

datatype action_step =
    EvalStep guard_expression async_ident
  | ActionStep bool async_ident

text \<open>
  The loop of \<open>generate_actions\<close> over \<open>position\<close>; the first argument counts the positions left.
  The flag of \<open>ActionStep\<close> is the \<open>let _data =\<close> of the action that provides the state's data.
\<close>

fun generate_steps ::
  "nat \<Rightarrow> async_ident list \<Rightarrow> bool \<Rightarrow> eval_action list \<Rightarrow> nat \<Rightarrow> nat \<Rightarrow> (string, action_step list) rust_result"
where
  "generate_steps 0 actions produces evals position normal_index = Ok []"
| "generate_steps (Suc left) actions produces evals position normal_index =
     (case find (\<lambda>e. ea_position e = position) evals of
        Some e \<Rightarrow>
          try_then (generate_steps left actions produces evals (Suc position) normal_index)
            (\<lambda>steps. Ok (EvalStep (ea_guard e) (ea_action e) # steps))
      | None \<Rightarrow>
          if normal_index < length actions
          then try_then (generate_steps left actions produces evals (Suc position) (Suc normal_index))
            (\<lambda>steps. Ok (ActionStep (produces \<and> Suc normal_index = length actions)
                            (actions ! normal_index) # steps))
          else Err ''generated action sequence references a missing action'')"

definition generate_actions ::
  "async_ident list \<Rightarrow> bool \<Rightarrow> eval_action list \<Rightarrow> (string, action_step list) rust_result" where
  "generate_actions actions produces evals =
     generate_steps (length actions + length evals) actions produces evals 0 0"

section \<open>Candidates and arms\<close>

record candidate =
  cd_index :: nat
  cd_in_state :: string
  cd_event :: string
  cd_wildcard :: bool
  cd_kind :: event_kind
  cd_state_data :: bool
  cd_event_data :: bool
  cd_guard :: "guard_expression option"
  cd_steps :: "action_step list"
  cd_default_output :: bool
  cd_defer :: bool
  cd_process :: "rust_expr list"
  cd_internal :: bool
  cd_out_state :: string

text \<open>
  \<open>cd_state_data\<close> and \<open>cd_event_data\<close> say whether the callbacks of the block get the payload of the
  state and of the event. Whether a payload is handed over as a reference, a clone or by value is
  a matter of Rust's types.
\<close>

definition guard_parameters :: "parsed_state_machine \<Rightarrow> string \<Rightarrow> event_mapping \<Rightarrow> bool \<times> bool" where
  [simp]: "guard_parameters sm s m = (has_data (p_state_data sm) s, has_data (p_event_data sm) (m_event m))"

definition generate_candidate ::
  "parsed_state_machine \<Rightarrow> string \<Rightarrow> event_mapping \<Rightarrow> nat \<Rightarrow> transition \<Rightarrow> (string, candidate) rust_result" where
  "generate_candidate sm s m index t =
     (let produces = has_data (p_state_data sm) (t_out_state t) in
      try_then (generate_actions (transition_actions t) produces (t_eval_actions t))
        (\<lambda>steps. Ok
          \<lparr>cd_index = index,
           cd_in_state = s,
           cd_event = m_event m,
           cd_wildcard = m_event_wildcard m,
           cd_kind = m_event_kind m,
           cd_state_data = fst (guard_parameters sm s m),
           cd_event_data = snd (guard_parameters sm s m),
           cd_guard = t_guard t,
           cd_steps = steps,
           cd_default_output = (t_default_output t \<and> transition_actions t = [] \<and> produces),
           cd_defer = t_defer t,
           cd_process = t_process_events t,
           cd_internal = t_internal t,
           cd_out_state = t_out_state t\<rparr>))"

fun try_map :: "('a \<Rightarrow> ('e, 'b) rust_result) \<Rightarrow> 'a list \<Rightarrow> ('e, 'b list) rust_result" where
  "try_map f [] = Ok []"
| "try_map f (x # xs) = try_then (f x) (\<lambda>y. try_then (try_map f xs) (\<lambda>ys. Ok (y # ys)))"

definition code_block ::
  "parsed_state_machine \<Rightarrow> string \<Rightarrow> event_mapping \<Rightarrow> (string, candidate list) rust_result" where
  "code_block sm s m =
     try_map (\<lambda>(i, t). generate_candidate sm s m i t) (enumerate 0 (m_transitions m))"

record arm =
  arm_event :: string
  arm_wildcard :: bool
  arm_block :: "candidate list"

record state_arms =
  sa_state :: string
  sa_normal :: "arm list"
  sa_unexpected :: "arm list"
  sa_unexpected_wildcard :: "arm option"
  sa_completion :: "arm list"
  sa_anonymous_completion :: "arm option"
  sa_exception :: "candidate list option"

definition generate_arm ::
  "parsed_state_machine \<Rightarrow> string \<Rightarrow> event_mapping \<Rightarrow> (string, event_kind \<times> arm) rust_result" where
  "generate_arm sm s m =
     try_then (code_block sm s m) (\<lambda>block. Ok (m_event_kind m,
       \<lparr>arm_event = m_event m, arm_wildcard = m_event_wildcard m, arm_block = block\<rparr>))"

text \<open>The last element that satisfies a predicate: a variable overwritten in a loop.\<close>

definition find_last :: "('a \<Rightarrow> bool) \<Rightarrow> 'a list \<Rightarrow> 'a option" where
  "find_last p xs = find p (rev xs)"

definition arms_of_kind :: "event_kind \<Rightarrow> (event_kind \<times> arm) list \<Rightarrow> arm list" where
  "arms_of_kind k arms = map snd (filter (\<lambda>(k', _). k' = k) arms)"

text \<open>
  The arms of one state: \<open>state_dispatch_arms\<close>, \<open>completion_state_arms\<close>,
  \<open>anonymous_completion_state_arms\<close> and \<open>exception_state_arms\<close> (a typed handler is preferred to
  \<open>exception<_>\<close>).
\<close>

definition generate_state_arms ::
  "parsed_state_machine \<Rightarrow> string \<times> event_mappings \<Rightarrow> (string, state_arms) rust_result" where
  "generate_state_arms sm entry =
     try_then (try_map (generate_arm sm (fst entry)) (map snd (snd entry)))
       (\<lambda>arms.
          let unexpected = arms_of_kind Unexpected arms;
              completion = arms_of_kind Completion arms;
              exception = arms_of_kind Exception arms
          in Ok
            \<lparr>sa_state = fst entry,
             sa_normal = arms_of_kind Normal arms,
             sa_unexpected = filter (\<lambda>a. \<not> arm_wildcard a) unexpected,
             sa_unexpected_wildcard = find_last arm_wildcard unexpected,
             sa_completion = filter (\<lambda>a. \<not> arm_wildcard a) completion,
             sa_anonymous_completion = find_last arm_wildcard completion,
             sa_exception =
               map_option arm_block
                 (case find (\<lambda>a. \<not> arm_wildcard a) exception of
                    Some a \<Rightarrow> Some a
                  | None \<Rightarrow> find (\<lambda>_. True) exception)\<rparr>)"

section \<open>Lifecycle actions\<close>

text \<open>
  \<open>entry_actions\<close> and \<open>exit_actions\<close>: the actions of the first transition of a state's
  \<open>on_entry<_>\<close> or \<open>on_exit<_>\<close> mapping, without its guard, evals and queue actions.
\<close>

definition lifecycle_actions ::
  "event_kind \<Rightarrow> transition_map \<Rightarrow> (string \<times> async_ident list) list" where
  "lifecycle_actions kind tm =
     foldl (\<lambda>acc (s, calls). AList.update s calls acc) []
       (concat (map (\<lambda>(s, ms).
          concat (map (\<lambda>(_, m).
            if m_event_kind m = kind \<and> m_transitions m \<noteq> []
            then [(s, transition_actions (hd (m_transitions m)))] else []) ms)) tm))"

section \<open>The generated machine\<close>

record flat_code =
  fc_arms :: "state_arms list"
  fc_entry_actions :: "(string \<times> async_ident list) list"
  fc_exit_actions :: "(string \<times> async_ident list) list"
  fc_starting_state :: string
  fc_async_queue :: bool
  fc_has_deferred :: bool
  fc_has_completion :: bool
  fc_has_anonymous_completion :: bool
  fc_completion_events :: "string list"
  fc_has_exception :: bool
  fc_fixed_error :: bool
  fc_has_terminal :: bool

text \<open>
  \<open>generate_code\<close>, with the errors in the order the generator finds them: a state of the table
  that has no identifier, a typed exception with actions but without error type, a bad action
  sequence, an external event without payload type.
\<close>

definition generate_code :: "parsed_state_machine \<Rightarrow> (string, flat_code) rust_result" where
  "generate_code sm =
     (let tm = p_states_events_mapping sm in
      if list_ex (\<lambda>(s, _). map_of (p_states sm) s = None) tm
      then Err ''state is missing from the parsed state table''
      else if p_fixed_error_type sm = None \<and>
        list_ex (\<lambda>m. m_event_kind m = Exception \<and> \<not> m_event_wildcard m \<and>
            list_ex (\<lambda>t. transition_actions t \<noteq> []) (m_transitions m)) (all_mappings tm)
      then Err ''typed exception is missing its callback error type''
      else try_then (try_map (generate_state_arms sm) tm)
        (\<lambda>arms.
          if list_ex (\<lambda>e. \<not> has_data (p_event_data sm) e) (external_events sm)
          then Err ''external events must have a concrete payload type''
          else Ok
            \<lparr>fc_arms = arms,
             fc_entry_actions = lifecycle_actions Entry tm,
             fc_exit_actions = lifecycle_actions Exit tm,
             fc_starting_state = p_starting_state sm,
             fc_async_queue = (is_async_state_machine sm \<and> has_queue_actions sm),
             fc_has_deferred = has_deferred_events sm,
             fc_has_completion = has_completion_events sm,
             fc_has_anonymous_completion = has_anonymous_completion sm,
             fc_completion_events = completion_events sm,
             fc_has_exception = has_exception_handlers sm,
             fc_fixed_error = (p_fixed_error_type sm \<noteq> None),
             fc_has_terminal = (map_of (p_states sm) ''X'' \<noteq> None)\<rparr>))"

end
