(* ===== verification/Step_Monad.thy ===== *)
theory Step_Monad
  imports Sml_Prelude
begin

text \<open>
  Generated Rust as state transformers. A \<open>step\<close> maps a machine core to the new core and a
  \<open>Result\<close>; \<open>None\<close> means that the fuel of a loop or of a recursive call ran out, so a run that
  never returns in Rust is \<open>None\<close> for every fuel. An error keeps the effects before it, as Rust
  does. \<open>refines\<close> orders steps by definedness; the rules in \<open>step_mono\<close> show that every
  construct of the generated code only gets more defined when the calls inside it do.
\<close>

named_theorems step_mono \<open>monotonicity of the constructs of generated code\<close>

type_synonym ('k, 'e, 'a) step = "'k \<Rightarrow> ('k \<times> ('e, 'a) rust_result) option"

definition ret :: "'a \<Rightarrow> ('k, 'e, 'a) step" where
  "ret a = (\<lambda>k. Some (k, Ok a))"

definition raise :: "'e \<Rightarrow> ('k, 'e, 'a) step" where
  "raise e = (\<lambda>k. Some (k, Err e))"

definition bind :: "('k, 'e, 'a) step \<Rightarrow> ('a \<Rightarrow> ('k, 'e, 'b) step) \<Rightarrow> ('k, 'e, 'b) step" where
  "bind m f = (\<lambda>k. case m k of
     None \<Rightarrow> None
   | Some (k', Inl e) \<Rightarrow> Some (k', Inl e)
   | Some (k', Inr a) \<Rightarrow> f a k')"

definition then_do :: "('k, 'e, 'a) step \<Rightarrow> ('k, 'e, 'b) step \<Rightarrow> ('k, 'e, 'b) step" where
  "then_do m m' = bind m (\<lambda>_. m')"

text \<open>\<open>match result { Err(e) => handler, ok => ok }\<close>.\<close>

definition catch :: "('k, 'e, 'a) step \<Rightarrow> ('e \<Rightarrow> ('k, 'e, 'a) step) \<Rightarrow> ('k, 'e, 'a) step" where
  "catch m h = (\<lambda>k. case m k of
     None \<Rightarrow> None
   | Some (k', Inl e) \<Rightarrow> h e k'
   | Some (k', Inr a) \<Rightarrow> Some (k', Inr a))"

definition update :: "('k \<Rightarrow> 'k) \<Rightarrow> ('k, 'e, unit) step" where
  "update f = (\<lambda>k. Some (f k, Ok ()))"

definition with_core :: "('k \<Rightarrow> ('k, 'e, 'a) step) \<Rightarrow> ('k, 'e, 'a) step" where
  "with_core f = (\<lambda>k. f k k)"

text \<open>A step that always returns, from a function on the core.\<close>

definition lift_step :: "('k \<Rightarrow> 'k \<times> ('e, 'a) rust_result) \<Rightarrow> ('k, 'e, 'a) step" where
  "lift_step f = (\<lambda>k. Some (f k))"

primrec for_each :: "('x \<Rightarrow> ('k, 'e, 'a) step) \<Rightarrow> 'x list \<Rightarrow> ('k, 'e, unit) step" where
  "for_each f [] = ret ()"
| "for_each f (x # xs) = then_do (f x) (for_each f xs)"

text \<open>\<open>while body? {}\<close>, at most as many rounds as the fuel.\<close>

primrec while_ok :: "nat \<Rightarrow> ('k, 'e, bool) step \<Rightarrow> ('k, 'e, unit) step" where
  "while_ok 0 body = (\<lambda>_. None)"
| "while_ok (Suc n) body = bind body (\<lambda>b. if b then while_ok n body else ret ())"

lemmas step_defs = ret_def raise_def bind_def then_do_def catch_def update_def with_core_def lift_step_def

section \<open>Definedness\<close>

definition refines :: "('k, 'e, 'a) step \<Rightarrow> ('k, 'e, 'a) step \<Rightarrow> bool" where
  "refines m m' \<longleftrightarrow> (\<forall>k r. m k = Some r \<longrightarrow> m' k = Some r)"

lemma refinesD: "refines m m' \<Longrightarrow> m k = Some r \<Longrightarrow> m' k = Some r"
  unfolding refines_def by blast

lemma refinesI: "(\<And>k r. m k = Some r \<Longrightarrow> m' k = Some r) \<Longrightarrow> refines m m'"
  unfolding refines_def by blast

lemma refines_refl [step_mono, simp]: "refines m m"
  by (simp add: refines_def)

lemma refines_trans [trans]: "refines m m' \<Longrightarrow> refines m' m'' \<Longrightarrow> refines m m''"
  by (simp add: refines_def)

lemma bind_mono [step_mono]:
  assumes "refines m m'" "\<And>a. refines (f a) (f' a)"
  shows "refines (bind m f) (bind m' f')"
proof (rule refinesI)
  fix k r assume run: "bind m f k = Some r"
  then obtain k' x where m: "m k = Some (k', x)" by (cases "m k") (auto simp: bind_def)
  then have "m' k = Some (k', x)" using assms(1) by (rule refinesD [rotated])
  with run m show "bind m' f' k = Some r"
    by (cases x) (simp_all add: bind_def refinesD [OF assms(2)])
qed

lemma then_do_mono [step_mono]:
  "refines m m' \<Longrightarrow> refines n n' \<Longrightarrow> refines (then_do m n) (then_do m' n')"
  unfolding then_do_def by (rule bind_mono)

lemma catch_mono [step_mono]:
  assumes "refines m m'" "\<And>e. refines (h e) (h' e)"
  shows "refines (catch m h) (catch m' h')"
proof (rule refinesI)
  fix k r assume run: "catch m h k = Some r"
  then obtain k' x where m: "m k = Some (k', x)" by (cases "m k") (auto simp: catch_def)
  then have "m' k = Some (k', x)" using assms(1) by (rule refinesD [rotated])
  with run m show "catch m' h' k = Some r"
    by (cases x) (auto simp: catch_def refinesD [OF assms(2)])
qed

lemma with_core_mono [step_mono]:
  "(\<And>k. refines (f k) (f' k)) \<Longrightarrow> refines (with_core f) (with_core f')"
  by (simp add: with_core_def refines_def)

lemma for_each_mono [step_mono]:
  "(\<And>x. refines (f x) (f' x)) \<Longrightarrow> refines (for_each f xs) (for_each f' xs)"
  by (induction xs) (simp_all add: then_do_mono)

lemma if_mono [step_mono]:
  "refines m m' \<Longrightarrow> refines n n' \<Longrightarrow> refines (if b then m else n) (if b then m' else n')"
  by simp

lemma case_option_mono [step_mono]:
  "refines m m' \<Longrightarrow> (\<And>x. refines (f x) (f' x)) \<Longrightarrow>
    refines (case y of None \<Rightarrow> m | Some x \<Rightarrow> f x) (case y of None \<Rightarrow> m' | Some x \<Rightarrow> f' x)"
  by (cases y) simp_all

lemma while_ok_mono [step_mono]:
  assumes "refines body body'" "n \<le> n'"
  shows "refines (while_ok n body) (while_ok n' body')"
  using assms(2)
proof (induction n arbitrary: n')
  case 0
  then show ?case by (simp add: refines_def)
next
  case (Suc n)
  then obtain m where m: "n' = Suc m" "n \<le> m" by (cases n') auto
  have "refines (if b then while_ok n body else ret ()) (if b then while_ok m body' else ret ())" for b
    using Suc.IH [OF m(2)] by simp
  with assms(1) show ?case by (simp add: m(1) bind_mono)
qed

section \<open>Reasoning about results\<close>

text \<open>
  \<open>triple P m Q E\<close>: from a core with \<open>P\<close>, a step that returns a value ends in a core with \<open>Q\<close> of
  that value, and one that fails in a core with \<open>E\<close>. The rules of \<open>step_inv\<close> follow the constructs;
  \<open>preserves P m\<close> is the case in which \<open>P\<close> holds throughout.
\<close>

named_theorems step_inv \<open>preservation of an invariant by the constructs of generated code\<close>

definition triple ::
  "('k \<Rightarrow> bool) \<Rightarrow> ('k, 'e, 'a) step \<Rightarrow> ('a \<Rightarrow> 'k \<Rightarrow> bool) \<Rightarrow> ('k \<Rightarrow> bool) \<Rightarrow> bool" where
  "triple P m Q E \<longleftrightarrow>
     (\<forall>k k' r. P k \<longrightarrow> m k = Some (k', r) \<longrightarrow> (case r of Inl _ \<Rightarrow> E k' | Inr a \<Rightarrow> Q a k'))"

abbreviation preserves :: "('k \<Rightarrow> bool) \<Rightarrow> ('k, 'e, 'a) step \<Rightarrow> bool" where
  "preserves P m \<equiv> triple P m (\<lambda>_. P) P"

lemma tripleI:
  assumes "\<And>k k' a. P k \<Longrightarrow> m k = Some (k', Inr a) \<Longrightarrow> Q a k'"
    "\<And>k k' e. P k \<Longrightarrow> m k = Some (k', Inl e) \<Longrightarrow> E k'"
  shows "triple P m Q E"
  unfolding triple_def using assms by (auto split: sum.split)

lemma triple_value: "triple P m Q E \<Longrightarrow> m k = Some (k', Inr a) \<Longrightarrow> P k \<Longrightarrow> Q a k'"
  unfolding triple_def by fastforce

lemma triple_error: "triple P m Q E \<Longrightarrow> m k = Some (k', Inl e) \<Longrightarrow> P k \<Longrightarrow> E k'"
  unfolding triple_def by fastforce

lemma preservesD: "preserves P m \<Longrightarrow> m k = Some (k', r) \<Longrightarrow> P k \<Longrightarrow> P k'"
  by (cases r) (auto dest: triple_value triple_error)

lemma preservesI: "(\<And>k k' r. P k \<Longrightarrow> m k = Some (k', r) \<Longrightarrow> P k') \<Longrightarrow> preserves P m"
  by (rule tripleI) blast+

lemma triple_pre: "(\<And>k. P k \<Longrightarrow> P' k) \<Longrightarrow> triple P' m Q E \<Longrightarrow> triple P m Q E"
  unfolding triple_def by blast

lemma triple_post:
  "triple P m Q' E' \<Longrightarrow> (\<And>a k. Q' a k \<Longrightarrow> Q a k) \<Longrightarrow> (\<And>k. E' k \<Longrightarrow> E k) \<Longrightarrow> triple P m Q E"
  by (rule tripleI) (blast dest: triple_value triple_error)+

lemma triple_ret [step_inv]: "(\<And>k. P k \<Longrightarrow> Q a k) \<Longrightarrow> triple P (ret a) Q E"
  by (rule tripleI) (auto simp: ret_def)

lemma triple_raise [step_inv]: "(\<And>k. P k \<Longrightarrow> E k) \<Longrightarrow> triple P (raise e) Q E"
  by (rule tripleI) (auto simp: raise_def)

lemma triple_none [step_inv, simp]: "triple P (\<lambda>_. None) Q E"
  by (rule tripleI) simp_all

lemma triple_bind:
  assumes "triple P m R E" "\<And>a. triple (R a) (f a) Q E"
  shows "triple P (bind m f) Q E"
proof -
  have "case r of Inl _ \<Rightarrow> E k' | Inr a \<Rightarrow> Q a k'" if P: "P k" and run: "bind m f k = Some (k', r)" for k k' r
  proof -
    obtain k1 x where m: "m k = Some (k1, x)" using run by (cases "m k") (auto simp: bind_def)
    show ?thesis
    proof (cases x)
      case (Inl e)
      with run m have "r = Inl e" "k' = k1" by (simp_all add: bind_def)
      with m Inl P show ?thesis by (auto dest: triple_error [OF assms(1)])
    next
      case (Inr a)
      with run m have "f a k1 = Some (k', r)" by (simp add: bind_def)
      moreover have "R a k1" using m Inr P by (auto dest: triple_value [OF assms(1)])
      ultimately show ?thesis using assms(2) unfolding triple_def by blast
    qed
  qed
  then show ?thesis unfolding triple_def by blast
qed

lemma triple_then_do:
  "triple P m (\<lambda>_. R) E \<Longrightarrow> triple R n Q E \<Longrightarrow> triple P (then_do m n) Q E"
  unfolding then_do_def by (rule triple_bind)

lemma triple_catch:
  assumes "triple P m Q R" "\<And>e. triple R (h e) Q E"
  shows "triple P (catch m h) Q E"
proof -
  have "case r of Inl _ \<Rightarrow> E k' | Inr a \<Rightarrow> Q a k'" if P: "P k" and run: "catch m h k = Some (k', r)" for k k' r
  proof -
    obtain k1 x where m: "m k = Some (k1, x)" using run by (cases "m k") (auto simp: catch_def)
    show ?thesis
    proof (cases x)
      case (Inl e)
      with run m have "h e k1 = Some (k', r)" by (simp add: catch_def)
      moreover have "R k1" using m Inl P by (auto dest: triple_error [OF assms(1)])
      ultimately show ?thesis using assms(2) unfolding triple_def by blast
    next
      case (Inr a)
      with run m have "r = Inr a" "k' = k1" by (simp_all add: catch_def)
      with m Inr P show ?thesis by (auto dest: triple_value [OF assms(1)])
    qed
  qed
  then show ?thesis unfolding triple_def by blast
qed

lemma triple_with_core: "(\<And>k0. triple (\<lambda>k. k = k0 \<and> P k) (f k0) Q E) \<Longrightarrow> triple P (with_core f) Q E"
  unfolding triple_def with_core_def by blast

lemma triple_update: "(\<And>k. P k \<Longrightarrow> Q () (f k)) \<Longrightarrow> triple P (update f) Q E"
  by (rule tripleI) (auto simp: update_def)

lemma triple_lift_step:
  "(\<And>k. P k \<Longrightarrow> case snd (f k) of Inl _ \<Rightarrow> E (fst (f k)) | Inr a \<Rightarrow> Q a (fst (f k))) \<Longrightarrow>
    triple P (lift_step f) Q E"
  unfolding triple_def lift_step_def by (metis fst_conv option.inject snd_conv)

lemma triple_if:
  "(b \<Longrightarrow> triple P m Q E) \<Longrightarrow> (\<not> b \<Longrightarrow> triple P n Q E) \<Longrightarrow> triple P (if b then m else n) Q E"
  by simp

lemma triple_case_option:
  "(y = None \<Longrightarrow> triple P m Q E) \<Longrightarrow> (\<And>x. y = Some x \<Longrightarrow> triple P (f x) Q E) \<Longrightarrow>
    triple P (case y of None \<Rightarrow> m | Some x \<Rightarrow> f x) Q E"
  by (cases y) simp_all

lemma preserves_bind [step_inv]:
  "preserves P m \<Longrightarrow> (\<And>a. preserves P (f a)) \<Longrightarrow> preserves P (bind m f)"
  by (rule triple_bind)

lemma preserves_then_do [step_inv]: "preserves P m \<Longrightarrow> preserves P n \<Longrightarrow> preserves P (then_do m n)"
  by (rule triple_then_do)

lemma preserves_catch [step_inv]:
  "preserves P m \<Longrightarrow> (\<And>e. preserves P (h e)) \<Longrightarrow> preserves P (catch m h)"
  by (rule triple_catch)

lemma preserves_with_core [step_inv]: "(\<And>k. preserves P (f k)) \<Longrightarrow> preserves P (with_core f)"
  unfolding triple_def with_core_def by blast

lemma preserves_for_each [step_inv]:
  "(\<And>x. x \<in> set xs \<Longrightarrow> preserves P (f x)) \<Longrightarrow> preserves P (for_each f xs)"
  by (induction xs) (simp_all add: preserves_then_do triple_ret)

lemma preserves_while_ok [step_inv]: "preserves P body \<Longrightarrow> preserves P (while_ok n body)"
proof (induction n)
  case (Suc n)
  then show ?case
    by (auto intro!: preserves_bind triple_if triple_ret)
qed simp

lemma preserves_if [step_inv]:
  "(b \<Longrightarrow> preserves P m) \<Longrightarrow> (\<not> b \<Longrightarrow> preserves P n) \<Longrightarrow> preserves P (if b then m else n)"
  by simp

lemma preserves_case_option [step_inv]:
  "(y = None \<Longrightarrow> preserves P m) \<Longrightarrow> (\<And>x. y = Some x \<Longrightarrow> preserves P (f x)) \<Longrightarrow>
    preserves P (case y of None \<Rightarrow> m | Some x \<Rightarrow> f x)"
  by (cases y) simp_all

lemma preserves_update: "(\<And>k. P k \<Longrightarrow> P (f k)) \<Longrightarrow> preserves P (update f)"
  by (rule triple_update)

lemma preserves_lift_step: "(\<And>k. P k \<Longrightarrow> P (fst (f k))) \<Longrightarrow> preserves P (lift_step f)"
  by (rule triple_lift_step) (simp split: sum.split)

text \<open>
  A row of emitted code: guard, actions or change, defer, process, drain. \<open>At\<close> holds as long as the
  place of the row has not changed, \<open>P\<close> throughout; a row that does not handle leaves \<open>At\<close>.
\<close>

lemma emitted_row_keeps:
  fixes guard :: "'g \<Rightarrow> ('k, 'e, bool) step" and actions :: "('k, 'e, 'x) step"
  assumes at: "\<And>k. At k \<Longrightarrow> P k" and guards: "\<And>g. preserves At (guard g)" and actions: "preserves At actions"
    and change: "\<not> internal \<Longrightarrow> triple At change (\<lambda>_. P) P"
    and "preserves P defers" "preserves P processes" "preserves P drain"
  shows "triple At
    (if dispatched
     then (case g of
         None \<Rightarrow> if internal then then_do actions (then_do defers (then_do processes (ret True)))
           else then_do change (then_do defers (then_do processes (then_do drain (ret True))))
       | Some g \<Rightarrow> bind (guard g) (\<lambda>b. if b
           then (if internal then then_do actions (then_do defers (then_do processes (ret True)))
             else then_do change (then_do defers (then_do processes (then_do drain (ret True)))))
           else ret False))
     else ret False) (\<lambda>b k. P k \<and> (\<not> b \<longrightarrow> At k)) P"
proof -
  let ?Q = "\<lambda>b k. P k \<and> (\<not> b \<longrightarrow> At k)"
  have finish: "triple P (ret True) ?Q P" by (rule triple_ret) simp
  have tail: "triple P (then_do defers (then_do processes m)) ?Q P" if "triple P m ?Q P" for m
    by (rule triple_then_do [OF assms(5) triple_then_do [OF assms(6) that]])
  have weak: "triple At m (\<lambda>_. P) P" if "preserves At m" for m :: "('k, 'e, 'x) step"
    by (rule triple_post [OF that]) (auto intro: at)
  have body: "triple At (if internal then then_do actions (then_do defers (then_do processes (ret True)))
      else then_do change (then_do defers (then_do processes (then_do drain (ret True))))) ?Q P"
  proof (rule triple_if)
    show "triple At (then_do actions (then_do defers (then_do processes (ret True)))) ?Q P"
      by (rule triple_then_do [OF weak [OF actions] tail [OF finish]])
    show "triple At (then_do change (then_do defers (then_do processes (then_do drain (ret True))))) ?Q P" if "\<not> internal"
      by (rule triple_then_do [OF change [OF that] tail [OF triple_then_do [OF assms(7) finish]]])
  qed
  have guarded: "triple At (guard g) (\<lambda>_. At) P" for g by (rule triple_post [OF guards]) (auto intro: at)
  have skip: "triple At (ret False) ?Q P" by (rule triple_ret) (simp add: at)
  show ?thesis by (intro triple_if triple_case_option body skip triple_bind [OF guarded])
qed

section \<open>Steps that return\<close>

text \<open>\<open>returns m\<close>: the step has an answer from every core.\<close>

named_theorems step_total \<open>constructs of generated code that return\<close>

definition returns :: "('k, 'e, 'a) step \<Rightarrow> bool" where
  "returns m \<longleftrightarrow> (\<forall>k. m k \<noteq> None)"

lemma returns_basic [step_total, simp]:
  "returns (ret a)" "returns (raise e)" "returns (update f)" "returns (lift_step g)"
  by (simp_all add: returns_def step_defs)

lemma returns_bind [step_total]: "returns m \<Longrightarrow> (\<And>a. returns (f a)) \<Longrightarrow> returns (bind m f)"
  by (fastforce simp: returns_def bind_def split: option.splits sum.splits)

lemma returns_then_do [step_total]: "returns m \<Longrightarrow> returns m' \<Longrightarrow> returns (then_do m m')"
  unfolding then_do_def by (rule returns_bind)

lemma returns_catch [step_total]: "returns m \<Longrightarrow> (\<And>e. returns (h e)) \<Longrightarrow> returns (catch m h)"
  by (fastforce simp: returns_def catch_def split: option.splits sum.splits)

lemma returns_with_core [step_total]: "(\<And>k. returns (f k)) \<Longrightarrow> returns (with_core f)"
  by (simp add: returns_def with_core_def)

lemma returns_if [step_total]: "(b \<Longrightarrow> returns m) \<Longrightarrow> (\<not> b \<Longrightarrow> returns m') \<Longrightarrow> returns (if b then m else m')"
  by simp

lemma returns_case_option [step_total]:
  "(y = None \<Longrightarrow> returns m) \<Longrightarrow> (\<And>x. y = Some x \<Longrightarrow> returns (f x)) \<Longrightarrow>
    returns (case y of None \<Rightarrow> m | Some x \<Rightarrow> f x)"
  by (cases y) simp_all

lemma returns_for_each [step_total]: "(\<And>x. x \<in> set xs \<Longrightarrow> returns (f x)) \<Longrightarrow> returns (for_each f xs)"
  by (induction xs) (simp_all add: returns_then_do)

end
