(* ===== verification/Flat_Machine.thy ===== *)
theory Flat_Machine
  imports Flat_Codegen Step_Monad Event_Queue
begin

text \<open>
  The meaning of the code that macros/src/codegen.rs emits for a flat machine. \<open>core\<close> is the
  generated \<open>__Sml..StateMachineCore\<close>; \<open>machine_env\<close> holds what the user supplies (callbacks of the
  context trait, event expressions, \<open>Default\<close> data) and the policy (dispatch strategy and queues).
  Every callback and log call that can be observed is appended to \<open>observed\<close>. The generated
  functions call each other recursively and loop; their fuel is the first argument of
  \<open>process_event_unlocked\<close>. The temporary context is an argument that is only passed through and
  is left out.
\<close>

section \<open>Values, context and core\<close>

datatype 'v variant_value = Variant (variant: string) (payload: "'v option")

datatype 'err machine_error =
    InvalidEvent
  | TransitionsFailed
  | GuardFailed 'err
  | ActionFailed 'err
  | QueueFullError

datatype ('v, 'err) trigger_data = NoData | EventData 'v | ErrorData 'err

datatype observation =
    ProcessEventLog string
  | GuardLog string string bool
  | ActionLog string string
  | TransitionCallback string string
  | StateChangeLog string string
  | EntryHook string
  | ExitHook string

record ('c, 'v, 'err, 'q) machine_env =
  guard_fn :: "string \<Rightarrow> 'c \<Rightarrow> 'v option \<Rightarrow> 'v option \<Rightarrow> ('err, bool) rust_result"
  action_fn :: "string \<Rightarrow> 'c \<Rightarrow> 'v option \<Rightarrow> ('v, 'err) trigger_data \<Rightarrow> 'c \<times> ('err, 'v option) rust_result"
  on_entry_fn :: "string \<Rightarrow> 'c \<Rightarrow> 'c"
  on_exit_fn :: "string \<Rightarrow> 'c \<Rightarrow> 'c"
  event_expr :: "rust_expr \<Rightarrow> 'c \<Rightarrow> 'v option \<Rightarrow> 'v option \<Rightarrow> 'v variant_value"
  default_data :: "string \<Rightarrow> 'v"
  dispatch_fn :: "string \<Rightarrow> bool"
  dispatch_candidate_fn :: "string \<Rightarrow> string \<Rightarrow> nat \<Rightarrow> bool"
  queue_new :: 'q
  queue_defer :: "'q \<Rightarrow> 'v variant_value \<Rightarrow> 'q \<times> (queue_full, unit) rust_result"
  queue_process :: "'q \<Rightarrow> 'v variant_value \<Rightarrow> 'q \<times> (queue_full, unit) rust_result"
  queue_pop :: "'q \<Rightarrow> 'q \<times> 'v variant_value option"

record ('c, 'v, 'q) core =
  state :: "'v variant_value"
  exit_skip :: bool
  machine_context :: 'c
  deferred :: 'q
  pending :: 'q
  observed :: "observation list"

type_synonym ('c, 'v, 'err, 'q, 'a) machine_step = "(('c, 'v, 'q) core, 'err machine_error, 'a) step"

definition observe :: "observation \<Rightarrow> ('c, 'v, 'q) core \<Rightarrow> ('c, 'v, 'q) core" where
  "observe x k = k\<lparr>observed := observed k @ [x]\<rparr>"

lemma observed_observe [simp]:
  "observed (observe x k) = observed k @ [x]" "state (observe x k) = state k"
  "exit_skip (observe x k) = exit_skip k" "machine_context (observe x k) = machine_context k"
  "deferred (observe x k) = deferred k" "pending (observe x k) = pending k"
  by (simp_all add: observe_def)

section \<open>Callbacks\<close>

text \<open>The block generated for one guard: call, \<open>map_err(GuardFailed)?\<close>, log, value.\<close>

definition call_guard ::
  "('c, 'v, 'err, 'q) machine_env \<Rightarrow> string \<Rightarrow> 'v option \<Rightarrow> 'v option \<Rightarrow> ('c, 'v, 'q) core
    \<Rightarrow> async_ident \<Rightarrow> ('c, 'v, 'q) core \<times> ('err machine_error, bool) rust_result" where
  "call_guard env event sd ed k g =
     (case guard_fn env (ident g) (machine_context k) sd ed of
        Inl e \<Rightarrow> (k, Err (GuardFailed e))
      | Inr b \<Rightarrow> (observe (GuardLog (ident g) event b) k, Ok b))"

definition guard_passed ::
  "('c, 'v, 'err, 'q) machine_env \<Rightarrow> string \<Rightarrow> 'v option \<Rightarrow> 'v option \<Rightarrow> guard_expression
    \<Rightarrow> ('c, 'v, 'err, 'q, bool) machine_step" where
  "guard_passed env event sd ed g = lift_step (\<lambda>k. eval_guard (call_guard env event sd ed) k g)"

definition call_action ::
  "('c, 'v, 'err, 'q) machine_env \<Rightarrow> string \<Rightarrow> 'v option \<Rightarrow> ('v, 'err) trigger_data \<Rightarrow> async_ident
    \<Rightarrow> ('c, 'v, 'err, 'q, 'v option) machine_step" where
  "call_action env event sd td a = lift_step (\<lambda>k.
     case action_fn env (ident a) (machine_context k) sd td of
       (c, Inl e) \<Rightarrow> (k\<lparr>machine_context := c\<rparr>, Err (ActionFailed e))
     | (c, Inr v) \<Rightarrow> (observe (ActionLog (ident a) event) (k\<lparr>machine_context := c\<rparr>), Ok v))"

text \<open>The emitted action sequence; its value is \<open>_data\<close>.\<close>

fun run_actions ::
  "('c, 'v, 'err, 'q) machine_env \<Rightarrow> string \<Rightarrow> 'v option \<Rightarrow> 'v option \<Rightarrow> ('v, 'err) trigger_data
    \<Rightarrow> action_step list \<Rightarrow> 'v option \<Rightarrow> ('c, 'v, 'err, 'q, 'v option) machine_step" where
  "run_actions env event sd ed td [] data = ret data"
| "run_actions env event sd ed td (ActionStep binds a # steps) data =
     bind (call_action env event sd td a)
       (\<lambda>v. run_actions env event sd ed td steps (if binds then v else data))"
| "run_actions env event sd ed td (EvalStep g a # steps) data =
     then_do
       (bind (guard_passed env event sd ed g)
         (\<lambda>b. if b then then_do (call_action env event sd td a) (ret ()) else ret ()))
       (run_actions env event sd ed td steps data)"

text \<open>The actions of \<open>on_entry<_>\<close> and \<open>on_exit<_>\<close> rows get no payloads and log no event.\<close>

definition run_lifecycle ::
  "('c, 'v, 'err, 'q) machine_env \<Rightarrow> (string \<times> async_ident list) list \<Rightarrow> string
    \<Rightarrow> ('c, 'v, 'err, 'q, unit) machine_step" where
  "run_lifecycle env table s =
     for_each (call_action env [] None NoData) (case map_of table s of None \<Rightarrow> [] | Some as \<Rightarrow> as)"

definition call_entry_hook :: "('c, 'v, 'err, 'q) machine_env \<Rightarrow> string \<Rightarrow> ('c, 'v, 'err, 'q, unit) machine_step" where
  "call_entry_hook env s =
     update (\<lambda>k. observe (EntryHook s) (k\<lparr>machine_context := on_entry_fn env s (machine_context k)\<rparr>))"

definition call_exit_hook :: "('c, 'v, 'err, 'q) machine_env \<Rightarrow> string \<Rightarrow> ('c, 'v, 'err, 'q, unit) machine_step" where
  "call_exit_hook env s =
     update (\<lambda>k. observe (ExitHook s) (k\<lparr>machine_context := on_exit_fn env s (machine_context k)\<rparr>))"

section \<open>Queue actions\<close>

definition push_queue ::
  "('c, 'v, 'q) core \<Rightarrow> (('c, 'v, 'q) core \<Rightarrow> 'q \<Rightarrow> ('c, 'v, 'q) core)
    \<Rightarrow> 'q \<times> (queue_full, unit) rust_result \<Rightarrow> ('c, 'v, 'q) core \<times> ('err machine_error, unit) rust_result" where
  "push_queue k upd r = (upd k (fst r), (case snd r of Inl _ \<Rightarrow> Err QueueFullError | Inr _ \<Rightarrow> Ok ()))"

definition defer_event ::
  "('c, 'v, 'err, 'q) machine_env \<Rightarrow> 'v variant_value \<Rightarrow> ('c, 'v, 'err, 'q, unit) machine_step" where
  "defer_event env e =
     lift_step (\<lambda>k. push_queue k (\<lambda>k q. k\<lparr>deferred := q\<rparr>) (queue_defer env (deferred k) e))"

definition pend_event ::
  "('c, 'v, 'err, 'q) machine_env \<Rightarrow> 'v variant_value \<Rightarrow> ('c, 'v, 'err, 'q, unit) machine_step" where
  "pend_event env e =
     lift_step (\<lambda>k. push_queue k (\<lambda>k q. k\<lparr>pending := q\<rparr>) (queue_process env (pending k) e))"

definition pop_deferred ::
  "('c, 'v, 'err, 'q) machine_env \<Rightarrow> ('c, 'v, 'err, 'q, 'v variant_value option) machine_step" where
  "pop_deferred env = lift_step (\<lambda>k.
     case queue_pop env (deferred k) of (q, e) \<Rightarrow> (k\<lparr>deferred := q\<rparr>, Ok e))"

definition pop_pending ::
  "('c, 'v, 'err, 'q) machine_env \<Rightarrow> ('c, 'v, 'err, 'q, 'v variant_value option) machine_step" where
  "pop_pending env = lift_step (\<lambda>k.
     case queue_pop env (pending k) of (q, e) \<Rightarrow> (k\<lparr>pending := q\<rparr>, Ok e))"

text \<open>
  \<open>process(e)\<close>: an asynchronous machine with queue actions puts the event at the front of its
  pending queue, every other machine processes it at once, recursively.
\<close>

definition process_code ::
  "('c, 'v, 'err, 'q) machine_env \<Rightarrow> flat_code \<Rightarrow> ('v variant_value \<Rightarrow> ('c, 'v, 'err, 'q, unit) machine_step)
    \<Rightarrow> 'v option \<Rightarrow> 'v option \<Rightarrow> rust_expr \<Rightarrow> ('c, 'v, 'err, 'q, unit) machine_step" where
  "process_code env code rec sd ed x = with_core (\<lambda>k.
     let e = event_expr env x (machine_context k) sd ed in
     if fc_async_queue code then pend_event env e else rec e)"

text \<open>
  \<open>while let Some(e) = self.deferred.pop()\<close>: queued events go to the pending queue of an
  asynchronous machine; otherwise each is processed, and one that is rejected is dropped.
\<close>

definition drain_step ::
  "('c, 'v, 'err, 'q) machine_env \<Rightarrow> flat_code \<Rightarrow> ('v variant_value \<Rightarrow> ('c, 'v, 'err, 'q, unit) machine_step)
    \<Rightarrow> ('c, 'v, 'err, 'q, bool) machine_step" where
  "drain_step env code rec =
     bind (pop_deferred env) (\<lambda>popped.
       case popped of
         None \<Rightarrow> ret False
       | Some e \<Rightarrow>
           then_do
             (if fc_async_queue code then pend_event env e
              else catch (rec e)
                (\<lambda>err. if err = InvalidEvent \<or> err = TransitionsFailed then ret () else raise err))
             (ret True))"

definition drain_deferred ::
  "('c, 'v, 'err, 'q) machine_env \<Rightarrow> flat_code \<Rightarrow> ('v variant_value \<Rightarrow> ('c, 'v, 'err, 'q, unit) machine_step)
    \<Rightarrow> nat \<Rightarrow> ('c, 'v, 'err, 'q, unit) machine_step" where
  "drain_deferred env code rec n =
     (if fc_has_deferred code then while_ok n (drain_step env code rec) else ret ())"

section \<open>Transitions\<close>

definition trigger_of :: "candidate \<Rightarrow> 'v option \<Rightarrow> 'err option \<Rightarrow> ('v, 'err) trigger_data" where
  "trigger_of cd ed err =
     (if cd_kind cd = Exception \<and> \<not> cd_wildcard cd
      then (case err of Some e \<Rightarrow> ErrorData e | None \<Rightarrow> NoData)
      else (case ed of Some v \<Rightarrow> EventData v | None \<Rightarrow> NoData))"

definition exit_state ::
  "('c, 'v, 'err, 'q) machine_env \<Rightarrow> flat_code \<Rightarrow> string \<Rightarrow> ('c, 'v, 'err, 'q, unit) machine_step" where
  "exit_state env code s = with_core (\<lambda>k.
     if exit_skip k then update (\<lambda>k. k\<lparr>exit_skip := False\<rparr>)
     else then_do (call_exit_hook env s) (run_lifecycle env (fc_exit_actions code) s))"

definition enter_state ::
  "('c, 'v, 'err, 'q) machine_env \<Rightarrow> flat_code \<Rightarrow> string \<Rightarrow> ('c, 'v, 'err, 'q, unit) machine_step" where
  "enter_state env code s =
     then_do (call_entry_hook env s) (run_lifecycle env (fc_entry_actions code) s)"

text \<open>
  From the transition callback to the state-change log: the old state's payload is dropped with
  it, and \<open>exit_skip\<close> is cleared in the same breath.
\<close>

definition replace_state :: "string \<Rightarrow> 'v variant_value \<Rightarrow> ('c, 'v, 'err, 'q, unit) machine_step" where
  "replace_state from out_state = update (\<lambda>k.
     observe (StateChangeLog from (variant out_state))
       ((observe (TransitionCallback (variant (state k)) (variant out_state)) k)
          \<lparr>state := out_state, exit_skip := False\<rparr>))"

text \<open>\<open>actions\<close> runs between leaving the old state and replacing it; a failure leaves \<open>exit_skip\<close> set.\<close>

definition change_state ::
  "('c, 'v, 'err, 'q) machine_env \<Rightarrow> flat_code \<Rightarrow> candidate \<Rightarrow> ('c, 'v, 'err, 'q, 'v option) machine_step
    \<Rightarrow> ('c, 'v, 'err, 'q, unit) machine_step" where
  "change_state env code cd actions =
     then_do (exit_state env code (cd_in_state cd))
       (then_do (update (\<lambda>k. k\<lparr>exit_skip := True\<rparr>))
       (bind actions (\<lambda>data.
          let data' = (if cd_default_output cd then Some (default_data env (cd_out_state cd)) else data) in
          then_do (replace_state (cd_in_state cd) (Variant (cd_out_state cd) data'))
            (enter_state env code (cd_out_state cd)))))"

definition run_transition ::
  "('c, 'v, 'err, 'q) machine_env \<Rightarrow> flat_code \<Rightarrow> ('v variant_value \<Rightarrow> ('c, 'v, 'err, 'q, unit) machine_step)
    \<Rightarrow> nat \<Rightarrow> candidate \<Rightarrow> 'v option \<Rightarrow> 'v option \<Rightarrow> 'err option
    \<Rightarrow> ('c, 'v, 'err, 'q, bool) machine_step \<Rightarrow> ('c, 'v, 'err, 'q, bool) machine_step" where
  "run_transition env code rec n cd sd ed err finish =
     (let actions = run_actions env (cd_event cd) sd ed (trigger_of cd ed err) (cd_steps cd) None;
          defer_code = (if cd_defer cd then defer_event env (Variant (cd_event cd) ed) else ret ());
          processes = for_each (process_code env code rec sd ed) (cd_process cd)
      in if cd_internal cd
         then then_do actions (then_do defer_code (then_do processes finish))
         else then_do (change_state env code cd actions)
           (then_do defer_code (then_do processes (then_do (drain_deferred env code rec n) finish))))"

text \<open>
  One candidate: \<open>Some b\<close> is \<open>return Ok(b)\<close> (\<open>return Ok(&self.state)\<close> counts as \<open>True\<close>), \<open>None\<close> falls
  through to the next candidate. Only normal and unexpected triggers ask the dispatch strategy.
\<close>

definition run_candidate ::
  "('c, 'v, 'err, 'q) machine_env \<Rightarrow> flat_code \<Rightarrow> ('v variant_value \<Rightarrow> ('c, 'v, 'err, 'q, unit) machine_step)
    \<Rightarrow> nat \<Rightarrow> candidate \<Rightarrow> 'v option \<Rightarrow> 'v option \<Rightarrow> 'err option
    \<Rightarrow> ('c, 'v, 'err, 'q, bool) machine_step \<Rightarrow> ('c, 'v, 'err, 'q, bool option) machine_step" where
  "run_candidate env code rec n cd sd0 ed0 err finish =
     (let sd = (if cd_state_data cd then sd0 else None);
          ed = (if cd_event_data cd then ed0 else None);
          dispatched = (if cd_kind cd = Normal \<or> cd_kind cd = Unexpected
            then dispatch_candidate_fn env (cd_in_state cd) (cd_event cd) (cd_index cd) else True);
          body = bind (run_transition env code rec n cd sd ed err finish) (\<lambda>b. ret (Some b))
      in if dispatched
         then (case cd_guard cd of
             None \<Rightarrow> body
           | Some g \<Rightarrow> bind (guard_passed env (cd_event cd) sd ed g) (\<lambda>b. if b then body else ret None))
         else ret None)"

fun run_block ::
  "('c, 'v, 'err, 'q) machine_env \<Rightarrow> flat_code \<Rightarrow> ('v variant_value \<Rightarrow> ('c, 'v, 'err, 'q, unit) machine_step)
    \<Rightarrow> nat \<Rightarrow> candidate list \<Rightarrow> 'v option \<Rightarrow> 'v option \<Rightarrow> 'err option
    \<Rightarrow> ('c, 'v, 'err, 'q, bool) machine_step \<Rightarrow> ('c, 'v, 'err, 'q, bool) machine_step
    \<Rightarrow> ('c, 'v, 'err, 'q, bool) machine_step" where
  "run_block env code rec n [] sd ed err finish otherwise = otherwise"
| "run_block env code rec n (cd # cds) sd ed err finish otherwise =
     bind (run_candidate env code rec n cd sd ed err finish) (\<lambda>r.
       case r of Some b \<Rightarrow> ret b | None \<Rightarrow> run_block env code rec n cds sd ed err finish otherwise)"

section \<open>Completions and exceptions\<close>

datatype 'v completion_origin = OriginEvent "'v variant_value" | AnyCompletion

definition arms_of_state :: "flat_code \<Rightarrow> string \<Rightarrow> state_arms option" where
  "arms_of_state code s = find (\<lambda>a. sa_state a = s) (fc_arms code)"

definition find_arm :: "arm list \<Rightarrow> string \<Rightarrow> arm option" where
  "find_arm arms e = find (\<lambda>a. arm_wildcard a \<or> arm_event a = e) arms"

definition process_completion ::
  "('c, 'v, 'err, 'q) machine_env \<Rightarrow> flat_code \<Rightarrow> ('v variant_value \<Rightarrow> ('c, 'v, 'err, 'q, unit) machine_step)
    \<Rightarrow> nat \<Rightarrow> 'v completion_origin \<Rightarrow> ('c, 'v, 'err, 'q, bool) machine_step" where
  "process_completion env code rec n origin = with_core (\<lambda>k.
     let sd = payload (state k);
         block = (\<lambda>a ed. run_block env code rec n (arm_block a) sd ed None (ret True) (ret False))
     in case arms_of_state code (variant (state k)) of
       None \<Rightarrow> ret False
     | Some arms \<Rightarrow>
         (case (case origin of OriginEvent e \<Rightarrow> find_arm (sa_completion arms) (variant e) | AnyCompletion \<Rightarrow> None) of
            Some a \<Rightarrow> block a (case origin of OriginEvent e \<Rightarrow> payload e | AnyCompletion \<Rightarrow> None)
          | None \<Rightarrow>
              (case sa_anonymous_completion arms of
                 Some a \<Rightarrow> block a None
               | None \<Rightarrow> ret False)))"

definition process_anonymous_completion ::
  "('c, 'v, 'err, 'q) machine_env \<Rightarrow> flat_code \<Rightarrow> ('v variant_value \<Rightarrow> ('c, 'v, 'err, 'q, unit) machine_step)
    \<Rightarrow> nat \<Rightarrow> ('c, 'v, 'err, 'q, bool) machine_step" where
  "process_anonymous_completion env code rec n = with_core (\<lambda>k.
     case arms_of_state code (variant (state k)) of
       None \<Rightarrow> ret False
     | Some arms \<Rightarrow>
         (case sa_anonymous_completion arms of
            None \<Rightarrow> ret False
          | Some a \<Rightarrow>
              run_block env code rec n (arm_block a) (payload (state k)) None None (ret True) (ret False)))"

text \<open>
  \<open>process_exception\<close>: the error's payload is bound when the machine has a fixed error type; an
  error that is no guard or action failure is then passed on.
\<close>

fun callback_error :: "'err machine_error \<Rightarrow> 'err option" where
  "callback_error (GuardFailed e) = Some e"
| "callback_error (ActionFailed e) = Some e"
| "callback_error _ = None"

definition process_exception ::
  "('c, 'v, 'err, 'q) machine_env \<Rightarrow> flat_code \<Rightarrow> ('v variant_value \<Rightarrow> ('c, 'v, 'err, 'q, unit) machine_step)
    \<Rightarrow> nat \<Rightarrow> 'err machine_error \<Rightarrow> ('c, 'v, 'err, 'q, bool) machine_step" where
  "process_exception env code rec n error = with_core (\<lambda>k.
     if fc_fixed_error code \<and> callback_error error = None then raise error
     else case arms_of_state code (variant (state k)) of
       None \<Rightarrow> raise error
     | Some arms \<Rightarrow>
         (case sa_exception arms of
            None \<Rightarrow> raise error
          | Some block \<Rightarrow>
              run_block env code rec n block (payload (state k)) None
                (if fc_fixed_error code then callback_error error else None) (ret True) (raise error)))"

section \<open>Dispatch\<close>

text \<open>\<open>capture_completion_origin\<close>: what later completions of this event's run are matched against.\<close>

definition completion_origin_of :: "flat_code \<Rightarrow> 'v variant_value \<Rightarrow> 'v completion_origin option" where
  "completion_origin_of code e =
     (if fc_has_completion code
      then (if variant e \<in> set (fc_completion_events code) then Some (OriginEvent e)
            else if fc_has_anonymous_completion code then Some AnyCompletion else None)
      else None)"

definition finish_dispatch ::
  "('c, 'v, 'err, 'q) machine_env \<Rightarrow> flat_code \<Rightarrow> ('v variant_value \<Rightarrow> ('c, 'v, 'err, 'q, unit) machine_step)
    \<Rightarrow> nat \<Rightarrow> 'v completion_origin option \<Rightarrow> ('c, 'v, 'err, 'q, bool) machine_step" where
  "finish_dispatch env code rec n origin =
     (case origin of
        None \<Rightarrow> ret True
      | Some o' \<Rightarrow> then_do (while_ok n (process_completion env code rec n o')) (ret True))"

text \<open>
  \<open>match self.state { .. => match event { .. } }\<close>: a normal arm first, then the specific
  \<open>unexpected<..>\<close> arm, then \<open>unexpected<_>\<close>. The state match is exhaustive in Rust.
\<close>

definition select_arm :: "state_arms \<Rightarrow> string \<Rightarrow> arm option" where
  "select_arm arms e =
     (case find_arm (sa_normal arms) e of
        Some a \<Rightarrow> Some a
      | None \<Rightarrow>
          (case find_arm (sa_unexpected arms) e of
             Some a \<Rightarrow> Some a
           | None \<Rightarrow> sa_unexpected_wildcard arms))"

definition match_event ::
  "('c, 'v, 'err, 'q) machine_env \<Rightarrow> flat_code \<Rightarrow> ('v variant_value \<Rightarrow> ('c, 'v, 'err, 'q, unit) machine_step)
    \<Rightarrow> nat \<Rightarrow> 'v variant_value \<Rightarrow> ('c, 'v, 'err, 'q, bool) machine_step" where
  "match_event env code rec n e = with_core (\<lambda>k.
     case arms_of_state code (variant (state k)) of
       None \<Rightarrow> raise InvalidEvent
     | Some arms \<Rightarrow>
         (case select_arm arms (variant e) of
            None \<Rightarrow> raise InvalidEvent
          | Some a \<Rightarrow>
              run_block env code rec n (arm_block a) (payload (state k)) (payload e) None
                (finish_dispatch env code rec n (completion_origin_of code e))
                (raise TransitionsFailed)))"

definition event_dispatch ::
  "('c, 'v, 'err, 'q) machine_env \<Rightarrow> flat_code \<Rightarrow> ('v variant_value \<Rightarrow> ('c, 'v, 'err, 'q, unit) machine_step)
    \<Rightarrow> nat \<Rightarrow> 'v variant_value \<Rightarrow> ('c, 'v, 'err, 'q, bool) machine_step" where
  "event_dispatch env code rec n e =
     (if fc_has_exception code
      then catch (match_event env code rec n e) (\<lambda>error.
        if callback_error error \<noteq> None then process_exception env code rec n error else raise error)
      else match_event env code rec n e)"

text \<open>The body of \<open>__sml_process_event_unlocked\<close> and \<open>dispatch_queued\<close>.\<close>

definition dispatch_event ::
  "('c, 'v, 'err, 'q) machine_env \<Rightarrow> flat_code \<Rightarrow> ('v variant_value \<Rightarrow> ('c, 'v, 'err, 'q, unit) machine_step)
    \<Rightarrow> nat \<Rightarrow> 'v variant_value \<Rightarrow> ('c, 'v, 'err, 'q, unit) machine_step" where
  "dispatch_event env code rec n e =
     then_do (update (observe (ProcessEventLog (variant e))))
       (if dispatch_fn env (variant e)
        then then_do (event_dispatch env code rec n e) (ret ())
        else raise InvalidEvent)"

primrec process_event_sync ::
  "nat \<Rightarrow> ('c, 'v, 'err, 'q) machine_env \<Rightarrow> flat_code \<Rightarrow> 'v variant_value
    \<Rightarrow> ('c, 'v, 'err, 'q, unit) machine_step" where
  "process_event_sync 0 env code e = (\<lambda>_. None)"
| "process_event_sync (Suc n) env code e = dispatch_event env code (process_event_sync n env code) n e"

text \<open>With a pending queue no code calls back into \<open>process_event\<close>; the recursive call is never used.\<close>

definition process_event_async ::
  "nat \<Rightarrow> ('c, 'v, 'err, 'q) machine_env \<Rightarrow> flat_code \<Rightarrow> 'v variant_value
    \<Rightarrow> ('c, 'v, 'err, 'q, unit) machine_step" where
  "process_event_async n env code e =
     then_do (pend_event env e)
       (while_ok n (bind (pop_pending env) (\<lambda>popped.
          case popped of
            None \<Rightarrow> ret False
          | Some e' \<Rightarrow> then_do (dispatch_event env code (\<lambda>_ _. None) n e') (ret True))))"

definition process_event_unlocked ::
  "nat \<Rightarrow> ('c, 'v, 'err, 'q) machine_env \<Rightarrow> flat_code \<Rightarrow> 'v variant_value
    \<Rightarrow> ('c, 'v, 'err, 'q, unit) machine_step" where
  "process_event_unlocked n env code e =
     (if fc_async_queue code then process_event_async n env code e else process_event_sync n env code e)"

section \<open>Construction, initialization and queries\<close>

definition new_core ::
  "('c, 'v, 'err, 'q) machine_env \<Rightarrow> flat_code \<Rightarrow> 'c \<Rightarrow> 'v option \<Rightarrow> ('c, 'v, 'q) core" where
  "new_core env code ctx data =
     \<lparr>state = Variant (fc_starting_state code) data, exit_skip = False, machine_context = ctx,
      deferred = queue_new env, pending = queue_new env, observed = []\<rparr>"

definition initialize_unlocked ::
  "nat \<Rightarrow> ('c, 'v, 'err, 'q) machine_env \<Rightarrow> flat_code \<Rightarrow> ('c, 'v, 'err, 'q, unit) machine_step" where
  "initialize_unlocked n env code =
     then_do (with_core (\<lambda>k. enter_state env code (variant (state k))))
       (if fc_has_anonymous_completion code
        then while_ok n (process_anonymous_completion env code (process_event_unlocked n env code) n)
        else ret ())"

text \<open>\<open>set_current_states\<close> of the testing interface returns the state it replaces.\<close>

definition set_current_states ::
  "('c, 'v, 'q) core \<Rightarrow> 'v variant_value \<Rightarrow> ('c, 'v, 'q) core \<times> 'v variant_value" where
  "set_current_states k s = (k\<lparr>exit_skip := False, state := s\<rparr>, state k)"

definition core_is :: "('c, 'v, 'q) core \<Rightarrow> 'v variant_value \<Rightarrow> bool" where
  "core_is k expected \<longleftrightarrow> variant (state k) = variant expected"

definition is_terminated :: "flat_code \<Rightarrow> ('c, 'v, 'q) core \<Rightarrow> bool" where
  "is_terminated code k \<longleftrightarrow> fc_has_terminal code \<and> variant (state k) = ''X''"

section \<open>Histories\<close>

text \<open>The cores a machine can be in after \<open>new\<close>, \<open>initialize\<close> and any calls of \<open>process_event\<close>.\<close>

inductive reachable :: "('c, 'v, 'err, 'q) machine_env \<Rightarrow> flat_code \<Rightarrow> ('c, 'v, 'q) core \<Rightarrow> bool"
  for env code where
  initialized: "initialize_unlocked n env code (new_core env code ctx data) = Some (k, r) \<Longrightarrow> reachable env code k"
| processed: "reachable env code k \<Longrightarrow> process_event_unlocked n env code e k = Some (k', r) \<Longrightarrow>
    reachable env code k'"

end
