(* ===== verification/Flat_Runs.thy ===== *)
theory Flat_Runs
  imports Flat_Machine
begin

text \<open>
  General facts about runs of flat machines: more fuel never changes an answer, candidates of the
  generated code carry the state of their arm, and rules that reduce an invariant of a whole run
  to the one step that replaces the state.
\<close>

section \<open>Fuel\<close>

lemma process_code_mono [step_mono]:
  "(\<And>e. refines (rec e) (rec' e)) \<Longrightarrow>
    refines (process_code env code rec sd ed x) (process_code env code rec' sd ed x)"
  by (auto simp: process_code_def Let_def intro!: step_mono)

lemma drain_deferred_mono [step_mono]:
  "(\<And>e. refines (rec e) (rec' e)) \<Longrightarrow> n \<le> n' \<Longrightarrow>
    refines (drain_deferred env code rec n) (drain_deferred env code rec' n')"
  by (auto simp: drain_deferred_def drain_step_def intro!: step_mono)

lemma run_transition_mono [step_mono]:
  assumes "\<And>e. refines (rec e) (rec' e)" "n \<le> n'" "refines finish finish'"
  shows "refines (run_transition env code rec n cd sd ed err finish)
    (run_transition env code rec' n' cd sd ed err finish')"
  unfolding run_transition_def Let_def using assms
  by (intro step_mono) auto

lemma run_candidate_mono [step_mono]:
  assumes "\<And>e. refines (rec e) (rec' e)" "n \<le> n'" "refines finish finish'"
  shows "refines (run_candidate env code rec n cd sd ed err finish)
    (run_candidate env code rec' n' cd sd ed err finish')"
  unfolding run_candidate_def Let_def using assms
  by (intro step_mono) auto

lemma run_block_mono [step_mono]:
  assumes "\<And>e. refines (rec e) (rec' e)" "n \<le> n'" "refines finish finish'" "refines otherwise otherwise'"
  shows "refines (run_block env code rec n cds sd ed err finish otherwise)
    (run_block env code rec' n' cds sd ed err finish' otherwise')"
  using assms
proof (induction cds)
  case (Cons cd cds)
  then show ?case
    unfolding run_block.simps by (intro step_mono) auto
qed simp

lemma process_completion_mono [step_mono]:
  assumes "\<And>e. refines (rec e) (rec' e)" "n \<le> n'"
  shows "refines (process_completion env code rec n origin) (process_completion env code rec' n' origin)"
  unfolding process_completion_def Let_def using assms by (intro step_mono) auto

lemma process_anonymous_completion_mono [step_mono]:
  assumes "\<And>e. refines (rec e) (rec' e)" "n \<le> n'"
  shows "refines (process_anonymous_completion env code rec n) (process_anonymous_completion env code rec' n')"
  unfolding process_anonymous_completion_def using assms by (intro step_mono) auto

lemma process_exception_mono [step_mono]:
  assumes "\<And>e. refines (rec e) (rec' e)" "n \<le> n'"
  shows "refines (process_exception env code rec n err) (process_exception env code rec' n' err)"
  unfolding process_exception_def using assms by (intro step_mono) auto

lemma finish_dispatch_mono [step_mono]:
  assumes "\<And>e. refines (rec e) (rec' e)" "n \<le> n'"
  shows "refines (finish_dispatch env code rec n origin) (finish_dispatch env code rec' n' origin)"
  unfolding finish_dispatch_def using assms by (intro step_mono) auto

lemma dispatch_event_mono [step_mono]:
  assumes "\<And>e. refines (rec e) (rec' e)" "n \<le> n'"
  shows "refines (dispatch_event env code rec n e) (dispatch_event env code rec' n' e)"
  unfolding dispatch_event_def event_dispatch_def match_event_def using assms by (intro step_mono) auto

lemma process_event_sync_mono:
  "n \<le> n' \<Longrightarrow> refines (process_event_sync n env code e) (process_event_sync n' env code e)"
proof (induction n arbitrary: n' e)
  case 0
  then show ?case by (simp add: refines_def)
next
  case (Suc n)
  then obtain m where m: "n' = Suc m" "n \<le> m" by (cases n') auto
  then show ?case by (auto intro!: dispatch_event_mono Suc.IH)
qed

lemma process_event_async_mono:
  "n \<le> n' \<Longrightarrow> refines (process_event_async n env code e) (process_event_async n' env code e)"
  unfolding process_event_async_def by (intro step_mono) auto

lemma process_event_unlocked_mono [step_mono]:
  "n \<le> n' \<Longrightarrow> refines (process_event_unlocked n env code e) (process_event_unlocked n' env code e)"
  unfolding process_event_unlocked_def by (simp add: process_event_sync_mono process_event_async_mono)

section \<open>Candidates of generated code\<close>

definition state_blocks :: "state_arms \<Rightarrow> candidate list list" where
  "state_blocks arms =
     map arm_block (sa_normal arms @ sa_unexpected arms @
       (case sa_unexpected_wildcard arms of None \<Rightarrow> [] | Some a \<Rightarrow> [a]) @
       sa_completion arms @ (case sa_anonymous_completion arms of None \<Rightarrow> [] | Some a \<Rightarrow> [a])) @
     (case sa_exception arms of None \<Rightarrow> [] | Some b \<Rightarrow> [b])"

definition state_candidates :: "state_arms \<Rightarrow> candidate set" where
  "state_candidates arms = \<Union> (set ` set (state_blocks arms))"

definition code_candidates :: "flat_code \<Rightarrow> candidate set" where
  "code_candidates code = \<Union> (state_candidates ` set (fc_arms code))"

text \<open>The candidates of a state's arms leave that state.\<close>

definition candidates_in_place :: "flat_code \<Rightarrow> bool" where
  "candidates_in_place code \<longleftrightarrow>
     (\<forall>arms \<in> set (fc_arms code). \<forall>cd \<in> state_candidates arms. cd_in_state cd = sa_state arms)"

lemma arms_of_stateD:
  "arms_of_state code s = Some arms \<Longrightarrow> arms \<in> set (fc_arms code) \<and> sa_state arms = s"
  by (auto simp: arms_of_state_def find_Some_iff)

lemma find_armD: "find_arm arms e = Some a \<Longrightarrow> a \<in> set arms"
  by (auto simp: find_arm_def find_Some_iff)

lemma select_arm_blocks: "select_arm arms e = Some a \<Longrightarrow> arm_block a \<in> set (state_blocks arms)"
  by (auto simp: select_arm_def state_blocks_def dest!: find_armD split: option.splits)

section \<open>Invariants of runs\<close>

text \<open>
  What a property must satisfy to hold of the core in every run: callbacks and queue operations
  keep it, and \<open>replacing P code\<close> says that leaving and entering a state along a candidate does.
\<close>

definition callbacks_keep :: "(('c, 'v, 'q) core \<Rightarrow> bool) \<Rightarrow> bool" where
  "callbacks_keep P \<longleftrightarrow>
     (\<forall>k c. P k \<longrightarrow> P (k\<lparr>machine_context := c\<rparr>)) \<and>
     (\<forall>k q. P k \<longrightarrow> P (k\<lparr>deferred := q\<rparr>)) \<and>
     (\<forall>k q. P k \<longrightarrow> P (k\<lparr>pending := q\<rparr>)) \<and>
     (\<forall>k x. P k \<longrightarrow> (case x of ProcessEventLog _ \<Rightarrow> True | GuardLog _ _ _ \<Rightarrow> True | ActionLog _ _ \<Rightarrow> True | _ \<Rightarrow> False)
        \<longrightarrow> P (observe x k))"

lemma callbacks_keepD:
  assumes "callbacks_keep P" "P k"
  shows "P (k\<lparr>machine_context := c\<rparr>)" "P (k\<lparr>deferred := q\<rparr>)" "P (k\<lparr>pending := q\<rparr>)"
    "P (observe (ProcessEventLog e) k)" "P (observe (GuardLog g e b) k)" "P (observe (ActionLog a e) k)"
  using assms unfolding callbacks_keep_def by simp_all

lemma eval_guard_keeps:
  assumes "\<And>s a. P s \<Longrightarrow> P (fst (call s a))" "P s"
  shows "P (fst (eval_guard call s g))"
  using assms(2)
proof (induction g arbitrary: s)
  case (Not e)
  from Not.IH [OF Not.prems] show ?case by (auto split: prod.splits)
next
  case (And l r)
  from And.IH(1) [OF And.prems] And.IH(2) show ?case
    by (auto split: prod.splits sum.splits)
next
  case (Or l r)
  from Or.IH(1) [OF Or.prems] Or.IH(2) show ?case
    by (auto split: prod.splits sum.splits)
qed (simp_all add: assms(1))

text \<open>Guards and actions change the context and the log only.\<close>

definition observers_keep :: "(('c, 'v, 'q) core \<Rightarrow> bool) \<Rightarrow> bool" where
  "observers_keep P \<longleftrightarrow>
     (\<forall>k c. P k \<longrightarrow> P (k\<lparr>machine_context := c\<rparr>)) \<and>
     (\<forall>k x. P k \<longrightarrow> (case x of ProcessEventLog _ \<Rightarrow> True | GuardLog _ _ _ \<Rightarrow> True | ActionLog _ _ \<Rightarrow> True | _ \<Rightarrow> False)
        \<longrightarrow> P (observe x k))"

lemma observers_keepD:
  assumes "observers_keep P" "P k"
  shows "P (k\<lparr>machine_context := c\<rparr>)" "P (observe (GuardLog g e b) k)" "P (observe (ActionLog a e) k)"
  using assms unfolding observers_keep_def by simp_all

lemma callbacks_observers: "callbacks_keep P \<Longrightarrow> observers_keep P"
  by (simp add: callbacks_keep_def observers_keep_def)

lemma guard_passed_observed: "observers_keep P \<Longrightarrow> preserves P (guard_passed env e sd ed g)"
  unfolding guard_passed_def
  by (rule preserves_lift_step, rule eval_guard_keeps)
     (auto simp: call_guard_def observers_keepD split: sum.splits)

lemma call_action_observed: "observers_keep P \<Longrightarrow> preserves P (call_action env e sd td a)"
  unfolding call_action_def
  by (rule preserves_lift_step) (auto simp: observers_keepD split: prod.splits sum.splits)

lemma run_actions_observed: "observers_keep P \<Longrightarrow> preserves P (run_actions env e sd ed td steps data)"
proof (induction steps arbitrary: data)
  case (Cons x steps)
  then show ?case
    by (cases x) (auto intro!: step_inv guard_passed_observed call_action_observed)
qed (auto intro: triple_ret)

lemma run_lifecycle_observed: "observers_keep P \<Longrightarrow> preserves P (run_lifecycle env table s)"
  unfolding run_lifecycle_def by (intro step_inv call_action_observed)

lemmas guard_passed_keeps [step_inv] = guard_passed_observed [OF callbacks_observers]
lemmas call_action_keeps [step_inv] = call_action_observed [OF callbacks_observers]
lemmas run_actions_keeps [step_inv] = run_actions_observed [OF callbacks_observers]
lemmas run_lifecycle_keeps [step_inv] = run_lifecycle_observed [OF callbacks_observers]

lemma queue_steps_keep [step_inv]:
  assumes "callbacks_keep P"
  shows "preserves P (defer_event env e)" "preserves P (pend_event env e)"
    "preserves P (pop_deferred env)" "preserves P (pop_pending env)"
  unfolding defer_event_def pend_event_def pop_deferred_def pop_pending_def
  using assms
  by (auto intro!: preserves_lift_step simp: push_queue_def callbacks_keepD split: prod.splits)

lemma process_code_keeps [step_inv]:
  "callbacks_keep P \<Longrightarrow> (\<And>e. preserves P (rec e)) \<Longrightarrow> preserves P (process_code env code rec sd ed x)"
  unfolding process_code_def Let_def by (intro step_inv) auto

lemma drain_deferred_keeps [step_inv]:
  "callbacks_keep P \<Longrightarrow> (\<And>e. preserves P (rec e)) \<Longrightarrow> preserves P (drain_deferred env code rec n)"
  unfolding drain_deferred_def drain_step_def by (intro step_inv) (auto intro!: step_inv)

text \<open>The obligation of a property: changing the state along a candidate keeps it, even when it fails.\<close>

definition change_keeps ::
  "(('c, 'v, 'q) core \<Rightarrow> bool) \<Rightarrow> ('c, 'v, 'err, 'q) machine_env \<Rightarrow> flat_code \<Rightarrow> candidate \<Rightarrow> bool" where
  "change_keeps P env code cd \<longleftrightarrow>
     (\<forall>sd ed td steps. triple (\<lambda>k. P k \<and> variant (state k) = cd_in_state cd)
       (change_state env code cd (run_actions env (cd_event cd) sd ed td steps None)) (\<lambda>_. P) P)"

definition run_invariant ::
  "(('c, 'v, 'q) core \<Rightarrow> bool) \<Rightarrow> ('c, 'v, 'err, 'q) machine_env \<Rightarrow> flat_code \<Rightarrow> bool" where
  "run_invariant P env code \<longleftrightarrow>
     callbacks_keep P \<and> candidates_in_place code \<and>
     (\<forall>cd \<in> code_candidates code. \<not> cd_internal cd \<longrightarrow> change_keeps P env code cd)"

lemma callbacks_keep_in_state:
  "callbacks_keep P \<Longrightarrow> callbacks_keep (\<lambda>k. P k \<and> variant (state k) = s)"
  unfolding callbacks_keep_def by (simp add: observe_def)

lemma run_transition_keeps:
  fixes P :: "('c, 'v, 'q) core \<Rightarrow> bool" and finish :: "('c, 'v, 'err, 'q, bool) machine_step"
  assumes keep: "callbacks_keep P" and change: "\<not> cd_internal cd \<Longrightarrow> change_keeps P env code cd"
    and rec: "\<And>e. preserves P (rec e)" and finish: "preserves P finish"
  shows "triple (\<lambda>k. P k \<and> variant (state k) = cd_in_state cd)
    (run_transition env code rec n cd sd ed err finish) (\<lambda>_. P) P"
proof -
  let ?acts = "run_actions env (cd_event cd) sd ed (trigger_of cd ed err) (cd_steps cd) None"
  have tail: "preserves P (then_do (if cd_defer cd then defer_event env (Variant (cd_event cd) ed) else ret ())
      (then_do (for_each (process_code env code rec sd ed) (cd_process cd)) m))" if "preserves P m" for m :: "('c, 'v, 'err, 'q, bool) machine_step"
    using keep rec that by (intro step_inv) auto
  show ?thesis
  proof (cases "cd_internal cd")
    case True
    have "preserves P (run_transition env code rec n cd sd ed err finish)"
      using preserves_then_do [OF run_actions_keeps [OF keep] tail [OF finish]] True
      by (simp add: run_transition_def)
    then show ?thesis by (rule triple_pre [rotated]) simp
  next
    case False
    have c: "triple (\<lambda>k. P k \<and> variant (state k) = cd_in_state cd) (change_state env code cd ?acts) (\<lambda>_. P) P"
      using change [OF False] unfolding change_keeps_def by blast
    have d: "preserves P (then_do (drain_deferred env code rec n) finish)"
      using keep rec finish by (intro step_inv) auto
    show ?thesis
      unfolding run_transition_def Let_def if_not_P [OF False]
      by (rule triple_then_do [OF c tail [OF d]])
  qed
qed

lemma run_candidate_keeps:
  assumes keep: "callbacks_keep P" and change: "\<not> cd_internal cd \<Longrightarrow> change_keeps P env code cd"
    and rec: "\<And>e. preserves P (rec e)" and finish: "preserves P finish"
  shows "triple (\<lambda>k. P k \<and> variant (state k) = cd_in_state cd)
    (run_candidate env code rec n cd sd ed err finish)
    (\<lambda>r k. P k \<and> (r = None \<longrightarrow> variant (state k) = cd_in_state cd)) P"
proof -
  let ?I = "\<lambda>k. P k \<and> variant (state k) = cd_in_state cd"
  let ?Q = "\<lambda>r k. P k \<and> (r = None \<longrightarrow> variant (state k) = cd_in_state cd)"
  note trans = run_transition_keeps [OF keep change rec finish]
  have body: "triple ?I (bind (run_transition env code rec n cd sd' ed' err finish) (\<lambda>b. ret (Some b))) ?Q P"
    for sd' ed'
    by (rule triple_bind [OF trans]) (auto intro!: triple_ret)
  have none: "triple ?I (ret None) ?Q P" by (rule triple_ret) simp
  have guard: "triple ?I (guard_passed env e sd' ed' g) (\<lambda>_. ?I) P" for e sd' ed' g
    by (rule triple_post [OF guard_passed_keeps [OF callbacks_keep_in_state [OF keep]]]) auto
  show ?thesis
    unfolding run_candidate_def Let_def
    by (auto intro!: triple_if triple_case_option body none triple_bind [OF guard])
qed

lemma run_block_keeps:
  assumes keep: "callbacks_keep P"
    and block: "\<And>cd. cd \<in> set cds \<Longrightarrow> cd_in_state cd = s \<and> (\<not> cd_internal cd \<longrightarrow> change_keeps P env code cd)"
    and rec: "\<And>e. preserves P (rec e)" and finish: "preserves P finish"
    and otherwise: "preserves P otherwise"
  shows "triple (\<lambda>k. P k \<and> variant (state k) = s)
    (run_block env code rec n cds sd ed err finish otherwise) (\<lambda>_. P) P"
  using block
proof (induction cds)
  case Nil
  show ?case using otherwise by (auto intro: triple_pre [rotated])
next
  case (Cons cd cds)
  then have cd: "cd_in_state cd = s" "\<not> cd_internal cd \<Longrightarrow> change_keeps P env code cd" by simp_all
  have rest: "triple (\<lambda>k. P k \<and> variant (state k) = s)
    (run_block env code rec n cds sd ed err finish otherwise) (\<lambda>_. P) P"
    using Cons by simp
  show ?case
    unfolding run_block.simps
  proof (rule triple_bind [OF run_candidate_keeps [OF keep cd(2) rec finish, unfolded cd(1)]])
    fix r
    show "triple (\<lambda>k. P k \<and> (r = None \<longrightarrow> variant (state k) = s))
      (case r of None \<Rightarrow> run_block env code rec n cds sd ed err finish otherwise | Some b \<Rightarrow> ret b) (\<lambda>_. P) P"
      using rest by (cases r) (auto intro: triple_ret)
  qed
qed

lemma state_block_keeps:
  assumes inv: "run_invariant P env code" and arms: "arms_of_state code s = Some arms"
    and block: "cds \<in> set (state_blocks arms)"
    and rec: "\<And>e. preserves P (rec e)" and finish: "preserves P finish" and otherwise: "preserves P otherwise"
  shows "triple (\<lambda>k. P k \<and> variant (state k) = s)
    (run_block env code rec n cds sd ed err finish otherwise) (\<lambda>_. P) P"
proof (rule run_block_keeps [OF _ _ rec finish otherwise])
  show "callbacks_keep P" using inv by (simp add: run_invariant_def)
next
  fix cd assume "cd \<in> set cds"
  with block have "cd \<in> state_candidates arms" by (auto simp: state_candidates_def)
  with arms_of_stateD [OF arms] inv show "cd_in_state cd = s \<and> (\<not> cd_internal cd \<longrightarrow> change_keeps P env code cd)"
    by (auto simp: run_invariant_def candidates_in_place_def code_candidates_def)
qed

lemma at_core_block:
  assumes inv: "run_invariant P env code" and arms: "arms_of_state code (variant (state k0)) = Some arms"
    and block: "cds \<in> set (state_blocks arms)"
    and rec: "\<And>e. preserves P (rec e)" and finish: "preserves P finish" and otherwise: "preserves P otherwise"
  shows "triple (\<lambda>k. k = k0 \<and> P k) (run_block env code rec n cds sd ed err finish otherwise) (\<lambda>_. P) P"
  by (rule triple_pre [OF _ state_block_keeps [OF assms]]) simp

lemma process_completion_keeps [step_inv]:
  assumes inv: "run_invariant P env code" and rec: "\<And>e. preserves P (rec e)"
  shows "preserves P (process_completion env code rec n origin)"
  unfolding process_completion_def Let_def
proof (rule triple_with_core)
  fix k0 :: "('a, 'b, 'c) core"
  have stop: "triple (\<lambda>k. k = k0 \<and> P k) (ret False) (\<lambda>_. P) P" by (rule triple_ret) simp
  note block = at_core_block [OF inv _ _ rec triple_ret triple_ret]
  show "triple (\<lambda>k. k = k0 \<and> P k)
     (case arms_of_state code (variant (state k0)) of None \<Rightarrow> ret False
      | Some arms \<Rightarrow>
          (case case origin of OriginEvent e \<Rightarrow> find_arm (sa_completion arms) (variant e) | AnyCompletion \<Rightarrow> None of
             None \<Rightarrow> (case sa_anonymous_completion arms of None \<Rightarrow> ret False
               | Some a \<Rightarrow> run_block env code rec n (arm_block a) (payload (state k0)) None None (ret True) (ret False))
           | Some a \<Rightarrow> run_block env code rec n (arm_block a) (payload (state k0))
               (case origin of OriginEvent e \<Rightarrow> payload e | AnyCompletion \<Rightarrow> None) None (ret True) (ret False)))
     (\<lambda>_. P) P"
    by (intro triple_case_option stop block)
       (auto simp: state_blocks_def dest!: find_armD split: completion_origin.splits)
qed

lemma process_anonymous_completion_keeps [step_inv]:
  assumes inv: "run_invariant P env code" and rec: "\<And>e. preserves P (rec e)"
  shows "preserves P (process_anonymous_completion env code rec n)"
  unfolding process_anonymous_completion_def
  by (rule triple_with_core, intro triple_case_option at_core_block [OF inv _ _ rec triple_ret triple_ret])
     (auto simp: state_blocks_def intro: triple_ret)

lemma process_exception_keeps [step_inv]:
  assumes inv: "run_invariant P env code" and rec: "\<And>e. preserves P (rec e)"
  shows "preserves P (process_exception env code rec n err)"
  unfolding process_exception_def
  by (rule triple_with_core, intro triple_if triple_case_option at_core_block [OF inv _ _ rec triple_ret triple_raise])
     (auto simp: state_blocks_def intro: triple_raise)

lemma finish_dispatch_keeps [step_inv]:
  assumes inv: "run_invariant P env code" and rec: "\<And>e. preserves P (rec e)"
  shows "preserves P (finish_dispatch env code rec n origin)"
  unfolding finish_dispatch_def
  by (intro preserves_case_option preserves_then_do preserves_while_ok process_completion_keeps [OF inv rec])
     (auto intro: triple_ret)

lemma match_event_keeps [step_inv]:
  assumes inv: "run_invariant P env code" and rec: "\<And>e. preserves P (rec e)"
  shows "preserves P (match_event env code rec n e)"
  unfolding match_event_def
  by (rule triple_with_core,
      intro triple_case_option at_core_block [OF inv _ _ rec finish_dispatch_keeps [OF inv rec] triple_raise])
     (auto dest: select_arm_blocks intro: triple_raise)

lemma dispatch_event_keeps [step_inv]:
  assumes inv: "run_invariant P env code" and rec: "\<And>e. preserves P (rec e)"
  shows "preserves P (dispatch_event env code rec n e)"
proof -
  have keep: "callbacks_keep P" using inv by (simp add: run_invariant_def)
  have log: "preserves P (update (observe (ProcessEventLog (variant e))))"
    by (rule preserves_update) (rule callbacks_keepD [OF keep])
  have "preserves P (event_dispatch env code rec n e)"
    unfolding event_dispatch_def
    by (intro triple_if preserves_catch match_event_keeps [OF inv rec] process_exception_keeps [OF inv rec])
       (auto intro: triple_raise)
  then show ?thesis
    unfolding dispatch_event_def
    by (intro preserves_then_do log triple_if) (auto intro: triple_raise triple_ret preserves_then_do)
qed

theorem process_event_keeps [step_inv]:
  assumes inv: "run_invariant P env code"
  shows "preserves P (process_event_unlocked n env code e)"
proof -
  have sync: "preserves P (process_event_sync n env code e)" for n e
  proof (induction n arbitrary: e)
    case (Suc n)
    then show ?case by (simp add: dispatch_event_keeps [OF inv])
  qed simp
  have keep: "callbacks_keep P" using inv by (simp add: run_invariant_def)
  have "preserves P (process_event_async n env code e)"
    unfolding process_event_async_def
    by (intro preserves_then_do preserves_while_ok preserves_bind preserves_case_option
        queue_steps_keep [OF keep] dispatch_event_keeps [OF inv])
       (auto intro: triple_ret)
  with sync show ?thesis unfolding process_event_unlocked_def by (cases "fc_async_queue code") simp_all
qed

lemma initialize_keeps:
  assumes inv: "run_invariant P env code"
    and enter: "triple P0 (with_core (\<lambda>k. enter_state env code (variant (state k)))) (\<lambda>_. P) E"
    and E: "\<And>k. P k \<Longrightarrow> E k"
  shows "triple P0 (initialize_unlocked n env code) (\<lambda>_. P) E"
proof -
  have "preserves P (if fc_has_anonymous_completion code
        then while_ok n (process_anonymous_completion env code (process_event_unlocked n env code) n)
        else ret ())"
    by (intro triple_if preserves_while_ok process_anonymous_completion_keeps [OF inv process_event_keeps [OF inv]]
        triple_ret)
  then have "triple P (if fc_has_anonymous_completion code
        then while_ok n (process_anonymous_completion env code (process_event_unlocked n env code) n)
        else ret ()) (\<lambda>_. P) E"
    by (rule triple_post) (simp_all add: E)
  then show ?thesis
    unfolding initialize_unlocked_def by (rule triple_then_do [OF enter])
qed

section \<open>The code the generator emits\<close>

lemma try_map_Inr:
  "try_map f xs = Inr ys \<Longrightarrow> list_all2 (\<lambda>x y. f x = Inr y) xs ys"
  by (induction xs arbitrary: ys) (auto simp: try_then_Inr_iff)

lemma try_map_member:
  assumes "try_map f xs = Inr ys" "y \<in> set ys"
  obtains x where "x \<in> set xs" "f x = Inr y"
  using try_map_Inr [OF assms(1)] assms(2)
  by (auto simp: list_all2_conv_all_nth in_set_conv_nth) (metis nth_mem)

lemma find_lastD: "find_last p xs = Some x \<Longrightarrow> x \<in> set xs \<and> p x"
  by (auto simp: find_last_def find_Some_iff) (metis nth_mem length_rev set_rev)

lemma arms_of_kindD: "a \<in> set (arms_of_kind k as) \<Longrightarrow> a \<in> snd ` set as"
  by (auto simp: arms_of_kind_def image_iff) force

lemma find_in_set: "find p xs = Some x \<Longrightarrow> x \<in> set xs"
  by (auto simp: find_Some_iff)

lemma generated_arms:
  assumes "generate_state_arms sm entry = Inr arms" "b \<in> set (state_blocks arms)"
    and as: "try_map (generate_arm sm (fst entry)) (map snd (snd entry)) = Inr as"
  shows "\<exists>a \<in> snd ` set as. b = arm_block a"
proof -
  let ?from = "\<lambda>a. a \<in> snd ` set as"
  have arms: "\<forall>a \<in> set (sa_normal arms). ?from a" "\<forall>a \<in> set (sa_unexpected arms). ?from a"
    "\<forall>a \<in> set (sa_completion arms). ?from a"
    "\<forall>a. Some a = sa_unexpected_wildcard arms \<longrightarrow> ?from a"
    "\<forall>a. Some a = sa_anonymous_completion arms \<longrightarrow> ?from a"
    using assms(1) as
    by (auto simp: generate_state_arms_def Let_def dest!: arms_of_kindD find_lastD [OF sym])
  have exc: "\<exists>a. ?from a \<and> b = arm_block a" if "Some b = sa_exception arms" for b
  proof -
    from assms(1) as that obtain a where "a \<in> set (arms_of_kind Exception as)" "b = arm_block a"
      by (auto simp: generate_state_arms_def Let_def map_option_case dest!: find_in_set split: option.splits)
    then show ?thesis by (auto dest: arms_of_kindD)
  qed
  have "(\<exists>a. b = arm_block a \<and> (a \<in> set (sa_normal arms) \<or> a \<in> set (sa_unexpected arms) \<or>
        a \<in> set (sa_completion arms) \<or> Some a = sa_unexpected_wildcard arms \<or>
        Some a = sa_anonymous_completion arms)) \<or> Some b = sa_exception arms"
    using assms(2) unfolding state_blocks_def
    by (simp split: option.splits) blast+
  then have "\<exists>a. ?from a \<and> b = arm_block a"
    using arms exc by (elim disjE exE conjE) metis+
  then show ?thesis by (elim exE conjE) (rule bexI)
qed

lemma generated_blocks:
  assumes "generate_state_arms sm entry = Inr arms" "b \<in> set (state_blocks arms)"
  obtains m where "m \<in> set (map snd (snd entry))" "code_block sm (fst entry) m = Inr b"
proof -
  obtain as where as: "try_map (generate_arm sm (fst entry)) (map snd (snd entry)) = Inr as"
    using assms(1) by (auto simp: generate_state_arms_def try_then_Inr_iff)
  from generated_arms [OF assms as] obtain k a where a: "(k, a) \<in> set as" "b = arm_block a" by auto
  from try_map_member [OF as a(1)] obtain m where m: "m \<in> set (map snd (snd entry))"
    "generate_arm sm (fst entry) m = Inr (k, a)" by blast
  from m(2) a(2) have "code_block sm (fst entry) m = Inr b"
    by (auto simp: generate_arm_def try_then_Inr_iff)
  with m(1) show thesis by (rule that)
qed

lemma generated_candidates:
  assumes "code_block sm s m = Inr b" "cd \<in> set b"
  obtains i t where "t \<in> set (m_transitions m)" "generate_candidate sm s m i t = Inr cd"
  using assms
  by (auto simp: code_block_def in_set_enumerate_eq elim!: try_map_member) (metis nth_mem)

lemma generate_code_arms:
  assumes "generate_code sm = Inr code" "arms \<in> set (fc_arms code)"
  obtains entry where "entry \<in> set (p_states_events_mapping sm)" "generate_state_arms sm entry = Inr arms"
  using assms
  by (auto simp: generate_code_def Let_def try_then_Inr_iff split: if_splits elim: try_map_member)

text \<open>Where a candidate of the generated code comes from: one row of the parsed machine's map.\<close>

lemma code_candidates_rows:
  assumes "generate_code sm = Inr code" "cd \<in> code_candidates code"
  obtains s ms m t i where "(s, ms) \<in> set (p_states_events_mapping sm)" "m \<in> snd ` set ms"
    "t \<in> set (m_transitions m)" "generate_candidate sm s m i t = Inr cd"
proof -
  from assms(2) obtain arms b where "arms \<in> set (fc_arms code)" "b \<in> set (state_blocks arms)" "cd \<in> set b"
    by (auto simp: code_candidates_def state_candidates_def)
  from generate_code_arms [OF assms(1) this(1)] obtain s ms where
    e: "(s, ms) \<in> set (p_states_events_mapping sm)" "generate_state_arms sm (s, ms) = Inr arms" by auto
  from generated_blocks [OF e(2) \<open>b \<in> _\<close>] obtain m where
    m: "m \<in> snd ` set ms" "code_block sm s m = Inr b" by auto
  from generated_candidates [OF m(2) \<open>cd \<in> set b\<close>] obtain i t where
    "t \<in> set (m_transitions m)" "generate_candidate sm s m i t = Inr cd" .
  with e(1) m(1) show thesis by (rule that)
qed

lemma generate_candidate_fields:
  assumes "generate_candidate sm s m i t = Inr cd"
  shows "cd_in_state cd = s" "cd_out_state cd = t_out_state t" "cd_internal cd = t_internal t"
    "cd_defer cd = t_defer t" "cd_process cd = t_process_events t" "cd_kind cd = m_event_kind m"
    "cd_event cd = m_event m" "cd_guard cd = t_guard t"
  using assms by (auto simp: generate_candidate_def Let_def try_then_Inr_iff)

lemma generated_in_place:
  assumes "generate_code sm = Inr code"
  shows "candidates_in_place code"
  unfolding candidates_in_place_def
proof (intro ballI)
  fix arms cd assume arms: "arms \<in> set (fc_arms code)" and cd: "cd \<in> state_candidates arms"
  from generate_code_arms [OF assms arms] obtain entry where
    entry: "generate_state_arms sm entry = Inr arms" by blast
  from cd obtain b where b: "b \<in> set (state_blocks arms)" "cd \<in> set b" by (auto simp: state_candidates_def)
  from generated_blocks [OF entry b(1)] obtain m where "code_block sm (fst entry) m = Inr b" by blast
  from generated_candidates [OF this b(2)] obtain i t where "generate_candidate sm (fst entry) m i t = Inr cd"
    by blast
  moreover have "sa_state arms = fst entry"
    using entry by (auto simp: generate_state_arms_def Let_def try_then_Inr_iff)
  ultimately show "cd_in_state cd = sa_state arms" by (simp add: generate_candidate_fields)
qed

end
