(* ===== verification/Flat_Props.thy ===== *)
theory Flat_Props
  imports Flat_Runs
begin

text \<open>
  Properties of generated flat machines: which rows can change the state, the exit/entry
  discipline, what a rejected event leaves behind, which candidate runs, the order of a
  transition's steps, and when \<open>process_event\<close> returns.
\<close>

section \<open>State changes follow the table\<close>

definition table_change :: "parsed_state_machine \<Rightarrow> string \<Rightarrow> string \<Rightarrow> bool" where
  "table_change sm from to \<longleftrightarrow>
     (\<exists>(s, ms) \<in> set (p_states_events_mapping sm). s = from \<and>
       (\<exists>m \<in> snd ` set ms. \<exists>t \<in> set (m_transitions m). t_out_state t = to \<and> \<not> t_internal t))"

text \<open>The logged changes of state; \<open>table_path sm a cs b\<close>: they lead from \<open>a\<close> to \<open>b\<close>, each along a row.\<close>

definition logged_changes :: "observation list \<Rightarrow> (string \<times> string) list" where
  "logged_changes obs = concat (map (\<lambda>x. case x of StateChangeLog a b \<Rightarrow> [(a, b)] | _ \<Rightarrow> []) obs)"

fun table_path :: "parsed_state_machine \<Rightarrow> string \<Rightarrow> (string \<times> string) list \<Rightarrow> string \<Rightarrow> bool" where
  "table_path sm a [] b \<longleftrightarrow> a = b"
| "table_path sm a ((x, y) # cs) b \<longleftrightarrow> a = x \<and> table_change sm x y \<and> table_path sm y cs b"

lemma table_path_snoc: "table_path sm a cs b \<Longrightarrow> table_change sm b c \<Longrightarrow> table_path sm a (cs @ [(b, c)]) c"
  by (induction sm a cs b rule: table_path.induct) auto

lemma logged_changes_append: "logged_changes (xs @ ys) = logged_changes xs @ logged_changes ys"
  by (simp add: logged_changes_def)

text \<open>The changes since the log was \<open>before\<close> and the state was \<open>a\<close>.\<close>

definition moved_along :: "parsed_state_machine \<Rightarrow> (string \<times> string) list \<Rightarrow> string \<Rightarrow> ('c, 'v, 'q) core \<Rightarrow> bool" where
  "moved_along sm before a k \<longleftrightarrow>
     (\<exists>cs. logged_changes (observed k) = before @ cs \<and> table_path sm a cs (variant (state k)))"

lemma moved_along_callbacks: "callbacks_keep (moved_along sm before a)"
  unfolding callbacks_keep_def moved_along_def
  by (auto simp: observe_def logged_changes_append) (auto simp: logged_changes_def split: observation.splits)

lemma moved_along_update:
  "moved_along sm before a (k\<lparr>exit_skip := b\<rparr>) = moved_along sm before a k"
  "moved_along sm before a (k\<lparr>machine_context := c\<rparr>) = moved_along sm before a k"
  "moved_along sm before a (observe (EntryHook s) k) = moved_along sm before a k"
  "moved_along sm before a (observe (ExitHook s) k) = moved_along sm before a k"
  by (simp_all add: moved_along_def observe_def logged_changes_append) (simp_all add: logged_changes_def)

lemma moved_along_change:
  assumes "table_change sm (cd_in_state cd) (cd_out_state cd)"
  shows "change_keeps (moved_along sm before a) env code cd"
  unfolding change_keeps_def
proof (intro allI)
  fix sd ed td steps
  let ?P = "moved_along sm before a" and ?s = "cd_in_state cd"
  let ?K = "\<lambda>k. ?P k \<and> variant (state k) = ?s"
  note keep = moved_along_callbacks [of sm before a]
  note keepK = callbacks_keep_in_state [OF keep, of ?s]
  have exit: "preserves ?K (exit_state env code ?s)"
    unfolding exit_state_def call_exit_hook_def
    by (intro preserves_with_core triple_if preserves_then_do run_lifecycle_keeps [OF keepK] preserves_update)
      (auto simp: moved_along_def logged_changes_def)
  have skip: "preserves ?K (update (\<lambda>k. k\<lparr>exit_skip := True\<rparr>))"
    by (intro preserves_update) (simp add: moved_along_update)
  have replace: "triple ?K (replace_state ?s (Variant (cd_out_state cd) data)) (\<lambda>_. ?P) ?P" for data
    unfolding replace_state_def
    by (rule triple_update)
      (auto simp: moved_along_def observe_def logged_changes_append, auto simp: logged_changes_def intro: table_path_snoc assms)
  have enter: "preserves ?P (enter_state env code s)" for s
    unfolding enter_state_def call_entry_hook_def
    by (intro preserves_then_do run_lifecycle_keeps [OF keep] preserves_update) (auto simp: moved_along_def logged_changes_def)
  show "triple ?K (change_state env code cd (run_actions env (cd_event cd) sd ed td steps None)) (\<lambda>_. ?P) ?P"
    unfolding change_state_def Let_def
    by (rule triple_then_do [OF triple_post [OF exit]
          triple_then_do [OF triple_post [OF skip] triple_bind [OF triple_post [OF run_actions_keeps [OF keepK]]
            triple_then_do [OF replace enter]]]]) simp_all
qed

lemma moved_along_invariant:
  assumes "generate_code sm = Inr code"
  shows "run_invariant (moved_along sm before a) env code"
  unfolding run_invariant_def
proof (intro conjI ballI impI)
  fix cd assume cd: "cd \<in> code_candidates code" "\<not> cd_internal cd"
  from code_candidates_rows [OF assms this(1)] obtain s ms m t i where
    row: "(s, ms) \<in> set (p_states_events_mapping sm)" "m \<in> snd ` set ms" "t \<in> set (m_transitions m)"
    and gen: "generate_candidate sm s m i t = Inr cd" .
  have "table_change sm s (t_out_state t)"
    unfolding table_change_def using row cd(2) generate_candidate_fields(3) [OF gen] by blast
  then show "change_keeps (moved_along sm before a) env code cd"
    by (intro moved_along_change) (simp add: generate_candidate_fields [OF gen])
qed (rule moved_along_callbacks, rule generated_in_place [OF assms])

section \<open>Exits and entries\<close>

text \<open>
  The discipline of the hooks as an automaton over the observations: the state is left by its exit
  hook, replaced, and the new state's entry hook runs, in this order and never twice.
\<close>

datatype hook_phase = Entered | Exited | Arriving

fun hook_step :: "observation \<Rightarrow> string \<times> hook_phase \<Rightarrow> (string \<times> hook_phase) option" where
  "hook_step (ExitHook s) (cur, ph) = (if s = cur \<and> ph = Entered then Some (cur, Exited) else None)"
| "hook_step (StateChangeLog from to) (cur, ph) = (if from = cur \<and> ph = Exited then Some (to, Arriving) else None)"
| "hook_step (EntryHook s) (cur, ph) = (if s = cur \<and> ph = Arriving then Some (cur, Entered) else None)"
| "hook_step _ x = Some x"

fun hook_replay :: "string \<times> hook_phase \<Rightarrow> observation list \<Rightarrow> (string \<times> hook_phase) option" where
  "hook_replay x [] = Some x"
| "hook_replay x (obs # rest) = (case hook_step obs x of None \<Rightarrow> None | Some x' \<Rightarrow> hook_replay x' rest)"

lemma hook_replay_append:
  "hook_replay x (xs @ ys) = (case hook_replay x xs of None \<Rightarrow> None | Some x' \<Rightarrow> hook_replay x' ys)"
  by (induction xs arbitrary: x) (auto split: option.splits)

definition hooks_at :: "string \<times> hook_phase \<Rightarrow> string \<times> hook_phase \<Rightarrow> ('c, 'v, 'q) core \<Rightarrow> bool" where
  "hooks_at start x k \<longleftrightarrow> hook_replay start (observed k) = Some x \<and> variant (state k) = fst x"

text \<open>The token \<open>exit_skip\<close> says exactly whether the current state's exit hook has already run.\<close>

definition hooks_balanced :: "string \<times> hook_phase \<Rightarrow> ('c, 'v, 'q) core \<Rightarrow> bool" where
  "hooks_balanced start k \<longleftrightarrow>
     hooks_at start (variant (state k), if exit_skip k then Exited else Entered) k"

lemma hooks_at_callbacks: "callbacks_keep (hooks_at start x)"
  unfolding callbacks_keep_def hooks_at_def
  by (auto simp: hook_replay_append split: observation.splits)

lemma hooks_balanced_callbacks: "callbacks_keep (hooks_balanced start)"
  unfolding callbacks_keep_def hooks_balanced_def hooks_at_def
  by (auto simp: hook_replay_append split: observation.splits)

lemma callbacks_keep_skip: "callbacks_keep P \<Longrightarrow> callbacks_keep (\<lambda>k. P k \<and> exit_skip k)"
  unfolding callbacks_keep_def by simp

lemma hooks_balancedI:
  "hooks_at start (s, ph) k \<Longrightarrow> ph = (if exit_skip k then Exited else Entered) \<Longrightarrow> hooks_balanced start k"
  by (auto simp: hooks_balanced_def hooks_at_def)

lemma hooks_at_obs:
  "hooks_at start (s, Entered) k \<Longrightarrow> hooks_at start (s, Exited) (observe (ExitHook s) (k\<lparr>machine_context := c\<rparr>))"
  "hooks_at start (s, Arriving) k \<Longrightarrow> hooks_at start (s, Entered) (observe (EntryHook s) (k\<lparr>machine_context := c\<rparr>))"
  "hooks_at start x (k\<lparr>exit_skip := b\<rparr>) = hooks_at start x k"
  by (auto simp: hooks_at_def hook_replay_append)

text \<open>No \<open>on_exit<_>\<close> action fails.\<close>

definition exit_actions_succeed :: "('c, 'v, 'err, 'q) machine_env \<Rightarrow> flat_code \<Rightarrow> bool" where
  "exit_actions_succeed env code \<longleftrightarrow>
     (\<forall>s as a c. map_of (fc_exit_actions code) s = Some as \<longrightarrow> a \<in> set as \<longrightarrow>
       is_ok (snd (action_fn env (ident a) c None NoData)))"

lemma exit_lifecycle_succeeds:
  assumes "exit_actions_succeed env code" "callbacks_keep P"
  shows "triple P (run_lifecycle env (fc_exit_actions code) s) (\<lambda>_. P) (\<lambda>_. False)"
proof -
  have call: "triple P (call_action env [] None NoData a) (\<lambda>_. P) (\<lambda>_. False)"
    if "map_of (fc_exit_actions code) s = Some as" "a \<in> set as" for as a
    unfolding call_action_def
  proof (rule triple_lift_step)
    fix k assume "P k"
    moreover have "is_ok (snd (action_fn env (ident a) (machine_context k) None NoData))"
      using assms(1) that unfolding exit_actions_succeed_def by blast
    then obtain c v where "action_fn env (ident a) (machine_context k) None NoData = (c, Inr v)"
      by (cases "action_fn env (ident a) (machine_context k) None NoData") (auto simp: is_ok_iff)
    ultimately show "case snd (case action_fn env (ident a) (machine_context k) None NoData of
          (c, Inl e) \<Rightarrow> (k\<lparr>machine_context := c\<rparr>, Err (ActionFailed e))
        | (c, Inr v) \<Rightarrow> (observe (ActionLog (ident a) []) (k\<lparr>machine_context := c\<rparr>), Ok v)) of
        Inl _ \<Rightarrow> False
      | Inr _ \<Rightarrow> P (fst (case action_fn env (ident a) (machine_context k) None NoData of
          (c, Inl e) \<Rightarrow> (k\<lparr>machine_context := c\<rparr>, Err (ActionFailed e))
        | (c, Inr v) \<Rightarrow> (observe (ActionLog (ident a) []) (k\<lparr>machine_context := c\<rparr>), Ok v)))"
      using assms(2) by (simp add: callbacks_keepD)
  qed
  have loop: "triple P (for_each (call_action env [] None NoData) as) (\<lambda>_. P) (\<lambda>_. False)"
    if "\<And>a. a \<in> set as \<Longrightarrow> triple P (call_action env [] None NoData a) (\<lambda>_. P) (\<lambda>_. False)" for as
    using that by (induction as) (auto intro: triple_then_do triple_ret)
  show ?thesis
    unfolding run_lifecycle_def using call loop by (cases "map_of (fc_exit_actions code) s") (auto intro: triple_ret)
qed

lemma hooks_balanced_change:
  assumes "exit_actions_succeed env code"
  shows "change_keeps (hooks_balanced start) env code cd"
  unfolding change_keeps_def
proof (intro allI)
  fix sd ed td steps
  let ?I = "hooks_balanced start" and ?s = "cd_in_state cd" and ?t = "cd_out_state cd"
  let ?J = "hooks_at start (?s, Exited)" and ?K = "\<lambda>k. hooks_at start (?s, Exited) k \<and> exit_skip k"
  let ?L = "\<lambda>k. hooks_at start (?t, Arriving) k \<and> \<not> exit_skip k"
  have left: "triple (\<lambda>k. k = k0 \<and> ?I k \<and> variant (state k) = ?s)
      (if exit_skip k0 then update (\<lambda>k. k\<lparr>exit_skip := False\<rparr>)
       else then_do (call_exit_hook env ?s) (run_lifecycle env (fc_exit_actions code) ?s)) (\<lambda>_. ?J) ?I" for k0
  proof (rule triple_if)
    assume "exit_skip k0"
    then show "triple (\<lambda>k. k = k0 \<and> ?I k \<and> variant (state k) = ?s) (update (\<lambda>k. k\<lparr>exit_skip := False\<rparr>)) (\<lambda>_. ?J) ?I"
      by (intro triple_update) (auto simp: hooks_balanced_def hooks_at_obs)
  next
    assume "\<not> exit_skip k0"
    then have "triple (\<lambda>k. k = k0 \<and> ?I k \<and> variant (state k) = ?s) (call_exit_hook env ?s) (\<lambda>_. ?J) ?I"
      unfolding call_exit_hook_def
      by (intro triple_update) (auto simp: hooks_balanced_def intro: hooks_at_obs)
    moreover have "triple ?J (run_lifecycle env (fc_exit_actions code) ?s) (\<lambda>_. ?J) ?I"
      by (rule triple_post [OF exit_lifecycle_succeeds [OF assms hooks_at_callbacks]]) simp_all
    ultimately show "triple (\<lambda>k. k = k0 \<and> ?I k \<and> variant (state k) = ?s)
      (then_do (call_exit_hook env ?s) (run_lifecycle env (fc_exit_actions code) ?s)) (\<lambda>_. ?J) ?I"
      by (rule triple_then_do)
  qed
  have exit: "triple (\<lambda>k. ?I k \<and> variant (state k) = ?s) (exit_state env code ?s) (\<lambda>_. ?J) ?I"
    unfolding exit_state_def by (rule triple_with_core) (use left in simp)
  have skip: "triple ?J (update (\<lambda>k. k\<lparr>exit_skip := True\<rparr>)) (\<lambda>_. ?K) ?I"
    by (rule triple_update) (simp add: hooks_at_obs)
  have K: "callbacks_keep ?K"
    by (rule callbacks_keep_skip [OF hooks_at_callbacks])
  have acts: "triple ?K (run_actions env (cd_event cd) sd ed td steps None) (\<lambda>_. ?K) ?I"
    by (rule triple_post [OF run_actions_keeps [OF K]]) (auto intro: hooks_balancedI)
  have replace: "triple ?K (replace_state ?s (Variant ?t data)) (\<lambda>_. ?L) ?I" for data
    unfolding replace_state_def
    by (rule triple_update) (auto simp: hooks_at_def hook_replay_append)
  have hook: "triple ?L (call_entry_hook env ?t) (\<lambda>_. ?I) ?I"
    unfolding call_entry_hook_def
    by (rule triple_update) (auto intro!: hooks_balancedI hooks_at_obs)
  have enter: "triple ?L (enter_state env code ?t) (\<lambda>_. ?I) ?I"
    unfolding enter_state_def
    by (rule triple_then_do [OF hook run_lifecycle_keeps [OF hooks_balanced_callbacks]])
  show "triple (\<lambda>k. ?I k \<and> variant (state k) = ?s)
    (change_state env code cd (run_actions env (cd_event cd) sd ed td steps None)) (\<lambda>_. ?I) ?I"
    unfolding change_state_def Let_def
    by (rule triple_then_do [OF exit triple_then_do [OF skip triple_bind [OF acts triple_then_do [OF replace enter]]]])
qed

lemma hooks_balanced_invariant:
  assumes "generate_code sm = Inr code" "exit_actions_succeed env code"
  shows "run_invariant (hooks_balanced start) env code"
  unfolding run_invariant_def
  using hooks_balanced_callbacks generated_in_place [OF assms(1)] hooks_balanced_change [OF assms(2)] by blast

lemma hooks_balanced_reachable:
  assumes "generate_code sm = Inr code" "exit_actions_succeed env code" "reachable env code k"
  shows "hooks_balanced (fc_starting_state code, Arriving) k"
  using assms(3)
proof induction
  case (initialized n ctx data k r)
  let ?s = "fc_starting_state code" and ?start = "(fc_starting_state code, Arriving)"
  let ?P0 = "\<lambda>k. hooks_at ?start ?start k \<and> \<not> exit_skip k"
  have hook: "triple ?P0 (call_entry_hook env ?s) (\<lambda>_. hooks_balanced ?start) (hooks_balanced ?start)"
    unfolding call_entry_hook_def
    by (rule triple_update) (auto intro!: hooks_balancedI hooks_at_obs)
  have "triple ?P0 (enter_state env code ?s) (\<lambda>_. hooks_balanced ?start) (hooks_balanced ?start)"
    unfolding enter_state_def
    by (rule triple_then_do [OF hook run_lifecycle_keeps [OF hooks_balanced_callbacks]])
  then have "triple ?P0 (with_core (\<lambda>k. enter_state env code (variant (state k))))
      (\<lambda>_. hooks_balanced ?start) (hooks_balanced ?start)"
    unfolding triple_def with_core_def hooks_at_def by auto
  from initialize_keeps [OF hooks_balanced_invariant [OF assms(1,2)] this]
  have "triple ?P0 (initialize_unlocked n env code) (\<lambda>_. hooks_balanced ?start) (hooks_balanced ?start)" by simp
  moreover have "?P0 (new_core env code ctx data)" by (simp add: new_core_def hooks_at_def)
  ultimately show ?case
    using initialized by (cases r) (auto dest: triple_value triple_error)
next
  case (processed k n e k' r)
  then show ?case
    using preservesD [OF process_event_keeps [OF hooks_balanced_invariant [OF assms(1,2)]]] by blast
qed

end
