(* ===== verification/Flat_Dispatch.thy ===== *)
theory Flat_Dispatch
  imports Flat_Props
begin

text \<open>
  Which row of the table an event runs. The \<open>match\<close> arms of the generated code pick the same
  mapping as a search of the parsed table; within it the first enabled candidate runs.
\<close>

section \<open>Arms and mappings\<close>

definition select_mapping :: "event_mappings \<Rightarrow> string \<Rightarrow> event_mapping option" where
  "select_mapping ms e =
     (case find (\<lambda>m. m_event_kind m = Normal \<and> (m_event_wildcard m \<or> m_event m = e)) (map snd ms) of
        Some m \<Rightarrow> Some m
      | None \<Rightarrow>
          (case find (\<lambda>m. m_event_kind m = Unexpected \<and> \<not> m_event_wildcard m \<and> m_event m = e) (map snd ms) of
             Some m \<Rightarrow> Some m
           | None \<Rightarrow> find_last (\<lambda>m. m_event_kind m = Unexpected \<and> m_event_wildcard m) (map snd ms)))"

definition arm_of_mapping :: "parsed_state_machine \<Rightarrow> string \<Rightarrow> event_mapping \<Rightarrow> arm \<Rightarrow> bool" where
  "arm_of_mapping sm s m a \<longleftrightarrow>
     arm_event a = m_event m \<and> arm_wildcard a = m_event_wildcard m \<and> code_block sm s m = Inr (arm_block a)"

lemma find_map_snd_filter:
  "find p (map snd (filter (\<lambda>(k', _). k' = k) xs)) = map_option snd (find (\<lambda>(k', a). k' = k \<and> p a) xs)"
  by (induction xs) auto

lemma find_filter: "find p (filter q xs) = find (\<lambda>x. q x \<and> p x) xs"
  by (induction xs) auto

lemma find_rel:
  assumes "list_all2 R xs ys" "\<And>x y. R x y \<Longrightarrow> p x = q y"
  shows "rel_option R (find p xs) (find q ys)"
  using assms by (induction rule: list_all2_induct) auto

lemma find_last_rel:
  "list_all2 R xs ys \<Longrightarrow> (\<And>x y. R x y \<Longrightarrow> p x = q y) \<Longrightarrow> rel_option R (find_last p xs) (find_last q ys)"
  unfolding find_last_def by (rule find_rel) simp_all

lemma find_arms_of_kind:
  assumes "try_map (generate_arm sm s) ms = Inr as"
  shows "rel_option (arm_of_mapping sm s)
      (find (\<lambda>m. m_event_kind m = k \<and> P (m_event m) (m_event_wildcard m)) ms)
      (find (\<lambda>a. P (arm_event a) (arm_wildcard a)) (arms_of_kind k as))"
    "rel_option (arm_of_mapping sm s)
      (find_last (\<lambda>m. m_event_kind m = k \<and> P (m_event m) (m_event_wildcard m)) ms)
      (find_last (\<lambda>a. P (arm_event a) (arm_wildcard a)) (arms_of_kind k as))"
proof -
  let ?R = "\<lambda>m ka. fst ka = m_event_kind m \<and> arm_of_mapping sm s m (snd ka)"
  have R: "list_all2 ?R ms as"
    using try_map_Inr [OF assms]
    by (rule list_all2_mono) (auto simp: generate_arm_def arm_of_mapping_def try_then_Inr_iff)
  have agree: "?R m ka \<Longrightarrow> (m_event_kind m = k \<and> P (m_event m) (m_event_wildcard m)) =
      (case ka of (k', a) \<Rightarrow> k' = k \<and> P (arm_event a) (arm_wildcard a))" for m ka
    by (auto simp: arm_of_mapping_def)
  have up: "rel_option ?R x y \<Longrightarrow> rel_option (arm_of_mapping sm s) x (map_option snd y)" for x y
    by (cases x; cases y) auto
  show "rel_option (arm_of_mapping sm s)
      (find (\<lambda>m. m_event_kind m = k \<and> P (m_event m) (m_event_wildcard m)) ms)
      (find (\<lambda>a. P (arm_event a) (arm_wildcard a)) (arms_of_kind k as))"
    unfolding arms_of_kind_def find_map_snd_filter by (rule up [OF find_rel [OF R agree]])
  have last: "find_last p (map snd (filter (\<lambda>(k', _). k' = k) xs)) =
      map_option snd (find_last (\<lambda>(k', a). k' = k \<and> p a) xs)" for p xs
    unfolding find_last_def using find_map_snd_filter [of p k "rev xs"] by (simp add: rev_map rev_filter)
  show "rel_option (arm_of_mapping sm s)
      (find_last (\<lambda>m. m_event_kind m = k \<and> P (m_event m) (m_event_wildcard m)) ms)
      (find_last (\<lambda>a. P (arm_event a) (arm_wildcard a)) (arms_of_kind k as))"
    unfolding arms_of_kind_def last by (rule up [OF find_last_rel [OF R agree]])
qed

lemma select_arm_mapping:
  assumes "generate_state_arms sm (s, ms) = Inr arms"
  shows "rel_option (arm_of_mapping sm s) (select_mapping ms e) (select_arm arms e)"
proof -
  obtain as where as: "try_map (generate_arm sm s) (map snd ms) = Inr as"
    using assms by (auto simp: generate_state_arms_def try_then_Inr_iff)
  have arms: "sa_normal arms = arms_of_kind Normal as"
    "sa_unexpected arms = filter (\<lambda>a. \<not> arm_wildcard a) (arms_of_kind Unexpected as)"
    "sa_unexpected_wildcard arms = find_last arm_wildcard (arms_of_kind Unexpected as)"
    using assms as by (auto simp: generate_state_arms_def Let_def)
  note normal = find_arms_of_kind(1) [OF as, of Normal "\<lambda>ev w. w \<or> ev = e"]
  note specific = find_arms_of_kind(1) [OF as, of Unexpected "\<lambda>ev w. \<not> w \<and> ev = e"]
  note wildcard = find_arms_of_kind(2) [OF as, of Unexpected "\<lambda>ev w. w"]
  have only: "(\<lambda>a. \<not> arm_wildcard a \<and> (arm_wildcard a \<or> arm_event a = e)) =
      (\<lambda>a. \<not> arm_wildcard a \<and> arm_event a = e)"
    by auto
  show ?thesis
    using normal specific wildcard
    unfolding select_mapping_def select_arm_def find_arm_def arms find_filter only
    by (auto simp: rel_option_iff split: option.splits)
qed

lemma arms_of_generated_state:
  assumes "generate_code sm = Inr code"
  shows "rel_option (\<lambda>ms arms. generate_state_arms sm (s, ms) = Inr arms)
    (map_of (p_states_events_mapping sm) s) (arms_of_state code s)"
proof -
  have gen: "try_map (generate_state_arms sm) (p_states_events_mapping sm) = Inr (fc_arms code)"
    using assms by (auto simp: generate_code_def Let_def try_then_Inr_iff split: if_splits)
  have key: "generate_state_arms sm entry = Inr arms \<Longrightarrow> sa_state arms = fst entry" for entry arms
    by (auto simp: generate_state_arms_def Let_def try_then_Inr_iff)
  from try_map_Inr [OF gen] show ?thesis
    unfolding arms_of_state_def
    by (induction rule: list_all2_induct) (auto dest: key)
qed

section \<open>Events no row accepts\<close>

lemma rejected_event_step:
  assumes "generate_code sm = Inr code" "map_of (p_states_events_mapping sm) (variant (state k)) = Some ms"
    "select_mapping ms (variant e) = None \<or> \<not> dispatch_fn env (variant e)"
  shows "dispatch_event env code rec n e k = Some (observe (ProcessEventLog (variant e)) k, Err InvalidEvent)"
proof -
  obtain arms where arms: "arms_of_state code (variant (state k)) = Some arms"
    "generate_state_arms sm (variant (state k), ms) = Inr arms"
    using arms_of_generated_state [OF assms(1), of "variant (state k)"] assms(2) by (auto simp: rel_option_iff split: option.splits)
  have "select_mapping ms (variant e) = None \<Longrightarrow> select_arm arms (variant e) = None"
    using select_arm_mapping [OF arms(2), of "variant e"] by (simp add: rel_option_iff split: option.splits)
  with assms(3) arms(1) show ?thesis
    by (auto simp: dispatch_event_def event_dispatch_def match_event_def step_defs)
qed

section \<open>The first enabled candidate\<close>

definition block_data :: "candidate \<Rightarrow> ('c, 'v, 'q) core \<Rightarrow> 'v variant_value \<Rightarrow> 'v option \<times> 'v option" where
  "block_data cd k e =
     ((if cd_state_data cd then payload (state k) else None), (if cd_event_data cd then payload e else None))"

text \<open>The value of a guard in a context; only meaningful where the guard does not fail.\<close>

definition guard_value ::
  "('c, 'v, 'err, 'q) machine_env \<Rightarrow> 'c \<Rightarrow> 'v option \<Rightarrow> 'v option \<Rightarrow> async_ident \<Rightarrow> bool" where
  "guard_value env c sd ed g = (case guard_fn env (ident g) c sd ed of Inr b \<Rightarrow> b | Inl _ \<Rightarrow> False)"

definition candidate_enabled ::
  "('c, 'v, 'err, 'q) machine_env \<Rightarrow> ('c, 'v, 'q) core \<Rightarrow> 'v variant_value \<Rightarrow> candidate \<Rightarrow> bool" where
  "candidate_enabled env k e cd \<longleftrightarrow>
     (cd_kind cd = Normal \<or> cd_kind cd = Unexpected \<longrightarrow>
        dispatch_candidate_fn env (cd_in_state cd) (cd_event cd) (cd_index cd)) \<and>
     (case cd_guard cd of None \<Rightarrow> True
      | Some g \<Rightarrow> case block_data cd k e of (sd, ed) \<Rightarrow> guard_holds (guard_value env (machine_context k) sd ed) g)"

definition guards_succeed ::
  "('c, 'v, 'err, 'q) machine_env \<Rightarrow> ('c, 'v, 'q) core \<Rightarrow> 'v variant_value \<Rightarrow> candidate list \<Rightarrow> bool" where
  "guards_succeed env k e cds \<longleftrightarrow>
     (\<forall>cd \<in> set cds. \<forall>g. cd_guard cd = Some g \<longrightarrow>
       (\<forall>a \<in> set (guards_of g). case block_data cd k e of (sd, ed) \<Rightarrow>
          is_ok (guard_fn env (ident a) (machine_context k) sd ed)))"

fun is_guard_log :: "observation \<Rightarrow> bool" where
  "is_guard_log (GuardLog _ _ _) = True"
| "is_guard_log _ = False"

definition only_guard_logs :: "('c, 'v, 'q) core \<Rightarrow> ('c, 'v, 'q) core \<Rightarrow> bool" where
  "only_guard_logs k k' \<longleftrightarrow> (\<exists>logs. list_all is_guard_log logs \<and> k' = k\<lparr>observed := observed k @ logs\<rparr>)"

lemma only_guard_logs_refl [simp]: "only_guard_logs k k"
  unfolding only_guard_logs_def by (rule exI [of _ "[]"]) simp

lemma only_guard_logs_trans [trans]:
  "only_guard_logs k k1 \<Longrightarrow> only_guard_logs k1 k2 \<Longrightarrow> only_guard_logs k k2"
  unfolding only_guard_logs_def
proof (elim exE conjE)
  fix l l' assume "list_all is_guard_log l" "list_all is_guard_log l'" "k1 = k\<lparr>observed := observed k @ l\<rparr>"
    "k2 = k1\<lparr>observed := observed k1 @ l'\<rparr>"
  then show "\<exists>logs. list_all is_guard_log logs \<and> k2 = k\<lparr>observed := observed k @ logs\<rparr>"
    by (intro exI [of _ "l @ l'"]) simp
qed

lemma only_guard_logs_same:
  "only_guard_logs k k' \<Longrightarrow> machine_context k' = machine_context k \<and> state k' = state k \<and>
     exit_skip k' = exit_skip k \<and> deferred k' = deferred k \<and> pending k' = pending k"
  unfolding only_guard_logs_def by auto

lemma eval_guard_succeeds:
  assumes "\<forall>a \<in> set (guards_of g). is_ok (guard_fn env (ident a) (machine_context k) sd ed)"
  shows "\<exists>k'. eval_guard (call_guard env ev sd ed) k g =
      (k', Ok (guard_holds (guard_value env (machine_context k) sd ed) g)) \<and> only_guard_logs k k'"
  using assms
proof (induction g arbitrary: k)
  case (Guard a)
  then obtain b where b: "guard_fn env (ident a) (machine_context k) sd ed = Inr b"
    by (auto simp: is_ok_iff)
  have "only_guard_logs k (observe (GuardLog (ident a) ev b) k)"
    unfolding only_guard_logs_def observe_def by (rule exI [of _ "[GuardLog (ident a) ev b]"]) simp
  with b show ?case by (simp add: call_guard_def guard_value_def)
next
  case (And l r)
  then have lr: "\<forall>a \<in> set (guards_of l). is_ok (guard_fn env (ident a) (machine_context k) sd ed)"
    "\<forall>a \<in> set (guards_of r). is_ok (guard_fn env (ident a) (machine_context k) sd ed)"
    by auto
  obtain k1 where k1: "eval_guard (call_guard env ev sd ed) k l =
      (k1, Ok (guard_holds (guard_value env (machine_context k) sd ed) l))" "only_guard_logs k k1"
    using And.IH(1) [OF lr(1)] by auto
  with And.IH(2) [of k1] lr(2) only_guard_logs_same [OF k1(2)] show ?case
    by (auto intro: only_guard_logs_trans)
next
  case (Or l r)
  then have lr: "\<forall>a \<in> set (guards_of l). is_ok (guard_fn env (ident a) (machine_context k) sd ed)"
    "\<forall>a \<in> set (guards_of r). is_ok (guard_fn env (ident a) (machine_context k) sd ed)"
    by auto
  obtain k1 where k1: "eval_guard (call_guard env ev sd ed) k l =
      (k1, Ok (guard_holds (guard_value env (machine_context k) sd ed) l))" "only_guard_logs k k1"
    using Or.IH(1) [OF lr(1)] by auto
  with Or.IH(2) [of k1] lr(2) only_guard_logs_same [OF k1(2)] show ?case
    by (auto intro: only_guard_logs_trans)
qed fastforce+

text \<open>
  \<open>first_enabled\<close>: what a block of candidates does when no guard fails: guards are logged, then
  the first enabled candidate's transition runs, or, if there is none, what follows the block.
\<close>

lemma run_candidate_enabled:
  assumes "guards_succeed env k e [cd]"
  shows "\<exists>k'. only_guard_logs k k' \<and>
    run_candidate env code rec n cd (payload (state k)) (payload e) err finish k =
      (if candidate_enabled env k e cd
       then bind (run_transition env code rec n cd (fst (block_data cd k e)) (snd (block_data cd k e)) err finish)
         (\<lambda>b. ret (Some b)) k'
       else Some (k', Ok None))"
proof (cases "cd_guard cd")
  case None
  then show ?thesis
    by (intro exI [of _ k])
       (simp add: run_candidate_def candidate_enabled_def block_data_def Let_def ret_def)
next
  case (Some g)
  let ?sd = "fst (block_data cd k e)" and ?ed = "snd (block_data cd k e)"
  have "\<forall>a \<in> set (guards_of g). is_ok (guard_fn env (ident a) (machine_context k) ?sd ?ed)"
    using assms Some by (auto simp: guards_succeed_def split: prod.splits)
  from eval_guard_succeeds [OF this] obtain k' where
    k': "eval_guard (call_guard env (cd_event cd) ?sd ?ed) k g =
      (k', Ok (guard_holds (guard_value env (machine_context k) ?sd ?ed) g))" "only_guard_logs k k'" by blast
  show ?thesis
  proof (cases "cd_kind cd = Normal \<or> cd_kind cd = Unexpected \<longrightarrow>
      dispatch_candidate_fn env (cd_in_state cd) (cd_event cd) (cd_index cd)")
    case True
    with k' Some show ?thesis
      by (intro exI [of _ k'])
         (auto simp: run_candidate_def candidate_enabled_def block_data_def Let_def guard_passed_def
           lift_step_def bind_def [of "\<lambda>k. Some (eval_guard _ k _)"] ret_def)
  next
    case False
    then show ?thesis
      by (intro exI [of _ k]) (auto simp: run_candidate_def candidate_enabled_def Let_def ret_def)
  qed
qed

lemma candidate_enabled_same:
  assumes "only_guard_logs k k'"
  shows "candidate_enabled env k' e = candidate_enabled env k e"
    "block_data cd k' e = block_data cd k e"
    "guards_succeed env k' e cds = guards_succeed env k e cds"
  using only_guard_logs_same [OF assms]
  by (simp_all add: fun_eq_iff candidate_enabled_def block_data_def guards_succeed_def split: option.split)

lemma run_block_first_enabled:
  assumes "guards_succeed env k e cds"
  shows "\<exists>k'. only_guard_logs k k' \<and>
    run_block env code rec n cds (payload (state k)) (payload e) err finish otherwise k =
      (case find (candidate_enabled env k e) cds of
         None \<Rightarrow> otherwise k'
       | Some cd \<Rightarrow>
           run_transition env code rec n cd (fst (block_data cd k e)) (snd (block_data cd k e)) err finish k')"
  using assms
proof (induction cds arbitrary: k)
  case Nil
  then show ?case by (intro exI [of _ k]) simp
next
  case (Cons cd cds)
  then have "guards_succeed env k e [cd]" "guards_succeed env k e cds" by (auto simp: guards_succeed_def)
  from run_candidate_enabled [OF this(1)] obtain k1 where k1: "only_guard_logs k k1"
    "run_candidate env code rec n cd (payload (state k)) (payload e) err finish k =
      (if candidate_enabled env k e cd
       then bind (run_transition env code rec n cd (fst (block_data cd k e)) (snd (block_data cd k e)) err finish)
         (\<lambda>b. ret (Some b)) k1
       else Some (k1, Ok None))" by blast
  show ?case
  proof (cases "candidate_enabled env k e cd")
    case True
    with k1 show ?thesis
      by (intro exI [of _ k1]) (auto simp: bind_def ret_def split: option.splits sum.splits)
  next
    case False
    have "guards_succeed env k1 e cds"
      using \<open>guards_succeed env k e cds\<close> candidate_enabled_same(3) [OF k1(1)] by blast
    from Cons.IH [OF this] obtain k2 where "only_guard_logs k1 k2"
      "run_block env code rec n cds (payload (state k1)) (payload e) err finish otherwise k1 =
      (case find (candidate_enabled env k1 e) cds of
         None \<Rightarrow> otherwise k2
       | Some cd \<Rightarrow>
           run_transition env code rec n cd (fst (block_data cd k1 e)) (snd (block_data cd k1 e)) err finish k2)"
      by blast
    with False k1 only_guard_logs_same [OF k1(1)] show ?thesis
      by (intro exI [of _ k2])
         (auto simp: bind_def candidate_enabled_same [OF k1(1)] intro: only_guard_logs_trans
           cong: option.case_cong)
  qed
qed

lemma dispatch_first_enabled:
  assumes gen: "generate_code sm = Inr code"
    and row: "map_of (p_states_events_mapping sm) (variant (state k)) = Some ms"
      "select_mapping ms (variant e) = Some m"
    and block: "code_block sm (variant (state k)) m = Inr cds"
    and guards: "guards_succeed env k e cds"
    and policy: "dispatch_fn env (variant e)" and no_exception: "\<not> fc_has_exception code"
  shows "\<exists>k'. only_guard_logs (observe (ProcessEventLog (variant e)) k) k' \<and>
    dispatch_event env code rec n e k =
      (case find (candidate_enabled env k e) cds of
         None \<Rightarrow> Some (k', Err TransitionsFailed)
       | Some cd \<Rightarrow>
           then_do (run_transition env code rec n cd (fst (block_data cd k e)) (snd (block_data cd k e)) None
             (finish_dispatch env code rec n (completion_origin_of code e))) (ret ()) k')"
proof -
  let ?k = "observe (ProcessEventLog (variant e)) k"
  obtain arms where arms: "arms_of_state code (variant (state k)) = Some arms"
    "generate_state_arms sm (variant (state k), ms) = Inr arms"
    using arms_of_generated_state [OF gen, of "variant (state k)"] row(1)
    by (auto simp: rel_option_iff split: option.splits)
  obtain a where a: "select_arm arms (variant e) = Some a" "arm_block a = cds"
    using select_arm_mapping [OF arms(2), of "variant e"] row(2) block
    by (auto simp: rel_option_iff arm_of_mapping_def split: option.splits)
  have same: "candidate_enabled env ?k e = candidate_enabled env k e" "block_data cd ?k e = block_data cd k e"
    "guards_succeed env ?k e cds = guards_succeed env k e cds" for cd
    by (simp_all add: fun_eq_iff candidate_enabled_def block_data_def guards_succeed_def split: option.split)
  from run_block_first_enabled [of env ?k e cds] guards same(3) obtain k' where
    k': "only_guard_logs ?k k'"
    "run_block env code rec n cds (payload (state ?k)) (payload e) None
        (finish_dispatch env code rec n (completion_origin_of code e)) (raise TransitionsFailed) ?k =
      (case find (candidate_enabled env ?k e) cds of
         None \<Rightarrow> raise TransitionsFailed k'
       | Some cd \<Rightarrow>
           run_transition env code rec n cd (fst (block_data cd ?k e)) (snd (block_data cd ?k e)) None
             (finish_dispatch env code rec n (completion_origin_of code e)) k')"
    by blast
  have "dispatch_event env code rec n e k = then_do (\<lambda>k. run_block env code rec n cds (payload (state k)) (payload e) None
        (finish_dispatch env code rec n (completion_origin_of code e)) (raise TransitionsFailed) k) (ret ()) ?k"
    using arms(1) a policy no_exception
    by (simp add: dispatch_event_def event_dispatch_def match_event_def then_do_def bind_def update_def with_core_def)
  with k' show ?thesis
    by (intro exI [of _ k'])
       (auto simp: then_do_def bind_def raise_def same cong: option.case_cong split: option.split)
qed

end
