(* ===== verification/Flat_Transition.thy ===== *)
theory Flat_Transition
  imports Flat_Dispatch
begin

text \<open>
  One event from its log to its result: the order of a transition's observations, what a failed
  event leaves unchanged, and fuel that is enough for machines without queue actions.
\<close>

section \<open>The order of a transition\<close>

definition action_logs :: "string \<Rightarrow> async_ident list \<Rightarrow> observation list" where
  "action_logs event as = map (\<lambda>a. ActionLog (ident a) event) as"

definition lifecycle_of :: "(string \<times> async_ident list) list \<Rightarrow> string \<Rightarrow> async_ident list" where
  "lifecycle_of table s = (case map_of table s of None \<Rightarrow> [] | Some as \<Rightarrow> as)"

definition same_but_trace :: "('c, 'v, 'q) core \<Rightarrow> ('c, 'v, 'q) core \<Rightarrow> bool" where
  "same_but_trace k k' \<longleftrightarrow> state k' = state k \<and> exit_skip k' = exit_skip k \<and>
     deferred k' = deferred k \<and> pending k' = pending k"

lemma bind_Some_iff:
  "bind m f k = Some (k', r) \<longleftrightarrow>
     (\<exists>e. m k = Some (k', Inl e) \<and> r = Inl e) \<or> (\<exists>k1 a. m k = Some (k1, Inr a) \<and> f a k1 = Some (k', r))"
  by (auto simp: bind_def split: option.splits sum.splits)

lemma call_action_ok:
  assumes "call_action env event sd td a k = Some (k', Inr v)"
  shows "observed k' = observed k @ [ActionLog (ident a) event] \<and> same_but_trace k k'"
  using assms
  by (auto simp: call_action_def lift_step_def same_but_trace_def split: prod.splits sum.splits)

lemma for_each_actions_ok:
  assumes "for_each (call_action env event sd td) as k = Some (k', Inr u)"
  shows "observed k' = observed k @ action_logs event as \<and> same_but_trace k k'"
  using assms
proof (induction as arbitrary: k)
  case Nil
  then show ?case by (simp add: ret_def action_logs_def same_but_trace_def)
next
  case (Cons a as)
  then obtain k1 v where "call_action env event sd td a k = Some (k1, Inr v)"
    "for_each (call_action env event sd td) as k1 = Some (k', Inr u)"
    by (auto simp: then_do_def bind_Some_iff)
  with Cons.IH call_action_ok show ?case
    by (fastforce simp: action_logs_def same_but_trace_def)
qed

lemma run_lifecycle_ok:
  "run_lifecycle env table s k = Some (k', Inr u) \<Longrightarrow>
    observed k' = observed k @ action_logs [] (lifecycle_of table s) \<and> same_but_trace k k'"
  unfolding run_lifecycle_def lifecycle_of_def by (rule for_each_actions_ok)

text \<open>The observations of an action sequence, in which an eval may or may not run its action.\<close>

fun step_actions :: "action_step list \<Rightarrow> async_ident list" where
  "step_actions [] = []"
| "step_actions (ActionStep _ a # steps) = a # step_actions steps"
| "step_actions (EvalStep _ a # steps) = step_actions steps"

definition plain_steps :: "action_step list \<Rightarrow> bool" where
  "plain_steps steps \<longleftrightarrow> list_all (\<lambda>s. case s of ActionStep _ _ \<Rightarrow> True | EvalStep _ _ \<Rightarrow> False) steps"

lemma run_actions_ok:
  assumes "run_actions env event sd ed td steps data k = Some (k', Inr v)" "plain_steps steps"
  shows "observed k' = observed k @ action_logs event (step_actions steps) \<and> same_but_trace k k'"
  using assms
proof (induction steps arbitrary: data k)
  case Nil
  then show ?case by (simp add: ret_def action_logs_def same_but_trace_def)
next
  case (Cons x steps)
  then obtain b a where x: "x = ActionStep b a" by (cases x) (auto simp: plain_steps_def)
  with Cons.prems obtain k1 v' where "call_action env event sd td a k = Some (k1, Inr v')"
    "run_actions env event sd ed td steps (if b then v' else data) k1 = Some (k', Inr v)"
    by (auto simp: bind_Some_iff)
  with Cons.IH [of _ k1] Cons.prems(2) call_action_ok x show ?case
    by (fastforce simp: action_logs_def same_but_trace_def plain_steps_def)
qed

lemma change_state_order:
  assumes run: "change_state env code cd (run_actions env (cd_event cd) sd ed td (cd_steps cd) None) k = Some (k', Inr u)"
    and plain: "plain_steps (cd_steps cd)" and fresh: "\<not> exit_skip k"
  shows "observed k' = observed k @
      ExitHook (cd_in_state cd) # action_logs [] (lifecycle_of (fc_exit_actions code) (cd_in_state cd)) @
      action_logs (cd_event cd) (step_actions (cd_steps cd)) @
      TransitionCallback (variant (state k)) (cd_out_state cd) #
      StateChangeLog (cd_in_state cd) (cd_out_state cd) #
      EntryHook (cd_out_state cd) # action_logs [] (lifecycle_of (fc_entry_actions code) (cd_out_state cd)) \<and>
    variant (state k') = cd_out_state cd \<and> \<not> exit_skip k'"
proof -
  let ?s = "cd_in_state cd" and ?t = "cd_out_state cd"
  let ?k0 = "observe (ExitHook ?s) (k\<lparr>machine_context := on_exit_fn env ?s (machine_context k)\<rparr>)"
  obtain k1 k2 data where
    k1: "run_lifecycle env (fc_exit_actions code) ?s ?k0 = Some (k1, Inr ())"
    and k2: "run_actions env (cd_event cd) sd ed td (cd_steps cd) None (k1\<lparr>exit_skip := True\<rparr>) = Some (k2, Inr data)"
    and rest: "then_do (replace_state ?s (Variant ?t (if cd_default_output cd then Some (default_data env ?t) else data)))
        (enter_state env code ?t) k2 = Some (k', Inr u)"
    using run fresh
    by (auto simp: change_state_def exit_state_def then_do_def with_core_def bind_Some_iff call_exit_hook_def
        update_def Let_def)
  obtain data' where k': "run_lifecycle env (fc_entry_actions code) ?t
      (observe (EntryHook ?t) ((observe (StateChangeLog ?s ?t)
        ((observe (TransitionCallback (variant (state k2)) ?t) k2)\<lparr>state := Variant ?t data', exit_skip := False\<rparr>))
          \<lparr>machine_context := on_entry_fn env ?t (machine_context k2)\<rparr>)) = Some (k', Inr ())"
    using rest
    by (auto simp: enter_state_def replace_state_def then_do_def bind_Some_iff call_entry_hook_def update_def observe_def)
  from run_lifecycle_ok [OF k1] run_actions_ok [OF k2 plain] run_lifecycle_ok [OF k']
  show ?thesis by (auto simp: same_but_trace_def)
qed

section \<open>Failed events\<close>

text \<open>The state and both queues have these values.\<close>

definition in_place_value :: "'v variant_value \<times> 'q \<times> 'q \<Rightarrow> ('c, 'v, 'q) core \<Rightarrow> bool" where
  "in_place_value v k \<longleftrightarrow> (state k, deferred k, pending k) = v"

lemma in_place_value_keeps: "observers_keep (in_place_value v)"
  unfolding observers_keep_def in_place_value_def by simp

lemma triple_true: "(\<And>k k' e. m k = Some (k', Inl e) \<Longrightarrow> False) \<Longrightarrow> triple P m (\<lambda>_ _. True) E"
  by (rule tripleI) blast+

text \<open>The machine has no queue actions: nothing is deferred and nothing is processed.\<close>

definition no_queue_actions :: "flat_code \<Rightarrow> bool" where
  "no_queue_actions code \<longleftrightarrow>
     \<not> fc_async_queue code \<and> \<not> fc_has_deferred code \<and>
     (\<forall>cd \<in> code_candidates code. cd_process cd = [] \<and> \<not> cd_defer cd)"

lemma generated_no_queue_actions:
  assumes gen: "generate_code sm = Inr code" and no: "\<not> has_queue_actions sm"
  shows "no_queue_actions code"
proof -
  have "\<not> fc_async_queue code" "\<not> fc_has_deferred code"
    using gen no by (auto simp: generate_code_def has_queue_actions_def Let_def try_then_Inr_iff split: if_splits)
  moreover have "cd_process cd = [] \<and> \<not> cd_defer cd" if cd: "cd \<in> code_candidates code" for cd
  proof -
    from code_candidates_rows [OF gen cd] obtain s ms m t i where
      row: "(s, ms) \<in> set (p_states_events_mapping sm)" "m \<in> snd ` set ms" "t \<in> set (m_transitions m)"
      and cand: "generate_candidate sm s m i t = Inr cd" .
    have "t \<in> set (all_transitions (p_states_events_mapping sm))"
      using row unfolding all_transitions_def all_mappings_def by force
    with no have "t_process_events t = []" "\<not> t_defer t"
      by (auto simp: has_queue_actions_def has_deferred_events_def list_ex_iff)
    with generate_candidate_fields [OF cand] show ?thesis by simp
  qed
  ultimately show ?thesis unfolding no_queue_actions_def by blast
qed

lemma enter_state_succeeds:
  assumes "fc_entry_actions code = []"
  shows "triple P (enter_state env code s) (\<lambda>_ _. True) E"
  using assms
  by (intro triple_true)
     (auto simp: enter_state_def then_do_def bind_Some_iff call_entry_hook_def run_lifecycle_def update_def ret_def)

lemma run_transition_failure:
  assumes "fc_entry_actions code = []" "\<not> fc_has_deferred code" "cd_process cd = []" "\<not> cd_defer cd"
    and finish: "finish = ret b"
  shows "triple (in_place_value s) (run_transition env code rec n cd sd ed err finish) (\<lambda>_ _. True) (in_place_value s)"
proof -
  note keep = in_place_value_keeps [of s]
  have keep_hook: "preserves (in_place_value s) (call_exit_hook env i)" for i
    unfolding call_exit_hook_def by (rule preserves_update) (simp add: in_place_value_def)
  have keep_skip: "preserves (in_place_value s) (update (\<lambda>k. k\<lparr>exit_skip := x\<rparr>))" for x
    by (rule preserves_update) (simp add: in_place_value_def)
  have exit: "preserves (in_place_value s) (exit_state env code i)" for i
    unfolding exit_state_def
    by (intro preserves_with_core triple_if preserves_then_do run_lifecycle_observed [OF keep] keep_hook keep_skip)
  have acts: "preserves (in_place_value s) (run_actions env ev sd ed td steps data)" for ev td steps data
    by (rule run_actions_observed [OF keep])
  have true: "triple P (ret x) (\<lambda>_ _. True) E" for P E x by (rule triple_ret) simp
  have tail: "triple P (then_do (if cd_defer cd then defer_event env (Variant (cd_event cd) ed) else ret ())
      (then_do (for_each (process_code env code rec sd ed) (cd_process cd)) m)) (\<lambda>_ _. True) E"
    if "triple (\<lambda>_. True) m (\<lambda>_ _. True) E" for P m E
    using assms(3,4) that by (auto intro!: triple_then_do [where R = "\<lambda>_. True"] true)
  have change: "triple (in_place_value s)
      (change_state env code cd (run_actions env (cd_event cd) sd ed (trigger_of cd ed err) (cd_steps cd) None))
      (\<lambda>_ _. True) (in_place_value s)"
    unfolding change_state_def Let_def
    by (rule triple_then_do [OF exit triple_then_do [OF keep_skip triple_bind [OF acts
          triple_then_do [OF _ enter_state_succeeds [OF assms(1)]]]]])
       (auto simp: replace_state_def intro: triple_update)
  have drain: "triple (\<lambda>_. True) (then_do (drain_deferred env code rec n) finish) (\<lambda>_ _. True) E" for E
    using assms(2) finish by (auto simp: drain_deferred_def intro!: triple_then_do [where R = "\<lambda>_. True"] true)
  show ?thesis
  proof (cases "cd_internal cd")
    case True
    have "triple (\<lambda>_. True) finish (\<lambda>_ _. True) E" for E using finish true by simp
    from triple_then_do [OF acts tail [OF this]] True show ?thesis
      unfolding run_transition_def Let_def if_P [OF True] by blast
  next
    case False
    from triple_then_do [OF change tail [OF drain]] show ?thesis
      unfolding run_transition_def Let_def if_not_P [OF False] by blast
  qed
qed

lemma run_block_failure:
  assumes "fc_entry_actions code = []" "no_queue_actions code" "set cds \<subseteq> code_candidates code"
    and finish: "finish = ret b" and otherwise: "otherwise = raise e0"
  shows "triple (in_place_value s) (run_block env code rec n cds sd ed err finish otherwise)
    (\<lambda>_ _. True) (in_place_value s)"
  using assms(3)
proof (induction cds)
  case Nil
  then show ?case by (simp add: otherwise triple_raise)
next
  case (Cons cd cds)
  have cd: "cd_process cd = []" "\<not> cd_defer cd" "\<not> fc_has_deferred code"
    using Cons.prems assms(2) by (auto simp: no_queue_actions_def)
  note trans = run_transition_failure [OF assms(1) cd(3,1,2) finish]
  have body: "triple (in_place_value s) (bind (run_transition env code rec n cd sd' ed' err finish) (\<lambda>b. ret (Some b)))
      (\<lambda>r k. r = None \<longrightarrow> in_place_value s k) (in_place_value s)" for sd' ed'
    by (rule triple_bind [OF trans]) (rule triple_ret, simp)
  have none: "triple (in_place_value s) (ret None) (\<lambda>r k. r = None \<longrightarrow> in_place_value s k) (in_place_value s)"
    by (rule triple_ret) simp
  have "triple (in_place_value s) (run_candidate env code rec n cd sd ed err finish)
      (\<lambda>r k. r = None \<longrightarrow> in_place_value s k) (in_place_value s)"
    unfolding run_candidate_def Let_def
    by (intro triple_if triple_case_option body none
        triple_bind [OF guard_passed_observed [OF in_place_value_keeps]])
  then show ?case
    unfolding run_block.simps
  proof (rule triple_bind)
    fix r show "triple (\<lambda>k. r = None \<longrightarrow> in_place_value s k)
      (case r of None \<Rightarrow> run_block env code rec n cds sd ed err finish otherwise | Some b \<Rightarrow> ret b)
      (\<lambda>_ _. True) (in_place_value s)"
      using Cons by (cases r) (auto intro: triple_ret)
  qed
qed

lemma state_blocks_candidates:
  "arms_of_state code s = Some arms \<Longrightarrow> b \<in> set (state_blocks arms) \<Longrightarrow> set b \<subseteq> code_candidates code"
  by (auto simp: code_candidates_def state_candidates_def dest!: arms_of_stateD)

lemma failed_dispatch_keeps_state:
  assumes "fc_entry_actions code = []" "no_queue_actions code" "\<not> fc_has_completion code" "\<not> fc_has_exception code"
    and run: "dispatch_event env code rec n e k = Some (k', Inl err)"
  shows "state k' = state k \<and> deferred k' = deferred k \<and> pending k' = pending k"
proof -
  let ?P = "in_place_value (state k, deferred k, pending k)"
  have finish: "finish_dispatch env code rec n (completion_origin_of code e) = ret True"
    using assms(3) by (simp add: finish_dispatch_def completion_origin_of_def)
  have "triple ?P (match_event env code rec n e) (\<lambda>_ _. True) ?P"
    unfolding match_event_def
    by (rule triple_with_core,
        intro triple_case_option triple_pre [OF _ run_block_failure [OF assms(1,2) _ finish refl]])
       (auto intro: triple_raise dest: state_blocks_candidates select_arm_blocks)
  then have "triple ?P (event_dispatch env code rec n e) (\<lambda>_ _. True) ?P"
    using assms(4) by (simp add: event_dispatch_def)
  then have "triple ?P (dispatch_event env code rec n e) (\<lambda>_ _. True) ?P"
    unfolding dispatch_event_def
    by (intro triple_then_do [where R = ?P] triple_update triple_if triple_then_do [where R = "\<lambda>_. True"])
       (auto simp: in_place_value_def intro: triple_ret triple_raise)
  from triple_error [OF this run] show ?thesis by (simp add: in_place_value_def)
qed

section \<open>Enough fuel\<close>

lemma returns_callbacks [step_total]:
  "returns (guard_passed env ev sd ed g)" "returns (call_action env ev sd td a)"
  "returns (run_lifecycle env table s)" "returns (call_entry_hook env s)" "returns (call_exit_hook env s)"
  "returns (replace_state s v)" "returns (defer_event env e)"
  by (simp_all add: guard_passed_def call_action_def run_lifecycle_def call_entry_hook_def call_exit_hook_def
      replace_state_def defer_event_def returns_for_each)

lemma returns_run_actions [step_total]: "returns (run_actions env ev sd ed td steps data)"
proof (induction steps arbitrary: data)
  case (Cons x steps)
  then show ?case by (cases x) (auto intro!: step_total)
qed simp

lemma returns_change_state [step_total]:
  "returns (change_state env code cd (run_actions env ev sd ed td steps data))"
  unfolding change_state_def exit_state_def enter_state_def Let_def by (intro step_total)

lemma returns_run_transition:
  assumes "cd_process cd = []" "\<not> fc_has_deferred code" "returns finish"
  shows "returns (run_transition env code rec n cd sd ed err finish)"
  using assms unfolding run_transition_def Let_def drain_deferred_def
  by (auto intro!: step_total)

lemma returns_run_block:
  assumes "no_queue_actions code" "set cds \<subseteq> code_candidates code" "returns finish" "returns otherwise"
  shows "returns (run_block env code rec n cds sd ed err finish otherwise)"
  using assms(2)
proof (induction cds)
  case (Cons cd cds)
  then have cd: "cd_process cd = []" "\<not> fc_has_deferred code"
    using assms(1) by (auto simp: no_queue_actions_def)
  have "returns (run_candidate env code rec n cd sd ed err finish)"
    unfolding run_candidate_def Let_def
    by (intro step_total returns_run_transition [OF cd assms(3)])
  then show ?case
    unfolding run_block.simps using Cons by (intro step_total) auto
qed (simp add: assms(4))

section \<open>Completion chains\<close>

definition completion_blocks :: "state_arms \<Rightarrow> candidate list list" where
  "completion_blocks arms =
     map arm_block (sa_completion arms @ (case sa_anonymous_completion arms of None \<Rightarrow> [] | Some a \<Rightarrow> [a]))"

definition completions_in_place :: "flat_code \<Rightarrow> bool" where
  "completions_in_place code \<longleftrightarrow>
     (\<forall>arms \<in> set (fc_arms code). \<forall>b \<in> set (completion_blocks arms). \<forall>cd \<in> set b. cd_kind cd = Completion)"

text \<open>Completions only lead from states to states of lower rank, so chains of them are finite.\<close>

definition completions_descend :: "(string \<Rightarrow> nat) \<Rightarrow> flat_code \<Rightarrow> bool" where
  "completions_descend rank code \<longleftrightarrow>
     (\<forall>cd \<in> code_candidates code. cd_kind cd = Completion \<longrightarrow>
       \<not> cd_internal cd \<and> rank (cd_out_state cd) < rank (cd_in_state cd))"

lemma arm_kind:
  assumes "try_map (generate_arm sm s) ms = Inr as" "a \<in> set (arms_of_kind k as)" "cd \<in> set (arm_block a)"
  shows "cd_kind cd = k"
proof -
  from assms(2) have "(k, a) \<in> set as" by (auto simp: arms_of_kind_def)
  from try_map_member [OF assms(1) this] obtain m where m: "generate_arm sm s m = Inr (k, a)" by blast
  then have "code_block sm s m = Inr (arm_block a)" "m_event_kind m = k"
    by (auto simp: generate_arm_def try_then_Inr_iff)
  with generated_candidates [OF this(1) assms(3)] show ?thesis by (metis generate_candidate_fields(6))
qed

lemma generated_completions_in_place:
  assumes "generate_code sm = Inr code"
  shows "completions_in_place code"
  unfolding completions_in_place_def
proof (intro ballI)
  fix arms b cd
  assume arms: "arms \<in> set (fc_arms code)" and b: "b \<in> set (completion_blocks arms)" and cd: "cd \<in> set b"
  from generate_code_arms [OF assms arms] obtain entry where entry: "generate_state_arms sm entry = Inr arms" .
  then obtain as where as: "try_map (generate_arm sm (fst entry)) (map snd (snd entry)) = Inr as"
    by (auto simp: generate_state_arms_def try_then_Inr_iff)
  have "set (sa_completion arms) \<subseteq> set (arms_of_kind Completion as)"
    "\<And>a. sa_anonymous_completion arms = Some a \<Longrightarrow> a \<in> set (arms_of_kind Completion as)"
    using entry as by (auto simp: generate_state_arms_def Let_def dest: find_lastD)
  then have "\<exists>a \<in> set (arms_of_kind Completion as). b = arm_block a"
    using b unfolding completion_blocks_def by (auto split: option.splits)
  with arm_kind [OF as] cd show "cd_kind cd = Completion" by blast
qed

definition in_variant :: "string \<Rightarrow> ('c, 'v, 'q) core \<Rightarrow> bool" where
  "in_variant s k \<longleftrightarrow> variant (state k) = s"

lemma in_variant_keeps: "callbacks_keep (in_variant s)"
  unfolding callbacks_keep_def in_variant_def by simp

lemma change_state_variant:
  "triple P (change_state env code cd acts) (\<lambda>_. in_variant (cd_out_state cd)) (\<lambda>_. True)"
proof -
  have any: "triple Q m (\<lambda>_ _. True) (\<lambda>_. True)" for Q m by (rule tripleI) simp_all
  have replace: "triple (\<lambda>_. True) (replace_state s (Variant t d)) (\<lambda>_. in_variant t) (\<lambda>_. True)" for s t d
    unfolding replace_state_def by (rule triple_update) (simp add: in_variant_def)
  have hook: "preserves (in_variant t) (call_entry_hook env t)" for t
    unfolding call_entry_hook_def by (rule preserves_update) (simp add: in_variant_def)
  have enter: "triple (in_variant t) (enter_state env code t) (\<lambda>_. in_variant t) (\<lambda>_. True)" for t
    unfolding enter_state_def
    by (rule triple_post [OF preserves_then_do [OF hook run_lifecycle_keeps [OF in_variant_keeps]]]) simp_all
  show ?thesis
    unfolding change_state_def Let_def
    by (rule triple_then_do [OF any triple_then_do [OF any triple_bind [OF any triple_then_do [OF replace enter]]]])
qed

lemma completion_transition:
  assumes "\<not> cd_internal cd" "cd_process cd = []" "\<not> cd_defer cd" "\<not> fc_has_deferred code"
  shows "triple P (run_transition env code rec n cd sd ed err (ret True))
    (\<lambda>_. in_variant (cd_out_state cd)) (\<lambda>_. True)"
proof -
  let ?t = "in_variant (cd_out_state cd)"
  have ret: "triple ?t (ret x) (\<lambda>_. ?t) (\<lambda>_. True)" for x by (rule triple_ret) simp
  show ?thesis
    unfolding run_transition_def Let_def if_not_P [OF assms(1)]
    by (rule triple_then_do [OF change_state_variant]) (use assms in \<open>simp add: drain_deferred_def triple_then_do [OF ret] ret\<close>)
qed

lemma completion_block_descends:
  assumes "no_queue_actions code" "completions_descend rank code"
    and "set cds \<subseteq> code_candidates code" "\<forall>cd \<in> set cds. cd_kind cd = Completion \<and> cd_in_state cd = s"
  shows "triple (in_variant s) (run_block env code rec n cds sd ed err (ret True) (ret False))
    (\<lambda>b k. b \<longrightarrow> rank (variant (state k)) < rank s) (\<lambda>_. True)"
  using assms(3,4)
proof (induction cds)
  case Nil
  then show ?case by (auto intro: triple_ret)
next
  case (Cons cd cds)
  then have cd: "\<not> cd_internal cd" "cd_process cd = []" "\<not> cd_defer cd" "\<not> fc_has_deferred code"
    "rank (cd_out_state cd) < rank s"
    using assms(1,2) by (auto simp: no_queue_actions_def completions_descend_def)
  let ?Q = "\<lambda>r k. case r of None \<Rightarrow> in_variant s k | Some b \<Rightarrow> rank (variant (state k)) < rank s"
  have none: "triple (in_variant s) (ret None) ?Q (\<lambda>_. True)" by (rule triple_ret) simp
  have body: "triple (in_variant s) (bind (run_transition env code rec n cd sd' ed' err (ret True)) (\<lambda>b. ret (Some b))) ?Q (\<lambda>_. True)"
    for sd' ed'
    by (rule triple_bind [OF completion_transition [OF cd(1-4)]])
       (rule triple_ret, use cd(5) in \<open>simp add: in_variant_def\<close>)
  have guard: "triple (in_variant s) (guard_passed env ev sd' ed' g) (\<lambda>_. in_variant s) (\<lambda>_. True)" for ev sd' ed' g
    by (rule triple_post [OF guard_passed_keeps [OF in_variant_keeps]]) simp_all
  have cand: "triple (in_variant s) (run_candidate env code rec n cd sd ed err (ret True)) ?Q (\<lambda>_. True)"
    unfolding run_candidate_def Let_def
    by (intro triple_if triple_case_option body none triple_bind [OF guard])
  show ?case
    unfolding run_block.simps
  proof (rule triple_bind [OF cand])
    fix r
    show "triple (?Q r) (case r of None \<Rightarrow> run_block env code rec n cds sd ed err (ret True) (ret False) | Some b \<Rightarrow> ret b)
      (\<lambda>b k. b \<longrightarrow> rank (variant (state k)) < rank s) (\<lambda>_. True)"
      using Cons by (cases r) (auto intro: triple_ret)
  qed
qed

lemma completion_block_candidates:
  assumes "arms_of_state code s = Some arms" "b \<in> set (completion_blocks arms)"
    "completions_in_place code" "candidates_in_place code"
  shows "set b \<subseteq> code_candidates code" "\<forall>cd \<in> set b. cd_kind cd = Completion \<and> cd_in_state cd = s"
proof -
  have b: "b \<in> set (state_blocks arms)" using assms(2) by (auto simp: completion_blocks_def state_blocks_def)
  then show "set b \<subseteq> code_candidates code" by (rule state_blocks_candidates [OF assms(1)])
  show "\<forall>cd \<in> set b. cd_kind cd = Completion \<and> cd_in_state cd = s"
    using b assms(2-4) arms_of_stateD [OF assms(1)]
    by (auto simp: completions_in_place_def candidates_in_place_def state_candidates_def)
qed

lemma completion_arm_block:
  "find_arm (sa_completion arms) e = Some a \<Longrightarrow> arm_block a \<in> set (completion_blocks arms)"
  "sa_anonymous_completion arms = Some a \<Longrightarrow> arm_block a \<in> set (completion_blocks arms)"
  by (auto simp: completion_blocks_def dest: find_armD)

lemma process_completion_returns:
  assumes "no_queue_actions code" "completions_in_place code" "candidates_in_place code"
  shows "returns (process_completion env code rec n origin)"
proof -
  have block: "returns (run_block env code rec n (arm_block a) sd ed None (ret True) (ret False))"
    if "arms_of_state code s = Some arms" "arm_block a \<in> set (completion_blocks arms)" for s arms a sd ed
    by (rule returns_run_block [OF assms(1) completion_block_candidates(1) [OF that assms(2,3)]]) simp_all
  show ?thesis
    unfolding process_completion_def Let_def
    by (intro step_total block)
       (auto intro: completion_arm_block split: completion_origin.splits)
qed

lemma process_completion_descends:
  assumes "no_queue_actions code" "completions_in_place code" "candidates_in_place code"
    and "completions_descend rank code"
  shows "triple (in_variant s) (process_completion env code rec n origin)
    (\<lambda>b k. b \<longrightarrow> rank (variant (state k)) < rank s) (\<lambda>_. True)"
proof -
  have block: "triple (\<lambda>k. k = k0 \<and> in_variant s k)
      (run_block env code rec n (arm_block a) sd ed None (ret True) (ret False))
      (\<lambda>b k. b \<longrightarrow> rank (variant (state k)) < rank s) (\<lambda>_. True)"
    if "arms_of_state code (variant (state k0)) = Some arms" "arm_block a \<in> set (completion_blocks arms)"
    for k0 arms a sd ed
  proof (cases "variant (state k0) = s")
    case True
    note c = completion_block_candidates [OF that assms(2,3), unfolded True]
    show ?thesis
      by (rule triple_pre [OF _ completion_block_descends [OF assms(1,4) c]]) simp
  qed (auto simp: in_variant_def triple_def)
  have stop: "triple P (ret False) (\<lambda>b k. b \<longrightarrow> rank (variant (state k)) < rank s) (\<lambda>_. True)" for P
    by (rule triple_ret) simp
  show ?thesis
    unfolding process_completion_def Let_def
    by (rule triple_with_core, intro triple_case_option block stop)
       (auto intro: completion_arm_block split: completion_origin.splits)
qed

lemma while_ok_returns:
  assumes "returns body"
    and "\<And>s. triple (in_variant s) body (\<lambda>b k. b \<longrightarrow> rank (variant (state k)) < rank s) (\<lambda>_. True)"
  shows "rank (variant (state k)) < n \<Longrightarrow> while_ok n body k \<noteq> None"
proof (induction n arbitrary: k)
  case (Suc n)
  obtain k1 r where b: "body k = Some (k1, r)" using assms(1) unfolding returns_def by fastforce
  show ?case
  proof (cases r)
    case (Inl e)
    with b show ?thesis by (simp add: bind_def)
  next
    case (Inr more)
    have "more \<longrightarrow> rank (variant (state k1)) < rank (variant (state k))"
      using triple_value [OF assms(2) b [unfolded Inr]] by (simp add: in_variant_def)
    with Suc b Inr show ?thesis by (auto simp: bind_def ret_def)
  qed
qed simp

lemma dispatch_event_returns:
  assumes "no_queue_actions code" "completions_in_place code" "candidates_in_place code"
    "completions_descend rank code" and bound: "\<And>s. rank s < n"
  shows "returns (dispatch_event env code rec n e)"
proof -
  have loop: "returns (while_ok n (process_completion env code rec n o'))" for o'
    unfolding returns_def
    using while_ok_returns [OF process_completion_returns [OF assms(1-3)] process_completion_descends [OF assms(1-4)] bound]
    by blast
  have finish: "returns (finish_dispatch env code rec n origin)" for origin
    unfolding finish_dispatch_def by (intro step_total loop)
  have block: "returns (run_block env code rec n b sd ed err m m')"
    if "arms_of_state code s = Some arms" "b \<in> set (state_blocks arms)" "returns m" "returns m'"
    for s arms b sd ed err m m'
    by (rule returns_run_block [OF assms(1) state_blocks_candidates [OF that(1,2)] that(3,4)])
  have "returns (match_event env code rec n e)"
    unfolding match_event_def
    by (intro step_total block finish) (auto dest: select_arm_blocks)
  moreover have "returns (process_exception env code rec n err)" for err
    unfolding process_exception_def
    by (intro step_total block) (auto simp: state_blocks_def)
  ultimately show ?thesis
    unfolding dispatch_event_def event_dispatch_def by (intro step_total)
qed

end
