(* ===== verification/Flat_Examples.thy ===== *)
theory Flat_Examples
  imports Flat_Machine
begin

text \<open>
  Concrete machines: small parsed tables, the code generated for them and a test environment with
  the default queues of sixteen events. They witness the hypotheses of the general properties and
  show behaviours of single runs.
\<close>

section \<open>An environment\<close>

type_synonym test_queue = "nat variant_value event_queue"

type_synonym test_env = "(nat, nat, nat, test_queue) machine_env"

type_synonym test_core = "(nat, nat, test_queue) core"

text \<open>
  The context counts action calls; the action \<open>fail\<close> fails, every other succeeds; guards named
  \<open>yes\<close> hold. An event expression is the name of an event without payload.
\<close>

definition test_env :: test_env where
  "test_env = \<lparr>
     guard_fn = (\<lambda>g c sd ed. Ok (g = ''yes'')),
     action_fn = (\<lambda>a c sd td. if a = ''fail'' then (c, Err 7) else (Suc c, Ok None)),
     on_entry_fn = (\<lambda>s c. c),
     on_exit_fn = (\<lambda>s c. c),
     event_expr = (\<lambda>x c sd ed. case x of [Ident e] \<Rightarrow> Variant e None | _ \<Rightarrow> Variant [] None),
     default_data = (\<lambda>s. 0),
     dispatch_fn = (\<lambda>e. True),
     dispatch_candidate_fn = (\<lambda>s e i. True),
     queue_new = EventQueue_new 16,
     queue_defer = EventQueue_defer,
     queue_process = EventQueue_process,
     queue_pop = EventQueue_pop\<rparr>"

section \<open>Building tables\<close>

definition sync_id :: "string \<Rightarrow> async_ident" where
  "sync_id i = \<lparr>ident = i, is_async = False\<rparr>"

definition row :: "guard_expression option \<Rightarrow> string list \<Rightarrow> rust_expr list \<Rightarrow> bool \<Rightarrow> string \<Rightarrow> bool \<Rightarrow> transition" where
  "row g as ps defer out internal =
     \<lparr>t_guard = g,
      t_action = (case as of [] \<Rightarrow> None | a # _ \<Rightarrow> Some (sync_id a)),
      t_additional_actions = map sync_id (tl as),
      t_process_events = ps, t_defer = defer, t_eval_actions = [], t_default_output = False,
      t_out_state = out, t_internal = internal\<rparr>"

definition mapping :: "string \<Rightarrow> event_kind \<Rightarrow> bool \<Rightarrow> string \<Rightarrow> transition list \<Rightarrow> event_mapping" where
  "mapping s kind w e ts =
     \<lparr>m_in_state = s, m_event = e, m_event_kind = kind, m_event_wildcard = w, m_event_external = False,
      m_transitions = ts\<rparr>"

definition table_of :: "(string \<times> (string \<times> event_mapping) list) list \<Rightarrow> bool \<Rightarrow> parsed_state_machine" where
  "table_of tm async =
     \<lparr>p_name = None, p_temporary_context_type = None, p_custom_error = False,
      p_states = map (\<lambda>(s, _). (s, s)) tm, p_starting_state = fst (hd tm),
      p_state_data = \<lparr>data_types = [], all_lifetimes = [], key_lifetimes = []\<rparr>,
      p_events = [], p_event_data = \<lparr>data_types = [], all_lifetimes = [], key_lifetimes = []\<rparr>,
      p_states_events_mapping = tm, p_entry_exit_async = async,
      p_fixed_error_type = None, p_event_generics = []\<rparr>"

definition code_of :: "parsed_state_machine \<Rightarrow> flat_code" where
  "code_of sm = (case generate_code sm of Inr code \<Rightarrow> code | Inl _ \<Rightarrow> undefined)"

definition core_in :: "string \<Rightarrow> test_core" where
  "core_in s = \<lparr>state = Variant s None, exit_skip = False, machine_context = 0,
     deferred = EventQueue_new 16, pending = EventQueue_new 16, observed = []\<rparr>"

abbreviation plain_event :: "string \<Rightarrow> nat variant_value" where
  "plain_event e \<equiv> Variant e None"

section \<open>A door\<close>

text \<open>Two guarded rows on one event, a lifecycle row, and completions that lead to \<open>Closed\<close>.\<close>

definition door :: parsed_state_machine where
  "door = table_of
     [(''Closed'',
       [(''Open'', mapping ''Closed'' Normal False ''Open''
          [row (Some (Guard (sync_id ''no''))) [''ring''] [] False ''Ajar'' False,
           row (Some (Not (Guard (sync_id ''no'')))) [''push'', ''swing''] [] False ''Opened'' False])]),
      (''Opened'',
       [(''Close'', mapping ''Opened'' Normal False ''Close'' [row None [''fail''] [] False ''Closed'' False]),
        (''lifecycle::exit'', mapping ''Opened'' Exit False ''on_exit'' [row None [''wave''] [] False ''Opened'' False])]),
      (''Ajar'', [])] False"

lemma door_code: "generate_code door = Inr (code_of door)"
  by code_simp

section \<open>A relay\<close>

text \<open>\<open>Left + Go = Middle\<close> and the anonymous completion \<open>Middle = Right\<close>.\<close>

definition relay :: parsed_state_machine where
  "relay = table_of
     [(''Left'', [(''Go'', mapping ''Left'' Normal False ''Go'' [row None [] [] False ''Middle'' False])]),
      (''Middle'', [(''completion::*'', mapping ''Middle'' Completion True ''__AnyCompletion''
         [row None [''pass''] [] False ''Right'' False])]),
      (''Right'', [])] False"

lemma relay_code: "generate_code relay = Inr (code_of relay)"
  by code_simp

end
