(* ===== verification/Flat_Correctness.thy ===== *)
theory Flat_Correctness
  imports Flat_Transition Flat_Examples
begin

text \<open>
  The properties of generated flat machines, stated for the code that \<open>generate_code\<close> emits for a
  parsed table and for its entry point \<open>process_event_unlocked\<close>.
\<close>

section \<open>Which row runs\<close>

lemma sync_dispatch:
  "\<not> fc_async_queue code \<Longrightarrow> process_event_unlocked (Suc n) env code e =
    dispatch_event env code (process_event_sync n env code) n e"
  by (simp add: process_event_unlocked_def)

text \<open>
  C1. A synchronous machine without exception rows runs, for an event its dispatch policy admits,
  the first enabled transition of the mapping that the table has for the current state: a normal
  row before a specific \<open>unexpected<..>\<close> row before \<open>unexpected<_>\<close>, rows in table order, a row being
  enabled when the strategy admits it and its guard expression holds in the context. Before it
  only guard logs are added; with no enabled row the answer is \<open>TransitionsFailed\<close> and nothing
  else has changed.
\<close>

theorem first_enabled_row_runs:
  assumes "generate_code sm = Inr code" "\<not> fc_async_queue code" "\<not> fc_has_exception code"
    and "map_of (p_states_events_mapping sm) (variant (state k)) = Some ms"
      "select_mapping ms (variant e) = Some m" "code_block sm (variant (state k)) m = Inr cds"
    and "guards_succeed env k e cds" "dispatch_fn env (variant e)"
  shows "\<exists>k'. only_guard_logs (observe (ProcessEventLog (variant e)) k) k' \<and>
    process_event_unlocked (Suc n) env code e k =
      (case find (candidate_enabled env k e) cds of
         None \<Rightarrow> Some (k', Err TransitionsFailed)
       | Some cd \<Rightarrow>
           then_do (run_transition env code (process_event_sync n env code) n cd
               (fst (block_data cd k e)) (snd (block_data cd k e)) None
               (finish_dispatch env code (process_event_sync n env code) n (completion_origin_of code e)))
             (ret ()) k')"
  unfolding sync_dispatch [OF assms(2)]
  by (rule dispatch_first_enabled [OF assms(1,4,5,6,7,8,3)])

theorem first_enabled_row_runs_witness:
  "\<exists>ms m cds k'. map_of (p_states_events_mapping door) ''Closed'' = Some ms \<and>
    select_mapping ms ''Open'' = Some m \<and> code_block door ''Closed'' m = Inr cds \<and>
    only_guard_logs (observe (ProcessEventLog ''Open'') (core_in ''Closed'')) k' \<and>
    process_event_unlocked (Suc 2) test_env (code_of door) (plain_event ''Open'') (core_in ''Closed'') =
      (case find (candidate_enabled test_env (core_in ''Closed'') (plain_event ''Open'')) cds of
         None \<Rightarrow> Some (k', Err TransitionsFailed)
       | Some cd \<Rightarrow>
           then_do (run_transition test_env (code_of door) (process_event_sync 2 test_env (code_of door)) 2 cd
               (fst (block_data cd (core_in ''Closed'') (plain_event ''Open'')))
               (snd (block_data cd (core_in ''Closed'') (plain_event ''Open''))) None
               (finish_dispatch test_env (code_of door) (process_event_sync 2 test_env (code_of door)) 2
                 (completion_origin_of (code_of door) (plain_event ''Open''))))
             (ret ()) k')"
proof -
  let ?ms = "the (map_of (p_states_events_mapping door) ''Closed'')"
  let ?m = "the (select_mapping ?ms ''Open'')"
  obtain cds where cds: "code_block door ''Closed'' ?m = Inr cds"
    "guards_succeed test_env (core_in ''Closed'') (plain_event ''Open'') cds"
  proof (cases "code_block door ''Closed'' ?m")
    case (Inl e)
    have "code_block door ''Closed'' ?m \<noteq> Inl e" by (cases "code_block door ''Closed'' ?m = Inl e") (code_simp | simp)+
    with Inl show thesis by simp
  next
    case (Inr cds)
    have "guards_succeed test_env k e cds" for k e
      by (simp add: guards_succeed_def test_env_def split: prod.split)
    with Inr that show thesis by blast
  qed
  have table: "map_of (p_states_events_mapping door) (variant (state (core_in ''Closed''))) = Some ?ms"
    "select_mapping ?ms (variant (plain_event ''Open'')) = Some ?m"
    by code_simp+
  have flags: "\<not> fc_async_queue (code_of door)" "\<not> fc_has_exception (code_of door)" by code_simp+
  have "variant (state (core_in ''Closed'')) = ''Closed''" by (simp add: core_in_def)
  with first_enabled_row_runs [OF door_code flags table _ cds(2), of 2] cds(1) table
  show ?thesis by (auto simp: test_env_def)
qed

section \<open>Safety of the state\<close>

text \<open>
  C2. Whatever an event triggers, queued events, completions and exception handlers included,
  and however it ends, the state moves along rows of the parsed table: the changes that are logged
  meanwhile form a path from the state before the event to the state after it, and each step of
  the path is a transition of the table that is not internal. Without a logged change the state
  is the same variant as before.
\<close>

theorem state_changes_follow_table:
  assumes "generate_code sm = Inr code" and "process_event_unlocked n env code e k = Some (k', r)"
  shows "\<exists>path. logged_changes (observed k') = logged_changes (observed k) @ path \<and>
    table_path sm (variant (state k)) path (variant (state k'))"
proof -
  have "moved_along sm (logged_changes (observed k)) (variant (state k)) k" by (simp add: moved_along_def)
  with preservesD [OF process_event_keeps [OF moved_along_invariant [OF assms(1)]] assms(2)]
  show ?thesis by (simp add: moved_along_def)
qed

theorem state_changes_follow_table_witness:
  "table_path door ''Closed'' [(''Closed'', ''Opened'')] ''Opened''"
proof -
  let ?run = "process_event_unlocked 3 test_env (code_of door) (plain_event ''Open'') (core_in ''Closed'')"
  have run: "?run = Some (fst (the ?run), snd (the ?run))" by code_simp
  have ends: "variant (state (fst (the ?run))) = ''Opened''"
    by code_simp
  have "logged_changes (observed (fst (the ?run))) = [(''Closed'', ''Opened'')]" unfolding logged_changes_def by code_simp
  with state_changes_follow_table [OF door_code run] ends(1) show ?thesis by (simp add: core_in_def logged_changes_def)
qed

text \<open>
  C3. When no \<open>on_exit<_>\<close> action fails, then in every history of a machine, with failed guards and
  actions, nested events, completions and exception handlers, each entry of a state is followed
  by exactly one exit hook before the state is replaced, and the entry hook of its successor
  follows the replacement: the observations are accepted by the automaton \<open>hook_replay\<close>, which ends
  in the current state, and \<open>exit_skip\<close> is set exactly when that state's exit hook has already run.
\<close>

theorem every_entry_one_exit:
  assumes "generate_code sm = Inr code" "exit_actions_succeed env code" "reachable env code k"
  shows "hook_replay (fc_starting_state code, Arriving) (observed k) =
      Some (variant (state k), if exit_skip k then Exited else Entered)"
  using hooks_balanced_reachable [OF assms] by (simp add: hooks_balanced_def hooks_at_def)

lemma test_env_succeeds: "a \<noteq> ''fail'' \<Longrightarrow> is_ok (snd (action_fn test_env a c sd td))"
  by (simp add: test_env_def)

theorem every_entry_one_exit_witness:
  "\<exists>k. reachable test_env (code_of door) k \<and> exit_skip k \<and>
    hook_replay (''Closed'', Arriving) (observed k) = Some (''Opened'', Exited)"
proof -
  let ?init = "initialize_unlocked 3 test_env (code_of door) (new_core test_env (code_of door) 0 None)"
  let ?open = "process_event_unlocked 3 test_env (code_of door) (plain_event ''Open'') (fst (the ?init))"
  let ?close = "process_event_unlocked 3 test_env (code_of door) (plain_event ''Close'') (fst (the ?open))"
  let ?k = "fst (the ?close)"
  have table: "fc_exit_actions (code_of door) = [(''Opened'', [sync_id ''wave''])]" by code_simp
  have exits: "exit_actions_succeed test_env (code_of door)"
    unfolding exit_actions_succeed_def table
    by (auto simp: sync_id_def intro!: test_env_succeeds split: if_splits)
  have runs: "?init = Some (fst (the ?init), snd (the ?init))" "?open = Some (fst (the ?open), snd (the ?open))"
    "?close = Some (?k, snd (the ?close))"
    by code_simp+
  have reach: "reachable test_env (code_of door) ?k"
    by (rule reachable.processed [OF reachable.processed [OF reachable.initialized [OF runs(1)] runs(2)] runs(3)])
  have final: "exit_skip ?k" "variant (state ?k) = ''Opened''" "fc_starting_state (code_of door) = ''Closed''"
    by code_simp+
  show ?thesis
    using every_entry_one_exit [OF door_code exits reach] reach final by (intro exI [of _ ?k]) simp
qed

text \<open>
  C5. The machine has no entry rows, no queue actions, no completions and no exception rows: then
  an event that ends in an error leaves the state, payload included, and both queues as they were.
\<close>

theorem failed_event_keeps_state:
  assumes "generate_code sm = Inr code" "fc_entry_actions code = []" "\<not> has_queue_actions sm"
    "\<not> has_completion_events sm" "\<not> has_exception_handlers sm"
    and "process_event_unlocked n env code e k = Some (k', Err err)"
  shows "state k' = state k \<and> deferred k' = deferred k \<and> pending k' = pending k"
proof -
  have flags: "\<not> fc_has_completion code" "\<not> fc_has_exception code"
    using assms(1,4,5) by (auto simp: generate_code_def Let_def try_then_Inr_iff split: if_splits)
  note quiet = generated_no_queue_actions [OF assms(1,3)]
  then have sync: "\<not> fc_async_queue code" by (simp add: no_queue_actions_def)
  obtain n' where "n = Suc n'"
    using assms(6) sync by (cases n) (simp_all add: process_event_unlocked_def)
  with assms(6) have "dispatch_event env code (process_event_sync n' env code) n' e k = Some (k', Inl err)"
    by (simp add: sync_dispatch [OF sync])
  then show ?thesis by (rule failed_dispatch_keeps_state [OF assms(2) quiet flags])
qed

theorem failed_event_keeps_state_witness:
  "\<exists>k'. process_event_unlocked 3 test_env (code_of door) (plain_event ''Close'') (core_in ''Opened'') =
      Some (k', Err (ActionFailed 7)) \<and> state k' = plain_event ''Opened'' \<and>
      deferred k' = deferred (core_in ''Opened'') \<and> pending k' = pending (core_in ''Opened'')"
proof -
  let ?run = "process_event_unlocked 3 test_env (code_of door) (plain_event ''Close'') (core_in ''Opened'')"
  have run: "?run = Some (fst (the ?run), Err (ActionFailed 7))" by code_simp
  have flags: "fc_entry_actions (code_of door) = []" "\<not> has_queue_actions door"
    "\<not> has_completion_events door" "\<not> has_exception_handlers door"
    by code_simp+
  have "state (core_in ''Opened'') = plain_event ''Opened''" by (simp add: core_in_def)
  with failed_event_keeps_state [OF door_code flags run] run show ?thesis
    by (intro exI [of _ "fst (the ?run)"]) (simp only: prod.inject simp_thms)
qed

text \<open>
  C4. In a machine without queue actions, completions and exception rows, an event whose first
  enabled row (all guards returning a value) is an external transition without evals, handled
  successfully and with no exit pending to be skipped, is observed in the order of the language
  definition: the event's log, the guards, the exit hook and the exit row's actions of the old
  state, the transition's actions, the transition callback, the state-change log, and the entry hook
  and entry row's actions of the new state; the machine is then in the target state.
\<close>

theorem external_transition_order:
  assumes "generate_code sm = Inr code" "\<not> has_queue_actions sm" "\<not> has_completion_events sm"
      "\<not> has_exception_handlers sm"
    and "map_of (p_states_events_mapping sm) (variant (state k)) = Some ms"
      "select_mapping ms (variant e) = Some m" "code_block sm (variant (state k)) m = Inr cds"
    and "guards_succeed env k e cds" "dispatch_fn env (variant e)"
      "find (candidate_enabled env k e) cds = Some cd"
    and "\<not> cd_internal cd" "plain_steps (cd_steps cd)" "\<not> exit_skip k"
    and "process_event_unlocked (Suc n) env code e k = Some (k', Ok ())"
  shows "\<exists>guards. list_all is_guard_log guards \<and>
    observed k' = observed k @ ProcessEventLog (variant e) # guards @
      ExitHook (cd_in_state cd) # action_logs [] (lifecycle_of (fc_exit_actions code) (cd_in_state cd)) @
      action_logs (cd_event cd) (step_actions (cd_steps cd)) @
      TransitionCallback (variant (state k)) (cd_out_state cd) #
      StateChangeLog (cd_in_state cd) (cd_out_state cd) #
      EntryHook (cd_out_state cd) # action_logs [] (lifecycle_of (fc_entry_actions code) (cd_out_state cd)) \<and>
    variant (state k') = cd_out_state cd"
proof -
  have flags: "\<not> fc_has_completion code" "\<not> fc_has_exception code"
    using assms(1,3,4) by (auto simp: generate_code_def Let_def try_then_Inr_iff split: if_splits)
  have quiet: "no_queue_actions code" by (rule generated_no_queue_actions [OF assms(1,2)])
  then have sync: "\<not> fc_async_queue code" and deferred: "\<not> fc_has_deferred code"
    by (simp_all add: no_queue_actions_def)
  have finish: "finish_dispatch env code rec n (completion_origin_of code e) = ret True" for rec
    using flags(1) by (simp add: finish_dispatch_def completion_origin_of_def)
  have cd: "cd_process cd = []" "\<not> cd_defer cd"
  proof -
    have "cd \<in> set cds" using assms(10) by (auto simp: find_Some_iff)
    with generated_candidates [OF assms(7)] obtain i t where t: "t \<in> set (m_transitions m)"
      "generate_candidate sm (variant (state k)) m i t = Inr cd" by blast
    have "m \<in> snd ` set ms"
      using assms(6) by (auto simp: select_mapping_def find_Some_iff split: option.splits dest!: find_lastD)
    moreover have "(variant (state k), ms) \<in> set (p_states_events_mapping sm)"
      using assms(5) by (rule map_of_SomeD)
    ultimately have "t \<in> set (all_transitions (p_states_events_mapping sm))"
      using t(1) unfolding all_transitions_def all_mappings_def by force
    with assms(2) show "cd_process cd = []" "\<not> cd_defer cd"
      unfolding generate_candidate_fields [OF t(2)]
      by (auto simp: has_queue_actions_def has_deferred_events_def list_ex_iff)
  qed
  from dispatch_first_enabled [OF assms(1,5,6,7,8,9) flags(2), of "process_event_sync n env code" n] assms(10)
  obtain k1 where k1: "only_guard_logs (observe (ProcessEventLog (variant e)) k) k1"
    and run: "dispatch_event env code (process_event_sync n env code) n e k =
      then_do (run_transition env code (process_event_sync n env code) n cd (fst (block_data cd k e))
        (snd (block_data cd k e)) None (ret True)) (ret ()) k1"
    by (auto simp: finish)
  obtain guards where guards: "list_all is_guard_log guards"
    "k1 = (observe (ProcessEventLog (variant e)) k)\<lparr>observed := observed k @ ProcessEventLog (variant e) # guards\<rparr>"
    using k1 by (auto simp: only_guard_logs_def)
  from assms(14) have "dispatch_event env code (process_event_sync n env code) n e k = Some (k', Inr ())"
    by (simp add: sync_dispatch [OF sync])
  then obtain u where
    "change_state env code cd (run_actions env (cd_event cd) (fst (block_data cd k e)) (snd (block_data cd k e))
      (trigger_of cd (snd (block_data cd k e)) None) (cd_steps cd) None) k1 = Some (k', Inr u)"
    using run cd assms(11) deferred
    by (auto simp: run_transition_def Let_def drain_deferred_def then_do_def bind_Some_iff ret_def)
  from change_state_order [OF this assms(12)] assms(13) guards show ?thesis by auto
qed

theorem external_transition_order_witness:
  "\<exists>k' guards. process_event_unlocked (Suc 2) test_env (code_of door) (plain_event ''Open'') (core_in ''Closed'') =
      Some (k', Ok ()) \<and> list_all is_guard_log guards \<and>
    observed k' = ProcessEventLog ''Open'' # guards @
      [ExitHook ''Closed'', ActionLog ''push'' ''Open'', ActionLog ''swing'' ''Open'',
       TransitionCallback ''Closed'' ''Opened'', StateChangeLog ''Closed'' ''Opened'', EntryHook ''Opened'']"
proof -
  let ?k = "core_in ''Closed''" and ?e = "plain_event ''Open''"
  let ?run = "process_event_unlocked (Suc 2) test_env (code_of door) ?e ?k"
  let ?ms = "the (map_of (p_states_events_mapping door) ''Closed'')"
  let ?m = "the (select_mapping ?ms ''Open'')"
  let ?cds = "case code_block door ''Closed'' ?m of Inr cds \<Rightarrow> cds | Inl _ \<Rightarrow> []"
  let ?cd = "the (find (candidate_enabled test_env ?k ?e) ?cds)"
  have flags: "\<not> has_queue_actions door" "\<not> has_completion_events door" "\<not> has_exception_handlers door"
    by code_simp+
  have table: "map_of (p_states_events_mapping door) (variant (state ?k)) = Some ?ms"
    "select_mapping ?ms (variant ?e) = Some ?m" "code_block door (variant (state ?k)) ?m = Inr ?cds"
    by code_simp+
  have guards: "guards_succeed test_env ?k ?e ?cds" "dispatch_fn test_env (variant ?e)"
    by (simp_all add: guards_succeed_def test_env_def split: prod.split)
  have cd: "find (candidate_enabled test_env ?k ?e) ?cds = Some ?cd" "\<not> cd_internal ?cd"
    "plain_steps (cd_steps ?cd)" "\<not> exit_skip ?k"
    by code_simp+
  have run: "?run = Some (fst (the ?run), Ok ())" by code_simp
  have vals: "cd_in_state ?cd = ''Closed''" "cd_out_state ?cd = ''Opened''" "cd_event ?cd = ''Open''"
    "map ident (step_actions (cd_steps ?cd)) = [''push'', ''swing'']"
    "lifecycle_of (fc_exit_actions (code_of door)) ''Closed'' = []"
    "lifecycle_of (fc_entry_actions (code_of door)) ''Opened'' = []"
    by code_simp+
  have logs: "action_logs ''Open'' (step_actions (cd_steps ?cd)) =
      [ActionLog ''push'' ''Open'', ActionLog ''swing'' ''Open'']"
    using vals(4) by (auto simp: action_logs_def map_eq_Cons_conv)
  from external_transition_order [OF door_code flags table guards cd run] run
  show ?thesis unfolding vals(1-3,5-6) logs by (auto simp: core_in_def action_logs_def)
qed

text \<open>
  An event for which the current state has no row, or which the dispatch policy vetoes, is
  answered with \<open>InvalidEvent\<close> and changes nothing but the event log.
\<close>

theorem rejected_event_no_effect:
  assumes "generate_code sm = Inr code" "\<not> fc_async_queue code"
    and "map_of (p_states_events_mapping sm) (variant (state k)) = Some ms"
    and "select_mapping ms (variant e) = None \<or> \<not> dispatch_fn env (variant e)"
  shows "process_event_unlocked (Suc n) env code e k =
    Some (observe (ProcessEventLog (variant e)) k, Err InvalidEvent)"
  unfolding sync_dispatch [OF assms(2)] by (rule rejected_event_step [OF assms(1,3,4)])

theorem rejected_event_no_effect_witness:
  "process_event_unlocked (Suc 0) test_env (code_of door) (plain_event ''Close'') (core_in ''Closed'') =
    Some (observe (ProcessEventLog ''Close'') (core_in ''Closed''), Err InvalidEvent)"
proof -
  let ?ms = "the (map_of (p_states_events_mapping door) ''Closed'')"
  have "\<not> fc_async_queue (code_of door)"
    "map_of (p_states_events_mapping door) (variant (state (core_in ''Closed''))) = Some ?ms"
    "select_mapping ?ms (variant (plain_event ''Close'')) = None \<or>
      \<not> dispatch_fn test_env (variant (plain_event ''Close''))"
    by code_simp+
  from rejected_event_no_effect [OF door_code this, where n = 0] show ?thesis by simp
qed

section \<open>Returning\<close>

text \<open>
  C6. A machine without queue actions returns from every event in every state when its completion
  rows cannot chain for ever: every completion is an external transition to a state of lower
  rank, for some ranking of the states below the fuel.
\<close>

theorem process_event_returns:
  assumes "generate_code sm = Inr code" "\<not> has_queue_actions sm"
    and "completions_descend rank code" "\<And>s. rank s < n"
  shows "\<exists>k' r. process_event_unlocked (Suc n) env code e k = Some (k', r)"
proof -
  have quiet: "no_queue_actions code" by (rule generated_no_queue_actions [OF assms(1,2)])
  then have sync: "\<not> fc_async_queue code" by (simp add: no_queue_actions_def)
  have "returns (dispatch_event env code (process_event_sync n env code) n e)"
    by (rule dispatch_event_returns [OF quiet generated_completions_in_place [OF assms(1)]
          generated_in_place [OF assms(1)] assms(3,4)])
  then show ?thesis by (auto simp: returns_def sync_dispatch [OF sync])
qed

theorem process_event_returns_witness:
  "\<exists>k' r. process_event_unlocked (Suc 2) test_env (code_of relay) (plain_event ''Go'') (core_in ''Left'') = Some (k', r)"
proof (rule process_event_returns [OF relay_code, where rank = "\<lambda>s. if s = ''Middle'' then 1 else 0"])
  show "\<not> has_queue_actions relay" by code_simp
  have "code_candidates (code_of relay) =
      set (concat (concat (map state_blocks (fc_arms (code_of relay)))))"
    by (auto simp: code_candidates_def state_candidates_def)
  moreover have "list_all (\<lambda>cd. cd_kind cd = Completion \<longrightarrow> \<not> cd_internal cd \<and>
      (if cd_out_state cd = ''Middle'' then 1 else 0) < (if cd_in_state cd = ''Middle'' then 1 else (0::nat)))
      (concat (concat (map state_blocks (fc_arms (code_of relay)))))"
    by code_simp
  ultimately show "completions_descend (\<lambda>s. if s = ''Middle'' then 1 else 0) (code_of relay)"
    unfolding completions_descend_def list_all_iff by blast
qed simp

text \<open>
  Fuel does not decide: an event that returns with some fuel returns the same core and result
  with any more, so a run that returns in Rust has one answer and a run that does not is \<open>None\<close>
  for every fuel.
\<close>

theorem process_event_fuel:
  assumes "process_event_unlocked n env code e k = Some (k', r)" "n \<le> n'"
  shows "process_event_unlocked n' env code e k = Some (k', r)"
  by (rule refinesD [OF process_event_unlocked_mono [OF assms(2)] assms(1)])

theorem process_event_fuel_witness:
  "process_event_unlocked 1000 test_env (code_of door) (plain_event ''Close'') (core_in ''Closed'') =
    Some (observe (ProcessEventLog ''Close'') (core_in ''Closed''), Err InvalidEvent)"
proof (rule process_event_fuel)
  show "process_event_unlocked 1 test_env (code_of door) (plain_event ''Close'') (core_in ''Closed'') =
    Some (observe (ProcessEventLog ''Close'') (core_in ''Closed''), Err InvalidEvent)"
    by code_simp
qed simp

end
