(* ===== verification/Flat_Queues.thy ===== *)
theory Flat_Queues
  imports Flat_Transition Flat_Examples
begin

text \<open>
  Runs with queue actions and lifecycle actions: what single machines do with deferred events,
  events processed from a row, and exit actions that fail.
\<close>

section \<open>Events that stay deferred\<close>

text \<open>A mapping whose one row, unguarded and internal, only defers the event.\<close>

definition only_defers_row :: "event_mapping \<Rightarrow> bool" where
  "only_defers_row m \<longleftrightarrow>
     (case m_transitions m of
        [t] \<Rightarrow> t_guard t = None \<and> t_defer t \<and> t_internal t \<and> transition_actions t = [] \<and>
          t_eval_actions t = [] \<and> t_process_events t = []
      | _ \<Rightarrow> False)"

text \<open>In state \<open>s\<close> the event is admitted by the policy and deferred.\<close>

definition deferred_in ::
  "parsed_state_machine \<Rightarrow> ('c, 'v, 'err, 'q) machine_env \<Rightarrow> string \<Rightarrow> 'v variant_value \<Rightarrow> bool" where
  "deferred_in sm env s e \<longleftrightarrow> dispatch_fn env (variant e) \<and>
     (case map_of (p_states_events_mapping sm) s of
        None \<Rightarrow> False
      | Some ms \<Rightarrow>
          (case select_mapping ms (variant e) of
             None \<Rightarrow> False
           | Some m \<Rightarrow> m_event m = variant e \<and> only_defers_row m \<and> dispatch_candidate_fn env s (m_event m) 0))"

lemma only_defers_block:
  assumes "only_defers_row m"
  obtains cd where "code_block sm s m = Inr [cd]" "cd_in_state cd = s" "cd_event cd = m_event m" "cd_index cd = 0"
    "cd_guard cd = None" "cd_defer cd" "cd_internal cd" "cd_steps cd = []" "cd_process cd = []"
    "\<exists>t \<in> set (m_transitions m). t_defer t"
proof -
  obtain t where t: "m_transitions m = [t]" "t_guard t = None" "t_defer t" "t_internal t" "transition_actions t = []"
      "t_eval_actions t = []" "t_process_events t = []"
    using assms by (auto simp: only_defers_row_def split: list.splits)
  then show ?thesis
    by (intro that [of "the (Some (case generate_candidate sm s m 0 t of Inr cd \<Rightarrow> cd | Inl _ \<Rightarrow> undefined))"])
      (simp_all add: code_block_def generate_candidate_def generate_actions_def Let_def)
qed

text \<open>Processing such an event only moves it to the end of the queue.\<close>

definition with_queue :: "('c, 'v, 'v variant_value event_queue) core \<Rightarrow> 'v variant_value list \<Rightarrow> 64 word \<Rightarrow> bool" where
  "with_queue k es c \<longleftrightarrow> EventQueue_ok c (deferred k) \<and> EventQueue_contents (deferred k) = es"

lemma deferred_in_runs:
  fixes k :: "('c, 'v, 'v variant_value event_queue) core"
  assumes gen: "generate_code sm = Inr code" and flags: "\<not> fc_has_completion code" "\<not> fc_has_exception code"
    and env: "queue_defer env = EventQueue_defer"
    and e: "deferred_in sm env (variant (state k)) e"
    and q: "with_queue k es c" "length es < unat c"
  shows "\<exists>k' e'. dispatch_event env code rec n e k = Some (k', Ok ()) \<and> state k' = state k \<and>
    variant e' = variant e \<and> with_queue k' (es @ [e']) c"
proof -
  obtain ms m where ms: "map_of (p_states_events_mapping sm) (variant (state k)) = Some ms"
      "select_mapping ms (variant e) = Some m" and m: "m_event m = variant e" "only_defers_row m"
      "dispatch_candidate_fn env (variant (state k)) (m_event m) 0" and policy: "dispatch_fn env (variant e)"
    using e by (auto simp: deferred_in_def split: option.splits)
  obtain cd where block: "code_block sm (variant (state k)) m = Inr [cd]" and cd: "cd_in_state cd = variant (state k)"
      "cd_event cd = m_event m" "cd_index cd = 0" "cd_guard cd = None" "cd_defer cd" "cd_internal cd"
      "cd_steps cd = []" "cd_process cd = []"
    using m(2) by (rule only_defers_block)
  have "guards_succeed env k e [cd]" "candidate_enabled env k e cd"
    using m(3) cd by (simp_all add: guards_succeed_def candidate_enabled_def)
  with dispatch_first_enabled [OF gen ms block _ policy flags(2), of rec n] obtain k1 where
    k1: "only_guard_logs (observe (ProcessEventLog (variant e)) k) k1"
    and run: "dispatch_event env code rec n e k =
      then_do (run_transition env code rec n cd (fst (block_data cd k e)) (snd (block_data cd k e)) None
        (finish_dispatch env code rec n (completion_origin_of code e))) (ret ()) k1"
    by auto
  have finish: "finish_dispatch env code rec n (completion_origin_of code e) = ret True"
    using flags(1) by (simp add: finish_dispatch_def completion_origin_of_def)
  let ?e = "Variant (cd_event cd) (snd (block_data cd k e))"
  have same: "deferred k1 = deferred k" "state k1 = state k" using k1 by (auto simp: only_guard_logs_def)
  obtain q' where q': "EventQueue_defer (deferred k1) ?e = (q', Ok ())" "EventQueue_ok c q'"
      "EventQueue_contents q' = es @ [?e]"
    using evq.defer_room [of c "deferred k" ?e] q by (auto simp: with_queue_def same)
  have "dispatch_event env code rec n e k = Some (k1\<lparr>deferred := q'\<rparr>, Ok ())"
    unfolding run finish
    by (simp add: run_transition_def Let_def cd then_do_def bind_def ret_def defer_event_def lift_step_def
        push_queue_def env q'(1) [unfolded cd(2)] update_def)
  then show ?thesis
    using q'(2,3) same cd(2) m(1)
    by (intro exI [of _ "k1\<lparr>deferred := q'\<rparr>"] exI [of _ ?e]) (simp add: with_queue_def)
qed

text \<open>A round of the drain loop leaves as many events as before, so no number of rounds ends it.\<close>

definition stays_deferred ::
  "parsed_state_machine \<Rightarrow> ('c, 'v, 'err, 'v variant_value event_queue) machine_env \<Rightarrow> string \<Rightarrow> 64 word
    \<Rightarrow> ('c, 'v, 'v variant_value event_queue) core \<Rightarrow> bool" where
  "stays_deferred sm env s c k \<longleftrightarrow> variant (state k) = s \<and> EventQueue_ok c (deferred k) \<and>
     EventQueue_contents (deferred k) \<noteq> [] \<and> list_all (deferred_in sm env s) (EventQueue_contents (deferred k))"

lemma deferred_in_variant: "variant e' = variant e \<Longrightarrow> deferred_in sm env s e' = deferred_in sm env s e"
  by (simp add: deferred_in_def split: option.split)

lemma drain_round:
  assumes gen: "generate_code sm = Inr code" and flags: "\<not> fc_async_queue code" "\<not> fc_has_completion code" "\<not> fc_has_exception code"
    and env: "queue_defer env = EventQueue_defer" "queue_pop env = EventQueue_pop"
    and k: "stays_deferred sm env s c k"
  shows "drain_step env code (process_event_sync n env code) k = None \<or>
    (\<exists>k'. drain_step env code (process_event_sync n env code) k = Some (k', Ok True) \<and> stays_deferred sm env s c k')"
proof -
  obtain e es where es: "EventQueue_contents (deferred k) = e # es" "deferred_in sm env s e" "list_all (deferred_in sm env s) es"
    using k by (cases "EventQueue_contents (deferred k)") (auto simp: stays_deferred_def)
  obtain q where q: "EventQueue_pop (deferred k) = (q, Some e)" "EventQueue_ok c q" "EventQueue_contents q = es"
    using evq.pop_cons [of c "deferred k" e es] k es(1) by (auto simp: stays_deferred_def)
  have room: "length es < unat c" using evq.list_bound [of c "deferred k"] k es(1) by (simp add: stays_deferred_def)
  let ?k = "k\<lparr>deferred := q\<rparr>"
  have pop: "pop_deferred env k = Some (?k, Ok (Some e))" using q(1) env(2) by (simp add: pop_deferred_def lift_step_def)
  show ?thesis
  proof (cases n)
    case 0
    then show ?thesis using flags(1) by (simp add: drain_step_def bind_def pop then_do_def catch_def)
  next
    case (Suc n')
    have "with_queue ?k es c" "deferred_in sm env (variant (state ?k)) e"
      using q(2,3) es(2) k by (simp_all add: with_queue_def stays_deferred_def)
    from deferred_in_runs [OF gen flags(2,3) env(1) this(2,1) room, of "process_event_sync n' env code" n'] obtain k' e' where
      k': "process_event_sync n env code e ?k = Some (k', Ok ())" "state k' = state k" "variant e' = variant e"
        "with_queue k' (es @ [e']) c"
      unfolding Suc by auto
    have "stays_deferred sm env s c k'"
      using k' es(2,3) k deferred_in_variant [OF k'(3), of sm env s] by (simp add: stays_deferred_def with_queue_def)
    moreover have "drain_step env code (process_event_sync n env code) k = Some (k', Ok True)"
      using flags(1) by (simp add: drain_step_def bind_def then_do_def catch_def pop k'(1) ret_def)
    ultimately show ?thesis by blast
  qed
qed

lemma deferred_in_flag:
  assumes gen: "generate_code sm = Inr code" and e: "deferred_in sm env s e"
  shows "fc_has_deferred code"
proof -
  obtain ms m where m: "map_of (p_states_events_mapping sm) s = Some ms" "select_mapping ms (variant e) = Some m" "only_defers_row m"
    using e by (auto simp: deferred_in_def split: option.splits)
  have "m \<in> snd ` set ms"
    using m(2) by (auto simp: select_mapping_def find_Some_iff split: option.splits dest!: find_lastD)
  moreover obtain t where "t \<in> set (m_transitions m)" "t_defer t"
    using m(3) by (rule only_defers_block) blast
  ultimately have "has_deferred_events sm"
    using map_of_SomeD [OF m(1)] unfolding has_deferred_events_def list_ex_iff all_transitions_def all_mappings_def by force
  with gen show ?thesis by (auto simp: generate_code_def Let_def try_then_Inr_iff split: if_splits)
qed

lemma drain_never_ends:
  assumes gen: "generate_code sm = Inr code" and flags: "\<not> fc_async_queue code" "\<not> fc_has_completion code" "\<not> fc_has_exception code"
    and env: "queue_defer env = EventQueue_defer" "queue_pop env = EventQueue_pop"
    and k: "stays_deferred sm env s c k"
  shows "drain_deferred env code (process_event_sync n env code) m k = None"
proof -
  have "while_ok m (drain_step env code (process_event_sync n env code)) k = None"
    using k
  proof (induction m arbitrary: k)
    case (Suc m)
    from drain_round [OF gen flags env Suc.prems, of n] Suc.IH show ?case by (auto simp: bind_def)
  qed simp
  moreover have "fc_has_deferred code"
    using deferred_in_flag [OF gen] k by (cases "EventQueue_contents (deferred k)") (auto simp: stays_deferred_def)
  ultimately show ?thesis by (simp add: drain_deferred_def)
qed

text \<open>The transition into the state that defers, when no action fails.\<close>

definition actions_succeed :: "('c, 'v, 'err, 'q) machine_env \<Rightarrow> bool" where
  "actions_succeed env \<longleftrightarrow> (\<forall>a c sd td. is_ok (snd (action_fn env a c sd td)))"

lemma call_action_succeeds:
  assumes "actions_succeed env" "observers_keep P"
  shows "triple P (call_action env ev sd td a) (\<lambda>_. P) (\<lambda>_. False)"
  unfolding call_action_def
proof (rule triple_lift_step)
  fix k assume k: "P k"
  obtain c r where r: "action_fn env (ident a) (machine_context k) sd td = (c, r)"
    by (cases "action_fn env (ident a) (machine_context k) sd td")
  with assms(1) have "is_ok r" by (metis actions_succeed_def snd_conv)
  with r observers_keepD [OF assms(2) k] observers_keepD(3) [OF assms(2) observers_keepD(1) [OF assms(2) k]]
  show "case snd (case action_fn env (ident a) (machine_context k) sd td of
        (c, Inl e) \<Rightarrow> (k\<lparr>machine_context := c\<rparr>, Err (ActionFailed e))
      | (c, Inr v) \<Rightarrow> (observe (ActionLog (ident a) ev) (k\<lparr>machine_context := c\<rparr>), Ok v)) of
      Inl _ \<Rightarrow> False
    | Inr _ \<Rightarrow> P (fst (case action_fn env (ident a) (machine_context k) sd td of
        (c, Inl e) \<Rightarrow> (k\<lparr>machine_context := c\<rparr>, Err (ActionFailed e))
      | (c, Inr v) \<Rightarrow> (observe (ActionLog (ident a) ev) (k\<lparr>machine_context := c\<rparr>), Ok v)))"
    by (auto simp: is_ok_iff)
qed

lemma run_actions_succeed:
  assumes "actions_succeed env" "observers_keep P"
  shows "plain_steps steps \<Longrightarrow> triple P (run_actions env ev sd ed td steps data) (\<lambda>_. P) (\<lambda>_. False)"
proof (induction steps arbitrary: data)
  case (Cons x steps)
  then obtain b a where "x = ActionStep b a" "plain_steps steps" by (cases x) (auto simp: plain_steps_def)
  with Cons.IH show ?case by (auto intro!: triple_bind [OF call_action_succeeds [OF assms]])
qed (auto intro: triple_ret)

lemma run_lifecycle_succeeds:
  assumes "actions_succeed env" "observers_keep P"
  shows "triple P (run_lifecycle env table s) (\<lambda>_. P) (\<lambda>_. False)"
proof -
  have "triple P (for_each (call_action env [] None NoData) as) (\<lambda>_. P) (\<lambda>_. False)" for as
    by (induction as) (auto intro: triple_then_do [OF call_action_succeeds [OF assms]] triple_ret)
  then show ?thesis by (simp add: run_lifecycle_def)
qed

lemma change_state_succeeds:
  fixes q :: 'q
  assumes env: "actions_succeed env" and plain: "plain_steps (cd_steps cd)"
  shows "triple (\<lambda>k :: ('c, 'v, 'q) core. deferred k = q) (change_state env code cd (run_actions env ev sd ed td (cd_steps cd) None))
    (\<lambda>_ k. deferred k = q \<and> variant (state k) = cd_out_state cd) (\<lambda>_. False)"
proof -
  let ?P = "\<lambda>k :: ('c, 'v, 'q) core. deferred k = q" and ?Q = "\<lambda>k :: ('c, 'v, 'q) core. deferred k = q \<and> variant (state k) = cd_out_state cd"
  have keep: "observers_keep ?P" "observers_keep ?Q" by (simp_all add: observers_keep_def)
  have exit: "triple ?P (exit_state env code s) (\<lambda>_. ?P) (\<lambda>_. False)" for s
    unfolding exit_state_def call_exit_hook_def
    by (rule triple_with_core, rule triple_pre [where P' = ?P], simp,
        intro triple_if triple_then_do [OF triple_update run_lifecycle_succeeds [OF env keep(1)]] triple_update)
      simp_all
  have replace: "triple ?P (replace_state s (Variant (cd_out_state cd) data)) (\<lambda>_. ?Q) (\<lambda>_. False)" for s data
    unfolding replace_state_def by (rule triple_update) simp
  have enter: "triple ?Q (enter_state env code s) (\<lambda>_. ?Q) (\<lambda>_. False)" for s
    unfolding enter_state_def call_entry_hook_def
    by (rule triple_then_do [OF triple_update run_lifecycle_succeeds [OF env keep(2)]]) simp
  have skip: "triple ?P (update (\<lambda>k. k\<lparr>exit_skip := True\<rparr>)) (\<lambda>_. ?P) (\<lambda>_. False)" by (rule triple_update) simp
  show ?thesis
    unfolding change_state_def Let_def
    by (rule triple_then_do [OF exit triple_then_do [OF skip
          triple_bind [OF run_actions_succeed [OF env keep(1) plain] triple_then_do [OF replace enter]]]])
qed

text \<open>
  C7. In a synchronous machine without completions and exception rows, with the queues of the
  library and callbacks that do not fail: when an event takes the machine into a state whose only row
  for each deferred event defers it again, and some event is deferred, then the event that triggers the
  change is never answered, whatever the fuel, because the retry after the change does not end.
\<close>

theorem deferred_event_livelock:
  fixes k :: "('c, 'v, 'v variant_value event_queue) core"
  assumes "generate_code sm = Inr code" "\<not> fc_async_queue code" "\<not> has_completion_events sm" "\<not> has_exception_handlers sm"
    and "queue_defer env = EventQueue_defer" "queue_pop env = EventQueue_pop" "actions_succeed env"
    and "map_of (p_states_events_mapping sm) (variant (state k)) = Some ms" "select_mapping ms (variant e) = Some m"
      "code_block sm (variant (state k)) m = Inr cds" "guards_succeed env k e cds" "dispatch_fn env (variant e)"
    and "find (candidate_enabled env k e) cds = Some cd" "\<not> cd_internal cd" "plain_steps (cd_steps cd)"
      "\<not> cd_defer cd" "cd_process cd = []"
    and "EventQueue_ok c (deferred k)" "EventQueue_contents (deferred k) \<noteq> []"
      "list_all (deferred_in sm env (cd_out_state cd)) (EventQueue_contents (deferred k))"
  shows "process_event_unlocked n env code e k = None"
proof (cases n)
  case (Suc n')
  let ?rec = "process_event_sync n' env code" and ?sd = "fst (block_data cd k e)" and ?ed = "snd (block_data cd k e)"
  have flags: "\<not> fc_has_completion code" "\<not> fc_has_exception code"
    using assms(1,3,4) by (auto simp: generate_code_def Let_def try_then_Inr_iff split: if_splits)
  have finish: "finish_dispatch env code ?rec n' (completion_origin_of code e) = ret True"
    using flags(1) by (simp add: finish_dispatch_def completion_origin_of_def)
  from dispatch_first_enabled [OF assms(1,8-12) flags(2), of ?rec n'] obtain k1 where
    k1: "only_guard_logs (observe (ProcessEventLog (variant e)) k) k1"
    and run: "dispatch_event env code ?rec n' e k =
      then_do (run_transition env code ?rec n' cd ?sd ?ed None (ret True)) (ret ()) k1"
    by (auto simp: assms(13) finish)
  let ?change = "change_state env code cd (run_actions env (cd_event cd) ?sd ?ed (trigger_of cd ?ed None) (cd_steps cd) None)"
  obtain k2 r where k2: "?change k1 = Some (k2, r)" using returns_change_state unfolding returns_def by fastforce
  have queue: "deferred k1 = deferred k" using k1 by (auto simp: only_guard_logs_def)
  note ok = change_state_succeeds [OF assms(7,15)]
  obtain u where r: "r = Ok u"
  proof (cases r)
    case (Inl err)
    from triple_error [OF ok k2 [unfolded this] queue] show thesis ..
  qed (rule that)
  have "deferred k2 = deferred k \<and> variant (state k2) = cd_out_state cd"
    using triple_value [OF ok k2 [unfolded r] queue] .
  with assms(18-20) have "stays_deferred sm env (cd_out_state cd) c k2" by (simp add: stays_deferred_def)
  note stuck = drain_never_ends [OF assms(1,2) flags assms(5,6) this, of n' n']
  have "run_transition env code ?rec n' cd ?sd ?ed None (ret True) k1 = None"
    using k2 stuck assms(14,16,17) by (simp add: run_transition_def Let_def then_do_def bind_def ret_def r)
  then show ?thesis
    using run Suc assms(2) by (simp add: process_event_unlocked_def then_do_def bind_def)
qed (simp add: process_event_unlocked_def assms(2))

text \<open>\<open>Waiting\<close> and \<open>Ready\<close> both defer \<open>Job\<close>; \<open>Go\<close> leads from the first to the second.\<close>

definition postponing :: parsed_state_machine where
  "postponing = table_of
     [(''Waiting'',
       [(''Job'', mapping ''Waiting'' Normal False ''Job'' [row None [] [] True ''Waiting'' True]),
        (''Go'', mapping ''Waiting'' Normal False ''Go'' [row None [] [] False ''Ready'' False])]),
      (''Ready'',
       [(''Job'', mapping ''Ready'' Normal False ''Job'' [row None [] [] True ''Ready'' True])])] False"

definition calm_env :: test_env where
  "calm_env = test_env\<lparr>action_fn := \<lambda>a c sd td. (Suc c, Ok None)\<rparr>"

definition job_core :: test_core where
  "job_core = (core_in ''Waiting'')\<lparr>deferred := fst (EventQueue_defer (EventQueue_new 16) (plain_event ''Job''))\<rparr>"

theorem deferred_event_livelock_witness:
  "(\<exists>k. process_event_unlocked 2 calm_env (code_of postponing) (plain_event ''Job'') (core_in ''Waiting'') = Some (k, Ok ()) \<and>
      deferred k = deferred job_core) \<and>
   (\<forall>n. process_event_unlocked n calm_env (code_of postponing) (plain_event ''Go'') job_core = None)"
proof
  let ?run = "process_event_unlocked 2 calm_env (code_of postponing) (plain_event ''Job'') (core_in ''Waiting'')"
  have "?run = Some (fst (the ?run), Ok ())" "deferred (fst (the ?run)) = deferred job_core" by code_simp+
  then show "\<exists>k. ?run = Some (k, Ok ()) \<and> deferred k = deferred job_core" by blast
  let ?e = "plain_event ''Go''"
  let ?ms = "the (map_of (p_states_events_mapping postponing) ''Waiting'')"
  let ?m = "the (select_mapping ?ms ''Go'')"
  let ?cds = "case code_block postponing ''Waiting'' ?m of Inr cds \<Rightarrow> cds | Inl _ \<Rightarrow> []"
  let ?cd = "the (find (candidate_enabled calm_env job_core ?e) ?cds)"
  have code: "generate_code postponing = Inr (code_of postponing)" by code_simp
  have flags: "\<not> fc_async_queue (code_of postponing)" "\<not> has_completion_events postponing" "\<not> has_exception_handlers postponing"
    by code_simp+
  have env: "queue_defer calm_env = EventQueue_defer" "queue_pop calm_env = EventQueue_pop" "actions_succeed calm_env"
    by (simp_all add: calm_env_def test_env_def actions_succeed_def)
  have table: "map_of (p_states_events_mapping postponing) (variant (state job_core)) = Some ?ms"
    "select_mapping ?ms (variant ?e) = Some ?m" "code_block postponing (variant (state job_core)) ?m = Inr ?cds"
    by code_simp+
  have guards: "guards_succeed calm_env job_core ?e ?cds" "dispatch_fn calm_env (variant ?e)"
    by (simp_all add: guards_succeed_def calm_env_def test_env_def split: prod.split)
  have cd: "find (candidate_enabled calm_env job_core ?e) ?cds = Some ?cd" "\<not> cd_internal ?cd" "plain_steps (cd_steps ?cd)"
    "\<not> cd_defer ?cd" "cd_process ?cd = []"
    by code_simp+
  have "EventQueue_ok 16 (EventQueue_new 16 :: test_queue)" "EventQueue_contents (EventQueue_new 16 :: test_queue) = []"
    by (rule evq.new_inv, rule evq.new_list)
  with evq.defer_room [of 16 "EventQueue_new 16" "plain_event ''Job''"] have queue: "EventQueue_ok 16 (deferred job_core)"
    "EventQueue_contents (deferred job_core) = [plain_event ''Job'']"
    by (auto simp: job_core_def)
  have again: "deferred_in postponing calm_env (cd_out_state ?cd) (plain_event ''Job'')" by code_simp
  show "\<forall>n. process_event_unlocked n calm_env (code_of postponing) ?e job_core = None"
    by (intro allI deferred_event_livelock [OF code flags env table guards cd queue(1)]) (simp_all add: queue(2) again)
qed

section \<open>The order of processed events\<close>

text \<open>
  \<open>Source + Go / (process(A), process(B)) = Target\<close>, where \<open>Target\<close> runs the actions \<open>a\<close> and \<open>b\<close> on
  the two events; once as a synchronous machine and once with asynchronous callbacks.
\<close>

definition fan_out :: "bool \<Rightarrow> parsed_state_machine" where
  "fan_out async = table_of
     [(''Source'', [(''Go'', mapping ''Source'' Normal False ''Go''
         [row None [] [[Ident ''A''], [Ident ''B'']] False ''Target'' False])]),
      (''Target'',
       [(''A'', mapping ''Target'' Normal False ''A'' [row None [''a''] [] False ''Target'' True]),
        (''B'', mapping ''Target'' Normal False ''B'' [row None [''b''] [] False ''Target'' True])])] async"

text \<open>A queue of two places is enough here and keeps the evaluation short.\<close>

definition small_env :: test_env where
  "small_env = test_env\<lparr>queue_new := EventQueue_new 3\<rparr>"

definition small_core :: "string \<Rightarrow> test_core" where
  "small_core s = (core_in s)\<lparr>deferred := EventQueue_new 3, pending := EventQueue_new 3\<rparr>"

definition actions_run :: "((nat, nat, test_queue) core \<times> (nat machine_error, unit) rust_result) option \<Rightarrow> string list" where
  "actions_run r = (case r of None \<Rightarrow> [] | Some (k, _) \<Rightarrow>
     concat (map (\<lambda>x. case x of ActionLog a _ \<Rightarrow> [a] | _ \<Rightarrow> []) (observed k)))"

text \<open>
  The same table runs two processed events in opposite orders: the synchronous machine handles
  them as the row names them, the asynchronous one, which pushes them on the front of its pending
  queue, in reverse.
\<close>

theorem processed_events_order:
  "actions_run (process_event_unlocked 6 small_env (code_of (fan_out False)) (plain_event ''Go'')
      (small_core ''Source'')) = [''a'', ''b''] \<and>
   actions_run (process_event_unlocked 6 small_env (code_of (fan_out True)) (plain_event ''Go'')
      (small_core ''Source'')) = [''b'', ''a'']"
proof
  show "actions_run (process_event_unlocked 6 small_env (code_of (fan_out False)) (plain_event ''Go'')
      (small_core ''Source'')) = [''a'', ''b'']" by code_simp
  show "actions_run (process_event_unlocked 6 small_env (code_of (fan_out True)) (plain_event ''Go'')
      (small_core ''Source'')) = [''b'', ''a'']" by code_simp
qed

section \<open>Exit actions that fail\<close>

text \<open>\<open>Held + on_exit<_> / fail\<close> and \<open>Held + Go = Free\<close>.\<close>

definition stuck_exit :: parsed_state_machine where
  "stuck_exit = table_of
     [(''Held'',
       [(''Go'', mapping ''Held'' Normal False ''Go'' [row None [] [] False ''Free'' False]),
        (''lifecycle::exit'', mapping ''Held'' Exit False ''on_exit'' [row None [''fail''] [] False ''Held'' False])]),
      (''Free'', [])] False"

text \<open>
  The alternation of entry and exit hooks needs exit actions that succeed: when an \<open>on_exit<_>\<close> action fails, \<open>exit_skip\<close>
  is not yet set, so the next event runs the exit hook of the same entry a second time.
\<close>

theorem failed_exit_action_repeats_hook:
  "\<exists>k1 k2. process_event_unlocked 2 test_env (code_of stuck_exit) (plain_event ''Go'') (core_in ''Held'') =
      Some (k1, Err (ActionFailed 7)) \<and>
    process_event_unlocked 2 test_env (code_of stuck_exit) (plain_event ''Go'') k1 =
      Some (k2, Err (ActionFailed 7)) \<and>
    observed k2 = [ProcessEventLog ''Go'', ExitHook ''Held'', ProcessEventLog ''Go'', ExitHook ''Held'']"
proof -
  let ?first = "process_event_unlocked 2 test_env (code_of stuck_exit) (plain_event ''Go'') (core_in ''Held'')"
  define k1 where "k1 = fst (the ?first)"
  let ?second = "process_event_unlocked 2 test_env (code_of stuck_exit) (plain_event ''Go'') k1"
  define k2 where "k2 = fst (the ?second)"
  have "?first = Some (k1, Err (ActionFailed 7))" unfolding k1_def by code_simp
  moreover have "?second = Some (k2, Err (ActionFailed 7))" unfolding k2_def k1_def by code_simp
  moreover have "observed k2 = [ProcessEventLog ''Go'', ExitHook ''Held'', ProcessEventLog ''Go'', ExitHook ''Held'']"
    unfolding k2_def k1_def by code_simp
  ultimately show ?thesis by blast
qed

end
