(* ===== verification/Names.thy ===== *)
theory Names
  imports Machine_Ast "HOL-Library.Char_ord"
begin

text \<open>
  Names of macros/src/parser/mod.rs: the identifier made from a quoted state or event name, and
  the check that no two spellings of a machine's states or events give the same identifier.
\<close>

section \<open>Identifiers from quoted names\<close>

definition is_ascii_digit :: "char \<Rightarrow> bool" where
  "is_ascii_digit c \<longleftrightarrow> CHR ''0'' \<le> c \<and> c \<le> CHR ''9''"

definition is_ascii_lowercase :: "char \<Rightarrow> bool" where
  "is_ascii_lowercase c \<longleftrightarrow> CHR ''a'' \<le> c \<and> c \<le> CHR ''z''"

definition is_ascii_uppercase :: "char \<Rightarrow> bool" where
  "is_ascii_uppercase c \<longleftrightarrow> CHR ''A'' \<le> c \<and> c \<le> CHR ''Z''"

definition is_ascii_alphanumeric :: "char \<Rightarrow> bool" where
  "is_ascii_alphanumeric c \<longleftrightarrow> is_ascii_digit c \<or> is_ascii_lowercase c \<or> is_ascii_uppercase c"

definition to_ascii_uppercase :: "char \<Rightarrow> char" where
  "to_ascii_uppercase c = (if is_ascii_lowercase c then char_of (of_char c - 32 :: nat) else c)"

text \<open>The loop of \<open>state_ident\<close>: the flag is \<open>uppercase\<close>, the last argument \<open>ident\<close>.\<close>

fun state_ident_loop :: "string \<Rightarrow> bool \<Rightarrow> string \<Rightarrow> string" where
  "state_ident_loop [] uppercase acc = acc"
| "state_ident_loop (c # cs) uppercase acc =
     (if is_ascii_alphanumeric c
      then state_ident_loop cs False (acc @ [if uppercase then to_ascii_uppercase c else c])
      else state_ident_loop cs True acc)"

definition state_ident :: "string \<Rightarrow> string" where
  "state_ident value =
     (let ident = state_ident_loop value True [];
          ident = (if ident = [] then ''State'' else ident)
      in if is_ascii_digit (hd ident) then CHR ''S'' # ident else ident)"

lemma ascii_upper_cases:
  assumes "is_ascii_lowercase c"
  shows "is_ascii_uppercase (to_ascii_uppercase c)"
proof -
  have c: "97 \<le> (of_char c :: nat)" "(of_char c :: nat) \<le> 122"
    using assms by (simp_all add: is_ascii_lowercase_def less_eq_char_def)
  then have "of_char (char_of (of_char c - 32 :: nat)) = (of_char c - 32 :: nat)" by simp
  moreover have "65 \<le> (of_char c :: nat) - 32" "(of_char c :: nat) - 32 \<le> 90" using c by linarith+
  ultimately show ?thesis
    using assms by (simp add: is_ascii_uppercase_def to_ascii_uppercase_def less_eq_char_def)
qed

lemma alphanumeric_upper:
  "is_ascii_alphanumeric c \<Longrightarrow> is_ascii_alphanumeric (to_ascii_uppercase c)"
  using ascii_upper_cases [of c]
  by (auto simp: is_ascii_alphanumeric_def to_ascii_uppercase_def)

lemma upper_idem:
  assumes "is_ascii_alphanumeric c"
  shows "to_ascii_uppercase (to_ascii_uppercase c) = to_ascii_uppercase c"
proof (cases "is_ascii_lowercase c")
  case True
  from ascii_upper_cases [OF this] have "\<not> is_ascii_lowercase (to_ascii_uppercase c)"
    by (auto simp: is_ascii_uppercase_def is_ascii_lowercase_def less_eq_char_def)
  then show ?thesis by (simp add: to_ascii_uppercase_def [of "to_ascii_uppercase c"])
qed (simp add: to_ascii_uppercase_def)

lemma loop_alphanumeric:
  "list_all is_ascii_alphanumeric acc \<Longrightarrow> list_all is_ascii_alphanumeric (state_ident_loop cs u acc)"
  by (induction cs u acc rule: state_ident_loop.induct) (auto simp: alphanumeric_upper)

lemma loop_prefix: "\<exists>rest. state_ident_loop cs u acc = acc @ rest"
  by (induction cs u acc rule: state_ident_loop.induct) auto

lemma loop_head:
  "state_ident_loop cs True [] = c # rest \<Longrightarrow> to_ascii_uppercase c = c \<and> is_ascii_alphanumeric c"
proof (induction cs)
  case (Cons d cs)
  show ?case
  proof (cases "is_ascii_alphanumeric d")
    case True
    obtain r where "state_ident_loop cs False [to_ascii_uppercase d] = [to_ascii_uppercase d] @ r"
      using loop_prefix by blast
    with Cons.prems True show ?thesis by (auto simp: upper_idem alphanumeric_upper)
  next
    case False
    with Cons show ?thesis by simp
  qed
qed simp

lemma loop_stable:
  "list_all is_ascii_alphanumeric cs \<Longrightarrow> state_ident_loop cs False acc = acc @ cs"
  by (induction cs arbitrary: acc) auto

lemma state_ident_shape:
  "\<exists>c rest. state_ident s = c # rest \<and> \<not> is_ascii_digit c \<and> to_ascii_uppercase c = c \<and>
    list_all is_ascii_alphanumeric (c # rest)"
proof -
  let ?l = "state_ident_loop s True []"
  have l: "list_all is_ascii_alphanumeric ?l" by (rule loop_alphanumeric) simp
  show ?thesis
  proof (cases ?l)
    case Nil
    then have "state_ident s = ''State''" by (simp add: state_ident_def is_ascii_digit_def less_eq_char_def)
    moreover have "\<not> is_ascii_digit CHR ''S''" "to_ascii_uppercase CHR ''S'' = CHR ''S''"
      "list_all is_ascii_alphanumeric ''State''"
      by code_simp+
    ultimately show ?thesis by auto
  next
    case (Cons c rest)
    have S: "\<not> is_ascii_digit CHR ''S''" "to_ascii_uppercase CHR ''S'' = CHR ''S''"
      "is_ascii_alphanumeric CHR ''S''"
      by code_simp+
    from loop_head [OF Cons] l Cons S show ?thesis
      by (cases "is_ascii_digit c") (auto simp: state_ident_def Let_def)
  qed
qed

text \<open>
  Every quoted name, whatever its characters, becomes an ASCII Rust identifier: not empty,
  alphanumeric, starting with a letter; and an identifier so made is left as it is, so a state may
  be named by its quoted name or by its identifier.
\<close>

theorem state_ident_identifier:
  "state_ident s \<noteq> [] \<and> \<not> is_ascii_digit (hd (state_ident s)) \<and>
   list_all is_ascii_alphanumeric (state_ident s) \<and> state_ident (state_ident s) = state_ident s"
proof -
  obtain c rest where s: "state_ident s = c # rest" and c: "\<not> is_ascii_digit c" "to_ascii_uppercase c = c"
    "list_all is_ascii_alphanumeric (c # rest)"
    using state_ident_shape by blast
  have "state_ident (c # rest) = c # rest"
    using c by (simp add: state_ident_def loop_stable)
  with s c show ?thesis by simp
qed

section \<open>Name collisions\<close>

text \<open>\<open>source.split_once(':')\<close>.\<close>

fun after_colon :: "string \<Rightarrow> string option" where
  "after_colon [] = None"
| "after_colon (c # cs) = (if c = CHR '':'' then Some cs else after_colon cs)"

definition source_display :: "string \<Rightarrow> string" where
  "source_display source = (case after_colon source of None \<Rightarrow> source | Some v \<Rightarrow> v)"

type_synonym seen_names = "(string \<times> string) list"

definition record_name ::
  "seen_names \<Rightarrow> string \<Rightarrow> string \<Rightarrow> string \<Rightarrow> (string, seen_names) rust_result" where
  "record_name names i source kind =
     (case map_of names i of
        Some previous \<Rightarrow>
          if previous \<noteq> source
          then Err (kind @ '' `'' @ source_display source @ ''` collides with `'' @ source_display previous @
                 ''`: both normalize to `'' @ i @ ''`'')
          else Ok names
      | None \<Rightarrow> Ok ((i, source) # names))"

definition record_transition ::
  "state_transition \<Rightarrow> seen_names \<times> seen_names \<Rightarrow> (string, seen_names \<times> seen_names) rust_result" where
  "record_transition t = (\<lambda>(states, events).
     try_then
       (if in_wildcard (st_in t) then Ok states
        else record_name states (in_ident (st_in t)) (in_source (st_in t)) ''state name'')
       (\<lambda>states. try_then
         (if out_internal (st_out t) then Ok states
          else record_name states (out_ident (st_out t)) (out_source (st_out t)) ''state name'')
         (\<lambda>states. try_then
           (if \<not> ev_wildcard (st_event t) \<and> ev_kind (st_event t) = Normal
            then record_name events (ev_ident (st_event t)) (ev_source (st_event t)) ''event name''
            else Ok events)
           (\<lambda>events. Ok (states, events)))))"

definition validate_machine_names :: "state_machine \<Rightarrow> (string, unit) rust_result" where
  "validate_machine_names sm =
     try_then (try_fold record_transition (transitions sm) ([], [])) (\<lambda>_. Ok ())"

definition validate_name_collisions :: "state_machine \<Rightarrow> (string, unit) rust_result" where
  "validate_name_collisions sm = validate_machine_names sm"

definition record_event_name :: "state_transition \<Rightarrow> seen_names \<Rightarrow> (string, seen_names) rust_result" where
  "record_event_name t events =
     (if \<not> ev_wildcard (st_event t) \<and> ev_kind (st_event t) = Normal
      then record_name events (ev_ident (st_event t)) (ev_source (st_event t)) ''event name''
      else Ok events)"

definition validate_name_collisions_many :: "state_machine list \<Rightarrow> (string, unit) rust_result" where
  "validate_name_collisions_many machines =
     try_then
       (try_fold (\<lambda>sm events. try_then (validate_machine_names sm)
          (\<lambda>_. try_fold record_event_name (transitions sm) events)) machines [])
       (\<lambda>_. Ok ())"

text \<open>The spellings a machine uses, with the identifier each becomes.\<close>

definition state_spellings :: "state_transition list \<Rightarrow> (string \<times> string) list" where
  "state_spellings ts = concat (map (\<lambda>t.
     (if in_wildcard (st_in t) then [] else [(in_ident (st_in t), in_source (st_in t))]) @
     (if out_internal (st_out t) then [] else [(out_ident (st_out t), out_source (st_out t))])) ts)"

definition event_spellings :: "state_transition list \<Rightarrow> (string \<times> string) list" where
  "event_spellings ts = concat (map (\<lambda>t.
     if \<not> ev_wildcard (st_event t) \<and> ev_kind (st_event t) = Normal
     then [(ev_ident (st_event t), ev_source (st_event t))] else []) ts)"

definition one_spelling :: "(string \<times> string) set \<Rightarrow> bool" where
  "one_spelling names \<longleftrightarrow> (\<forall>i s s'. (i, s) \<in> names \<longrightarrow> (i, s') \<in> names \<longrightarrow> s = s')"

definition seen_ok :: "seen_names \<Rightarrow> (string \<times> string) set \<Rightarrow> bool" where
  "seen_ok names seen \<longleftrightarrow> (\<forall>i s. map_of names i = Some s \<longleftrightarrow> (i, s) \<in> seen)"

lemma seen_ok_one: "seen_ok names seen \<Longrightarrow> one_spelling seen"
  unfolding seen_ok_def one_spelling_def by (metis option.inject)

lemma record_name_spec:
  assumes "seen_ok names seen"
  shows "(\<exists>names'. record_name names i s kind = Inr names' \<and> seen_ok names' (insert (i, s) seen)) \<or>
    (\<exists>e. record_name names i s kind = Inl e \<and> \<not> one_spelling (insert (i, s) seen))"
proof (cases "map_of names i")
  case None
  then have "seen_ok ((i, s) # names) (insert (i, s) seen)"
    using assms by (auto simp: seen_ok_def) (metis option.distinct(1))
  with None show ?thesis by (simp add: record_name_def)
next
  case (Some p)
  then have "(i, p) \<in> seen" using assms by (simp add: seen_ok_def)
  with Some assms show ?thesis
    by (cases "p = s") (auto simp: record_name_def insert_absorb one_spelling_def)
qed

lemma one_spelling_mono: "\<not> one_spelling A \<Longrightarrow> A \<subseteq> B \<Longrightarrow> \<not> one_spelling B"
  unfolding one_spelling_def by blast

lemma seen_ok_empty: "seen_ok [] {}"
  by (simp add: seen_ok_def)

text \<open>Recording a list of spellings one after the other.\<close>

lemma record_transition_spec:
  assumes "seen_ok states S" "seen_ok events E"
  shows "(case record_transition t (states, events) of
      Inr (states', events') \<Rightarrow>
        seen_ok states' (S \<union> set (state_spellings [t])) \<and> seen_ok events' (E \<union> set (event_spellings [t]))
    | Inl _ \<Rightarrow> \<not> (one_spelling (S \<union> set (state_spellings [t])) \<and> one_spelling (E \<union> set (event_spellings [t]))))"
proof -
  let ?in = "if in_wildcard (st_in t) then [] else [(in_ident (st_in t), in_source (st_in t))]"
  let ?out = "if out_internal (st_out t) then [] else [(out_ident (st_out t), out_source (st_out t))]"
  have one: "(\<exists>names'. (if b then Ok names else record_name names i s kind) = Inr names' \<and>
        seen_ok names' (A \<union> set (if b then [] else [(i, s)]))) \<or>
      (\<exists>e. (if b then Ok names else record_name names i s kind) = Inl e \<and>
        \<not> one_spelling (A \<union> set (if b then [] else [(i, s)])))"
    if "seen_ok names A" for names A b i s kind
    using that record_name_spec [OF that, of i s kind] by (cases b) auto
  have ev: "set (event_spellings [t]) = set (if \<not> (\<not> ev_wildcard (st_event t) \<and> ev_kind (st_event t) = Normal)
      then [] else [(ev_ident (st_event t), ev_source (st_event t))])"
    by (simp add: event_spellings_def)
  have swap: "(if c then x else y) = (if \<not> c then y else x)" for c and x y :: "(string, seen_names) rust_result"
    by simp
  have st: "S \<union> set (state_spellings [t]) = S \<union> set ?in \<union> set ?out" by (auto simp: state_spellings_def)
  from one [OF assms(1), of "in_wildcard (st_in t)" "in_ident (st_in t)" "in_source (st_in t)" "''state name''"]
  show ?thesis
  proof (elim disjE exE conjE)
    fix e assume "(if in_wildcard (st_in t) then Ok states
        else record_name states (in_ident (st_in t)) (in_source (st_in t)) ''state name'') = Inl e"
      and "\<not> one_spelling (S \<union> set ?in)"
    then show ?thesis
      unfolding st record_transition_def by (auto dest: one_spelling_mono [of _ "S \<union> set ?in \<union> set ?out"])
  next
    fix states1 assume r1: "(if in_wildcard (st_in t) then Ok states
        else record_name states (in_ident (st_in t)) (in_source (st_in t)) ''state name'') = Inr states1"
      and s1: "seen_ok states1 (S \<union> set ?in)"
    from one [OF s1, of "out_internal (st_out t)" "out_ident (st_out t)" "out_source (st_out t)" "''state name''"]
    show ?thesis
    proof (elim disjE exE conjE)
      fix e assume "(if out_internal (st_out t) then Ok states1
          else record_name states1 (out_ident (st_out t)) (out_source (st_out t)) ''state name'') = Inl e"
        and "\<not> one_spelling (S \<union> set ?in \<union> set ?out)"
      with r1 show ?thesis unfolding st record_transition_def by auto
    next
      fix states2 assume r2: "(if out_internal (st_out t) then Ok states1
          else record_name states1 (out_ident (st_out t)) (out_source (st_out t)) ''state name'') = Inr states2"
        and s2: "seen_ok states2 (S \<union> set ?in \<union> set ?out)"
      from one [OF assms(2), of "\<not> (\<not> ev_wildcard (st_event t) \<and> ev_kind (st_event t) = Normal)"
          "ev_ident (st_event t)" "ev_source (st_event t)" "''event name''"]
      show ?thesis
        using r1 r2 s2 unfolding st ev record_transition_def
        by (subst (3) swap) auto
    qed
  qed
qed

lemma spellings_Cons:
  "set (state_spellings (t # ts)) = set (state_spellings [t]) \<union> set (state_spellings ts)"
  "set (event_spellings (t # ts)) = set (event_spellings [t]) \<union> set (event_spellings ts)"
  by (auto simp: state_spellings_def event_spellings_def)

lemma record_all_spec:
  assumes "seen_ok states S" "seen_ok events E"
  shows "is_ok (try_fold record_transition ts (states, events)) \<longleftrightarrow>
    one_spelling (S \<union> set (state_spellings ts)) \<and> one_spelling (E \<union> set (event_spellings ts))"
  using assms
proof (induction ts arbitrary: states events S E)
  case Nil
  then show ?case by (auto simp: state_spellings_def event_spellings_def dest: seen_ok_one)
next
  case (Cons t ts)
  note step = record_transition_spec [OF Cons.prems, of t]
  show ?case
  proof (cases "record_transition t (states, events)")
    case (Inl e)
    with step have "\<not> (one_spelling (S \<union> set (state_spellings [t])) \<and> one_spelling (E \<union> set (event_spellings [t])))"
      by simp
    moreover have "S \<union> set (state_spellings [t]) \<subseteq> S \<union> set (state_spellings (t # ts))"
      "E \<union> set (event_spellings [t]) \<subseteq> E \<union> set (event_spellings (t # ts))"
      unfolding spellings_Cons [of t ts] by blast+
    ultimately have "\<not> (one_spelling (S \<union> set (state_spellings (t # ts))) \<and>
        one_spelling (E \<union> set (event_spellings (t # ts))))"
      using one_spelling_mono by blast
    with Inl show ?thesis by simp
  next
    case (Inr p)
    then obtain states' events' where p: "p = (states', events')" by (cases p)
    with step Inr have "seen_ok states' (S \<union> set (state_spellings [t]))"
      "seen_ok events' (E \<union> set (event_spellings [t]))" by simp_all
    from Cons.IH [OF this] Inr p show ?thesis by (simp add: spellings_Cons [of t ts] Un_assoc)
  qed
qed

text \<open>
  C13. The name check accepts a machine exactly when every identifier of a state and every
  identifier of a declared event stands for one spelling: no two different quoted names or
  identifiers of the table become the same generated variant.
\<close>

theorem validate_machine_names_iff:
  "is_ok (validate_machine_names sm) \<longleftrightarrow>
     one_spelling (set (state_spellings (transitions sm))) \<and>
     one_spelling (set (event_spellings (transitions sm)))"
proof -
  have "is_ok (validate_machine_names sm) = is_ok (try_fold record_transition (transitions sm) ([], []))"
    unfolding validate_machine_names_def
    by (cases "try_fold record_transition (transitions sm) ([], [])") simp_all
  with record_all_spec [OF seen_ok_empty seen_ok_empty, of "transitions sm"] show ?thesis by simp
qed

end
