(* ===== verification/Lifetimes.thy ===== *)
theory Lifetimes
  imports Machine_Ast
begin

text \<open>
  Lifetimes of payload types: macros/src/parser/lifetimes.rs (the collector over \<open>syn\<close> types), and
  macros/src/parser/data.rs (the payload types collected for states and events). A set of
  lifetimes is a list in order of first occurrence; the collector's stack of bound lifetimes and its
  nesting depth of function pointers are arguments of the traversal.
\<close>

section \<open>Lists of lifetimes\<close>

definition Lifetimes_insert :: "string \<Rightarrow> string list \<Rightarrow> string list" where
  "Lifetimes_insert l ls = (if l = ''static'' then ls else if l \<in> set ls then ls else ls @ [l])"

definition Lifetimes_extend :: "string list \<Rightarrow> string list \<Rightarrow> string list" where
  "Lifetimes_extend ls other = fold Lifetimes_insert other ls"

definition Lifetimes_without :: "string list \<Rightarrow> string list \<Rightarrow> string list" where
  "Lifetimes_without ls other = filter (\<lambda>l. l \<notin> set other) ls"

section \<open>The collector\<close>

text \<open>The collected lifetimes and whether a reference without lifetime was met.\<close>

type_synonym collected = "string list \<times> bool"

definition lifetime_is_bound :: "string list list \<Rightarrow> string \<Rightarrow> bool" where
  "lifetime_is_bound scopes l \<longleftrightarrow> list_ex (\<lambda>scope. l \<in> set scope) (rev scopes)"

definition visit_lifetime :: "string list list \<Rightarrow> string \<Rightarrow> collected \<Rightarrow> collected" where
  "visit_lifetime scopes l c = (if lifetime_is_bound scopes l then c else (Lifetimes_insert l (fst c), snd c))"

definition push_bound :: "bound_lifetimes option \<Rightarrow> string list list \<Rightarrow> string list list" where
  "push_bound bound scopes = (case bound of None \<Rightarrow> scopes | Some ls \<Rightarrow> scopes @ [map fst ls])"

text \<open>The lifetimes in a \<open>for<..>\<close>, those of the bounds included.\<close>

definition mentioned_lifetimes :: "bound_lifetimes option \<Rightarrow> string list" where
  "mentioned_lifetimes bound = (case bound of None \<Rightarrow> [] | Some ls \<Rightarrow> concat (map (\<lambda>(l, bs). l # bs) ls))"

type_synonym visitor = "string list list \<Rightarrow> nat \<Rightarrow> collected \<Rightarrow> collected"

definition visit_all :: "visitor list \<Rightarrow> visitor" where
  "visit_all fs = (\<lambda>scopes depth. fold (\<lambda>f. f scopes depth) fs)"

definition visit_then :: "visitor \<Rightarrow> visitor \<Rightarrow> visitor" where
  "visit_then f g = (\<lambda>scopes depth c. g scopes depth (f scopes depth c))"

definition visit_optional :: "visitor option \<Rightarrow> visitor" where
  "visit_optional f = (case f of None \<Rightarrow> (\<lambda>_ _ c. c) | Some f \<Rightarrow> f)"

definition visit_lifetimes :: "string list \<Rightarrow> visitor" where
  "visit_lifetimes ls = visit_all (map (\<lambda>l scopes depth. visit_lifetime scopes l) ls)"

text \<open>
  The traversal of \<open>syn\<close>'s default visitor, with the collector's overrides for lifetimes,
  references, function pointers and trait bounds.
\<close>

primrec visit_type :: "rust_type \<Rightarrow> visitor"
  and visit_segment :: "path_segment \<Rightarrow> visitor"
  and visit_argument :: "generic_argument \<Rightarrow> visitor"
  and visit_bound :: "type_param_bound \<Rightarrow> visitor"
  and visit_expr :: "expr_part \<Rightarrow> visitor"
where
  "visit_type (TypePath q colon segments) = 
     visit_then (visit_optional (map_option visit_type q)) (visit_all (map visit_segment segments))"
| "visit_type (TypeReference l m t) = 
     visit_then (\<lambda>scopes depth c. case l of None \<Rightarrow> (fst c, snd c \<or> depth = 0) | Some l \<Rightarrow> visit_lifetime scopes l c)
       (visit_type t)"
| "visit_type (TypeTuple ts) = visit_all (map visit_type ts)"
| "visit_type (TypeArray t len) = visit_then (visit_type t) (visit_all (map visit_expr len))"
| "visit_type (TypeSlice t) = visit_type t"
| "visit_type (TypePtr m t) = visit_type t"
| "visit_type (TypeBareFn bound inputs out) = (\<lambda>scopes depth.
     visit_then (visit_lifetimes (mentioned_lifetimes bound))
       (visit_then (visit_all (map visit_type inputs)) (visit_optional (map_option visit_type out)))
       (push_bound bound scopes) (Suc depth))"
| "visit_type (TypeTraitObject bounds) = visit_all (map visit_bound bounds)"
| "visit_type (TypeImplTrait bounds) = visit_all (map visit_bound bounds)"
| "visit_type (TypeParen t) = visit_type t"
| "visit_type (TypeGroup t) = visit_type t"
| "visit_type (TypeMacro segments) = visit_all (map visit_segment segments)"
| "visit_type (TypeOther ts) = (\<lambda>_ _ c. c)"
| "visit_segment (PathSegment i args) = visit_all (map visit_argument args)"
| "visit_segment (FnSegment i inputs out) = 
     visit_then (visit_all (map visit_type inputs)) (visit_optional (map_option visit_type out))"
| "visit_argument (LifetimeArg l) = (\<lambda>scopes depth. visit_lifetime scopes l)"
| "visit_argument (TypeArg t) = visit_type t"
| "visit_argument (ConstArg e) = visit_all (map visit_expr e)"
| "visit_argument (AssocType i args t) = visit_then (visit_all (map visit_argument args)) (visit_type t)"
| "visit_argument (AssocConst i args e) = 
     visit_then (visit_all (map visit_argument args)) (visit_all (map visit_expr e))"
| "visit_argument (Constraint i args bounds) = 
     visit_then (visit_all (map visit_argument args)) (visit_all (map visit_bound bounds))"
| "visit_bound (TraitBound bound segments) = (\<lambda>scopes depth.
     visit_then (visit_lifetimes (mentioned_lifetimes bound)) (visit_all (map visit_segment segments))
       (push_bound bound scopes) depth)"
| "visit_bound (LifetimeBound l) = (\<lambda>scopes depth. visit_lifetime scopes l)"
| "visit_bound (CaptureBound ls) = visit_lifetimes ls"
| "visit_bound (VerbatimBound ts) = (\<lambda>_ _ c. c)"
| "visit_expr (ExprPath q colon segments) = 
     visit_then (visit_optional (map_option visit_type q)) (visit_all (map visit_segment segments))"
| "visit_expr (ExprType t) = visit_type t"
| "visit_expr (ExprLabel l) = (\<lambda>scopes depth. visit_lifetime scopes l)"

definition insert_from_type :: "rust_type \<Rightarrow> string list \<Rightarrow> (string, string list) rust_result" where
  "insert_from_type t ls =
     (case visit_type t [] 0 (ls, False) of
        (ls', missing) \<Rightarrow>
          if missing
          then Err ''This event's data lifetime is not defined, consider adding a lifetime.''
          else Ok ls')"

definition Lifetimes_from_type :: "rust_type \<Rightarrow> (string, string list) rust_result" where
  "Lifetimes_from_type t = insert_from_type t []"

section \<open>Payload types by name\<close>

definition DataDefinitions_new :: data_definitions where
  "DataDefinitions_new = \<lparr>data_types = [], all_lifetimes = [], key_lifetimes = []\<rparr>"

definition DataDefinitions_add ::
  "string \<Rightarrow> rust_type \<Rightarrow> data_definitions \<Rightarrow> (string, data_definitions) rust_result" where
  "DataDefinitions_add key t d =
     try_then (Lifetimes_from_type t)
       (\<lambda>ls. let d' = d\<lparr>data_types := AList.update key t (data_types d)\<rparr> in
          Ok (if ls = [] then d'
              else d'\<lparr>all_lifetimes := Lifetimes_extend (all_lifetimes d') ls,
                      key_lifetimes := AList.update key ls (key_lifetimes d')\<rparr>))"

definition DataDefinitions_collect ::
  "string \<Rightarrow> rust_type option \<Rightarrow> data_definitions \<Rightarrow> (string, data_definitions) rust_result" where
  "DataDefinitions_collect key ty d =
     (let consistent = (case map_of (data_types d) key of
            None \<Rightarrow> True
          | Some prev \<Rightarrow> (case ty of Some t \<Rightarrow> prev = t | None \<Rightarrow> False))
      in if \<not> consistent
         then Err (''This event's type '' @ key @ '' does not match its previous definition'')
         else (case ty of Some t \<Rightarrow> DataDefinitions_add key t d | None \<Rightarrow> Ok d))"

section \<open>Free lifetimes\<close>

text \<open>What the collector is for: the lifetimes that occur free, and elided references.\<close>

definition set_of_option :: "'a set option \<Rightarrow> 'a set" where
  "set_of_option x = (case x of None \<Rightarrow> {} | Some A \<Rightarrow> A)"

definition bound_set :: "bound_lifetimes option \<Rightarrow> string set" where
  "bound_set bound = (case bound of None \<Rightarrow> {} | Some ls \<Rightarrow> fst ` set ls)"

definition unions :: "'a set list \<Rightarrow> 'a set" where
  "unions As = \<Union> (set As)"

text \<open>In \<open>for<'a: 'b>\<close> the lifetime \<open>'a\<close> is bound; \<open>'b\<close> occurs, and is free unless it is bound as well.\<close>

primrec free_lifetimes :: "rust_type \<Rightarrow> string set"
  and free_in_segment :: "path_segment \<Rightarrow> string set"
  and free_in_argument :: "generic_argument \<Rightarrow> string set"
  and free_in_bound :: "type_param_bound \<Rightarrow> string set"
  and free_in_expr :: "expr_part \<Rightarrow> string set"
where
  "free_lifetimes (TypePath q colon segments) =
     set_of_option (map_option free_lifetimes q) \<union> unions (map free_in_segment segments)"
| "free_lifetimes (TypeReference l m t) = set_option l \<union> free_lifetimes t"
| "free_lifetimes (TypeTuple ts) = unions (map free_lifetimes ts)"
| "free_lifetimes (TypeArray t len) = free_lifetimes t \<union> unions (map free_in_expr len)"
| "free_lifetimes (TypeSlice t) = free_lifetimes t"
| "free_lifetimes (TypePtr m t) = free_lifetimes t"
| "free_lifetimes (TypeBareFn bound inputs out) =
     (set (mentioned_lifetimes bound) \<union> (unions (map free_lifetimes inputs) \<union> set_of_option (map_option free_lifetimes out)))
     - bound_set bound"
| "free_lifetimes (TypeTraitObject bounds) = unions (map free_in_bound bounds)"
| "free_lifetimes (TypeImplTrait bounds) = unions (map free_in_bound bounds)"
| "free_lifetimes (TypeParen t) = free_lifetimes t"
| "free_lifetimes (TypeGroup t) = free_lifetimes t"
| "free_lifetimes (TypeMacro segments) = unions (map free_in_segment segments)"
| "free_lifetimes (TypeOther ts) = {}"
| "free_in_segment (PathSegment i args) = unions (map free_in_argument args)"
| "free_in_segment (FnSegment i inputs out) =
     unions (map free_lifetimes inputs) \<union> set_of_option (map_option free_lifetimes out)"
| "free_in_argument (LifetimeArg l) = {l}"
| "free_in_argument (TypeArg t) = free_lifetimes t"
| "free_in_argument (ConstArg e) = unions (map free_in_expr e)"
| "free_in_argument (AssocType i args t) = unions (map free_in_argument args) \<union> free_lifetimes t"
| "free_in_argument (AssocConst i args e) = unions (map free_in_argument args) \<union> unions (map free_in_expr e)"
| "free_in_argument (Constraint i args bounds) = unions (map free_in_argument args) \<union> unions (map free_in_bound bounds)"
| "free_in_bound (TraitBound bound segments) =
     (set (mentioned_lifetimes bound) \<union> unions (map free_in_segment segments)) - bound_set bound"
| "free_in_bound (LifetimeBound l) = {l}"
| "free_in_bound (CaptureBound ls) = set ls"
| "free_in_bound (VerbatimBound ts) = {}"
| "free_in_expr (ExprPath q colon segments) =
     set_of_option (map_option free_lifetimes q) \<union> unions (map free_in_segment segments)"
| "free_in_expr (ExprType t) = free_lifetimes t"
| "free_in_expr (ExprLabel l) = {l}"

definition any_true :: "bool list \<Rightarrow> bool" where
  "any_true bs \<longleftrightarrow> True \<in> set bs"

primrec elided_reference :: "rust_type \<Rightarrow> bool"
  and elided_in_segment :: "path_segment \<Rightarrow> bool"
  and elided_in_argument :: "generic_argument \<Rightarrow> bool"
  and elided_in_bound :: "type_param_bound \<Rightarrow> bool"
  and elided_in_expr :: "expr_part \<Rightarrow> bool"
where
  "elided_reference (TypePath q colon segments) \<longleftrightarrow>
     map_option elided_reference q = Some True \<or> any_true (map elided_in_segment segments)"
| "elided_reference (TypeReference l m t) \<longleftrightarrow> l = None \<or> elided_reference t"
| "elided_reference (TypeTuple ts) \<longleftrightarrow> any_true (map elided_reference ts)"
| "elided_reference (TypeArray t len) \<longleftrightarrow> elided_reference t \<or> any_true (map elided_in_expr len)"
| "elided_reference (TypeSlice t) \<longleftrightarrow> elided_reference t"
| "elided_reference (TypePtr m t) \<longleftrightarrow> elided_reference t"
| "elided_reference (TypeBareFn bound inputs out) \<longleftrightarrow> False"
| "elided_reference (TypeTraitObject bounds) \<longleftrightarrow> any_true (map elided_in_bound bounds)"
| "elided_reference (TypeImplTrait bounds) \<longleftrightarrow> any_true (map elided_in_bound bounds)"
| "elided_reference (TypeParen t) \<longleftrightarrow> elided_reference t"
| "elided_reference (TypeGroup t) \<longleftrightarrow> elided_reference t"
| "elided_reference (TypeMacro segments) \<longleftrightarrow> any_true (map elided_in_segment segments)"
| "elided_reference (TypeOther ts) \<longleftrightarrow> False"
| "elided_in_segment (PathSegment i args) \<longleftrightarrow> any_true (map elided_in_argument args)"
| "elided_in_segment (FnSegment i inputs out) \<longleftrightarrow>
     any_true (map elided_reference inputs) \<or> map_option elided_reference out = Some True"
| "elided_in_argument (LifetimeArg l) \<longleftrightarrow> False"
| "elided_in_argument (TypeArg t) \<longleftrightarrow> elided_reference t"
| "elided_in_argument (ConstArg e) \<longleftrightarrow> any_true (map elided_in_expr e)"
| "elided_in_argument (AssocType i args t) \<longleftrightarrow> any_true (map elided_in_argument args) \<or> elided_reference t"
| "elided_in_argument (AssocConst i args e) \<longleftrightarrow> any_true (map elided_in_argument args) \<or> any_true (map elided_in_expr e)"
| "elided_in_argument (Constraint i args bounds) \<longleftrightarrow> any_true (map elided_in_argument args) \<or> any_true (map elided_in_bound bounds)"
| "elided_in_bound (TraitBound bound segments) \<longleftrightarrow> any_true (map elided_in_segment segments)"
| "elided_in_bound (LifetimeBound l) \<longleftrightarrow> False"
| "elided_in_bound (CaptureBound ls) \<longleftrightarrow> False"
| "elided_in_bound (VerbatimBound ts) \<longleftrightarrow> False"
| "elided_in_expr (ExprPath q colon segments) \<longleftrightarrow>
     map_option elided_reference q = Some True \<or> any_true (map elided_in_segment segments)"
| "elided_in_expr (ExprType t) \<longleftrightarrow> elided_reference t"
| "elided_in_expr (ExprLabel l) \<longleftrightarrow> False"

section \<open>The collector finds exactly these\<close>

definition collects :: "visitor \<Rightarrow> string set \<Rightarrow> bool \<Rightarrow> bool" where
  "collects f free elided \<longleftrightarrow>
     (\<forall>scopes depth ls m ls' m'. f scopes depth (ls, m) = (ls', m') \<longrightarrow>
        set ls' = set ls \<union> (free - \<Union> (set ` set scopes) - {''static''}) \<and>
        (distinct ls \<longrightarrow> distinct ls') \<and> (m' \<longleftrightarrow> m \<or> depth = 0 \<and> elided))"

lemma collectsD:
  assumes "collects f free elided" "f scopes depth (ls, m) = (ls', m')"
  shows "set ls' = set ls \<union> (free - \<Union> (set ` set scopes) - {''static''})" "distinct ls \<Longrightarrow> distinct ls'"
    "m' \<longleftrightarrow> m \<or> depth = 0 \<and> elided"
  using assms unfolding collects_def by blast+

lemma bound_iff: "lifetime_is_bound scopes l \<longleftrightarrow> l \<in> \<Union> (set ` set scopes)"
  by (auto simp: lifetime_is_bound_def list_ex_iff)

lemma collects_lifetime: "collects (\<lambda>scopes depth. visit_lifetime scopes l) {l} False"
  by (auto simp: collects_def visit_lifetime_def bound_iff Lifetimes_insert_def)

lemma collects_nothing: "collects (\<lambda>_ _ c. c) {} False"
  by (simp add: collects_def)

lemma collects_then:
  assumes "collects f A b" "collects g B d"
  shows "collects (visit_then f g) (A \<union> B) (b \<or> d)"
  unfolding collects_def visit_then_def
proof (intro allI impI)
  fix scopes depth ls m ls2 m2
  obtain ls1 m1 where f: "f scopes depth (ls, m) = (ls1, m1)" by (cases "f scopes depth (ls, m)")
  assume "g scopes depth (f scopes depth (ls, m)) = (ls2, m2)"
  with f have g: "g scopes depth (ls1, m1) = (ls2, m2)" by simp
  show "set ls2 = set ls \<union> (A \<union> B - \<Union> (set ` set scopes) - {''static''}) \<and>
      (distinct ls \<longrightarrow> distinct ls2) \<and> m2 = (m \<or> depth = 0 \<and> (b \<or> d))"
    using collectsD [OF assms(1) f] collectsD [OF assms(2) g] by auto
qed

lemma collects_all:
  assumes "\<And>x. x \<in> set xs \<Longrightarrow> collects (v x) (F x) (E x)"
  shows "collects (visit_all (map v xs)) (unions (map F xs)) (any_true (map E xs))"
  using assms
proof (induction xs)
  case Nil
  then show ?case by (simp add: visit_all_def collects_nothing unions_def any_true_def)
next
  case (Cons x xs)
  then have "collects (visit_then (v x) (visit_all (map v xs)))
      (F x \<union> unions (map F xs)) (E x \<or> any_true (map E xs))"
    by (intro collects_then) auto
  moreover have "visit_then (v x) (visit_all (map v xs)) = visit_all (map v (x # xs))"
    by (simp add: visit_all_def visit_then_def fun_eq_iff)
  ultimately show ?case by (cases "E x") (simp_all add: unions_def any_true_def)
qed

lemma collects_optional:
  assumes "\<And>x. q = Some x \<Longrightarrow> collects (v x) (F x) (E x)"
  shows "collects (visit_optional (map_option v q)) (set_of_option (map_option F q)) (map_option E q = Some True)"
  using assms collects_nothing
  by (cases q) (auto simp: visit_optional_def set_of_option_def)

lemma collects_lifetimes: "collects (visit_lifetimes ls) (set ls) False"
proof -
  have "unions (map (\<lambda>l. {l}) ls) = set ls" "\<not> any_true (map (\<lambda>l. False) ls)"
    by (auto simp: unions_def any_true_def)
  with collects_all [of ls "\<lambda>l scopes depth. visit_lifetime scopes l" "\<lambda>l. {l}" "\<lambda>l. False"] collects_lifetime
  show ?thesis by (simp add: visit_lifetimes_def)
qed

lemma collects_push:
  assumes "collects f A b"
  shows "collects (\<lambda>scopes depth. f (push_bound bound scopes) depth) (A - bound_set bound) b"
    "collects (\<lambda>scopes depth. f (push_bound bound scopes) (Suc depth)) (A - bound_set bound) False"
proof -
  have scope: "\<Union> (set ` set (push_bound bound scopes)) = \<Union> (set ` set scopes) \<union> bound_set bound" for scopes
    by (auto simp: push_bound_def bound_set_def split: option.splits)
  have step: "set ls' = set ls \<union> (A - bound_set bound - \<Union> (set ` set scopes) - {''static''}) \<and>
      (distinct ls \<longrightarrow> distinct ls') \<and> m' = (m \<or> depth = 0 \<and> b)"
    if "f (push_bound bound scopes) depth (ls, m) = (ls', m')" for scopes depth ls m ls' m'
    using collectsD [OF assms that] unfolding scope by blast
  show "collects (\<lambda>scopes depth. f (push_bound bound scopes) depth) (A - bound_set bound) b"
    unfolding collects_def using step by blast
  show "collects (\<lambda>scopes depth. f (push_bound bound scopes) (Suc depth)) (A - bound_set bound) False"
    unfolding collects_def
  proof (intro allI impI)
    fix scopes depth ls m ls' m' assume "f (push_bound bound scopes) (Suc depth) (ls, m) = (ls', m')"
    from step [OF this] show "set ls' = set ls \<union> (A - bound_set bound - \<Union> (set ` set scopes) - {''static''}) \<and>
      (distinct ls \<longrightarrow> distinct ls') \<and> m' = (m \<or> depth = 0 \<and> False)" by simp
  qed
qed

lemma visit_collects:
  "collects (visit_type t) (free_lifetimes t) (elided_reference t)"
  "collects (visit_segment s) (free_in_segment s) (elided_in_segment s)"
  "collects (visit_argument a) (free_in_argument a) (elided_in_argument a)"
  "collects (visit_bound b) (free_in_bound b) (elided_in_bound b)"
  "collects (visit_expr e) (free_in_expr e) (elided_in_expr e)"
proof (induction t and s and a and b and e)
  case (TypeReference l m t)
  have "collects (\<lambda>scopes depth c. case l of None \<Rightarrow> (fst c, snd c \<or> depth = 0) | Some l \<Rightarrow> visit_lifetime scopes l c)
      (set_option l) (l = None)"
    using collects_lifetime by (cases l) (auto simp: collects_def)
  from collects_then [OF this TypeReference] show ?case by simp
next
  case (TypeBareFn bound inputs out)
  have "collects (visit_then (visit_lifetimes (mentioned_lifetimes bound))
      (visit_then (visit_all (map visit_type inputs)) (visit_optional (map_option visit_type out))))
    (set (mentioned_lifetimes bound) \<union> (unions (map free_lifetimes inputs) \<union> set_of_option (map_option free_lifetimes out)))
    (False \<or> (any_true (map elided_reference inputs) \<or> map_option elided_reference out = Some True))"
    using TypeBareFn by (intro collects_then collects_lifetimes collects_all collects_optional) auto
  from collects_push(2) [OF this, of bound] show ?case by simp
next
  case (TraitBound bound segments)
  have "collects (visit_then (visit_lifetimes (mentioned_lifetimes bound)) (visit_all (map visit_segment segments)))
    (set (mentioned_lifetimes bound) \<union> unions (map free_in_segment segments)) (False \<or> any_true (map elided_in_segment segments))"
    using TraitBound by (intro collects_then collects_lifetimes collects_all) auto
  from collects_push(1) [OF this, of bound] show ?case by simp
qed (simp_all only: visit_type.simps visit_segment.simps visit_argument.simps visit_bound.simps visit_expr.simps
    free_lifetimes.simps free_in_segment.simps free_in_argument.simps free_in_bound.simps free_in_expr.simps
    elided_reference.simps elided_in_segment.simps elided_in_argument.simps elided_in_bound.simps elided_in_expr.simps,
  (intro collects_then collects_optional collects_all collects_lifetimes collects_lifetime collects_nothing; blast)+)

lemma from_type_cases:
  "(case Lifetimes_from_type t of
      Inr ls \<Rightarrow> set ls = free_lifetimes t - {''static''} \<and> distinct ls \<and> \<not> elided_reference t
    | Inl _ \<Rightarrow> elided_reference t)"
proof -
  obtain ls m where r: "visit_type t [] 0 ([], False) = (ls, m)" by (cases "visit_type t [] 0 ([], False)")
  from collectsD [OF visit_collects(1) r] r show ?thesis
    by (auto simp: Lifetimes_from_type_def insert_from_type_def)
qed

text \<open>
  C14. The lifetimes taken from a payload type are exactly those that occur free in it, without
  \<open>'static\<close> and without repetition, and a type is rejected exactly when it has a reference
  without a lifetime outside function pointers.
\<close>

theorem Lifetimes_from_type_spec:
  "(case Lifetimes_from_type t of
      Inr ls \<Rightarrow> set ls = free_lifetimes t - {''static''} \<and> distinct ls \<and> \<not> elided_reference t
    | Inl _ \<Rightarrow> elided_reference t)"
  by (rule from_type_cases)

end
