(* ===== verification/Fifo_Scheduler.thy ===== *)
theory Fifo_Scheduler
  imports Event_Queue
begin

text \<open>
  The schedulers of src/src/scheduler.rs. \<open>sync_machine\<close> is the \<open>SyncMachineStep\<close> contract of a
  generated core. Every critical section of the code is one function here: \<open>FifoCell_offer\<close>,
  \<open>FifoCell_next\<close> (the section of \<open>drain\<close>'s loop), \<open>Unwinding_drop\<close>, \<open>FifoCell_forget\<close>, the ticket and
  the waiter operations. \<open>perform\<close> runs one action of one caller, from one section to the next, so
  that a list of actions is an interleaving of callers.

  An \<open>Arc<Ticket>\<close> and an \<open>Arc<Waiter>\<close> are named by the completion that creates them (each creates
  at most one of both); wakers are task numbers and \<open>will_wake\<close> is their equality. A call made by
  one of the machine's own callbacks is a call of its own that runs while the caller is in its step.
\<close>

section \<open>Machines and the inline scheduler\<close>

record ('m, 'e) sync_machine =
  start_fn :: "'m \<Rightarrow> 'm \<times> bool"
  step_fn :: "'m \<Rightarrow> 'e \<Rightarrow> 'm \<times> bool option"
  terminated_fn :: "'m \<Rightarrow> bool"

text \<open>\<open>step_fn\<close> returns None when the step panics; the machine then stays as the step left it.\<close>

record 'm inline_cell =
  inline_machine :: 'm
  inline_started :: bool

definition InlineScheduler_cell :: "('m, 'e) sync_machine \<Rightarrow> 'm \<Rightarrow> 'm inline_cell" where
  "InlineScheduler_cell mach m =
     (case start_fn mach m of (m', ok) \<Rightarrow> \<lparr>inline_machine = m', inline_started = ok\<rparr>)"

definition InlineScheduler_submit ::
  "('m, 'e) sync_machine \<Rightarrow> 'm inline_cell \<Rightarrow> 'e \<Rightarrow> 'm inline_cell \<times> bool option" where
  "InlineScheduler_submit mach cell e =
     (if inline_started cell \<and> \<not> terminated_fn mach (inline_machine cell)
      then case step_fn mach (inline_machine cell) e of (m', r) \<Rightarrow> (cell\<lparr>inline_machine := m'\<rparr>, r)
      else (cell, Some False))"

section \<open>Tickets and waiters\<close>

type_synonym waker = nat

record ticket_state =
  ticket_accepted :: "bool option"
  ticket_waker :: "waker option"

definition Ticket_default :: ticket_state where
  "Ticket_default = \<lparr>ticket_accepted = None, ticket_waker = None\<rparr>"

text \<open>The waker that \<open>resolve\<close> takes out is woken after the lock is released.\<close>

definition Ticket_resolve :: "bool \<Rightarrow> ticket_state \<Rightarrow> ticket_state \<times> waker option" where
  "Ticket_resolve accepted t =
     (t\<lparr>ticket_accepted := Some accepted, ticket_waker := None\<rparr>, ticket_waker t)"

definition Ticket_poll :: "waker \<Rightarrow> ticket_state \<Rightarrow> ticket_state \<times> bool option" where
  "Ticket_poll w t =
     (case ticket_accepted t of
        Some accepted \<Rightarrow> (t, Some accepted)
      | None \<Rightarrow> (t\<lparr>ticket_waker := Some w\<rparr>, None))"

definition Waiter_update :: "waker \<Rightarrow> waker option \<Rightarrow> waker option" where
  "Waiter_update w known = (if known = Some w then known else Some w)"

section \<open>The queue and its critical sections\<close>

record 'e fifo_queue =
  fq_events :: "('e \<times> nat) event_queue"
  fq_draining :: bool
  fq_terminated :: bool
  fq_room :: "nat list"

unbundle bit_operations_syntax

definition valid_capacity :: "usize \<Rightarrow> bool" where
  "valid_capacity n \<longleftrightarrow> 1 < n \<and> n AND (n - 1) = 0"

definition FifoScheduler_cell :: "('m, 'e) sync_machine \<Rightarrow> usize \<Rightarrow> 'm \<Rightarrow> 'm \<times> 'e fifo_queue" where
  "FifoScheduler_cell mach n m =
     (case start_fn mach m of (m', ok) \<Rightarrow>
        (m', \<lparr>fq_events = EventQueue_new n, fq_draining = False,
              fq_terminated = (\<not> ok \<or> terminated_fn mach m'), fq_room = []\<rparr>))"

datatype 'e offer = OfferDone bool | OfferQueued nat | OfferFull 'e

text \<open>
  The outcome of the section of \<open>offer\<close>: a finished offer, or the caller is now the drainer and runs
  its own event (\<open>RunNow\<close>) or one left by a drainer that panicked (\<open>RunOlder\<close>, with whether its own
  event found a slot).
\<close>

datatype 'e offered = Offered "'e offer" | RunNow 'e | RunOlder 'e nat bool

definition FifoCell_offer ::
  "'e fifo_queue \<Rightarrow> 'e \<Rightarrow> nat option \<Rightarrow> nat \<Rightarrow> 'e fifo_queue \<times> 'e offered" where
  "FifoCell_offer q e waiter ticket =
     (if fq_terminated q then (q, Offered (OfferDone False))
      else if fq_draining q then
        (if EventQueue_len (fq_events q) = EventQueue_cap (fq_events q)
         then ((case waiter of
                  None \<Rightarrow> q
                | Some w \<Rightarrow> if w \<in> set (fq_room q) then q else q\<lparr>fq_room := fq_room q @ [w]\<rparr>),
               Offered (OfferFull e))
         else case EventQueue_defer (fq_events q) (e, ticket) of (es, r) \<Rightarrow>
           (q\<lparr>fq_events := es\<rparr>,
            Offered (if is_ok r then OfferQueued ticket else OfferDone False)))
      else case EventQueue_pop (fq_events q) of
          (es, Some (older, older_ticket)) \<Rightarrow>
            (case EventQueue_defer es (e, ticket) of (es', r) \<Rightarrow>
              (q\<lparr>fq_events := es', fq_draining := True\<rparr>, RunOlder older older_ticket (is_ok r)))
        | (es, None) \<Rightarrow> (q\<lparr>fq_events := es, fq_draining := True\<rparr>, RunNow e))"

definition FifoCell_next ::
  "'e fifo_queue \<Rightarrow> bool \<Rightarrow> 'e fifo_queue \<times> ('e \<times> nat) option \<times> nat list" where
  "FifoCell_next q terminated =
     (case EventQueue_pop (fq_events q) of (es, popped) \<Rightarrow>
        (q\<lparr>fq_events := es, fq_terminated := terminated, fq_room := [],
           fq_draining := (fq_draining q \<and> popped \<noteq> None)\<rparr>,
         popped, fq_room q))"

function pop_stranded :: "('e \<times> nat) event_queue \<Rightarrow> ('e \<times> nat) event_queue \<times> nat list" where
  "pop_stranded es =
     (case EventQueue_pop es of
        (es', Some (_, ticket)) \<Rightarrow> (case pop_stranded es' of (es'', ts) \<Rightarrow> (es'', ticket # ts))
      | (es', None) \<Rightarrow> (es', []))"
  by pat_completeness auto
termination
  by (relation "measure (\<lambda>q. unat (queue_len q))") (auto dest: EventQueue_pop_decreases [OF sym])

declare pop_stranded.simps [simp del]

definition Unwinding_drop :: "'e fifo_queue \<Rightarrow> bool \<Rightarrow> 'e fifo_queue \<times> nat list \<times> nat list" where
  "Unwinding_drop q terminated =
     (let terminated' = (fq_terminated q \<or> terminated);
          (es, stranded) = (if terminated' then pop_stranded (fq_events q) else (fq_events q, []))
      in (q\<lparr>fq_events := es, fq_draining := False, fq_terminated := terminated', fq_room := []\<rparr>,
          fq_room q, stranded))"

definition FifoCell_forget :: "nat \<Rightarrow> 'e fifo_queue \<Rightarrow> 'e fifo_queue" where
  "FifoCell_forget w q = q\<lparr>fq_room := filter (\<lambda>known. known \<noteq> w) (fq_room q)\<rparr>"

section \<open>Callers\<close>

datatype 'e wait = WaitDone bool | WaitQueued nat | WaitRoom 'e

datatype entry = Submit | TrySubmit | FromPoll

text \<open>What \<open>offer\<close> returns after its drain: the result of its own event, or its ticket.\<close>

datatype finish = First "bool option" | OwnTicket

datatype 'e pc =
    Absent
  | Owned "'e wait"
  | Ready bool
  | Rejected
  | Dropped
  | Crashed
  | Offering 'e entry
  | Running 'e "nat option" finish entry
  | InStep 'e "nat option" finish entry
  | Ran "nat option" bool bool finish entry
  | Loop bool finish entry
  | WakeRoom "nat list" "('e \<times> nat) option" bool finish entry
  | Waking "waker option" "'e pc"
  | Forgetting "'e wait"
  | PollTail nat
  | Panicked "nat option"
  | UnwindLock "'e pc"
  | UnwindQueue bool "'e pc"
  | UnwindResolve "nat list" "nat list" "'e pc"
  | UnwindWake "nat list" "'e pc"

datatype step_log = Begin nat | End nat "bool option"

text \<open>
  The shared cell, the tickets and waiters, every caller's position, the wake-ups a task has got
  since its last poll, and three histories: the order in which events were accepted, the order in
  which they were taken up, and the steps.
\<close>

record ('m, 'e) fifo_sys =
  shared_machine :: 'm
  machine_locked :: bool
  shared_queue :: "'e fifo_queue"
  tickets :: "nat \<Rightarrow> ticket_state"
  waiters :: "nat \<Rightarrow> waker option"
  pcs :: "nat \<Rightarrow> 'e pc"
  last_waker :: "nat \<Rightarrow> waker option"
  woken :: "nat \<Rightarrow> bool"
  accepted_order :: "nat list"
  taken_order :: "nat list"
  step_log :: "step_log list"

definition goto :: "nat \<Rightarrow> 'e pc \<Rightarrow> ('m, 'e) fifo_sys \<Rightarrow> ('m, 'e) fifo_sys" where
  [simp]: "goto c p s = s\<lparr>pcs := (pcs s)(c := p)\<rparr>"

definition initial_sys :: "('m, 'e) sync_machine \<Rightarrow> usize \<Rightarrow> 'm \<Rightarrow> ('m, 'e) fifo_sys" where
  "initial_sys mach n m = (case FifoScheduler_cell mach n m of (m', q) \<Rightarrow>
     \<lparr>shared_machine = m', machine_locked = False, shared_queue = q,
      tickets = (\<lambda>_. Ticket_default), waiters = (\<lambda>_. None), pcs = (\<lambda>_. Absent),
      last_waker = (\<lambda>_. None), woken = (\<lambda>_. False),
      accepted_order = [], taken_order = [], step_log = []\<rparr>)"

text \<open>The event a drainer runs belongs to the ticket's completion, or to the drainer itself.\<close>

definition item :: "nat \<Rightarrow> nat option \<Rightarrow> nat" where
  "item c ticket = (case ticket of None \<Rightarrow> c | Some t \<Rightarrow> t)"

text \<open>A waker wakes its task, and with it every completion that task polled with it.\<close>

definition wake_task :: "waker option \<Rightarrow> ('m, 'e) fifo_sys \<Rightarrow> ('m, 'e) fifo_sys" where
  "wake_task w s = s\<lparr>woken := (\<lambda>c. woken s c \<or> (w \<noteq> None \<and> last_waker s c = w))\<rparr>"

definition resolve_ticket ::
  "nat \<Rightarrow> bool \<Rightarrow> nat \<Rightarrow> 'e pc \<Rightarrow> ('m, 'e) fifo_sys \<Rightarrow> ('m, 'e) fifo_sys" where
  "resolve_ticket t accepted c p s =
     (case Ticket_resolve accepted (tickets s t) of (t', w) \<Rightarrow>
        s\<lparr>tickets := (tickets s)(t := t'), pcs := (pcs s)(c := Waking w p)\<rparr>)"

definition wake_waiter :: "nat \<Rightarrow> nat \<Rightarrow> 'e pc \<Rightarrow> ('m, 'e) fifo_sys \<Rightarrow> ('m, 'e) fifo_sys" where
  "wake_waiter w c p s =
     s\<lparr>waiters := (waiters s)(w := None), pcs := (pcs s)(c := Waking (waiters s w) p)\<rparr>"

definition accepted :: "nat \<Rightarrow> nat list \<Rightarrow> ('m, 'e) fifo_sys \<Rightarrow> ('m, 'e) fifo_sys" where
  "accepted c taken s =
     s\<lparr>accepted_order := accepted_order s @ [c], taken_order := taken_order s @ taken\<rparr>"

text \<open>What \<open>submit\<close>, \<open>try_submit\<close> and \<open>poll\<close> do with the outcome of an offer.\<close>

definition hand_over :: "'e wait \<Rightarrow> entry \<Rightarrow> 'e pc" where
  "hand_over w m =
     (case m of
        FromPoll \<Rightarrow> (case w of WaitRoom e \<Rightarrow> Owned w | _ \<Rightarrow> Forgetting w)
      | TrySubmit \<Rightarrow> (case w of WaitRoom e \<Rightarrow> Rejected | _ \<Rightarrow> Owned w)
      | Submit \<Rightarrow> Owned w)"

definition returned :: "nat \<Rightarrow> finish \<Rightarrow> entry \<Rightarrow> 'e pc" where
  "returned c fin m =
     hand_over (case fin of First r \<Rightarrow> WaitDone (r = Some True) | OwnTicket \<Rightarrow> WaitQueued c) m"

definition offer_section :: "nat \<Rightarrow> 'e \<Rightarrow> entry \<Rightarrow> ('m, 'e) fifo_sys \<Rightarrow> ('m, 'e) fifo_sys" where
  "offer_section c e m s =
     (case FifoCell_offer (shared_queue s) e (if m = FromPoll then Some c else None) c of (q, out) \<Rightarrow>
        let s' = s\<lparr>shared_queue := q\<rparr> in
        case out of
          Offered (OfferDone b) \<Rightarrow> goto c (hand_over (WaitDone b) m) s'
        | Offered (OfferQueued t) \<Rightarrow> accepted c [] (goto c (hand_over (WaitQueued t) m) s')
        | Offered (OfferFull e') \<Rightarrow> goto c (hand_over (WaitRoom e') m) s'
        | RunNow e' \<Rightarrow> accepted c [c] (goto c (Running e' None (First None) m) s')
        | RunOlder e' t ok \<Rightarrow>
            let next = Running e' (Some t) OwnTicket m
            in if ok then accepted c [t] (goto c next s')
               else resolve_ticket c False c next (s'\<lparr>taken_order := taken_order s @ [t]\<rparr>))"

text \<open>The result of the first event is what \<open>drain\<close> returns.\<close>

definition note_first :: "finish \<Rightarrow> bool \<Rightarrow> finish" where
  "note_first fin b = (if fin = First None then First (Some b) else fin)"

definition begin_step ::
  "nat \<Rightarrow> 'e \<Rightarrow> nat option \<Rightarrow> finish \<Rightarrow> entry \<Rightarrow> ('m, 'e) fifo_sys \<Rightarrow> ('m, 'e) fifo_sys option" where
  "begin_step c e ticket fin m s =
     (if machine_locked s then None
      else Some (goto c (InStep e ticket fin m)
        (s\<lparr>machine_locked := True, step_log := step_log s @ [Begin (item c ticket)]\<rparr>)))"

text \<open>A step that panics while its thread is already unwinding aborts the process.\<close>

definition end_step ::
  "('m, 'e) sync_machine \<Rightarrow> bool \<Rightarrow> nat \<Rightarrow> 'e \<Rightarrow> nat option \<Rightarrow> finish \<Rightarrow> entry
    \<Rightarrow> ('m, 'e) fifo_sys \<Rightarrow> ('m, 'e) fifo_sys option" where
  "end_step mach panicking c e ticket fin m s =
     (case step_fn mach (shared_machine s) e of (m', r) \<Rightarrow>
        let s' = s\<lparr>shared_machine := m', machine_locked := False,
                   step_log := step_log s @ [End (item c ticket) r]\<rparr>
        in case r of
          Some b \<Rightarrow> Some (goto c (Ran ticket b (terminated_fn mach m') (note_first fin b) m) s')
        | None \<Rightarrow> if panicking then None else Some (goto c (Panicked ticket) s'))"

definition next_section ::
  "nat \<Rightarrow> bool \<Rightarrow> finish \<Rightarrow> entry \<Rightarrow> ('m, 'e) fifo_sys \<Rightarrow> ('m, 'e) fifo_sys" where
  "next_section c terminated fin m s =
     (case FifoCell_next (shared_queue s) terminated of (q, popped, room) \<Rightarrow>
        goto c (WakeRoom room popped terminated fin m)
          (s\<lparr>shared_queue := q,
             taken_order := taken_order s @ (case popped of None \<Rightarrow> [] | Some (_, t) \<Rightarrow> [t])\<rparr>))"

definition unwind_section :: "nat \<Rightarrow> bool \<Rightarrow> 'e pc \<Rightarrow> ('m, 'e) fifo_sys \<Rightarrow> ('m, 'e) fifo_sys" where
  "unwind_section c terminated p s =
     (case Unwinding_drop (shared_queue s) terminated of (q, room, stranded) \<Rightarrow>
        goto c (UnwindResolve stranded room p)
          (s\<lparr>shared_queue := q, taken_order := taken_order s @ stranded\<rparr>))"

text \<open>
  One section of caller \<open>c\<close>. \<open>panicking\<close> is \<open>std::thread::panicking()\<close> of its thread at the time of
  the call: then the guard of \<open>drain\<close> takes the unwinding path when \<open>drain\<close> returns normally.
\<close>

definition advance ::
  "('m, 'e) sync_machine \<Rightarrow> (nat \<Rightarrow> bool) \<Rightarrow> nat \<Rightarrow> ('m, 'e) fifo_sys \<Rightarrow> ('m, 'e) fifo_sys option" where
  "advance mach panicking c s =
     (case pcs s c of
        Offering e m \<Rightarrow> Some (offer_section c e m s)
      | Running e ticket fin m \<Rightarrow> begin_step c e ticket fin m s
      | InStep e ticket fin m \<Rightarrow> end_step mach (panicking c) c e ticket fin m s
      | Ran ticket b terminated fin m \<Rightarrow>
          Some (case ticket of
                  None \<Rightarrow> goto c (Loop terminated fin m) s
                | Some t \<Rightarrow> resolve_ticket t b c (Loop terminated fin m) s)
      | Loop terminated fin m \<Rightarrow> Some (next_section c terminated fin m s)
      | WakeRoom (w # ws) popped terminated fin m \<Rightarrow>
          Some (wake_waiter w c (WakeRoom ws popped terminated fin m) s)
      | WakeRoom [] (Some (e, t)) terminated fin m \<Rightarrow>
          Some (goto c (if terminated then Ran (Some t) False True fin m
                        else Running e (Some t) fin m) s)
      | WakeRoom [] None terminated fin m \<Rightarrow>
          Some (goto c (if panicking c then UnwindLock (returned c fin m) else returned c fin m) s)
      | Waking w p \<Rightarrow> Some (wake_task w (goto c p s))
      | Forgetting w \<Rightarrow>
          Some (goto c (case w of WaitQueued t \<Rightarrow> PollTail t | WaitDone b \<Rightarrow> Ready b | WaitRoom e \<Rightarrow> Owned w)
            (s\<lparr>shared_queue := FifoCell_forget c (shared_queue s)\<rparr>))
      | PollTail t \<Rightarrow>
          (case last_waker s c of
             None \<Rightarrow> None
           | Some w \<Rightarrow>
               (case Ticket_poll w (tickets s t) of (t', r) \<Rightarrow>
                  Some (goto c (case r of None \<Rightarrow> Owned (WaitQueued t) | Some b \<Rightarrow> Ready b)
                    (s\<lparr>tickets := (tickets s)(t := t')\<rparr>))))
      | Panicked ticket \<Rightarrow>
          Some (case ticket of
                  None \<Rightarrow> goto c (UnwindLock Crashed) s
                | Some t \<Rightarrow> resolve_ticket t False c (UnwindLock Crashed) s)
      | UnwindLock p \<Rightarrow>
          if machine_locked s then None
          else Some (goto c (UnwindQueue (terminated_fn mach (shared_machine s)) p) s)
      | UnwindQueue terminated p \<Rightarrow> Some (unwind_section c terminated p s)
      | UnwindResolve (t # ts) room p \<Rightarrow> Some (resolve_ticket t False c (UnwindResolve ts room p) s)
      | UnwindResolve [] room p \<Rightarrow> Some (goto c (UnwindWake room p) s)
      | UnwindWake (w # ws) p \<Rightarrow> Some (wake_waiter w c (UnwindWake ws p) s)
      | UnwindWake [] p \<Rightarrow> Some (goto c p s)
      | _ \<Rightarrow> None)"

text \<open>Actions: new calls, a poll with a waker, dropping a completion, one section of a running call.\<close>

datatype 'e action =
    NewSubmit nat 'e
  | NewTrySubmit nat 'e
  | Poll nat waker
  | DropCompletion nat
  | Advance nat

definition poll_start :: "nat \<Rightarrow> waker \<Rightarrow> ('m, 'e) fifo_sys \<Rightarrow> ('m, 'e) fifo_sys option" where
  "poll_start c w s =
     (let s' = s\<lparr>last_waker := (last_waker s)(c := Some w), woken := (woken s)(c := False)\<rparr>
      in case pcs s c of
        Owned (WaitDone b) \<Rightarrow> Some (goto c (Ready b) s')
      | Owned (WaitQueued t) \<Rightarrow> Some (goto c (PollTail t) s')
      | Owned (WaitRoom e) \<Rightarrow>
          Some (goto c (Offering e FromPoll)
            (s'\<lparr>waiters := (waiters s)(c := Waiter_update w (waiters s c))\<rparr>))
      | _ \<Rightarrow> None)"

definition drop_completion :: "nat \<Rightarrow> ('m, 'e) fifo_sys \<Rightarrow> ('m, 'e) fifo_sys option" where
  "drop_completion c s =
     (case pcs s c of
        Owned (WaitRoom e) \<Rightarrow>
          Some (goto c Dropped (s\<lparr>shared_queue := FifoCell_forget c (shared_queue s)\<rparr>))
      | Owned _ \<Rightarrow> Some (goto c Dropped s)
      | _ \<Rightarrow> None)"

fun perform ::
  "('m, 'e) sync_machine \<Rightarrow> (nat \<Rightarrow> bool) \<Rightarrow> 'e action \<Rightarrow> ('m, 'e) fifo_sys \<Rightarrow> ('m, 'e) fifo_sys option" where
  "perform mach panicking (NewSubmit c e) s =
     (if pcs s c = Absent then Some (goto c (Offering e Submit) s) else None)"
| "perform mach panicking (NewTrySubmit c e) s =
     (if pcs s c = Absent then Some (goto c (Offering e TrySubmit) s) else None)"
| "perform mach panicking (Poll c w) s = poll_start c w s"
| "perform mach panicking (DropCompletion c) s = drop_completion c s"
| "perform mach panicking (Advance c) s = advance mach panicking c s"

fun fifo_run ::
  "('m, 'e) sync_machine \<Rightarrow> (nat \<Rightarrow> bool) \<Rightarrow> 'e action list \<Rightarrow> ('m, 'e) fifo_sys \<Rightarrow> ('m, 'e) fifo_sys option" where
  "fifo_run mach panicking [] s = Some s"
| "fifo_run mach panicking (a # as) s =
     (case perform mach panicking a s of None \<Rightarrow> None | Some s' \<Rightarrow> fifo_run mach panicking as s')"

text \<open>The systems that some interleaving of callers reaches from a new cell.\<close>

inductive fifo_reachable ::
  "('m, 'e) sync_machine \<Rightarrow> (nat \<Rightarrow> bool) \<Rightarrow> usize \<Rightarrow> ('m, 'e) fifo_sys \<Rightarrow> bool"
  for mach panicking n where
  fifo_start: "fifo_reachable mach panicking n (initial_sys mach n m)"
| fifo_action: "fifo_reachable mach panicking n s \<Longrightarrow> perform mach panicking a s = Some s' \<Longrightarrow>
    fifo_reachable mach panicking n s'"

lemma fifo_run_reachable:
  "fifo_run mach panicking as s = Some s' \<Longrightarrow> fifo_reachable mach panicking n s \<Longrightarrow>
    fifo_reachable mach panicking n s'"
  by (induction "mach" panicking "as" s rule: fifo_run.induct)
    (auto split: option.splits intro: fifo_action)

end
