(* ===== verification/Fifo_Safety.thy ===== *)
theory Fifo_Safety
  imports Fifo_Scheduler "HOL-Library.Sublist"
begin

text \<open>
  What holds of a FIFO cell in every interleaving when no caller's thread was already unwinding:
  at most one caller drains, steps do not overlap, and events run in the order in which they were
  accepted. The last theorem shows that the condition on unwinding threads is needed.
\<close>

section \<open>The critical sections on the list of queued events\<close>

abbreviation queued :: "'e fifo_queue \<Rightarrow> ('e \<times> nat) list" where
  "queued q \<equiv> EventQueue_contents (fq_events q)"

abbreviation queue_ok :: "usize \<Rightarrow> 'e fifo_queue \<Rightarrow> bool" where
  "queue_ok n q \<equiv> EventQueue_ok n (fq_events q)"

lemma queue_full_iff:
  "EventQueue_ok n es \<Longrightarrow> EventQueue_len es = EventQueue_cap es \<longleftrightarrow> length (EventQueue_contents es) = unat n"
  by (auto simp: EventQueue_ok_def EventQueue_len_def word_unat_eq_iff EventQueue_invD(1))

lemma FifoCell_offer_cases [consumes 2, case_names closed full deferred older now]:
  assumes ok: "queue_ok n q" and offer: "FifoCell_offer q e w t = (q', out)"
  obtains "fq_terminated q" "q' = q" "out = Offered (OfferDone False)"
  | room where "fq_draining q" "length (queued q) = unat n" "q' = q\<lparr>fq_room := room\<rparr>"
      "set room = set (fq_room q) \<union> set_option w" "out = Offered (OfferFull e)"
  | es where "fq_draining q" "q' = q\<lparr>fq_events := es\<rparr>" "EventQueue_ok n es"
      "EventQueue_contents es = queued q @ [(e, t)]" "out = Offered (OfferQueued t)"
  | older u es' es where "\<not> fq_draining q" "queued q = (older, u) # es'"
      "q' = q\<lparr>fq_events := es, fq_draining := True\<rparr>" "EventQueue_ok n es"
      "EventQueue_contents es = es' @ [(e, t)]" "out = RunOlder older u True"
  | es where "\<not> fq_draining q" "queued q = []" "q' = q\<lparr>fq_events := es, fq_draining := True\<rparr>"
      "EventQueue_ok n es" "EventQueue_contents es = []" "out = RunNow e"
proof (cases "fq_terminated q")
  case True
  show ?thesis
    by (rule that(1)) (use offer True in \<open>auto simp: FifoCell_offer_def\<close>)
next
  case open_cell: False
  have bound: "length (queued q) \<le> unat n" by (rule evq.list_bound [OF ok])
  show ?thesis
  proof (cases "fq_draining q")
    case True
    show ?thesis
    proof (cases "length (queued q) = unat n")
      case full: True
      show ?thesis
        by (rule that(2) [OF True full, of "fq_room q'"])
          (use offer open_cell True full queue_full_iff [OF ok] in
            \<open>auto simp: FifoCell_offer_def split: if_splits option.splits\<close>)
    next
      case False
      then obtain es where "EventQueue_defer (fq_events q) (e, t) = (es, Ok ())" "EventQueue_ok n es"
          "EventQueue_contents es = queued q @ [(e, t)]"
        using evq.defer_room [OF ok] bound by (metis le_neq_implies_less)
      then show ?thesis
        by (intro that(3) [OF True, of es])
          (use offer open_cell True False queue_full_iff [OF ok] in \<open>auto simp: FifoCell_offer_def\<close>)
    qed
  next
    case False
    show ?thesis
    proof (cases "queued q")
      case Nil
      show ?thesis
        by (rule that(5) [OF False Nil, of "fq_events q"])
          (use offer open_cell False ok Nil evq.pop_empty [OF ok Nil] in
            \<open>auto simp: FifoCell_offer_def\<close>)
    next
      case (Cons x rest)
      obtain older u where x: "x = (older, u)" by (cases x)
      obtain es where es: "EventQueue_pop (fq_events q) = (es, Some x)" "EventQueue_ok n es"
          "EventQueue_contents es = rest"
        using evq.pop_cons [OF ok Cons] by blast
      have "length (EventQueue_contents es) < unat n" using Cons bound es(3) by simp
      then obtain es' where "EventQueue_defer es (e, t) = (es', Ok ())" "EventQueue_ok n es'"
          "EventQueue_contents es' = rest @ [(e, t)]"
        using evq.defer_room [OF es(2)] es(3) by metis
      then show ?thesis
        by (intro that(4) [OF False, of older u rest es'])
          (use offer open_cell False Cons x es(1) in \<open>auto simp: FifoCell_offer_def\<close>)
    qed
  qed
qed

lemma FifoCell_next_cases [consumes 2, case_names empty popped]:
  assumes ok: "queue_ok n q" and nxt: "FifoCell_next q term = (q', popped, room)"
  obtains "queued q = []" "popped = None" "room = fq_room q"
      "q' = q\<lparr>fq_terminated := term, fq_room := [], fq_draining := False\<rparr>"
  | e t es where "queued q = (e, t) # EventQueue_contents es" "EventQueue_ok n es" "popped = Some (e, t)"
      "room = fq_room q" "q' = q\<lparr>fq_events := es, fq_terminated := term, fq_room := []\<rparr>"
proof (cases "queued q")
  case Nil
  show ?thesis
    by (rule that(1) [OF Nil]) (use nxt evq.pop_empty [OF ok Nil] in \<open>auto simp: FifoCell_next_def\<close>)
next
  case (Cons x rest)
  obtain e t where x: "x = (e, t)" by (cases x)
  obtain es where "EventQueue_pop (fq_events q) = (es, Some x)" "EventQueue_ok n es"
      "EventQueue_contents es = rest"
    using evq.pop_cons [OF ok Cons] by blast
  then show ?thesis
    by (intro that(2) [of e t es]) (use nxt Cons x in \<open>auto simp: FifoCell_next_def\<close>)
qed

lemma pop_stranded_all:
  assumes "EventQueue_ok n es" and "pop_stranded es = (es', ts)"
  shows "EventQueue_ok n es' \<and> EventQueue_contents es' = [] \<and> ts = map snd (EventQueue_contents es)"
  using assms
proof (induction es arbitrary: es' ts rule: pop_stranded.induct)
  case (1 es)
  show ?case
  proof (cases "EventQueue_contents es")
    case Nil
    then show ?thesis
      using "1.prems" evq.pop_empty [OF "1.prems"(1) Nil] by (subst (asm) pop_stranded.simps) auto
  next
    case (Cons x rest)
    obtain q where q: "EventQueue_pop es = (q, Some x)" "EventQueue_ok n q" "EventQueue_contents q = rest"
      using evq.pop_cons [OF "1.prems"(1) Cons] by blast
    obtain q' us where r: "pop_stranded q = (q', us)" by (cases "pop_stranded q")
    obtain a b where x: "x = (a, b)" by (cases x)
    have "EventQueue_ok n q' \<and> EventQueue_contents q' = [] \<and> us = map snd (EventQueue_contents q)"
      using "1.IH" [OF q(1) [symmetric] refl] q(2) r x by blast
    then show ?thesis
      using "1.prems"(2) q r Cons x by (subst (asm) pop_stranded.simps) auto
  qed
qed

lemma Unwinding_drop_cases [consumes 2, case_names stay strand]:
  assumes ok: "queue_ok n q" and drop: "Unwinding_drop q term = (q', room, stranded)"
  obtains "\<not> fq_terminated q" "\<not> term" "stranded = []" "room = fq_room q"
      "q' = q\<lparr>fq_draining := False, fq_room := []\<rparr>"
  | es where "fq_terminated q \<or> term" "stranded = map snd (queued q)" "EventQueue_ok n es"
      "EventQueue_contents es = []" "room = fq_room q"
      "q' = q\<lparr>fq_events := es, fq_draining := False, fq_terminated := True, fq_room := []\<rparr>"
proof (cases "fq_terminated q \<or> term")
  case False
  show ?thesis
    by (rule that(1)) (use drop False in \<open>auto simp: Unwinding_drop_def\<close>)
next
  case True
  obtain es ts where p: "pop_stranded (fq_events q) = (es, ts)" by (cases "pop_stranded (fq_events q)")
  show ?thesis
    by (rule that(2) [OF True, of es])
      (use True drop p pop_stranded_all [OF ok p] in \<open>auto simp: Unwinding_drop_def\<close>)
qed

section \<open>The steps of the system\<close>

text \<open>
  What \<open>perform\<close> can do to a system, with the sections spelt out on the queue: one rule per branch.
\<close>

abbreviation at :: "('m, 'e) fifo_sys \<Rightarrow> nat \<Rightarrow> 'e pc \<Rightarrow> bool" where
  "at s c p \<equiv> pcs s c = p"

abbreviation move :: "nat \<Rightarrow> 'e pc \<Rightarrow> ('m, 'e) fifo_sys \<Rightarrow> ('m, 'e) fifo_sys" where
  "move c p s \<equiv> s\<lparr>pcs := (pcs s)(c := p)\<rparr>"

inductive fifo_step :: "('m, 'e) sync_machine \<Rightarrow> usize \<Rightarrow> ('m, 'e) fifo_sys \<Rightarrow> ('m, 'e) fifo_sys \<Rightarrow> bool"
  for mach n where
  submitted: "at s c Absent \<Longrightarrow> m \<noteq> FromPoll \<Longrightarrow> fifo_step mach n s (move c (Offering e m) s)"
| polled: "at s c (Owned w) \<Longrightarrow> p = (case w of WaitDone b \<Rightarrow> Ready b | WaitQueued t \<Rightarrow> PollTail t
      | WaitRoom e \<Rightarrow> Offering e FromPoll) \<Longrightarrow>
    ws = (case w of WaitRoom e \<Rightarrow> (waiters s)(c := Some k) | _ \<Rightarrow> waiters s) \<Longrightarrow>
    fifo_step mach n s (move c p (s\<lparr>last_waker := (last_waker s)(c := Some k),
      woken := (woken s)(c := False), waiters := ws\<rparr>))"
| dropped: "at s c (Owned w) \<Longrightarrow> room = filter (\<lambda>known. known \<noteq> c \<or> \<not> keeps) (fq_room (shared_queue s)) \<Longrightarrow>
    fifo_step mach n s (move c Dropped (s\<lparr>shared_queue := shared_queue s\<lparr>fq_room := room\<rparr>\<rparr>))"
| refused: "at s c (Offering e m) \<Longrightarrow> fq_terminated (shared_queue s) \<Longrightarrow>
    fifo_step mach n s (move c (hand_over (WaitDone False) m) s)"
| full: "at s c (Offering e m) \<Longrightarrow> fq_draining (shared_queue s) \<Longrightarrow>
    set room = set (fq_room (shared_queue s)) \<union> (if m = FromPoll then {c} else {}) \<Longrightarrow>
    fifo_step mach n s (move c (hand_over (WaitRoom e) m) (s\<lparr>shared_queue := shared_queue s\<lparr>fq_room := room\<rparr>\<rparr>))"
| deferred: "at s c (Offering e m) \<Longrightarrow> fq_draining (shared_queue s) \<Longrightarrow> EventQueue_ok n es \<Longrightarrow>
    EventQueue_contents es = queued (shared_queue s) @ [(e, c)] \<Longrightarrow>
    fifo_step mach n s (accepted c [] (move c (hand_over (WaitQueued c) m)
      (s\<lparr>shared_queue := shared_queue s\<lparr>fq_events := es\<rparr>\<rparr>)))"
| took_older: "at s c (Offering e m) \<Longrightarrow> \<not> fq_draining (shared_queue s) \<Longrightarrow> EventQueue_ok n es \<Longrightarrow>
    queued (shared_queue s) = (older, t) # es' \<Longrightarrow> EventQueue_contents es = es' @ [(e, c)] \<Longrightarrow>
    fifo_step mach n s (accepted c [t] (move c (Running older (Some t) OwnTicket m)
      (s\<lparr>shared_queue := shared_queue s\<lparr>fq_events := es, fq_draining := True\<rparr>\<rparr>)))"
| took_own: "at s c (Offering e m) \<Longrightarrow> \<not> fq_draining (shared_queue s) \<Longrightarrow> EventQueue_ok n es \<Longrightarrow>
    queued (shared_queue s) = [] \<Longrightarrow> EventQueue_contents es = [] \<Longrightarrow>
    fifo_step mach n s (accepted c [c] (move c (Running e None (First None) m)
      (s\<lparr>shared_queue := shared_queue s\<lparr>fq_events := es, fq_draining := True\<rparr>\<rparr>)))"
| began: "at s c (Running e tk fin m) \<Longrightarrow> \<not> machine_locked s \<Longrightarrow>
    fifo_step mach n s (move c (InStep e tk fin m)
      (s\<lparr>machine_locked := True, step_log := step_log s @ [Begin (item c tk)]\<rparr>))"
| ended: "at s c (InStep e tk fin m) \<Longrightarrow> step_fn mach (shared_machine s) e = (m', Some b) \<Longrightarrow>
    fifo_step mach n s (move c (Ran tk b (terminated_fn mach m') (note_first fin b) m)
      (s\<lparr>shared_machine := m', machine_locked := False, step_log := step_log s @ [End (item c tk) (Some b)]\<rparr>))"
| panicked: "at s c (InStep e tk fin m) \<Longrightarrow> step_fn mach (shared_machine s) e = (m', None) \<Longrightarrow>
    fifo_step mach n s (move c (Panicked tk)
      (s\<lparr>shared_machine := m', machine_locked := False, step_log := step_log s @ [End (item c tk) None]\<rparr>))"
| ran_direct: "at s c (Ran None b term fin m) \<Longrightarrow> fifo_step mach n s (move c (Loop term fin m) s)"
| resolved: "at s c p \<Longrightarrow>
    p = Ran (Some t) b term fin m \<and> p' = Loop term fin m \<or>
    p = Panicked (Some t) \<and> \<not> b \<and> p' = UnwindLock Crashed \<or>
    p = UnwindResolve (t # ts) room p0 \<and> \<not> b \<and> p' = UnwindResolve ts room p0 \<Longrightarrow>
    fifo_step mach n s (s\<lparr>tickets := (tickets s)(t := \<lparr>ticket_accepted = Some b, ticket_waker = None\<rparr>),
      pcs := (pcs s)(c := Waking (ticket_waker (tickets s t)) p')\<rparr>)"
| went_idle: "at s c (Loop term fin m) \<Longrightarrow> queued (shared_queue s) = [] \<Longrightarrow>
    fifo_step mach n s (move c (WakeRoom (fq_room (shared_queue s)) None term fin m)
      (s\<lparr>shared_queue := shared_queue s\<lparr>fq_terminated := term, fq_room := [], fq_draining := False\<rparr>\<rparr>))"
| took_next: "at s c (Loop term fin m) \<Longrightarrow> EventQueue_ok n es \<Longrightarrow>
    queued (shared_queue s) = (e, t) # EventQueue_contents es \<Longrightarrow>
    fifo_step mach n s (move c (WakeRoom (fq_room (shared_queue s)) (Some (e, t)) term fin m)
      (s\<lparr>shared_queue := shared_queue s\<lparr>fq_events := es, fq_terminated := term, fq_room := []\<rparr>,
         taken_order := taken_order s @ [t]\<rparr>))"
| took_waiter: "at s c p \<Longrightarrow>
    p = WakeRoom (w # ws) popped term fin m \<and> p' = WakeRoom ws popped term fin m \<or>
    p = UnwindWake (w # ws) p0 \<and> p' = UnwindWake ws p0 \<Longrightarrow>
    fifo_step mach n s (s\<lparr>waiters := (waiters s)(w := None), pcs := (pcs s)(c := Waking (waiters s w) p')\<rparr>)"
| run_next: "at s c (WakeRoom [] (Some (e, t)) False fin m) \<Longrightarrow>
    fifo_step mach n s (move c (Running e (Some t) fin m) s)"
| skip_next: "at s c (WakeRoom [] (Some (e, t)) True fin m) \<Longrightarrow>
    fifo_step mach n s (move c (Ran (Some t) False True fin m) s)"
| left: "at s c (WakeRoom [] None term fin m) \<Longrightarrow> fifo_step mach n s (move c (returned c fin m) s)"
| woke: "at s c (Waking w p) \<Longrightarrow> fifo_step mach n s (wake_task w (move c p s))"
| forgot: "at s c (Forgetting w) \<Longrightarrow> p = (case w of WaitQueued t \<Rightarrow> PollTail t | WaitDone b \<Rightarrow> Ready b | WaitRoom e \<Rightarrow> Owned w) \<Longrightarrow>
    fifo_step mach n s (move c p (s\<lparr>shared_queue := FifoCell_forget c (shared_queue s)\<rparr>))"
| ticket_ready: "at s c (PollTail t) \<Longrightarrow> ticket_accepted (tickets s t) = Some b \<Longrightarrow>
    fifo_step mach n s (move c (Ready b) s)"
| ticket_pending: "at s c (PollTail t) \<Longrightarrow> ticket_accepted (tickets s t) = None \<Longrightarrow> last_waker s c = Some w \<Longrightarrow>
    fifo_step mach n s (move c (Owned (WaitQueued t))
      (s\<lparr>tickets := (tickets s)(t := \<lparr>ticket_accepted = None, ticket_waker = Some w\<rparr>)\<rparr>))"
| panicked_own: "at s c (Panicked None) \<Longrightarrow> fifo_step mach n s (move c (UnwindLock Crashed) s)"
| unwind_locked: "at s c (UnwindLock p) \<Longrightarrow> \<not> machine_locked s \<Longrightarrow>
    fifo_step mach n s (move c (UnwindQueue (terminated_fn mach (shared_machine s)) p) s)"
| handed_on: "at s c (UnwindQueue term p) \<Longrightarrow>
    fifo_step mach n s (move c (UnwindResolve [] (fq_room (shared_queue s)) p)
      (s\<lparr>shared_queue := shared_queue s\<lparr>fq_draining := False, fq_room := []\<rparr>\<rparr>))"
| stranded: "at s c (UnwindQueue term p) \<Longrightarrow> EventQueue_ok n es \<Longrightarrow> EventQueue_contents es = [] \<Longrightarrow>
    fifo_step mach n s (move c (UnwindResolve (map snd (queued (shared_queue s))) (fq_room (shared_queue s)) p)
      (s\<lparr>shared_queue := shared_queue s\<lparr>fq_events := es, fq_draining := False, fq_terminated := True, fq_room := []\<rparr>,
         taken_order := taken_order s @ map snd (queued (shared_queue s))\<rparr>))"
| unwind_next: "at s c p \<Longrightarrow> p = UnwindResolve [] room p' \<and> q = UnwindWake room p' \<or> p = UnwindWake [] q \<Longrightarrow>
    fifo_step mach n s (move c q s)"

lemma Ticket_resolve_eq:
  "Ticket_resolve b t = (\<lparr>ticket_accepted = Some b, ticket_waker = None\<rparr>, ticket_waker t)"
  by (cases t) (simp add: Ticket_resolve_def)

lemma Ticket_poll_None:
  "ticket_accepted t = None \<Longrightarrow>
    Ticket_poll w t = (\<lparr>ticket_accepted = None, ticket_waker = Some w\<rparr>, None)"
  by (cases t) (simp add: Ticket_poll_def)

lemma offer_section_step:
  assumes ok: "queue_ok n (shared_queue s)" and c: "pcs s c = Offering e m"
  shows "fifo_step mach n s (offer_section c e m s)"
proof -
  obtain q out where o':
    "FifoCell_offer (shared_queue s) e (if m = FromPoll then Some c else None) c = (q, out)"
    by (metis surj_pair)
  with ok show ?thesis
  proof (cases rule: FifoCell_offer_cases)
    case closed
    then show ?thesis using refused [OF c] o' by (simp add: offer_section_def)
  next
    case (full room)
    then show ?thesis using fifo_step.full [OF c, of room] o' by (simp add: offer_section_def split: if_splits)
  next
    case (deferred es)
    then show ?thesis using fifo_step.deferred [OF c, where n = n and es = es] o' by (simp add: offer_section_def)
  next
    case (older old u es' es)
    then show ?thesis using took_older [OF c, of n es old u es'] o' by (simp add: offer_section_def)
  next
    case (now es)
    then show ?thesis using took_own [OF c, of n es] o' by (simp add: offer_section_def)
  qed
qed

lemma next_section_step:
  assumes ok: "queue_ok n (shared_queue s)" and c: "pcs s c = Loop term fin m"
  shows "fifo_step mach n s (next_section c term fin m s)"
proof -
  obtain q popped room where o': "FifoCell_next (shared_queue s) term = (q, popped, room)"
    by (metis surj_pair)
  with ok show ?thesis
  proof (cases rule: FifoCell_next_cases)
    case empty
    then show ?thesis using went_idle [OF c] o' by (simp add: next_section_def)
  next
    case (popped e t es)
    then show ?thesis using took_next [OF c, of n es e t] o' by (simp add: next_section_def)
  qed
qed

lemma unwind_section_step:
  assumes ok: "queue_ok n (shared_queue s)" and c: "pcs s c = UnwindQueue term p"
  shows "fifo_step mach n s (unwind_section c term p s)"
proof -
  obtain q room ts where o': "Unwinding_drop (shared_queue s) term = (q, room, ts)"
    by (metis surj_pair)
  with ok show ?thesis
  proof (cases rule: Unwinding_drop_cases)
    case stay
    then show ?thesis using handed_on [OF c] o' by (simp add: unwind_section_def)
  next
    case (strand es)
    then show ?thesis using stranded [OF c, of n es] o' by (simp add: unwind_section_def)
  qed
qed

lemma resolve_ticket_step:
  "pcs s c = Ran (Some t) b term fin m \<Longrightarrow> fifo_step mach n s (resolve_ticket t b c (Loop term fin m) s)"
  "pcs s c = Panicked (Some t) \<Longrightarrow> fifo_step mach n s (resolve_ticket t False c (UnwindLock Crashed) s)"
  "pcs s c = UnwindResolve (t # ts) room p \<Longrightarrow>
    fifo_step mach n s (resolve_ticket t False c (UnwindResolve ts room p) s)"
  unfolding resolve_ticket_def Ticket_resolve_eq by (auto intro!: resolved)

lemma advance_step:
  assumes panicking: "\<And>c. \<not> panicking c" and ok: "queue_ok n (shared_queue s)"
    and act: "advance mach panicking c s = Some s'"
  shows "fifo_step mach n s s'"
proof (cases "pcs s c")
  case (Offering e m)
  then show ?thesis using act offer_section_step [OF ok] by (auto simp: advance_def)
next
  case (Running e tk fin m)
  then show ?thesis using act began [OF Running]
    by (auto simp: advance_def begin_step_def split: if_splits)
next
  case (InStep e tk fin m)
  then show ?thesis using act ended [OF InStep] fifo_step.panicked [OF InStep] panicking
    by (auto simp: advance_def end_step_def Let_def split: prod.splits option.splits)
next
  case (Ran tk b tm fin m)
  then show ?thesis using act ran_direct resolve_ticket_step(1)
    by (cases tk) (auto simp: advance_def)
next
  case (Loop tm fin m)
  then show ?thesis using act next_section_step [OF ok] by (auto simp: advance_def)
next
  case (WakeRoom ws popped tm fin m)
  then show ?thesis
  proof (cases ws)
    case Nil
    with WakeRoom show ?thesis using act left run_next skip_next panicking
      by (cases popped; cases tm) (auto simp: advance_def)
  next
    case (Cons w ws')
    with WakeRoom show ?thesis using act
      by (auto simp: advance_def wake_waiter_def intro!: took_waiter)
  qed
next
  case (Waking w p)
  then show ?thesis using act woke [OF Waking] by (auto simp: advance_def)
next
  case (Forgetting w)
  then show ?thesis using act forgot [OF Forgetting refl] by (auto simp: advance_def)
next
  case (PollTail t)
  then show ?thesis
  proof (cases "ticket_accepted (tickets s t)")
    case None
    with PollTail show ?thesis using act ticket_pending [OF PollTail None]
      by (auto simp: advance_def Ticket_poll_None split: option.splits)
  next
    case (Some b)
    with PollTail show ?thesis using act ticket_ready [OF PollTail Some]
      by (auto simp: advance_def Ticket_poll_def split: option.splits)
  qed
next
  case (Panicked tk)
  then show ?thesis using act panicked_own resolve_ticket_step(2)
    by (cases tk) (auto simp: advance_def)
next
  case (UnwindLock p)
  then show ?thesis using act unwind_locked [OF UnwindLock]
    by (auto simp: advance_def split: if_splits)
next
  case (UnwindQueue tm p)
  then show ?thesis using act unwind_section_step [OF ok] by (auto simp: advance_def)
next
  case (UnwindResolve ts room p)
  then show ?thesis using act resolve_ticket_step(3) unwind_next [OF UnwindResolve]
    by (cases ts) (auto simp: advance_def)
next
  case (UnwindWake ws p)
  then show ?thesis using act unwind_next [OF UnwindWake]
    by (cases ws) (auto simp: advance_def wake_waiter_def intro!: took_waiter)
qed (use act in \<open>auto simp: advance_def\<close>)

lemma poll_start_step:
  assumes "poll_start c k s = Some s'"
  shows "fifo_step mach n s s'"
proof -
  obtain w where c: "pcs s c = Owned w"
    using assms by (auto simp: poll_start_def Let_def split: pc.splits)
  show ?thesis
    using assms polled [OF c refl refl, of mach n k] c
    by (cases w) (auto simp: poll_start_def Waiter_update_def split: if_splits)
qed

lemma drop_completion_step:
  assumes "drop_completion c s = Some s'"
  shows "fifo_step mach n s s'"
proof -
  obtain w where c: "pcs s c = Owned w"
    using assms by (auto simp: drop_completion_def split: pc.splits)
  show ?thesis
    using assms dropped [OF c refl, of mach n True] dropped [OF c refl, of mach n False] c
    by (cases w) (auto simp: drop_completion_def FifoCell_forget_def)
qed

lemma perform_step:
  assumes "\<And>c. \<not> panicking c" and "queue_ok n (shared_queue s)"
    and "perform mach panicking a s = Some s'"
  shows "fifo_step mach n s s'"
  using assms(3)
  by (cases a) (auto intro: submitted poll_start_step drop_completion_step advance_step [OF assms(1,2)]
      split: if_splits)

section \<open>What a caller's position says\<close>

text \<open>The drainer: the caller that set \<open>draining\<close> and has not yet given it up.\<close>

fun drains :: "'e pc \<Rightarrow> bool" where
  "drains (Running _ _ _ _) = True"
| "drains (InStep _ _ _ _) = True"
| "drains (Ran _ _ _ _ _) = True"
| "drains (Loop _ _ _) = True"
| "drains (WakeRoom _ popped _ _ _) = (popped \<noteq> None)"
| "drains (Waking _ p) = drains p"
| "drains (Panicked _) = True"
| "drains (UnwindLock _) = True"
| "drains (UnwindQueue _ _) = True"
| "drains _ = False"

text \<open>The event of which the step is running, and the one whose step comes next.\<close>

fun stepping :: "nat \<Rightarrow> 'e pc \<Rightarrow> nat option" where
  "stepping c (InStep _ ticket _ _) = Some (item c ticket)"
| "stepping c _ = None"

fun upcoming :: "nat \<Rightarrow> 'e pc \<Rightarrow> nat list" where
  "upcoming c (Running _ ticket _ _) = [item c ticket]"
| "upcoming c (WakeRoom _ popped _ _ _) = (case popped of None \<Rightarrow> [] | Some (_, t) \<Rightarrow> [t])"
| "upcoming c (Waking _ p) = upcoming c p"
| "upcoming c _ = []"

text \<open>
  Without threads that were unwinding before, only a crash takes the unwinding path; a wake-up is
  never in the middle of a step.
\<close>

fun crash_path :: "'e pc \<Rightarrow> bool" where
  "crash_path (Waking _ p) = (crash_path p \<and> (\<forall>c. stepping c p = None))"
| "crash_path (UnwindLock p) = (p = Crashed)"
| "crash_path (UnwindQueue _ p) = (p = Crashed)"
| "crash_path (UnwindResolve _ _ p) = (p = Crashed)"
| "crash_path (UnwindWake _ p) = (p = Crashed)"
| "crash_path _ = True"

lemma item_simps [simp]: "item c None = c" "item c (Some t) = t"
  by (simp_all add: item_def)

lemma stepping_drains: "stepping c p \<noteq> None \<Longrightarrow> drains p"
  by (cases p) auto

lemma upcoming_drains: "upcoming c p \<noteq> [] \<Longrightarrow> drains p"
  by (induction c p rule: upcoming.induct) (auto split: option.splits)

lemma hand_over_simps [simp]:
  "\<not> drains (hand_over w m)" "stepping c (hand_over w m) = None" "upcoming c (hand_over w m) = []"
  "crash_path (hand_over w m)"
  by (cases m; cases w; simp add: hand_over_def)+

lemma returned_simps [simp]:
  "\<not> drains (returned c fin m)" "stepping d (returned c fin m) = None"
  "upcoming d (returned c fin m) = []" "crash_path (returned c fin m)"
  by (simp_all add: returned_def)

text \<open>The log of steps read by an automaton: no step, or the one that is running.\<close>

fun log_next :: "nat option option \<Rightarrow> step_log \<Rightarrow> nat option option" where
  "log_next (Some None) (Begin i) = Some (Some i)"
| "log_next (Some (Some i)) (End j _) = (if i = j then Some None else None)"
| "log_next _ _ = None"

definition log_now :: "step_log list \<Rightarrow> nat option option" where
  "log_now log = foldl log_next (Some None) log"

lemma log_now_simps [simp]:
  "log_now [] = Some None" "log_now (log @ [x]) = log_next (log_now log) x"
  by (simp_all add: log_now_def)

section \<open>One drainer, one step at a time\<close>

text \<open>\<open>d\<close> is the drainer, if there is one.\<close>

definition drain_ok :: "usize \<Rightarrow> nat option \<Rightarrow> ('m, 'e) fifo_sys \<Rightarrow> bool" where
  "drain_ok n d s \<longleftrightarrow>
     queue_ok n (shared_queue s) \<and>
     (\<forall>c. crash_path (pcs s c)) \<and>
     (\<forall>c. drains (pcs s c) \<longleftrightarrow> d = Some c) \<and>
     (fq_draining (shared_queue s) \<longleftrightarrow> d \<noteq> None) \<and>
     log_now (step_log s) = Some (Option.bind d (\<lambda>c. stepping c (pcs s c))) \<and>
     (machine_locked s \<longleftrightarrow> Option.bind d (\<lambda>c. stepping c (pcs s c)) \<noteq> None)"

lemma drain_ok_move:
  assumes inv: "drain_ok n d s" and p: "pcs s c = p" "pcs s' = (pcs s)(c := p')"
    and same: "drains p' = drains p" "crash_path p \<Longrightarrow> crash_path p'" "stepping c p' = stepping c p"
      "fq_draining (shared_queue s') = fq_draining (shared_queue s)"
      "step_log s' = step_log s" "machine_locked s' = machine_locked s"
    and ok: "queue_ok n (shared_queue s) \<Longrightarrow> queue_ok n (shared_queue s')"
  shows "\<exists>d. drain_ok n d s'"
  using assms by (intro exI [of _ d], cases d) (auto simp: drain_ok_def)

lemma drain_ok_at:
  "drain_ok n d s \<Longrightarrow> pcs s c = p \<Longrightarrow> drains p \<Longrightarrow> d = Some c \<and> crash_path p"
  by (auto simp: drain_ok_def)

lemma drain_ok_step: 
  assumes "fifo_step mach n s s'" "drain_ok n d s" shows "\<exists>d'. drain_ok n d' s'"
  using assms
proof (induction rule: fifo_step.induct)
  case (took_older s c e m es older t es')
  then show ?case by (intro exI[of _ "Some c"]) (simp add: drain_ok_def accepted_def)
next
  case (took_own s c e m es)
  then show ?case by (intro exI[of _ "Some c"]) (simp add: drain_ok_def accepted_def item_def)
next
  case (went_idle s c)
  then have "d = Some c" by (metis drain_ok_def drains.simps(4))
  then show ?case using went_idle by (intro exI[of _ "None"]) (simp add: drain_ok_def)
next
  case (handed_on s c tm p)
  then have "d = Some c" "p = Crashed" by (metis drain_ok_def drains.simps(9) crash_path.simps(3))+
  then show ?case using handed_on by (intro exI[of _ "None"]) (auto simp add: drain_ok_def)
next
  case (stranded s c tm p)
  then have "d = Some c" "p = Crashed" by (metis drain_ok_def drains.simps(9) crash_path.simps(3))+
  then show ?case using stranded by (intro exI[of _ "None"]) (auto simp add: drain_ok_def)
next
  case (began s c e tk fin m)
  with drain_ok_at [OF began(3,1)] show ?case by (intro exI [of _ d]) (auto simp: drain_ok_def)
next
  case (ended s c e tk fin m m' b)
  with drain_ok_at [OF ended(3,1)] show ?case by (intro exI [of _ d]) (auto simp: drain_ok_def)
next
  case (panicked s c e tk fin m m')
  with drain_ok_at [OF panicked(3,1)] show ?case by (intro exI [of _ d]) (auto simp: drain_ok_def)
next
  case (woke s c w p)
  then have "crash_path (Waking w p)"
    by (metis drain_ok_def)
  then show ?case
    by (intro drain_ok_move [OF woke(2,1)]) (auto simp: wake_task_def)
next
  case (unwind_next s c p room p' q)
  then have "crash_path p"
    by (metis drain_ok_def)
  with unwind_next show ?case
    by (intro drain_ok_move [OF unwind_next(3,1), where p' = q]) auto
qed (erule drain_ok_move, assumption, simp add: accepted_def,
     (auto simp: accepted_def FifoCell_forget_def split: wait.splits)[7])+

lemma no_other_upcoming:
  "drain_ok n d s \<Longrightarrow> \<not> fq_draining (shared_queue s) \<Longrightarrow> upcoming x (pcs s x) = []"
  "drain_ok n d s \<Longrightarrow> pcs s c = p \<Longrightarrow> drains p \<Longrightarrow> x \<noteq> c \<Longrightarrow> upcoming x (pcs s x) = []"
  using upcoming_drains [of x "pcs s x"] by (auto simp: drain_ok_def)

section \<open>The order of events\<close>

text \<open>The calls that may still offer their event.\<close>

fun may_offer :: "'e pc \<Rightarrow> bool" where
  "may_offer Absent = True"
| "may_offer (Offering _ _) = True"
| "may_offer (Owned (WaitRoom _)) = True"
| "may_offer (Forgetting (WaitRoom _)) = True"
| "may_offer (Waking _ p) = may_offer p"
| "may_offer (UnwindLock p) = may_offer p"
| "may_offer (UnwindQueue _ p) = may_offer p"
| "may_offer (UnwindResolve _ _ p) = may_offer p"
| "may_offer (UnwindWake _ p) = may_offer p"
| "may_offer _ = False"

lemma may_offer_handed [simp]:
  "\<not> may_offer (hand_over (WaitDone b) m)" "\<not> may_offer (hand_over (WaitQueued t) m)"
  "\<not> may_offer (returned c fin m)"
  by (cases m; cases fin; simp add: hand_over_def returned_def)+

definition begun :: "step_log list \<Rightarrow> nat list" where
  "begun log = concat (map (\<lambda>x. case x of Begin i \<Rightarrow> [i] | End _ _ \<Rightarrow> []) log)"

lemma begun_simps [simp]:
  "begun [] = []" "begun (log @ [Begin i]) = begun log @ [i]" "begun (log @ [End i r]) = begun log"
  by (simp_all add: begun_def)

text \<open>Whose events wait in the queue.\<close>

definition queued_ids :: "'e fifo_queue \<Rightarrow> nat list" where
  "queued_ids q = map snd (queued q)"

lemma queued_ids_update [simp]:
  "queued_ids (q\<lparr>fq_room := r\<rparr>) = queued_ids q" "queued_ids (q\<lparr>fq_draining := b\<rparr>) = queued_ids q"
  "queued_ids (q\<lparr>fq_terminated := b\<rparr>) = queued_ids q"
  "queued_ids (q\<lparr>fq_events := es\<rparr>) = map snd (EventQueue_contents es)"
  by (simp_all add: queued_ids_def)

definition order_ok :: "('m, 'e) fifo_sys \<Rightarrow> bool" where
  "order_ok s \<longleftrightarrow>
     accepted_order s = taken_order s @ queued_ids (shared_queue s) \<and>
     distinct (accepted_order s) \<and>
     (\<forall>c. may_offer (pcs s c) \<longrightarrow> c \<notin> set (accepted_order s)) \<and>
     (\<forall>c. subseq (begun (step_log s) @ upcoming c (pcs s c)) (taken_order s))"

lemma subseq_initial: "subseq (xs @ ys) zs \<Longrightarrow> subseq xs zs"
  by (meson prefixI prefix_imp_subseq subseq_order.order_trans)

lemma order_ok_begun: "order_ok s \<Longrightarrow> subseq (begun (step_log s)) (taken_order s)"
  by (auto simp: order_ok_def dest: subseq_initial)

lemma order_ok_move:
  assumes "order_ok s" and p: "pcs s c = p" "pcs s' = (pcs s)(c := p')"
    and "may_offer p' \<Longrightarrow> may_offer p" "upcoming c p' = upcoming c p \<or> upcoming c p' = []"
      "queued_ids (shared_queue s') = queued_ids (shared_queue s)"
      "accepted_order s' = accepted_order s" "taken_order s' = taken_order s"
      "begun (step_log s') = begun (step_log s)"
  shows "order_ok s'"
  using assms order_ok_begun [OF assms(1)] by (auto simp: order_ok_def)

lemma order_ok_take:
  assumes inv: "order_ok s" and idle: "\<And>x. taken \<noteq> [] \<Longrightarrow> x \<noteq> c \<Longrightarrow> upcoming x (pcs s x) = []"
    and s': "pcs s' = (pcs s)(c := p')" "step_log s' = step_log s"
      "taken_order s' = taken_order s @ taken" "accepted_order s' = accepted_order s @ new"
      "taken @ queued_ids (shared_queue s') = queued_ids (shared_queue s) @ new"
    and new: "\<not> may_offer p'" "new = [] \<or> new = [c] \<and> may_offer (pcs s c)"
    and up: "upcoming c p' = [] \<or> upcoming c p' = taken"
  shows "order_ok s'"
proof -
  have "accepted_order s @ new = (taken_order s @ taken) @ queued_ids (shared_queue s')"
    using inv s'(5) by (simp add: order_ok_def)
  moreover have "distinct (accepted_order s @ new)"
    using inv new by (auto simp: order_ok_def)
  moreover have "x \<notin> set (accepted_order s @ new)" if "may_offer (pcs s' x)" for x
    using that inv new s'(1) by (cases "x = c") (auto simp: order_ok_def split: if_splits)
  moreover have "subseq (begun (step_log s) @ upcoming x (pcs s' x)) (taken_order s @ taken)" for x
  proof (cases "x = c")
    case True
    with order_ok_begun [OF inv] up s'(1) show ?thesis
      by (auto intro: subseq_append_iff [THEN iffD2] list_emb_append2 list_emb_append_mono)
  next
    case False
    with order_ok_begun [OF inv] idle s'(1) inv show ?thesis
      by (cases "taken = []") (auto simp: order_ok_def intro: list_emb_append2 subseq_rev_drop_many)
  qed
  ultimately show ?thesis by (simp add: order_ok_def s')
qed

lemma order_ok_step:
  assumes "fifo_step mach n s s'" "drain_ok n d s" "order_ok s"
  shows "order_ok s'"
  using assms
proof (induction rule: fifo_step.induct)
  case (deferred s c e m es)
  then show ?case
    by (intro order_ok_take [where c = c and taken = "[]" and new = "[c]"
        and p' = "hand_over (WaitQueued c) m", OF deferred(6)])
      (simp_all add: accepted_def queued_ids_def)
next
  case (took_older s c e m es older t es')
  then have "\<And>x. upcoming x (pcs s x) = []"
    using no_other_upcoming(1) by blast
  with took_older show ?case
    by (intro order_ok_take [where c = c and taken = "[t]" and new = "[c]"
        and p' = "Running older (Some t) OwnTicket m", OF took_older(7)])
      (simp_all add: accepted_def queued_ids_def item_def)
next
  case (took_own s c e m es)
  then have "\<And>x. upcoming x (pcs s x) = []"
    using no_other_upcoming(1) by blast
  with took_own show ?case
    by (intro order_ok_take [where c = c and taken = "[c]" and new = "[c]"
        and p' = "Running e None (First None) m", OF took_own(7)])
      (simp_all add: accepted_def queued_ids_def item_def)
next
  case (took_next s c tm fin m es e t)
  then have "\<And>x. x \<noteq> c \<Longrightarrow> upcoming x (pcs s x) = []"
    using no_other_upcoming(2) by fastforce
  with took_next show ?case
    by (intro order_ok_take [where c = c and taken = "[t]" and new = "[]"
        and p' = "WakeRoom (fq_room (shared_queue s)) (Some (e, t)) tm fin m", OF took_next(5)])
      (simp_all add: queued_ids_def)
next
  case (stranded s c tm p es)
  then have "\<And>x. x \<noteq> c \<Longrightarrow> upcoming x (pcs s x) = []"
    using no_other_upcoming(2) by fastforce
  moreover have "p = Crashed"
    using stranded drain_ok_at [OF stranded(4,1)] by simp
  ultimately show ?case
    using stranded by (intro order_ok_take [where c = c and taken = "queued_ids (shared_queue s)" and new = "[]"
        and p' = "UnwindResolve (map snd (queued (shared_queue s))) (fq_room (shared_queue s)) p", OF stranded(5)])
      (simp_all add: queued_ids_def)
next
  case (began s c e tk fin m)
  then have "\<And>x. x \<noteq> c \<Longrightarrow> upcoming x (pcs s x) = []"
    using no_other_upcoming(2) by fastforce
  moreover have "subseq (begun (step_log s) @ upcoming c (pcs s c)) (taken_order s)"
    using began(4) by (simp add: order_ok_def)
  ultimately show ?case
    using began by (auto simp: order_ok_def)
next
  case (woke s c w p)
  show ?case by (rule order_ok_move [OF woke(3,1)]) (auto simp: wake_task_def)
next
  case (unwind_next s c p room p' q)
  then have "crash_path p"
    by (metis drain_ok_def)
  with unwind_next show ?case
    by (intro order_ok_move [OF unwind_next(4,1), where p' = q]) auto
qed (erule order_ok_move, assumption, simp add: accepted_def,
     (auto simp: accepted_def FifoCell_forget_def split: wait.splits)[6])+


section \<open>Reachable systems\<close>

definition fifo_inv :: "usize \<Rightarrow> ('m, 'e) fifo_sys \<Rightarrow> bool" where
  "fifo_inv n s \<longleftrightarrow> (\<exists>d. drain_ok n d s) \<and> order_ok s"

lemma fifo_inv_queue_ok: "fifo_inv n s \<Longrightarrow> queue_ok n (shared_queue s)"
  by (auto simp: fifo_inv_def drain_ok_def)

lemma fifo_inv_initial: "fifo_inv n (initial_sys mach n m)"
proof -
  have "EventQueue_ok n (EventQueue_new n)" by (rule evq.new_inv)
  then show ?thesis
    by (auto simp: fifo_inv_def drain_ok_def order_ok_def initial_sys_def FifoScheduler_cell_def
        queued_ids_def EventQueue_new_contents split: prod.splits intro!: exI [of _ None])
qed

lemma fifo_inv_reachable:
  assumes "fifo_reachable mach (\<lambda>_. False) n s"
  shows "fifo_inv n s"
  using assms
proof induction
  case (fifo_start m)
  show ?case by (rule fifo_inv_initial)
next
  case (fifo_action s a s')
  then have "fifo_step mach n s s'"
    by (intro perform_step [OF _ fifo_inv_queue_ok]) auto
  then show ?case
    using fifo_action.IH drain_ok_step order_ok_step unfolding fifo_inv_def by blast
qed


text \<open>
  C16. Events run in the order in which they were accepted: the events whose steps have begun are,
  in order, among the events taken from the cell, and those followed by the queue are all
  accepted events in the order of their acceptance, each once.
\<close>

theorem fifo_order:
  assumes "fifo_reachable mach (\<lambda>_. False) n s"
  shows "subseq (begun (step_log s)) (taken_order s) \<and>
    accepted_order s = taken_order s @ map snd (queued (shared_queue s)) \<and>
    distinct (accepted_order s) \<and> length (queued (shared_queue s)) \<le> unat n"
proof (intro conjI)
  have inv: "fifo_inv n s" by (rule fifo_inv_reachable [OF assms])
  then have ord: "order_ok s" by (simp add: fifo_inv_def)
  show "subseq (begun (step_log s)) (taken_order s)" by (rule order_ok_begun [OF ord])
  show "accepted_order s = taken_order s @ map snd (queued (shared_queue s))"
    and "distinct (accepted_order s)"
    using ord unfolding order_ok_def queued_ids_def by blast+
  show "length (queued (shared_queue s)) \<le> unat n"
    by (rule evq.list_bound [OF fifo_inv_queue_ok [OF inv]])
qed

end
