(* ===== verification/Fifo_Examples.thy ===== *)
theory Fifo_Examples
  imports Fifo_Safety
begin

text \<open>
  A recording machine like the one of the tests of src/src/scheduler.rs, runs that instantiate the
  theorems of Fifo_Safety, and what happens when a caller's thread was already unwinding.
\<close>

text \<open>Event 0 stops the machine, event 7 panics, every other event is recorded and accepted.\<close>

definition recorder :: "(nat list \<times> bool, nat) sync_machine" where
  "recorder = \<lparr>start_fn = (\<lambda>m. (m, True)),
     step_fn = (\<lambda>(seen, stopped) e. if e = 7 then ((seen, stopped), None) else ((seen @ [e], e = 0), Some True)),
     terminated_fn = snd\<rparr>"

definition recorder_run :: "(nat \<Rightarrow> bool) \<Rightarrow> nat action list \<Rightarrow> (nat list \<times> bool, nat) fifo_sys option" where
  "recorder_run panicking as = fifo_run recorder panicking as (initial_sys recorder 2 ([], False))"

lemma recorder_run_reachable:
  "recorder_run panicking as = Some s \<Longrightarrow> fifo_reachable recorder panicking 2 s"
  unfolding recorder_run_def by (erule fifo_run_reachable) (rule fifo_start)

text \<open>Call 0 drains and is in its step while call 1 queues its event.\<close>

definition busy_run :: "nat action list" where
  "busy_run = [NewSubmit 0 5, Advance 0, Advance 0, NewSubmit 1 6, Advance 1]"

lemma busy_run_result:
  "case recorder_run (\<lambda>_. False) busy_run of None \<Rightarrow> False
   | Some s \<Rightarrow> drains (pcs s 0) \<and> pcs s 1 = Owned (WaitQueued 1) \<and>
       accepted_order s = [0, 1] \<and> begun (step_log s) = [0]"
  by code_simp


theorem fifo_order_witness:
  "\<exists>s. fifo_reachable recorder (\<lambda>_. False) 2 s \<and> accepted_order s = [0, 1] \<and>
     subseq [0] (taken_order s) \<and> distinct (accepted_order s)"
proof -
  obtain s where s: "recorder_run (\<lambda>_. False) busy_run = Some s" "accepted_order s = [0, 1]"
      "begun (step_log s) = [0]"
    using busy_run_result by (auto split: option.splits)
  note reach = recorder_run_reachable [OF s(1)]
  have "subseq (begun (step_log s)) (taken_order s)" "distinct (accepted_order s)"
    using fifo_order [OF reach] by blast+
  with s(2,3) reach show ?thesis by (intro exI [of _ s]) simp
qed

section \<open>Calls from an unwinding thread\<close>

text \<open>
  Caller 0 submits from a thread that is already unwinding (from a destructor). Its drain ends
  normally and frees the cell; caller 1 becomes the drainer; then the guard of caller 0's drain,
  dropped while its thread is still panicking, clears \<open>draining\<close>; and caller 2 starts to drain too.
\<close>

definition unwinding_run :: "nat action list" where
  "unwinding_run =
     [NewSubmit 0 5, Advance 0, Advance 0, Advance 0, Advance 0, Advance 0, Advance 0,
      NewSubmit 1 6, Advance 1, Advance 0, Advance 0, NewSubmit 2 8, Advance 2, Advance 2]"

lemma unwinding_run_result:
  "case recorder_run (\<lambda>c. c = 0) unwinding_run of None \<Rightarrow> False
   | Some s \<Rightarrow> drains (pcs s 1) \<and> drains (pcs s 2) \<and>
       accepted_order s = [0, 1, 2] \<and> begun (step_log s) = [0, 2]"
  by code_simp

text \<open>
  The condition on unwinding threads is needed: a call from a thread that is already unwinding
  leads to a cell with two drainers at once, which runs an event before an earlier accepted one.
\<close>

theorem fifo_unwinding_two_drainers:
  "\<exists>s. fifo_reachable recorder (\<lambda>c. c = 0) 2 s \<and> drains (pcs s 1) \<and> drains (pcs s 2) \<and>
     accepted_order s = [0, 1, 2] \<and> begun (step_log s) = [0, 2]"
proof -
  obtain s where s: "recorder_run (\<lambda>c. c = 0) unwinding_run = Some s" "drains (pcs s 1)"
      "drains (pcs s 2)" "accepted_order s = [0, 1, 2]" "begun (step_log s) = [0, 2]"
    using unwinding_run_result by (auto split: option.splits)
  with recorder_run_reachable [OF s(1)] show ?thesis by blast
qed

end
