(* ===== verification/Parsed_Machine.thy ===== *)
theory Parsed_Machine
  imports Names Lifetimes
begin

text \<open>
  \<open>ParsedStateMachine::new\<close> of macros/src/parser/mod.rs: from the rows of a table to the parsed
  machine. Each block of the function is a definition here, in the order in which it runs: the
  checks on generic events, the target of internal rows, names, the starting state, the collection
  of states, events and payload types, and the expansion of the rows into the transition map.
  \<open>ParsedStateMachine_new\<close> composes them.
\<close>

section \<open>Generic parameters in types\<close>

text \<open>
  The \<open>Usage\<close> visitor: whether a type mentions a generic parameter. It only sets a flag, so the
  traversal is a Boolean function; the stack of bound lifetimes is its argument.
\<close>

definition param_name :: "generic_param \<Rightarrow> string" where
  "param_name g = (case g of LifetimeParam l \<Rightarrow> CHR 0x27 # l | TypeParam i \<Rightarrow> i | ConstParam i \<Rightarrow> i)"

definition lifetime_uses :: "generic_param \<Rightarrow> string list list \<Rightarrow> string \<Rightarrow> bool" where
  "lifetime_uses g scopes l \<longleftrightarrow> \<not> lifetime_is_bound scopes l \<and> g = LifetimeParam l"

definition bound_uses :: "generic_param \<Rightarrow> string list list \<Rightarrow> bound_lifetimes option \<Rightarrow> bool" where
  "bound_uses g scopes bound \<longleftrightarrow> list_ex (lifetime_uses g scopes) (mentioned_lifetimes bound)"

definition path_uses :: "generic_param \<Rightarrow> rust_type option \<Rightarrow> bool \<Rightarrow> path_segment list \<Rightarrow> bool" where
  "path_uses g q colon segments \<longleftrightarrow>
     (case g of
        LifetimeParam _ \<Rightarrow> False
      | TypeParam i \<Rightarrow> q = None \<and> \<not> colon \<and> (case segments of s # _ \<Rightarrow> segment_ident s = i | [] \<Rightarrow> False)
      | ConstParam i \<Rightarrow> q = None \<and> \<not> colon \<and> (case segments of [s] \<Rightarrow> segment_ident s = i | _ \<Rightarrow> False))"

definition expr_path_uses :: "generic_param \<Rightarrow> rust_type option \<Rightarrow> bool \<Rightarrow> path_segment list \<Rightarrow> bool" where
  "expr_path_uses g q colon segments \<longleftrightarrow> (case g of ConstParam _ \<Rightarrow> path_uses g q colon segments | _ \<Rightarrow> False)"

definition any_uses :: "(string list list \<Rightarrow> bool) list \<Rightarrow> string list list \<Rightarrow> bool" where
  "any_uses us scopes \<longleftrightarrow> list_ex (\<lambda>u. u scopes) us"

definition optional_uses :: "(string list list \<Rightarrow> bool) option \<Rightarrow> string list list \<Rightarrow> bool" where
  "optional_uses u scopes \<longleftrightarrow> (case u of None \<Rightarrow> False | Some u \<Rightarrow> u scopes)"

primrec type_uses :: "generic_param \<Rightarrow> rust_type \<Rightarrow> string list list \<Rightarrow> bool"
  and segment_uses :: "generic_param \<Rightarrow> path_segment \<Rightarrow> string list list \<Rightarrow> bool"
  and argument_uses :: "generic_param \<Rightarrow> generic_argument \<Rightarrow> string list list \<Rightarrow> bool"
  and trait_bound_uses :: "generic_param \<Rightarrow> type_param_bound \<Rightarrow> string list list \<Rightarrow> bool"
  and expr_uses :: "generic_param \<Rightarrow> expr_part \<Rightarrow> string list list \<Rightarrow> bool"
where
  "type_uses g (TypePath q colon segments) = (\<lambda>scopes.
     path_uses g q colon segments \<or> optional_uses (map_option (type_uses g) q) scopes \<or>
     any_uses (map (segment_uses g) segments) scopes)"
| "type_uses g (TypeReference l m t) = (\<lambda>scopes.
     (case l of None \<Rightarrow> False | Some l \<Rightarrow> lifetime_uses g scopes l) \<or> type_uses g t scopes)"
| "type_uses g (TypeTuple ts) = any_uses (map (type_uses g) ts)"
| "type_uses g (TypeArray t len) = (\<lambda>scopes. type_uses g t scopes \<or> any_uses (map (expr_uses g) len) scopes)"
| "type_uses g (TypeSlice t) = type_uses g t"
| "type_uses g (TypePtr m t) = type_uses g t"
| "type_uses g (TypeBareFn bound inputs out) = (\<lambda>scopes.
     bound_uses g (push_bound bound scopes) bound \<or>
     any_uses (map (type_uses g) inputs) (push_bound bound scopes) \<or>
     optional_uses (map_option (type_uses g) out) (push_bound bound scopes))"
| "type_uses g (TypeTraitObject bounds) = any_uses (map (trait_bound_uses g) bounds)"
| "type_uses g (TypeImplTrait bounds) = any_uses (map (trait_bound_uses g) bounds)"
| "type_uses g (TypeParen t) = type_uses g t"
| "type_uses g (TypeGroup t) = type_uses g t"
| "type_uses g (TypeMacro segments) = any_uses (map (segment_uses g) segments)"
| "type_uses g (TypeOther ts) = (\<lambda>_. False)"
| "segment_uses g (PathSegment i args) = any_uses (map (argument_uses g) args)"
| "segment_uses g (FnSegment i inputs out) = (\<lambda>scopes.
     any_uses (map (type_uses g) inputs) scopes \<or> optional_uses (map_option (type_uses g) out) scopes)"
| "argument_uses g (LifetimeArg l) = (\<lambda>scopes. lifetime_uses g scopes l)"
| "argument_uses g (TypeArg t) = type_uses g t"
| "argument_uses g (ConstArg e) = any_uses (map (expr_uses g) e)"
| "argument_uses g (AssocType i args t) = (\<lambda>scopes. any_uses (map (argument_uses g) args) scopes \<or> type_uses g t scopes)"
| "argument_uses g (AssocConst i args e) = (\<lambda>scopes.
     any_uses (map (argument_uses g) args) scopes \<or> any_uses (map (expr_uses g) e) scopes)"
| "argument_uses g (Constraint i args bounds) = (\<lambda>scopes.
     any_uses (map (argument_uses g) args) scopes \<or> any_uses (map (trait_bound_uses g) bounds) scopes)"
| "trait_bound_uses g (TraitBound bound segments) = (\<lambda>scopes.
     bound_uses g (push_bound bound scopes) bound \<or> any_uses (map (segment_uses g) segments) (push_bound bound scopes))"
| "trait_bound_uses g (LifetimeBound l) = (\<lambda>scopes. lifetime_uses g scopes l)"
| "trait_bound_uses g (CaptureBound ls) = (\<lambda>scopes. list_ex (lifetime_uses g scopes) ls)"
| "trait_bound_uses g (VerbatimBound ts) = (\<lambda>_. False)"
| "expr_uses g (ExprPath q colon segments) = (\<lambda>scopes.
     expr_path_uses g q colon segments \<or> optional_uses (map_option (type_uses g) q) scopes \<or>
     any_uses (map (segment_uses g) segments) scopes)"
| "expr_uses g (ExprType t) = type_uses g t"
| "expr_uses g (ExprLabel l) = (\<lambda>scopes. lifetime_uses g scopes l)"

definition type_uses_generic_param :: "rust_type \<Rightarrow> generic_param \<Rightarrow> bool" where
  "type_uses_generic_param t g \<longleftrightarrow> type_uses g t []"

definition type_uses_event_generics :: "generic_param list \<Rightarrow> rust_type \<Rightarrow> bool" where
  "type_uses_event_generics gs t \<longleftrightarrow> list_ex (type_uses_generic_param t) gs"

definition temporary_context_uses_event_generics :: "parsed_state_machine \<Rightarrow> bool" where
  "temporary_context_uses_event_generics sm \<longleftrightarrow>
     (case p_temporary_context_type sm of None \<Rightarrow> False
      | Some t \<Rightarrow> type_uses_event_generics (p_event_generics sm) t)"

text \<open>Lifetimes that are not yet declared are declared after the ones that are.\<close>

fun is_lifetime_param :: "generic_param \<Rightarrow> bool" where
  "is_lifetime_param (LifetimeParam _) = True"
| "is_lifetime_param _ = False"

definition generics_with_lifetimes :: "generic_param list \<Rightarrow> string list \<Rightarrow> generic_param list" where
  "generics_with_lifetimes gs ls =
     (let missing = map LifetimeParam (filter (\<lambda>l. LifetimeParam l \<notin> set gs) ls)
      in if missing = [] then gs
         else filter is_lifetime_param gs @ missing @ filter (\<lambda>g. \<not> is_lifetime_param g) gs)"

definition event_generics_with_lifetimes :: "parsed_state_machine \<Rightarrow> string list \<Rightarrow> generic_param list" where
  "event_generics_with_lifetimes sm ls = generics_with_lifetimes (p_event_generics sm) ls"

section \<open>The checks on generic events\<close>

definition err_if :: "bool \<Rightarrow> string \<Rightarrow> (string, unit) rust_result" where
  "err_if b msg = (if b then Err msg else Ok ())"

definition check_queue_generics :: "state_machine \<Rightarrow> (string, unit) rust_result" where
  "check_queue_generics sm =
     err_if (event_generics sm \<noteq> [] \<and>
         list_ex (\<lambda>t. st_defer t \<or> st_process_events t \<noteq> []) (transitions sm))
       ''generic events cannot use `defer` or `process(...)`''"

definition value_params :: "generic_param list \<Rightarrow> generic_param list" where
  "value_params gs = filter (\<lambda>g. \<not> is_lifetime_param g) gs"

definition option_list :: "'a option \<Rightarrow> 'a list" where
  "option_list x = (case x of None \<Rightarrow> [] | Some y \<Rightarrow> [y])"

definition check_state_data_generics :: "state_machine \<Rightarrow> (string, unit) rust_result" where
  "check_state_data_generics sm =
     (case find (\<lambda>(t, g). type_uses_generic_param t g)
         (concat (map (\<lambda>t. concat (map (\<lambda>ty. map (Pair ty) (value_params (event_generics sm)))
            (option_list (in_data_type (st_in t)) @ option_list (out_data_type (st_out t)))))
          (transitions sm))) of
        None \<Rightarrow> Ok ()
      | Some (_, g) \<Rightarrow> Err (''stored state data cannot use dispatch-scoped generic event parameter `'' @ param_name g @ ''`''))"


definition check_event_generics_of ::
  "generic_param list \<Rightarrow> state_transition \<Rightarrow> (string, unit) rust_result" where
  "check_event_generics_of gs t =
     (case ev_data_type (st_event t) of
        None \<Rightarrow> Ok ()
      | Some ty \<Rightarrow>
          (case (if ev_kind (st_event t) = Exception then find (type_uses_generic_param ty) gs else None) of
             Some g \<Rightarrow> Err (''typed exception payloads cannot use dispatch-scoped generic event parameter `'' @ param_name g @ ''`'')
           | None \<Rightarrow>
               if \<not> ev_external (st_event t) \<and> \<not> type_uses_event_generics gs ty then Ok ()
               else (case find (\<lambda>g. \<not> type_uses_generic_param ty g) (value_params gs) of
                   Some g \<Rightarrow> Err (''generic event `'' @ ev_ident (st_event t) @ ''` must use declared parameter `'' @ param_name g @ ''`'')
                 | None \<Rightarrow> Ok ())))"

definition check_event_generics :: "state_machine \<Rightarrow> (string, unit) rust_result" where
  "check_event_generics sm =
     try_fold (\<lambda>t _. check_event_generics_of (event_generics sm) t) (transitions sm) ()"

definition used_by_event :: "state_machine \<Rightarrow> generic_param \<Rightarrow> bool" where
  "used_by_event sm g \<longleftrightarrow>
     list_ex (\<lambda>t. case ev_data_type (st_event t) of None \<Rightarrow> False | Some ty \<Rightarrow> type_uses_generic_param ty g)
       (transitions sm)"

definition check_unused_generics :: "state_machine \<Rightarrow> (string, unit) rust_result" where
  "check_unused_generics sm =
     (case find (\<lambda>g. \<not> used_by_event sm g) (event_generics sm) of
        None \<Rightarrow> Ok ()
      | Some g \<Rightarrow> Err (''declared generic event parameter `'' @ param_name g @ ''` must be used by at least one event payload''))"

definition check_context_generics :: "state_machine \<Rightarrow> (string, unit) rust_result" where
  "check_context_generics sm =
     (case temporary_context_type sm of
        None \<Rightarrow> Ok ()
      | Some ty \<Rightarrow>
          if \<not> type_uses_event_generics (event_generics sm) ty then Ok ()
          else (case find (\<lambda>g. \<not> type_uses_generic_param ty g) (value_params (event_generics sm)) of
              None \<Rightarrow> Ok ()
            | Some g \<Rightarrow> Err (''a generic temporary context must use declared parameter `'' @ param_name g @ ''`'')))"

definition mutable_payload :: "event_trigger \<Rightarrow> bool" where
  "mutable_payload e \<longleftrightarrow> (case ev_data_type e of None \<Rightarrow> False | Some ty \<Rightarrow> is_mutable_reference ty)"

definition check_completion_origins :: "state_machine \<Rightarrow> (string, unit) rust_result" where
  "check_completion_origins sm =
     err_if (list_ex (\<lambda>t. ev_kind (st_event t) = Completion \<and>
           (mutable_payload (st_event t) \<or>
            \<not> ev_wildcard (st_event t) \<and>
            list_ex (\<lambda>c. ev_external (st_event c) \<and> ev_ident (st_event c) = ev_ident (st_event t) \<and>
                mutable_payload (st_event c)) (transitions sm)))
         (transitions sm))
       ''Completion origin data cannot be a mutable reference.''"

definition check_generics :: "state_machine \<Rightarrow> (string, unit) rust_result" where
  "check_generics sm =
     try_then (check_queue_generics sm) (\<lambda>_.
     try_then (check_state_data_generics sm) (\<lambda>_.
     try_then (check_event_generics sm) (\<lambda>_.
     try_then (check_unused_generics sm) (\<lambda>_.
     try_then (check_context_generics sm) (\<lambda>_.
     check_completion_origins sm)))))"

section \<open>States and events\<close>

text \<open>The target of an internal row with a named source is its source.\<close>

definition derive_internal :: "state_transition \<Rightarrow> state_transition" where
  "derive_internal t =
     (if out_internal (st_out t) \<and> \<not> in_wildcard (st_in t)
      then t\<lparr>st_out := (st_out t)\<lparr>out_ident := in_ident (st_in t), out_source := in_source (st_in t),
              out_data_type := in_data_type (st_in t), out_internal := False\<rparr>\<rparr>
      else t)"

definition find_starting_state :: "state_transition list \<Rightarrow> (string, string) rust_result" where
  "find_starting_state ts =
     (case filter (\<lambda>t. in_start (st_in t)) ts of
        [] \<Rightarrow> Err ''No starting state defined, indicate the starting state with a *.''
      | [t] \<Rightarrow> Ok (in_ident (st_in t))
      | _ \<Rightarrow> Err ''More than one starting state defined (indicated with *), remove duplicates.'')"

text \<open>What the first loop over the rows collects.\<close>

record collection =
  cl_states :: "(string \<times> string) list"
  cl_state_data :: data_definitions
  cl_events :: "(string \<times> string) list"
  cl_event_data :: data_definitions
  cl_mapping :: transition_map

definition collection_new :: collection where
  "collection_new = \<lparr>cl_states = [], cl_state_data = DataDefinitions_new, cl_events = [],
     cl_event_data = DataDefinitions_new, cl_mapping = []\<rparr>"

definition collect_state :: "string \<Rightarrow> rust_type option \<Rightarrow> collection \<Rightarrow> (string, collection) rust_result" where
  "collect_state s ty c =
     try_then (DataDefinitions_collect s ty (cl_state_data c))
       (\<lambda>d. Ok (c\<lparr>cl_states := AList.update s s (cl_states c), cl_state_data := d\<rparr>))"

definition collect_event :: "event_trigger \<Rightarrow> collection \<Rightarrow> (string, collection) rust_result" where
  "collect_event e c =
     (if ev_wildcard e \<or> ev_kind e \<in> {Entry, Exit, Exception} then Ok c
      else let c' = c\<lparr>cl_events := AList.update (ev_ident e) (ev_ident e) (cl_events c)\<rparr> in
        if ev_kind e \<noteq> Completion \<or> ev_data_type e \<noteq> None
        then try_then (DataDefinitions_collect (ev_ident e) (ev_data_type e) (cl_event_data c'))
          (\<lambda>d. Ok (c'\<lparr>cl_event_data := d\<rparr>))
        else Ok c')"

definition empty_mapping :: "string \<Rightarrow> collection \<Rightarrow> collection" where
  "empty_mapping s c = c\<lparr>cl_mapping := AList.update s [] (cl_mapping c)\<rparr>"

definition collect_row :: "state_transition \<Rightarrow> collection \<Rightarrow> (string, collection) rust_result" where
  "collect_row t c =
     try_then (if in_wildcard (st_in t) then Ok c
               else collect_state (in_ident (st_in t)) (in_data_type (st_in t)) c) (\<lambda>c.
     try_then (if out_internal (st_out t) then Ok c
               else collect_state (out_ident (st_out t)) (out_data_type (st_out t)) c) (\<lambda>c.
     try_then (collect_event (st_event t) c) (\<lambda>c.
       let c' = (if in_wildcard (st_in t) then c else empty_mapping (in_ident (st_in t)) c)
       in Ok (if out_internal (st_out t) then c' else empty_mapping (out_ident (st_out t)) c'))))"

section \<open>The transition map\<close>

definition event_key :: "event_trigger \<Rightarrow> string" where
  "event_key e =
     (case ev_kind e of
        Normal \<Rightarrow> ev_ident e
      | Unexpected \<Rightarrow> if ev_wildcard e then ''unexpected::*'' else ''unexpected::'' @ ev_ident e
      | Completion \<Rightarrow> if ev_wildcard e then ''completion::*'' else ''completion::'' @ ev_ident e
      | Entry \<Rightarrow> ''lifecycle::entry''
      | Exit \<Rightarrow> ''lifecycle::exit''
      | Exception \<Rightarrow> if ev_wildcard e then ''exception::*'' else ''exception::'' @ ev_ident e)"

definition transition_of_row :: "state_transition \<Rightarrow> transition" where
  "transition_of_row t =
     \<lparr>t_guard = st_guard t, t_action = st_action t, t_additional_actions = st_additional_actions t,
      t_process_events = st_process_events t, t_defer = st_defer t, t_eval_actions = st_eval_actions t,
      t_default_output = (out_composite (st_out t) \<noteq> None), t_out_state = out_ident (st_out t),
      t_internal = st_internal t\<rparr>"

definition new_mapping :: "state_transition \<Rightarrow> event_mapping" where
  "new_mapping t =
     \<lparr>m_in_state = in_ident (st_in t), m_event = ev_ident (st_event t), m_event_kind = ev_kind (st_event t),
      m_event_wildcard = ev_wildcard (st_event t), m_event_external = ev_external (st_event t),
      m_transitions = [transition_of_row t]\<rparr>"

definition add_to_mappings :: "state_transition \<Rightarrow> event_mappings \<Rightarrow> event_mappings" where
  "add_to_mappings t ms =
     (let key = event_key (st_event t) in
      case map_of ms key of
        None \<Rightarrow> AList.update key (new_mapping t) ms
      | Some m \<Rightarrow> AList.update key (m\<lparr>m_transitions := m_transitions m @ [transition_of_row t]\<rparr>) ms)"

definition add_transition ::
  "data_definitions \<Rightarrow> state_transition \<Rightarrow> transition_map \<Rightarrow> (string, transition_map) rust_result" where
  "add_transition sd t tm =
     (case map_of tm (in_ident (st_in t)) of
        None \<Rightarrow> Err ''transition source state is missing from the parsed state table''
      | Some ms \<Rightarrow>
          if has_data sd (out_ident (st_out t)) \<and> st_action t = None \<and> out_composite (st_out t) = None
          then Err ''This state has data associated, but not action is define here to provide it.''
          else Ok (AList.update (in_ident (st_in t)) (add_to_mappings t ms) tm))"

text \<open>A wildcard row for one state, and its expansion over all states that lack its key.\<close>

definition wildcard_transition :: "data_definitions \<Rightarrow> state_transition \<Rightarrow> string \<times> string \<Rightarrow> state_transition" where
  "wildcard_transition sd t entry =
     (let ins = \<lparr>in_start = False, in_wildcard = False, in_ident = snd entry,
                 in_source = ''identifier:'' @ snd entry, in_data_type = map_of (data_types sd) (fst entry),
                 in_composite = None, in_history = False\<rparr>
      in t\<lparr>st_in := ins,
           st_out := (if out_internal (st_out t)
             then (st_out t)\<lparr>out_ident := in_ident ins, out_data_type := in_data_type ins\<rparr>
             else st_out t)\<rparr>)"

definition expand_for_state ::
  "data_definitions \<Rightarrow> state_transition \<Rightarrow> string \<times> string \<Rightarrow> transition_map \<times> bool
    \<Rightarrow> (string, transition_map \<times> bool) rust_result" where
  "expand_for_state sd t entry = (\<lambda>(tm, added).
     case map_of tm (snd entry) of
       None \<Rightarrow> Err ''wildcard transition source state is missing from the parsed state table''
     | Some ms \<Rightarrow>
         if map_of ms (event_key (st_event t)) \<noteq> None then Ok (tm, added)
         else try_then (add_transition sd (wildcard_transition sd t entry) tm) (\<lambda>tm'. Ok (tm', True)))"

definition expand_wildcard ::
  "(string \<times> string) list \<Rightarrow> data_definitions \<Rightarrow> state_transition \<Rightarrow> transition_map
    \<Rightarrow> (string, transition_map) rust_result" where
  "expand_wildcard states sd t tm =
     try_then (try_fold (expand_for_state sd t) states (tm, False))
       (\<lambda>(tm', added). if added then Ok tm' else Err ''Wildcard has no effect'')"

definition map_row ::
  "(string \<times> string) list \<Rightarrow> data_definitions \<Rightarrow> state_transition \<Rightarrow> transition_map
    \<Rightarrow> (string, transition_map) rust_result" where
  "map_row states sd t tm =
     (if in_wildcard (st_in t) then expand_wildcard states sd t tm else add_transition sd t tm)"

definition mark_external :: "state_transition list \<Rightarrow> transition_map \<Rightarrow> transition_map" where
  "mark_external ts tm =
     (let external = map (\<lambda>t. ev_ident (st_event t)) (filter (\<lambda>t. ev_external (st_event t)) ts)
      in map (\<lambda>(s, ms). (s, map (\<lambda>(k, m). (k, m\<lparr>m_event_external := m_event m \<in> set external\<rparr>)) ms)) tm)"

section \<open>The parsed machine\<close>

definition ParsedStateMachine_new :: "state_machine \<Rightarrow> (string, parsed_state_machine) rust_result" where
  "ParsedStateMachine_new sm0 =
     try_then (check_generics sm0) (\<lambda>_.
     let sm = sm0\<lparr>transitions := map derive_internal (transitions sm0)\<rparr>; ts = transitions sm in
     try_then (validate_name_collisions sm) (\<lambda>_.
     try_then (find_starting_state ts) (\<lambda>start.
     try_then (try_fold collect_row ts collection_new) (\<lambda>c.
     try_then (try_fold (map_row (cl_states c) (cl_state_data c)) ts (cl_mapping c)) (\<lambda>tm.
       Ok \<lparr>p_name = machine_name sm,
           p_temporary_context_type = temporary_context_type sm,
           p_custom_error = custom_error sm,
           p_states = cl_states c,
           p_starting_state = start,
           p_state_data = cl_state_data c,
           p_events = cl_events c,
           p_event_data = cl_event_data c,
           p_states_events_mapping = mark_external ts tm,
           p_entry_exit_async = entry_exit_async sm,
           p_fixed_error_type = fixed_error_type sm,
           p_event_generics = event_generics sm\<rparr>)))))"

end
