(* ===== verification/Parsed_Table.thy ===== *)
theory Parsed_Table
  imports Parsed_Machine Flat_Runs
begin

text \<open>
  What the parsed machine is: its transition map holds, for every state and trigger, the rows of
  the source table in order (\<open>rows_for\<close>), and it is well-formed (\<open>wf_parsed\<close>), so that a generated
  machine is always in a declared state.
\<close>

section \<open>The map as a function\<close>

definition mapping_at :: "transition_map \<Rightarrow> string \<Rightarrow> string \<Rightarrow> event_mapping option" where
  "mapping_at tm s k = (case map_of tm s of None \<Rightarrow> None | Some ms \<Rightarrow> map_of ms k)"

definition transitions_at :: "transition_map \<Rightarrow> string \<Rightarrow> string \<Rightarrow> transition list" where
  "transitions_at tm s k = (case mapping_at tm s k of None \<Rightarrow> [] | Some m \<Rightarrow> m_transitions m)"

definition append_row :: "state_transition \<Rightarrow> event_mapping option \<Rightarrow> event_mapping" where
  "append_row t m = (case m of None \<Rightarrow> new_mapping t
     | Some m \<Rightarrow> m\<lparr>m_transitions := m_transitions m @ [transition_of_row t]\<rparr>)"

lemma m_transitions_append_row:
  "m_transitions (append_row t m) =
     (case m of None \<Rightarrow> [] | Some m \<Rightarrow> m_transitions m) @ [transition_of_row t]"
  by (simp add: append_row_def new_mapping_def split: option.split)

lemma add_to_mappings_at:
  "map_of (add_to_mappings t ms) =
     (map_of ms)(event_key (st_event t) \<mapsto> append_row t (map_of ms (event_key (st_event t))))"
  by (simp add: add_to_mappings_def append_row_def Let_def update_conv' split: option.split)

text \<open>A row for which the target state has data needs something to provide it.\<close>

definition provides_data :: "data_definitions \<Rightarrow> transition \<Rightarrow> bool" where
  "provides_data sd t \<longleftrightarrow> (has_data sd (t_out_state t) \<longrightarrow> t_action t \<noteq> None \<or> t_default_output t)"

lemma add_transition_Ok:
  assumes "add_transition sd t tm = Ok tm'"
  shows "in_ident (st_in t) \<in> dom (map_of tm)" "dom (map_of tm') = dom (map_of tm)"
    "mapping_at tm' s k = (if s = in_ident (st_in t) \<and> k = event_key (st_event t)
       then Some (append_row t (mapping_at tm s k)) else mapping_at tm s k)"
    "provides_data sd (transition_of_row t)"
  using assms
  by (auto simp: add_transition_def mapping_at_def update_conv' add_to_mappings_at provides_data_def
      transition_of_row_def split: option.splits if_splits)

section \<open>Expanding a wildcard row\<close>

definition wildcard_row :: "data_definitions \<Rightarrow> state_transition \<Rightarrow> string \<Rightarrow> state_transition" where
  "wildcard_row sd t s = wildcard_transition sd t (s, s)"

lemma wildcard_row_simps [simp]:
  "in_ident (st_in (wildcard_row sd t s)) = s" "st_event (wildcard_row sd t s) = st_event t"
  by (simp_all add: wildcard_row_def wildcard_transition_def Let_def)

lemma expand_for_state_Ok:
  assumes "expand_for_state sd t (n, n) (tm, added) = Ok (tm', added')"
  shows "dom (map_of tm') = dom (map_of tm)"
    "mapping_at tm' s k = (if s = n \<and> k = event_key (st_event t) \<and> mapping_at tm s k = None
       then Some (new_mapping (wildcard_row sd t n)) else mapping_at tm s k)"
    "mapping_at tm n (event_key (st_event t)) = None \<Longrightarrow> provides_data sd (transition_of_row (wildcard_row sd t n))"
proof -
  from assms obtain ms where ms: "map_of tm n = Some ms" by (auto simp: expand_for_state_def split: option.splits)
  have "dom (map_of tm') = dom (map_of tm) \<and>
    mapping_at tm' s k = (if s = n \<and> k = event_key (st_event t) \<and> mapping_at tm s k = None
       then Some (new_mapping (wildcard_row sd t n)) else mapping_at tm s k) \<and>
    (mapping_at tm n (event_key (st_event t)) = None \<longrightarrow> provides_data sd (transition_of_row (wildcard_row sd t n)))"
  proof (cases "map_of ms (event_key (st_event t))")
    case None
    with assms ms have "add_transition sd (wildcard_row sd t n) tm = Ok tm'"
      by (auto simp: expand_for_state_def wildcard_row_def try_then_Inr_iff)
    from add_transition_Ok [OF this] None ms show ?thesis
      by (auto simp: append_row_def mapping_at_def split: option.split)
  next
    case (Some m)
    with assms ms show ?thesis by (auto simp: expand_for_state_def mapping_at_def)
  qed
  then show "dom (map_of tm') = dom (map_of tm)"
    "mapping_at tm' s k = (if s = n \<and> k = event_key (st_event t) \<and> mapping_at tm s k = None
       then Some (new_mapping (wildcard_row sd t n)) else mapping_at tm s k)"
    "mapping_at tm n (event_key (st_event t)) = None \<Longrightarrow> provides_data sd (transition_of_row (wildcard_row sd t n))"
    by blast+
qed

text \<open>The states as a list of names, each once.\<close>

definition named :: "string list \<Rightarrow> (string \<times> string) list" where
  "named ns = map (\<lambda>n. (n, n)) ns"

lemma expand_states_Ok:
  assumes "try_fold (expand_for_state sd t) (named ns) (tm, added) = Ok (tm', added')" "distinct ns"
  shows "dom (map_of tm') = dom (map_of tm) \<and>
    mapping_at tm' s k = (if s \<in> set ns \<and> k = event_key (st_event t) \<and> mapping_at tm s k = None
      then Some (new_mapping (wildcard_row sd t s)) else mapping_at tm s k) \<and>
    (s \<in> set ns \<and> mapping_at tm s (event_key (st_event t)) = None \<longrightarrow>
      provides_data sd (transition_of_row (wildcard_row sd t s)))"
  using assms
proof (induction ns arbitrary: tm added)
  case Nil
  then show ?case by (simp add: named_def)
next
  case (Cons n ns)
  from Cons.prems(1) obtain tm1 added1 where
    step: "expand_for_state sd t (n, n) (tm, added) = Ok (tm1, added1)" and
    rest: "try_fold (expand_for_state sd t) (named ns) (tm1, added1) = Ok (tm', added')"
    by (auto simp: named_def try_then_Inr_iff)
  note one = expand_for_state_Ok [OF step]
  have all: "dom (map_of tm') = dom (map_of tm1) \<and>
    mapping_at tm' s k = (if s \<in> set ns \<and> k = event_key (st_event t) \<and> mapping_at tm1 s k = None
      then Some (new_mapping (wildcard_row sd t s)) else mapping_at tm1 s k) \<and>
    (s \<in> set ns \<and> mapping_at tm1 s (event_key (st_event t)) = None \<longrightarrow>
      provides_data sd (transition_of_row (wildcard_row sd t s)))"
    using Cons.IH [OF rest] Cons.prems(2) by simp
  show ?case
    using all one(1) one(2) [of s k] one(2) [of s "event_key (st_event t)"] one(3) Cons.prems(2)
    by (cases "s = n") auto
qed

section \<open>The rows of a state and a trigger\<close>

text \<open>
  The rows that apply in state \<open>s\<close> on the trigger \<open>k\<close>, in table order: the first one, wildcard or not,
  and then only rows that name \<open>s\<close>, since a wildcard row is for states without such a row so far.
\<close>

definition applies :: "string \<Rightarrow> string \<Rightarrow> state_transition \<Rightarrow> bool" where
  "applies s k t \<longleftrightarrow> event_key (st_event t) = k \<and> (in_wildcard (st_in t) \<or> in_ident (st_in t) = s)"

definition rows_for :: "string \<Rightarrow> string \<Rightarrow> state_transition list \<Rightarrow> state_transition list" where
  "rows_for s k ts =
     (case filter (applies s k) ts of
        [] \<Rightarrow> []
      | t # rest \<Rightarrow> t # filter (\<lambda>t. \<not> in_wildcard (st_in t)) rest)"

lemma rows_for_Nil [simp]: "rows_for s k [] = []"
  by (simp add: rows_for_def)

lemma rows_for_empty: "rows_for s k ts = [] \<longleftrightarrow> filter (applies s k) ts = []"
  by (simp add: rows_for_def split: list.split)

lemma rows_for_snoc:
  "rows_for s k (ts @ [t]) =
     (if applies s k t \<and> (in_wildcard (st_in t) \<longrightarrow> rows_for s k ts = []) then rows_for s k ts @ [t]
      else rows_for s k ts)"
  by (auto simp: rows_for_def split: list.split)

text \<open>The transition that a row stands for in state \<open>s\<close>.\<close>

definition row_in :: "string \<Rightarrow> state_transition \<Rightarrow> transition" where
  "row_in s t = (transition_of_row t)\<lparr>t_out_state :=
     if in_wildcard (st_in t) \<and> out_internal (st_out t) then s else out_ident (st_out t)\<rparr>"

lemma transition_of_wildcard_row: "in_wildcard (st_in t) \<Longrightarrow> transition_of_row (wildcard_row sd t s) = row_in s t"
  by (simp add: wildcard_row_def wildcard_transition_def row_in_def transition_of_row_def Let_def)

lemma transition_of_plain_row: "\<not> in_wildcard (st_in t) \<Longrightarrow> transition_of_row t = row_in s t"
  by (simp add: row_in_def transition_of_row_def)

text \<open>The map after the rows \<open>us\<close>, at one state and trigger.\<close>

definition wf_mapping :: "data_definitions \<Rightarrow> state_transition list \<Rightarrow> string \<Rightarrow> string \<Rightarrow> event_mapping \<Rightarrow> bool" where
  "wf_mapping sd us s k m \<longleftrightarrow>
     m_in_state m = s \<and> list_all (provides_data sd) (m_transitions m) \<and>
     (\<exists>t \<in> set us. applies s k t \<and> m_event m = ev_ident (st_event t) \<and> m_event_kind m = ev_kind (st_event t) \<and>
        m_event_wildcard m = ev_wildcard (st_event t))"

definition map_ok :: "data_definitions \<Rightarrow> state_transition list \<Rightarrow> transition_map \<Rightarrow> string \<Rightarrow> string \<Rightarrow> bool" where
  "map_ok sd us tm s k \<longleftrightarrow>
     transitions_at tm s k = map (row_in s) (rows_for s k us) \<and>
     (case mapping_at tm s k of None \<Rightarrow> rows_for s k us = []
      | Some m \<Rightarrow> rows_for s k us \<noteq> [] \<and> wf_mapping sd us s k m)"

lemma wf_mapping_more: "wf_mapping sd us s k m \<Longrightarrow> wf_mapping sd (us @ [t]) s k m"
  by (auto simp: wf_mapping_def)

lemma map_ok_unchanged:
  assumes "map_ok sd us tm s k" "mapping_at tm' s k = mapping_at tm s k"
    "\<not> (applies s k t \<and> (in_wildcard (st_in t) \<longrightarrow> rows_for s k us = []))"
  shows "map_ok sd (us @ [t]) tm' s k"
  using assms by (auto simp: map_ok_def transitions_at_def rows_for_snoc wf_mapping_more split: option.splits)

lemma map_ok_added:
  assumes "map_ok sd us tm s k" "mapping_at tm' s k = Some (append_row r (mapping_at tm s k))"
    "applies s k t" "in_wildcard (st_in t) \<longrightarrow> rows_for s k us = []"
    "in_ident (st_in r) = s" "st_event r = st_event t"
    "transition_of_row r = row_in s t" "provides_data sd (transition_of_row r)"
  shows "map_ok sd (us @ [t]) tm' s k"
proof -
  have "wf_mapping sd (us @ [t]) s k (append_row r (mapping_at tm s k))"
  proof (cases "mapping_at tm s k")
    case None
    with assms(3,5,6,8) show ?thesis
      by (auto simp: wf_mapping_def append_row_def new_mapping_def)
  next
    case (Some m)
    with assms(1) have "wf_mapping sd us s k m" by (simp add: map_ok_def)
    with Some assms(8) show ?thesis by (auto simp: wf_mapping_def append_row_def)
  qed
  with assms show ?thesis
    by (auto simp: map_ok_def transitions_at_def rows_for_snoc m_transitions_append_row split: option.splits)
qed

lemma map_row_Ok:
  assumes "map_row (named ns) sd t tm = Ok tm'" "distinct ns"
  shows "dom (map_of tm') = dom (map_of tm)"
    and "s \<in> set ns \<Longrightarrow> map_ok sd us tm s k \<Longrightarrow> map_ok sd (us @ [t]) tm' s k"
proof -
  have "dom (map_of tm') = dom (map_of tm) \<and>
    (s \<in> set ns \<and> map_ok sd us tm s k \<longrightarrow> map_ok sd (us @ [t]) tm' s k)"
  proof (cases "in_wildcard (st_in t)")
    case True
    with assms(1) obtain added where
      run: "try_fold (expand_for_state sd t) (named ns) (tm, False) = Ok (tm', added)"
      by (auto simp: map_row_def expand_wildcard_def try_then_Inr_iff split: if_splits)
    note all = expand_states_Ok [OF run assms(2), of s k]
    have "map_ok sd (us @ [t]) tm' s k" if s: "s \<in> set ns" and ok: "map_ok sd us tm s k"
    proof (cases "k = event_key (st_event t) \<and> mapping_at tm s k = None")
      case new: True
      with ok have "rows_for s k us = []" by (cases "mapping_at tm s k") (simp_all add: map_ok_def)
      then show ?thesis
        using True new s all
        by (intro map_ok_added [OF ok, of _ "wildcard_row sd t s"])
          (auto simp: append_row_def applies_def transition_of_wildcard_row)
    next
      case False
      with all s have "mapping_at tm' s k = mapping_at tm s k" by auto
      moreover have "rows_for s k us \<noteq> []" if "applies s k t"
        using False that ok by (auto simp: map_ok_def applies_def)
      ultimately show ?thesis
        using True by (intro map_ok_unchanged [OF ok]) auto
    qed
    with all show ?thesis by blast
  next
    case False
    with assms(1) have "add_transition sd t tm = Ok tm'" by (simp add: map_row_def)
    note one = add_transition_Ok [OF this]
    have "map_ok sd (us @ [t]) tm' s k" if ok: "map_ok sd us tm s k"
    proof (cases "applies s k t")
      case True
      with False one(3,4) show ?thesis
        by (intro map_ok_added [OF ok, of _ t]) (auto simp: applies_def transition_of_plain_row [of t s])
    next
      case not: False
      with False one(3) show ?thesis by (intro map_ok_unchanged [OF ok]) (auto simp: applies_def)
    qed
    with one(2) show ?thesis by blast
  qed
  then show "dom (map_of tm') = dom (map_of tm)"
    and "s \<in> set ns \<Longrightarrow> map_ok sd us tm s k \<Longrightarrow> map_ok sd (us @ [t]) tm' s k" by blast+
qed

lemma map_rows_Ok:
  assumes "try_fold (map_row (named ns) sd) ts tm = Ok tm'" "distinct ns"
  shows "dom (map_of tm') = dom (map_of tm)"
    and "s \<in> set ns \<Longrightarrow> map_ok sd us tm s k \<Longrightarrow> map_ok sd (us @ ts) tm' s k"
proof -
  have "dom (map_of tm') = dom (map_of tm) \<and>
    (s \<in> set ns \<and> map_ok sd us tm s k \<longrightarrow> map_ok sd (us @ ts) tm' s k)"
    using assms(1)
  proof (induction ts arbitrary: us tm)
    case (Cons t ts)
    then obtain tm1 where "map_row (named ns) sd t tm = Ok tm1" and
      rest: "try_fold (map_row (named ns) sd) ts tm1 = Ok tm'"
      by (auto simp: try_then_Inr_iff)
    note one = map_row_Ok [OF this(1) assms(2)]
    from Cons.IH [OF rest, of "us @ [t]"] one(1) one(2) [of s us k] show ?case by simp
  qed simp
  then show "dom (map_of tm') = dom (map_of tm)"
    and "s \<in> set ns \<Longrightarrow> map_ok sd us tm s k \<Longrightarrow> map_ok sd (us @ ts) tm' s k" by blast+
qed

section \<open>Distinct keys\<close>

definition keys_ok :: "transition_map \<Rightarrow> bool" where
  "keys_ok tm \<longleftrightarrow> distinct (map fst tm) \<and> (\<forall>s ms. map_of tm s = Some ms \<longrightarrow> distinct (map fst ms))"

lemma add_to_mappings_distinct: "distinct (map fst ms) \<Longrightarrow> distinct (map fst (add_to_mappings t ms))"
  by (simp add: add_to_mappings_def Let_def distinct_update split: option.split)

lemma keys_ok_update:
  "keys_ok tm \<Longrightarrow> distinct (map fst ms) \<Longrightarrow> keys_ok (AList.update s ms tm)"
  by (simp add: keys_ok_def update_conv' distinct_update)

lemma keys_ok_add: "add_transition sd t tm = Ok tm' \<Longrightarrow> keys_ok tm \<Longrightarrow> keys_ok tm'"
  by (auto simp: add_transition_def split: option.splits if_splits
      intro!: keys_ok_update add_to_mappings_distinct) (simp_all add: keys_ok_def)

lemma keys_ok_expand:
  "try_fold (expand_for_state sd t) es (tm, added) = Ok (tm', added') \<Longrightarrow> keys_ok tm \<Longrightarrow> keys_ok tm'"
proof (induction es arbitrary: tm added)
  case (Cons e es)
  then show ?case
    by (auto simp: expand_for_state_def try_then_Inr_iff split: option.splits if_splits)
      (blast dest: keys_ok_add)+
qed simp

lemma keys_ok_rows: "try_fold (map_row ss sd) ts tm = Ok tm' \<Longrightarrow> keys_ok tm \<Longrightarrow> keys_ok tm'"
proof (induction ts arbitrary: tm)
  case (Cons t ts)
  then obtain tm1 where "map_row ss sd t tm = Ok tm1" "try_fold (map_row ss sd) ts tm1 = Ok tm'"
    by (auto simp: try_then_Inr_iff)
  moreover have "keys_ok tm1"
    using calculation(1) Cons.prems(2)
    by (auto simp: map_row_def expand_wildcard_def try_then_Inr_iff split: if_splits
        intro: keys_ok_add keys_ok_expand)
  ultimately show ?case by (blast intro: Cons.IH)
qed simp

section \<open>What the first loop collects\<close>

definition row_states :: "state_transition \<Rightarrow> string set" where
  "row_states t = (if in_wildcard (st_in t) then {} else {in_ident (st_in t)}) \<union>
     (if out_internal (st_out t) then {} else {out_ident (st_out t)})"

text \<open>The payload types that a row writes are the ones of its states.\<close>

definition payload_typed :: "data_definitions \<Rightarrow> state_transition \<Rightarrow> bool" where
  "payload_typed d t \<longleftrightarrow>
     (\<not> in_wildcard (st_in t) \<longrightarrow> in_data_type (st_in t) \<in> {None, map_of (data_types d) (in_ident (st_in t))}) \<and>
     (\<not> out_internal (st_out t) \<longrightarrow> out_data_type (st_out t) \<in> {None, map_of (data_types d) (out_ident (st_out t))})"

definition all_empty :: "(string \<rightharpoonup> event_mappings) \<Rightarrow> bool" where
  "all_empty m \<longleftrightarrow> (\<forall>s ms. m s = Some ms \<longrightarrow> ms = [])"

lemma all_empty_update [simp]: "all_empty m \<Longrightarrow> all_empty (m(s \<mapsto> []))"
  by (simp add: all_empty_def)

definition collected :: "string list \<Rightarrow> collection \<Rightarrow> bool" where
  "collected ns c \<longleftrightarrow> cl_states c = named ns \<and> distinct ns \<and> dom (map_of (cl_mapping c)) = set ns \<and>
     distinct (map fst (cl_mapping c)) \<and> all_empty (map_of (cl_mapping c))"

lemma named_update: "\<exists>ns'. AList.update s s (named ns) = named ns' \<and> set ns' = insert s (set ns) \<and>
    (distinct ns \<longrightarrow> distinct ns')"
proof (induction ns)
  case Nil
  show ?case by (rule exI [of _ "[s]"]) (simp add: named_def)
next
  case (Cons n ns)
  then obtain ns' where "AList.update s s (named ns) = named ns'" "set ns' = insert s (set ns)"
    "distinct ns \<longrightarrow> distinct ns'" by blast
  then show ?case
    by (cases "n = s") (rule exI [of _ "n # ns"], force simp: named_def, rule exI [of _ "n # ns'"], auto simp: named_def)
qed

lemma DataDefinitions_collect_Ok:
  assumes "DataDefinitions_collect key ty d = Ok d'"
  shows "map_of (data_types d) \<subseteq>\<^sub>m map_of (data_types d')" "ty \<in> {None, map_of (data_types d') key}"
  using assms
  by (auto simp: DataDefinitions_collect_def DataDefinitions_add_def try_then_Inr_iff update_conv' map_le_def Let_def
      split: option.splits if_splits)

lemma collect_state_Ok:
  assumes "collect_state s ty c = Ok c'"
  shows "cl_states c' = AList.update s s (cl_states c)" "cl_mapping c' = cl_mapping c"
    "map_of (data_types (cl_state_data c)) \<subseteq>\<^sub>m map_of (data_types (cl_state_data c'))"
    "ty \<in> {None, map_of (data_types (cl_state_data c')) s}"
  using assms by (auto simp: collect_state_def try_then_Inr_iff dest: DataDefinitions_collect_Ok)

lemma collect_event_Ok:
  "collect_event e c = Ok c' \<Longrightarrow>
    cl_states c' = cl_states c \<and> cl_mapping c' = cl_mapping c \<and> cl_state_data c' = cl_state_data c"
  by (auto simp: collect_event_def Let_def try_then_Inr_iff split: if_splits)

lemma empty_mapping_simps [simp]:
  "cl_states (empty_mapping s c) = cl_states c" "cl_state_data (empty_mapping s c) = cl_state_data c"
  "cl_mapping (empty_mapping s c) = AList.update s [] (cl_mapping c)"
  by (simp_all add: empty_mapping_def)

lemma map_le_some: "f \<subseteq>\<^sub>m g \<Longrightarrow> ty \<in> {None, f x} \<Longrightarrow> ty \<in> {None, g x}"
  by (auto simp: map_le_def dom_def)

lemma payload_typed_mono: "map_of (data_types d) \<subseteq>\<^sub>m map_of (data_types d') \<Longrightarrow> payload_typed d t \<Longrightarrow> payload_typed d' t"
  using map_le_some [of "map_of (data_types d)" "map_of (data_types d')"] unfolding payload_typed_def by blast

text \<open>One row: the state on each side is recorded, then the two mappings are emptied.\<close>

definition state_recorded :: "bool \<Rightarrow> string \<Rightarrow> rust_type option \<Rightarrow> collection \<Rightarrow> (string, collection) rust_result" where
  "state_recorded b s ty c = (if b then Ok c else collect_state s ty c)"

lemma state_recorded_Ok:
  assumes "state_recorded b s ty c = Ok c'" "cl_states c = named ns" "distinct ns"
  shows "cl_mapping c' = cl_mapping c"
    "map_of (data_types (cl_state_data c)) \<subseteq>\<^sub>m map_of (data_types (cl_state_data c'))"
    "b \<or> ty \<in> {None, map_of (data_types (cl_state_data c')) s}"
    "\<exists>ns'. cl_states c' = named ns' \<and> distinct ns' \<and> set ns' = set ns \<union> (if b then {} else {s})"
proof -
  have "cl_mapping c' = cl_mapping c \<and>
    map_of (data_types (cl_state_data c)) \<subseteq>\<^sub>m map_of (data_types (cl_state_data c')) \<and>
    (b \<or> ty \<in> {None, map_of (data_types (cl_state_data c')) s}) \<and>
    (\<exists>ns'. cl_states c' = named ns' \<and> distinct ns' \<and> set ns' = set ns \<union> (if b then {} else {s}))"
  proof (cases b)
    case True
    with assms show ?thesis by (auto simp: state_recorded_def)
  next
    case False
    with assms(1) have "collect_state s ty c = Ok c'" by (simp add: state_recorded_def)
    note one = collect_state_Ok [OF this]
    from named_update [of s ns] obtain ns' where "AList.update s s (named ns) = named ns'"
      "set ns' = insert s (set ns)" "distinct ns \<longrightarrow> distinct ns'" by blast
    with False one assms(2,3) show ?thesis by auto
  qed
  then show "cl_mapping c' = cl_mapping c"
    "map_of (data_types (cl_state_data c)) \<subseteq>\<^sub>m map_of (data_types (cl_state_data c'))"
    "b \<or> ty \<in> {None, map_of (data_types (cl_state_data c')) s}"
    "\<exists>ns'. cl_states c' = named ns' \<and> distinct ns' \<and> set ns' = set ns \<union> (if b then {} else {s})"
    by blast+
qed

lemma collect_row_Ok:
  assumes "collect_row t c = Ok c'" "collected ns c"
  obtains ns' where "collected ns' c'" "set ns' = set ns \<union> row_states t"
    "map_of (data_types (cl_state_data c)) \<subseteq>\<^sub>m map_of (data_types (cl_state_data c'))"
    "payload_typed (cl_state_data c') t"
proof -
  let ?w = "in_wildcard (st_in t)" and ?i = "out_internal (st_out t)"
  let ?a = "in_ident (st_in t)" and ?b = "out_ident (st_out t)"
  from assms(1) obtain c1 c2 c3 where
    c1: "state_recorded ?w ?a (in_data_type (st_in t)) c = Ok c1" and
    c2: "state_recorded ?i ?b (out_data_type (st_out t)) c1 = Ok c2" and
    c3: "collect_event (st_event t) c2 = Ok c3" and
    c': "c' = (let c' = (if ?w then c3 else empty_mapping ?a c3) in if ?i then c' else empty_mapping ?b c')"
    by (auto simp: collect_row_def state_recorded_def try_then_Inr_iff Let_def)
  from assms(2) have old: "cl_states c = named ns" "distinct ns" by (simp_all add: collected_def)
  note s1 = state_recorded_Ok [OF c1 old]
  from s1(4) obtain ns1 where ns1: "cl_states c1 = named ns1" "distinct ns1" "set ns1 = set ns \<union> (if ?w then {} else {?a})"
    by blast
  note s2 = state_recorded_Ok [OF c2 ns1(1,2)]
  from s2(4) obtain ns2 where ns2: "cl_states c2 = named ns2" "distinct ns2" "set ns2 = set ns1 \<union> (if ?i then {} else {?b})"
    by blast
  note s3 = collect_event_Ok [OF c3]
  have states: "cl_states c' = named ns2" "cl_state_data c' = cl_state_data c2"
    using c' s3 ns2(1) by (simp_all add: Let_def)
  have set2: "set ns2 = set ns \<union> row_states t" using ns1(3) ns2(3) by (auto simp: row_states_def)
  have data: "map_of (data_types (cl_state_data c)) \<subseteq>\<^sub>m map_of (data_types (cl_state_data c'))"
    using map_le_trans [OF s1(2) s2(2)] states(2) by simp
  moreover have "payload_typed (cl_state_data c') t"
    using s1(3) s2(2,3) states(2) by (auto simp: payload_typed_def dest: map_le_some)
  moreover have "collected ns2 c'"
    using assms(2) s1(1) s2(1) s3 ns2(2) set2 states(1) c'
    by (auto simp: collected_def row_states_def Let_def update_conv' distinct_update split: if_splits)
  ultimately show thesis using set2 that by blast
qed

lemma collect_rows_Ok:
  assumes "try_fold collect_row ts c = Ok c'" "collected ns c"
  obtains ns' where "collected ns' c'" "set ns' = set ns \<union> \<Union> (row_states ` set ts)"
    "map_of (data_types (cl_state_data c)) \<subseteq>\<^sub>m map_of (data_types (cl_state_data c'))"
    "list_all (payload_typed (cl_state_data c')) ts"
  using assms
proof (induction ts arbitrary: c ns thesis)
  case Nil
  then show ?case by auto
next
  case (Cons t ts)
  from Cons.prems(2) obtain c1 where c1: "collect_row t c = Ok c1" and rest: "try_fold collect_row ts c1 = Ok c'"
    by (auto simp: try_then_Inr_iff)
  from collect_row_Ok [OF c1 Cons.prems(3)] obtain ns1 where
    ns1: "collected ns1 c1" "set ns1 = set ns \<union> row_states t"
      "map_of (data_types (cl_state_data c)) \<subseteq>\<^sub>m map_of (data_types (cl_state_data c1))"
      "payload_typed (cl_state_data c1) t" .
  obtain ns' where ns': "collected ns' c'" "set ns' = set ns1 \<union> \<Union> (row_states ` set ts)"
      "map_of (data_types (cl_state_data c1)) \<subseteq>\<^sub>m map_of (data_types (cl_state_data c'))"
      "list_all (payload_typed (cl_state_data c')) ts"
    by (rule Cons.IH [OF _ rest ns1(1)])
  show ?case
  proof (rule Cons.prems(1) [OF ns'(1)])
    show "set ns' = set ns \<union> \<Union> (row_states ` set (t # ts))" using ns'(2) ns1(2) by auto
    show "map_of (data_types (cl_state_data c)) \<subseteq>\<^sub>m map_of (data_types (cl_state_data c'))"
      by (rule map_le_trans [OF ns1(3) ns'(3)])
    show "list_all (payload_typed (cl_state_data c')) (t # ts)"
      using payload_typed_mono [OF ns'(3) ns1(4)] ns'(4) by simp
  qed
qed

lemma collected_new: "collected [] collection_new"
  by (simp add: collected_def collection_new_def named_def all_empty_def)

end
