(* ===== verification/Parsed_Correctness.thy ===== *)
theory Parsed_Correctness
  imports Parsed_Table Flat_Props Flat_Examples
begin

text \<open>
  The properties of \<open>ParsedStateMachine_new\<close>: the transition map is the source table read row by row,
  the parsed machine is well-formed, and the machine generated from it stays in declared states.
\<close>

section \<open>Taking the construction apart\<close>

abbreviation derived_rows :: "state_machine \<Rightarrow> state_transition list" where
  "derived_rows sm \<equiv> map derive_internal (transitions sm)"

definition declared :: "parsed_state_machine \<Rightarrow> string set" where
  "declared p = set (map fst (p_states p))"

definition set_external :: "state_transition list \<Rightarrow> event_mapping \<Rightarrow> event_mapping" where
  "set_external ts m = m\<lparr>m_event_external :=
     m_event m \<in> set (map (\<lambda>t. ev_ident (st_event t)) (filter (\<lambda>t. ev_external (st_event t)) ts))\<rparr>"

lemma set_external_simps [simp]:
  "m_transitions (set_external ts m) = m_transitions m" "m_in_state (set_external ts m) = m_in_state m"
  "m_event (set_external ts m) = m_event m" "m_event_kind (set_external ts m) = m_event_kind m"
  "m_event_wildcard (set_external ts m) = m_event_wildcard m"
  by (simp_all add: set_external_def)

lemma mark_external_eq:
  "mark_external ts tm = map (\<lambda>(s, ms). (s, map (\<lambda>(k, m). (k, set_external ts m)) ms)) tm"
  by (simp add: mark_external_def set_external_def Let_def)

lemma map_of_values: "map_of (map (\<lambda>(k, v). (k, f v)) al) k = map_option f (map_of al k)"
  by (induction al) auto

lemma mapping_at_mark_external:
  "mapping_at (mark_external ts tm) s k = map_option (set_external ts) (mapping_at tm s k)"
  by (simp add: mark_external_eq mapping_at_def map_of_values split: option.split)

lemma map_fst_values [simp]: "map (fst \<circ> (\<lambda>(k, v). (k, f v))) al = map fst al"
  by auto

lemma keys_ok_mark_external: "keys_ok tm \<Longrightarrow> keys_ok (mark_external ts tm)"
  unfolding keys_ok_def mark_external_eq map_of_values map_map map_fst_values by (auto simp: map_of_values)

lemma dom_mark_external: "dom (map_of (mark_external ts tm)) = dom (map_of tm)"
  by (auto simp: mark_external_eq map_of_values dom_def)

lemma find_starting_state_Ok:
  "find_starting_state ts = Ok s \<Longrightarrow> \<exists>t \<in> set ts. in_start (st_in t) \<and> in_ident (st_in t) = s"
  by (auto simp: find_starting_state_def split: list.splits) (metis filter_eq_ConsD in_set_conv_decomp)

lemma collected_empty: "collected ns c \<Longrightarrow> map_of (cl_mapping c) s = Some ms \<Longrightarrow> ms = []"
  by (simp only: collected_def all_empty_def)

lemma map_ok_initial:
  assumes "collected ns c"
  shows "map_ok sd [] (cl_mapping c) s k"
proof -
  have "mapping_at (cl_mapping c) s k = None"
    using collected_empty [OF assms, of s] by (cases "map_of (cl_mapping c) s") (simp_all add: mapping_at_def)
  then show ?thesis by (simp add: map_ok_def transitions_at_def)
qed

lemma keys_ok_initial:
  assumes "collected ns c"
  shows "keys_ok (cl_mapping c)"
  unfolding keys_ok_def
proof (intro conjI allI impI)
  show "distinct (map fst (cl_mapping c))" using assms by (simp add: collected_def)
  show "distinct (map fst ms)" if "map_of (cl_mapping c) s = Some ms" for s ms
    using collected_empty [OF assms that] by simp
qed

lemma parsed_parts:
  assumes "ParsedStateMachine_new sm = Ok p"
  obtains tm where
    "declared p = \<Union> (row_states ` set (derived_rows sm))"
    "p_states p = named (map fst (p_states p))" "distinct (map fst (p_states p))"
    "\<exists>t \<in> set (derived_rows sm). in_start (st_in t) \<and> in_ident (st_in t) = p_starting_state p"
    "list_all (payload_typed (p_state_data p)) (derived_rows sm)"
    "p_states_events_mapping p = mark_external (derived_rows sm) tm"
    "dom (map_of tm) = declared p" "keys_ok tm"
    "\<And>s k. s \<in> declared p \<Longrightarrow> map_ok (p_state_data p) (derived_rows sm) tm s k"
proof -
  let ?ts = "derived_rows sm"
  from assms obtain start c tm where
    start: "find_starting_state ?ts = Ok start" and
    c: "try_fold collect_row ?ts collection_new = Ok c" and
    tm: "try_fold (map_row (cl_states c) (cl_state_data c)) ?ts (cl_mapping c) = Ok tm" and
    p: "p_states p = cl_states c" "p_state_data p = cl_state_data c" "p_starting_state p = start"
      "p_states_events_mapping p = mark_external ?ts tm"
    unfolding ParsedStateMachine_new_def Let_def by (auto simp: try_then_Inr_iff)
  obtain ns where
    ns: "collected ns c" "set ns = set [] \<union> \<Union> (row_states ` set ?ts)" "list_all (payload_typed (cl_state_data c)) ?ts"
    by (rule collect_rows_Ok [OF c collected_new])
  have states: "cl_states c = named ns" "distinct ns" using ns(1) by (simp_all add: collected_def)
  have fsts: "map fst (p_states p) = ns" using p(1) states(1) by (simp add: named_def comp_def)
  have run: "try_fold (map_row (named ns) (cl_state_data c)) ?ts (cl_mapping c) = Ok tm"
    using tm states(1) by simp
  have decl: "declared p = set ns" unfolding declared_def fsts ..
  show thesis
  proof (rule that)
    show "declared p = \<Union> (row_states ` set ?ts)" using decl ns(2) by simp
    show "p_states p = named (map fst (p_states p))" using fsts p(1) states(1) by simp
    show "distinct (map fst (p_states p))" using fsts states(2) by simp
    show "\<exists>t \<in> set ?ts. in_start (st_in t) \<and> in_ident (st_in t) = p_starting_state p"
      using find_starting_state_Ok [OF start] p(3) by simp
    show "list_all (payload_typed (p_state_data p)) ?ts" using ns(3) p(2) by simp
    show "p_states_events_mapping p = mark_external ?ts tm" by (rule p(4))
    show "dom (map_of tm) = declared p"
      using map_rows_Ok(1) [OF run states(2)] ns(1) decl by (simp add: collected_def)
    show "keys_ok tm" by (rule keys_ok_rows [OF tm keys_ok_initial [OF ns(1)]])
    show "map_ok (p_state_data p) ?ts tm s k" if "s \<in> declared p" for s k
      using map_rows_Ok(2) [OF run states(2), of s "[]" k] map_ok_initial [OF ns(1)] that decl p(2) by simp
  qed
qed

section \<open>The table row by row\<close>

text \<open>
  C20. The parsed machine has, for every declared state and every trigger, exactly the rows of the
  source table that apply there, in source order: the first row that names the state or the
  wildcard, then only rows that name the state. A wildcard row whose internal target is left open
  targets the state itself.
\<close>

theorem parsed_table_rows:
  assumes "ParsedStateMachine_new sm = Ok p" "s \<in> declared p"
  shows "transitions_at (p_states_events_mapping p) s k =
    map (row_in s) (rows_for s k (map derive_internal (transitions sm)))"
proof -
  from parsed_parts [OF assms(1)] obtain tm where
    "p_states_events_mapping p = mark_external (derived_rows sm) tm"
    "map_ok (p_state_data p) (derived_rows sm) tm s k" using assms(2) by metis
  then show ?thesis
    by (auto simp: map_ok_def transitions_at_def mapping_at_mark_external split: option.splits)
qed

section \<open>Well-formed parsed machines\<close>

definition mapping_key :: "event_mapping \<Rightarrow> string" where
  "mapping_key m = event_key \<lparr>ev_ident = m_event m, ev_source = [], ev_data_type = None,
     ev_kind = m_event_kind m, ev_wildcard = m_event_wildcard m, ev_external = m_event_external m\<rparr>"

definition wf_transition :: "parsed_state_machine \<Rightarrow> transition \<Rightarrow> bool" where
  "wf_transition p t \<longleftrightarrow> t_out_state t \<in> declared p \<and> provides_data (p_state_data p) t"

definition wf_mappings :: "parsed_state_machine \<Rightarrow> string \<Rightarrow> event_mappings \<Rightarrow> bool" where
  "wf_mappings p s ms \<longleftrightarrow> distinct (map fst ms) \<and>
     list_all (\<lambda>(k, m). m_in_state m = s \<and> mapping_key m = k \<and> m_transitions m \<noteq> [] \<and>
       list_all (wf_transition p) (m_transitions m)) ms"

definition wf_parsed :: "parsed_state_machine \<Rightarrow> bool" where
  "wf_parsed p \<longleftrightarrow>
     p_states p = named (map fst (p_states p)) \<and> distinct (map fst (p_states p)) \<and>
     p_starting_state p \<in> declared p \<and>
     distinct (map fst (p_states_events_mapping p)) \<and>
     set (map fst (p_states_events_mapping p)) = declared p \<and>
     list_all (\<lambda>(s, ms). wf_mappings p s ms) (p_states_events_mapping p)"

lemma event_key_eq:
  "ev_ident e = i \<Longrightarrow> ev_kind e = kd \<Longrightarrow> ev_wildcard e = w \<Longrightarrow>
    event_key e = event_key \<lparr>ev_ident = i, ev_source = x, ev_data_type = y, ev_kind = kd, ev_wildcard = w,
      ev_external = z\<rparr>"
  by (simp add: event_key_def split: event_kind.split)

lemma rows_for_subset: "t \<in> set (rows_for s k ts) \<Longrightarrow> t \<in> set ts \<and> applies s k t"
  by (cases "filter (applies s k) ts") (auto simp: rows_for_def Cons_eq_filter_iff [symmetric] dest: filter_eq_ConsD)

lemma derive_internal_in [simp]: "st_in (derive_internal t) = st_in t"
  by (simp add: derive_internal_def)

lemma derive_internal_out: "out_internal (st_out (derive_internal t)) \<Longrightarrow> in_wildcard (st_in t)"
  by (auto simp: derive_internal_def split: if_splits)

lemma row_in_declared:
  assumes "t \<in> set (derived_rows sm)" "declared p = \<Union> (row_states ` set (derived_rows sm))" "s \<in> declared p"
  shows "t_out_state (row_in s t) \<in> declared p"
proof (cases "in_wildcard (st_in t) \<and> out_internal (st_out t)")
  case False
  with assms(1) have "\<not> out_internal (st_out t)" using derive_internal_out by auto
  then have "out_ident (st_out t) \<in> row_states t" by (simp add: row_states_def)
  with False assms(1,2) show ?thesis by (auto simp: row_in_def)
qed (use assms(3) in \<open>simp add: row_in_def\<close>)

lemma parsed_wf_mappings:
  assumes "ParsedStateMachine_new sm = Ok p" "map_of (p_states_events_mapping p) s = Some ms"
  shows "wf_mappings p s ms"
proof -
  let ?ts = "derived_rows sm"
  from parsed_parts [OF assms(1)] obtain tm where
    decl: "declared p = \<Union> (row_states ` set ?ts)" and
    tm: "p_states_events_mapping p = mark_external ?ts tm" "dom (map_of tm) = declared p" "keys_ok tm" and
    ok: "\<And>s k. s \<in> declared p \<Longrightarrow> map_ok (p_state_data p) ?ts tm s k" by metis
  have s: "s \<in> declared p" using assms(2) tm(1,2) dom_mark_external by (metis domI)
  have dist: "distinct (map fst ms)"
    using keys_ok_mark_external [OF tm(3)] assms(2) tm(1) by (simp add: keys_ok_def)
  have "m_in_state m = s \<and> mapping_key m = k \<and> m_transitions m \<noteq> [] \<and> list_all (wf_transition p) (m_transitions m)"
    if "(k, m) \<in> set ms" for k m
  proof -
    from that dist have "mapping_at (p_states_events_mapping p) s k = Some m"
      using assms(2) by (simp add: mapping_at_def)
    then obtain m0 where m0: "mapping_at tm s k = Some m0" "m = set_external ?ts m0"
      unfolding tm(1) mapping_at_mark_external by auto
    with ok [OF s, of k] have rows: "m_transitions m0 = map (row_in s) (rows_for s k ?ts)" "rows_for s k ?ts \<noteq> []"
      and wf: "wf_mapping (p_state_data p) ?ts s k m0"
      by (simp_all add: map_ok_def transitions_at_def)
    from wf obtain t where "applies s k t" "m_event m0 = ev_ident (st_event t)"
      "m_event_kind m0 = ev_kind (st_event t)" "m_event_wildcard m0 = ev_wildcard (st_event t)"
      and prov: "list_all (provides_data (p_state_data p)) (m_transitions m0)" and "m_in_state m0 = s"
      by (auto simp: wf_mapping_def)
    moreover from this have "mapping_key m = k"
      unfolding mapping_key_def m0(2) applies_def by (metis event_key_eq set_external_simps(3-5))
    moreover have "list_all (wf_transition p) (m_transitions m0)"
      using prov row_in_declared [OF _ decl s] rows(1)
      by (auto simp: list_all_iff wf_transition_def dest: rows_for_subset)
    ultimately show ?thesis using rows m0(2) by simp
  qed
  with dist show ?thesis by (auto simp: wf_mappings_def list_all_iff)
qed

lemma parsed_wf:
  assumes "ParsedStateMachine_new sm = Ok p" "list_all (\<lambda>t. in_start (st_in t) \<longrightarrow> \<not> in_wildcard (st_in t)) (transitions sm)"
  shows "wf_parsed p"
proof -
  let ?ts = "derived_rows sm"
  from parsed_parts [OF assms(1)] obtain tm where
    decl: "declared p = \<Union> (row_states ` set ?ts)" and
    names: "p_states p = named (map fst (p_states p))" "distinct (map fst (p_states p))" and
    start: "\<exists>t \<in> set ?ts. in_start (st_in t) \<and> in_ident (st_in t) = p_starting_state p" and
    tm: "p_states_events_mapping p = mark_external ?ts tm" "dom (map_of tm) = declared p" "keys_ok tm" by metis
  from start assms(2) have "p_starting_state p \<in> declared p"
    unfolding decl by (force simp: list_all_iff row_states_def)
  moreover have keys: "distinct (map fst (p_states_events_mapping p))"
    using keys_ok_mark_external [OF tm(3)] tm(1) by (simp add: keys_ok_def)
  moreover have "set (map fst (p_states_events_mapping p)) = declared p"
    using tm(1,2) dom_mark_external [of ?ts tm] by (simp add: dom_map_of_conv_image_fst)
  moreover have "list_all (\<lambda>(s, ms). wf_mappings p s ms) (p_states_events_mapping p)"
    using parsed_wf_mappings [OF assms(1)] keys by (auto simp: list_all_iff)
  ultimately show ?thesis using names by (simp add: wf_parsed_def)
qed

text \<open>
  C21. A parsed machine is well-formed, provided that the starting row names a state: states are
  listed once under their names, every declared state has its own mappings, each under the key of
  its trigger and never empty; every transition targets a declared state and, where that state has
  data, has an action or a default to provide it; and the payload type that a row writes for a
  state is the one the machine uses.
\<close>

theorem parsed_machine_wf:
  assumes "ParsedStateMachine_new sm = Ok p"
    and "list_all (\<lambda>t. in_start (st_in t) \<longrightarrow> \<not> in_wildcard (st_in t)) (transitions sm)"
  shows "wf_parsed p \<and> list_all (payload_typed (p_state_data p)) (map derive_internal (transitions sm))"
  using parsed_wf [OF assms] parsed_parts [OF assms(1)] by metis

section \<open>Generated machines stay in declared states\<close>

definition state_in :: "string set \<Rightarrow> ('c, 'v, 'q) core \<Rightarrow> bool" where
  "state_in D k \<longleftrightarrow> variant (state k) \<in> D"

lemma state_in_callbacks: "callbacks_keep (state_in D)"
  unfolding callbacks_keep_def state_in_def by auto

lemma state_in_change:
  assumes "cd_out_state cd \<in> D"
  shows "change_keeps (state_in D) env code cd"
proof -
  let ?P = "state_in D"
  note keep = state_in_callbacks [of D]
  have hooks: "preserves ?P (call_exit_hook env s)" "preserves ?P (call_entry_hook env s)" for s
    by (auto simp: call_exit_hook_def call_entry_hook_def state_in_def intro!: preserves_update)
  have exit: "preserves ?P (exit_state env code s)" for s
    unfolding exit_state_def
    by (intro preserves_with_core triple_if preserves_then_do run_lifecycle_keeps [OF keep] hooks preserves_update)
      (simp add: state_in_def)
  have enter: "preserves ?P (enter_state env code s)" for s
    unfolding enter_state_def by (intro preserves_then_do run_lifecycle_keeps [OF keep] hooks)
  have replace: "preserves ?P (replace_state (cd_in_state cd) (Variant (cd_out_state cd) data))" for data
    using assms unfolding replace_state_def by (intro preserves_update) (auto simp: state_in_def)
  have skip: "preserves ?P (update (\<lambda>k. k\<lparr>exit_skip := True\<rparr>))"
    by (intro preserves_update) (simp add: state_in_def)
  have all: "preserves ?P (change_state env code cd (run_actions env (cd_event cd) sd ed td steps None))" for sd ed td steps
    unfolding change_state_def Let_def
    by (intro preserves_then_do preserves_bind exit enter replace skip run_actions_keeps [OF keep])
  show ?thesis
    unfolding change_keeps_def by (intro allI, rule triple_pre [OF _ all]) simp
qed

lemma state_in_invariant:
  assumes "generate_code p = Inr code" "wf_parsed p"
  shows "run_invariant (state_in (declared p)) env code"
  unfolding run_invariant_def
proof (intro conjI ballI impI)
  fix cd assume cd: "cd \<in> code_candidates code" "\<not> cd_internal cd"
  from code_candidates_rows [OF assms(1) this(1)] obtain s ms m t i where
    row: "(s, ms) \<in> set (p_states_events_mapping p)" "m \<in> snd ` set ms" "t \<in> set (m_transitions m)"
    and gen: "generate_candidate p s m i t = Inr cd" .
  have "t_out_state t \<in> declared p"
    using assms(2) row by (fastforce simp: wf_parsed_def wf_mappings_def wf_transition_def list_all_iff)
  then show "change_keeps (state_in (declared p)) env code cd"
    by (intro state_in_change) (simp add: generate_candidate_fields [OF gen])
qed (rule state_in_callbacks, rule generated_in_place [OF assms(1)])

lemma initial_state_in:
  assumes "run_invariant (state_in D) env code" "fc_starting_state code \<in> D"
    and "initialize_unlocked n env code (new_core env code ctx data) = Some (k, r)"
  shows "state_in D k"
proof -
  note keep = state_in_callbacks [of D]
  have hook: "preserves (state_in D) (call_entry_hook env s)" for s
    by (auto simp: call_entry_hook_def state_in_def intro!: preserves_update)
  have "preserves (state_in D) (with_core (\<lambda>k. enter_state env code (variant (state k))))"
    unfolding enter_state_def
    by (intro preserves_with_core preserves_then_do run_lifecycle_keeps [OF keep] hook)
  from initialize_keeps [OF assms(1) this]
  have "preserves (state_in D) (initialize_unlocked n env code)" by simp
  moreover have "state_in D (new_core env code ctx data)"
    using assms(2) by (simp add: new_core_def state_in_def)
  ultimately show ?thesis using assms(3) by (blast dest: preservesD)
qed

lemma reachable_state_in:
  assumes "reachable env code k" "run_invariant (state_in D) env code" "fc_starting_state code \<in> D"
  shows "state_in D k"
  using assms(1)
proof induction
  case (initialized n ctx data k r)
  then show ?case by (rule initial_state_in [OF assms(2,3)])
next
  case (processed k n e k' r)
  then show ?case using preservesD [OF process_event_keeps [OF assms(2)]] by blast
qed

lemma generated_starting_state: "generate_code p = Inr code \<Longrightarrow> fc_starting_state code = p_starting_state p"
  by (auto simp: generate_code_def Let_def try_then_Inr_iff split: if_splits)

lemma parsed_reachable_state_in:
  assumes "ParsedStateMachine_new sm = Ok p"
    and "list_all (\<lambda>t. in_start (st_in t) \<longrightarrow> \<not> in_wildcard (st_in t)) (transitions sm)"
    and "generate_code p = Ok code" "reachable env code k"
  shows "wf_parsed p" "state_in (declared p) k"
proof -
  show wf: "wf_parsed p" by (rule parsed_wf [OF assms(1,2)])
  show "state_in (declared p) k"
    by (rule reachable_state_in [OF assms(4) state_in_invariant [OF assms(3) wf]])
      (use wf generated_starting_state [OF assms(3)] in \<open>simp add: wf_parsed_def\<close>)
qed

text \<open>
  C22. From the source table to the running machine: when a table whose starting row names a state
  is parsed and compiled, then in every history of the machine, failed and nested events included,
  the current state is a declared state of the table and has its mappings.
\<close>

theorem reachable_state_declared:
  assumes "ParsedStateMachine_new sm = Ok p"
    and "list_all (\<lambda>t. in_start (st_in t) \<longrightarrow> \<not> in_wildcard (st_in t)) (transitions sm)"
    and "generate_code p = Ok code" "reachable env code k"
  shows "variant (state k) \<in> declared p \<and> map_of (p_states_events_mapping p) (variant (state k)) \<noteq> None"
proof -
  note inside = parsed_reachable_state_in [OF assms]
  have "set (map fst (p_states_events_mapping p)) = declared p" using inside(1) by (simp add: wf_parsed_def)
  with inside(2) show ?thesis by (simp add: state_in_def map_of_eq_None_iff)
qed

section \<open>A table with a wildcard row\<close>

abbreviation from_state :: "bool \<Rightarrow> string \<Rightarrow> input_state" where
  "from_state start s \<equiv> \<lparr>in_start = start, in_wildcard = s = ''_'', in_ident = s, in_source = s,
     in_data_type = None, in_composite = None, in_history = False\<rparr>"

abbreviation on_event :: "string \<Rightarrow> event_trigger" where
  "on_event e \<equiv> \<lparr>ev_ident = e, ev_source = e, ev_data_type = None, ev_kind = Normal, ev_wildcard = False,
     ev_external = False\<rparr>"

abbreviation to_state :: "string \<Rightarrow> output_state" where
  "to_state s \<equiv> \<lparr>out_ident = s, out_source = s, out_internal = False, out_data_type = None, out_composite = None\<rparr>"

abbreviation table_row :: "bool \<Rightarrow> string \<Rightarrow> string \<Rightarrow> string option \<Rightarrow> string \<Rightarrow> state_transition" where
  "table_row start s e a t \<equiv> \<lparr>st_in = from_state start s, st_event = on_event e, st_guard = None,
     st_action = map_option sync_id a, st_additional_actions = [], st_process_events = [], st_defer = False,
     st_eval_actions = [], st_out = to_state t, st_internal = False\<rparr>"

text \<open>\<open>*Off + Toggle = On, On + Reset / beep = On, _ + Reset = Off, On + Reset = Off\<close>\<close>

definition lamp :: state_machine where
  "lamp = StateMachine_new\<lparr>transitions :=
     [table_row True ''Off'' ''Toggle'' None ''On'', table_row False ''On'' ''Reset'' (Some ''beep'') ''On'',
      table_row False ''_'' ''Reset'' None ''Off'', table_row False ''On'' ''Reset'' None ''Off'']\<rparr>"

definition lamp_parsed :: parsed_state_machine where
  "lamp_parsed = (case ParsedStateMachine_new lamp of Inr p \<Rightarrow> p | Inl _ \<Rightarrow> door)"

lemma lamp_parses: "ParsedStateMachine_new lamp = Ok lamp_parsed"
  by code_simp

lemma lamp_start: "list_all (\<lambda>t. in_start (st_in t) \<longrightarrow> \<not> in_wildcard (st_in t)) (transitions lamp)"
  by code_simp

theorem parsed_table_rows_witness:
  "map t_out_state (transitions_at (p_states_events_mapping lamp_parsed) ''Off'' ''Reset'') = [''Off''] \<and>
   map t_action (transitions_at (p_states_events_mapping lamp_parsed) ''On'' ''Reset'') = [Some (sync_id ''beep''), None]"
proof -
  have "''Off'' \<in> declared lamp_parsed" "''On'' \<in> declared lamp_parsed" unfolding declared_def by code_simp+
  note rows = this [THEN parsed_table_rows [OF lamp_parses], of "''Reset''"]
  show ?thesis unfolding rows by code_simp
qed

theorem parsed_machine_wf_witness: "wf_parsed lamp_parsed \<and> p_starting_state lamp_parsed = ''Off''"
proof
  show "wf_parsed lamp_parsed" using parsed_machine_wf [OF lamp_parses lamp_start] by blast
  show "p_starting_state lamp_parsed = ''Off''" by code_simp
qed

theorem reachable_state_declared_witness:
  "\<exists>k. reachable test_env (code_of lamp_parsed) k \<and> variant (state k) = ''On'' \<and> ''On'' \<in> declared lamp_parsed"
proof -
  let ?init = "initialize_unlocked 3 test_env (code_of lamp_parsed) (new_core test_env (code_of lamp_parsed) 0 None)"
  let ?toggle = "process_event_unlocked 3 test_env (code_of lamp_parsed) (plain_event ''Toggle'') (fst (the ?init))"
  let ?k = "fst (the ?toggle)"
  have code: "generate_code lamp_parsed = Ok (code_of lamp_parsed)" by code_simp
  have runs: "?init = Some (fst (the ?init), snd (the ?init))" "?toggle = Some (?k, snd (the ?toggle))" by code_simp+
  have reach: "reachable test_env (code_of lamp_parsed) ?k"
    by (rule reachable.processed [OF reachable.initialized [OF runs(1)] runs(2)])
  have "variant (state ?k) = ''On''" by code_simp
  with reachable_state_declared [OF lamp_parses lamp_start code reach] reach show ?thesis by metis
qed

end
