(* ===== verification/Table_Syntax.thy ===== *)
theory Table_Syntax
  imports Names Guard_Expr
begin

text \<open>
  The parsers of a transition table: macros/src/parser/input_state.rs, output_state.rs, event.rs,
  the rows of transition.rs and the machine of state_machine.rs. Rust types, expressions and
  attributes are read by the \<open>syn\<close> package: \<open>syn_parsers\<close> holds its parsers, which are parameters.
  A parenthesis must be used up, as \<open>syn\<close> requires when the whole parse ends. Spans are left out.
\<close>

section \<open>Stream reads\<close>

record syn_parsers =
  syn_type :: "token list \<Rightarrow> rust_type parsed"
  syn_expr :: "token list \<Rightarrow> rust_expr parsed"
  syn_attributes :: "token list \<Rightarrow> token list list parsed"

definition fail :: "string \<Rightarrow> 'a parsed" where
  "fail msg = Err (ParseError msg)"

definition require :: "string \<Rightarrow> token list option \<Rightarrow> (token list \<Rightarrow> 'a parsed) \<Rightarrow> 'a parsed" where
  "require msg r k = (case r of None \<Rightarrow> fail msg | Some ts \<Rightarrow> k ts)"

text \<open>\<open>is_ok()\<close> of an optional token: whether it was there, and the rest.\<close>

definition optional :: "token list \<Rightarrow> token list option \<Rightarrow> bool \<times> token list" where
  "optional ts r = (case r of None \<Rightarrow> (False, ts) | Some ts' \<Rightarrow> (True, ts'))"

definition parse_exactly :: "(token list \<Rightarrow> 'a parsed) \<Rightarrow> token list \<Rightarrow> (parse_error, 'a) rust_result" where
  "parse_exactly p ts =
     try_then (p ts) (\<lambda>(x, rest). if rest = [] then Ok x else Err (ParseError ''unexpected token''))"

definition parse_lit_bool :: "token list \<Rightarrow> bool parsed" where
  "parse_lit_bool ts =
     (case eat_word ''true'' ts of
        Some ts' \<Rightarrow> Ok (True, ts')
      | None \<Rightarrow>
          (case eat_word ''false'' ts of
             Some ts' \<Rightarrow> Ok (False, ts')
           | None \<Rightarrow> fail ''expected boolean literal''))"

section \<open>States\<close>

text \<open>An identifier, or a string literal that is turned into one, with its spelling.\<close>

definition parse_name :: "token list \<Rightarrow> (string \<times> string) parsed" where
  "parse_name ts =
     (case eat_litstr ts of
        Some ((v, _), ts') \<Rightarrow> Ok ((state_ident v, ''literal:'' @ v), ts')
      | None \<Rightarrow> try_then (parse_ident ts) (\<lambda>(i, ts'). Ok ((i, ''identifier:'' @ i), ts')))"

text \<open>\<open>state<Child>\<close>: the identifier and spelling of the child, and the child.\<close>

definition parse_composite ::
  "string \<times> string \<Rightarrow> token list \<Rightarrow> (string \<times> string \<times> string option) parsed" where
  "parse_composite name ts =
     (case (if fst name = ''state'' then eat_punct CHR ''<'' ts else None) of
        None \<Rightarrow> Ok ((fst name, snd name, None), ts)
      | Some ts' \<Rightarrow>
          try_then (parse_ident ts') (\<lambda>(child, ts').
          require ''expected `>`'' (eat_punct CHR ''>'' ts')
            (\<lambda>ts'. Ok ((state_ident child, ''composite:'' @ child, Some child), ts'))))"

text \<open>\<open>sml::X\<close>.\<close>

definition parse_qualified :: "string \<times> string \<Rightarrow> token list \<Rightarrow> (string \<times> string) parsed" where
  "parse_qualified name ts =
     (case (if fst name = ''sml'' then eat_punct2 CHR '':'' CHR '':'' ts else None) of
        None \<Rightarrow> Ok (name, ts)
      | Some ts' \<Rightarrow>
          try_then (parse_ident ts') (\<lambda>(i, ts').
            if i \<noteq> ''X'' then fail ''only the terminal state `sml::X` may be namespace-qualified''
            else Ok ((i, ''identifier:'' @ i), ts')))"

definition parse_supported_type ::
  "syn_parsers \<Rightarrow> string \<Rightarrow> token list \<Rightarrow> (parse_error, rust_type) rust_result" where
  "parse_supported_type syn msg content =
     try_then (parse_exactly (syn_type syn) content)
       (\<lambda>t. if supported_type t then Ok t else Err (ParseError msg))"

definition is_history :: "rust_type \<Rightarrow> bool" where
  "is_history t \<longleftrightarrow> t = TypePath None False [PathSegment ''H'' []]"

text \<open>What follows the name of a source state: its payload type or \<open>(H)\<close>.\<close>

definition parse_state_data ::
  "syn_parsers \<Rightarrow> bool \<Rightarrow> rust_type option \<Rightarrow> token list \<Rightarrow> (rust_type option \<times> bool) parsed" where
  "parse_state_data syn wildcard inferred ts =
     (case eat_group Parenthesis ts of
        None \<Rightarrow> Ok ((inferred, False), ts)
      | Some (content, ts') \<Rightarrow>
          try_then (parse_exactly (syn_type syn) content) (\<lambda>t.
            if wildcard then fail ''Wildcard states cannot have data associated with it.''
            else if \<not> supported_type t then fail ''This is an invalid type for states.''
            else Ok ((if is_history t then (None, True) else (Some t, False)), ts')))"

definition parse_plain_state :: "syn_parsers \<Rightarrow> bool \<Rightarrow> token list \<Rightarrow> input_state parsed" where
  "parse_plain_state syn start ts =
     (let (wildcard, ts) = optional ts (eat_word ''_'' ts) in
      if start \<and> wildcard then fail ''Wildcards can't be used as the starting state.''
      else try_then (if wildcard then Ok ((''_'', ''wildcard:_''), ts) else parse_name ts) (\<lambda>(name, ts).
      try_then (parse_composite name ts) (\<lambda>((i, source, composite), ts).
      try_then (parse_qualified (i, source) ts) (\<lambda>((i, source), ts).
      try_then (parse_state_data syn wildcard (map_option ident_type composite) ts) (\<lambda>((ty, history), ts).
        Ok (\<lparr>in_start = start, in_wildcard = wildcard, in_ident = i, in_source = source,
             in_data_type = ty, in_composite = composite, in_history = history\<rparr>, ts))))))"

text \<open>A state may be put in parentheses any number of times; only the outermost may carry the \<open>*\<close>.\<close>

function InputState_parse :: "syn_parsers \<Rightarrow> token list \<Rightarrow> input_state parsed" where
  "InputState_parse syn ts0 =
     (let (start, ts) = optional ts0 (eat_punct CHR ''*'' ts0) in
      case eat_group Parenthesis ts of
        Some (content, rest) \<Rightarrow>
          (case InputState_parse syn content of
             Inl e \<Rightarrow> Err e
           | Inr (grouped, left) \<Rightarrow>
               if left \<noteq> [] \<or> in_start grouped
               then fail ''a parenthesized state must contain exactly one state expression''
               else Ok (grouped\<lparr>in_start := start\<rparr>, rest))
      | None \<Rightarrow> parse_plain_state syn start ts)"
  by pat_completeness auto
termination
  by (relation "measure (\<lambda>(_, ts). tokens_size ts)")
    (auto simp: optional_def eat_simps split: option.splits)

declare InputState_parse.simps [simp del]

definition internal_output :: output_state where
  "internal_output = \<lparr>out_ident = ''_'', out_source = ''internal:_'', out_internal = True,
     out_data_type = None, out_composite = None\<rparr>"

definition OutputState_parse :: "syn_parsers \<Rightarrow> token list \<Rightarrow> output_state parsed" where
  "OutputState_parse syn ts =
     (case eat_punct CHR ''='' ts of
        None \<Rightarrow> Ok (internal_output, ts)
      | Some ts \<Rightarrow>
          (let (internal, ts) = optional ts (eat_word ''_'' ts) in
           try_then (if internal then Ok ((''_'', ''identifier:_''), ts) else parse_name ts) (\<lambda>(name, ts).
           try_then (parse_composite name ts) (\<lambda>((i, source, composite), ts).
           try_then (parse_qualified (i, source) ts) (\<lambda>((i, source), ts).
           try_then
             (case (if internal then None else eat_group Parenthesis ts) of
                None \<Rightarrow> Ok (map_option ident_type composite, ts)
              | Some (content, ts) \<Rightarrow>
                  try_then (parse_supported_type syn ''This is an invalid type for states.'' content)
                    (\<lambda>t. Ok (Some t, ts)))
             (\<lambda>(ty, ts).
               Ok (\<lparr>out_ident = i, out_source = source, out_internal = internal,
                    out_data_type = ty, out_composite = composite\<rparr>, ts)))))))"

section \<open>Triggers\<close>

fun type_ident :: "rust_type \<Rightarrow> string option" where
  "type_ident (TypePath None _ segments) =
     (case rev segments of [] \<Rightarrow> None | s # _ \<Rightarrow> Some (segment_ident s))"
| "type_ident (TypeReference _ _ t) = type_ident t"
| "type_ident _ = None"

definition external_event_type :: "syn_parsers \<Rightarrow> token list \<Rightarrow> (string \<times> rust_type) parsed" where
  "external_event_type syn ts =
     try_then (syn_type syn ts) (\<lambda>(t, ts').
       case type_ident t of
         Some i \<Rightarrow> Ok ((i, t), ts')
       | None \<Rightarrow> fail ''typed event triggers require a named Rust type path or reference'')"

text \<open>The name of a trigger: an identifier, \<open>sml::name\<close>, or a literal with the suffix \<open>_e\<close>.\<close>

definition parse_trigger_name :: "token list \<Rightarrow> (string \<times> string) parsed" where
  "parse_trigger_name ts =
     try_then
       (case eat_litstr ts of
          Some ((v, sfx), ts') \<Rightarrow>
            if sfx \<noteq> ''_e'' then fail ''named events use the sml.cpp suffix `_e`''
            else Ok ((state_ident v, ''literal:'' @ v), ts')
        | None \<Rightarrow> try_then (parse_ident ts) (\<lambda>(i, ts'). Ok ((i, ''identifier:'' @ i), ts')))
       (\<lambda>((first, source), ts).
          case (if first = ''sml'' then eat_punct2 CHR '':'' CHR '':'' ts else None) of
            None \<Rightarrow> Ok ((first, source), ts)
          | Some ts' \<Rightarrow> try_then (parse_ident ts') (\<lambda>(i, ts'). Ok ((i, ''identifier:'' @ i), ts')))"

text \<open>A name in angle brackets, or the underscore: the name and whether it is the wildcard.\<close>

definition parse_angle_name :: "string \<Rightarrow> token list \<Rightarrow> (string \<times> bool) parsed" where
  "parse_angle_name any ts =
     try_then
       (case eat_word ''_'' ts of
          Some ts' \<Rightarrow> Ok ((any, True), ts')
        | None \<Rightarrow> try_then (parse_ident ts) (\<lambda>(i, ts'). Ok ((i, False), ts')))
       (\<lambda>(r, ts'). require ''expected `>`'' (eat_punct CHR ''>'' ts') (\<lambda>ts'. Ok (r, ts')))"

record trigger_head =
  th_ident :: string
  th_type :: "rust_type option"
  th_kind :: event_kind
  th_wildcard :: bool
  th_external :: bool

definition trigger_head_of :: "string \<Rightarrow> rust_type option \<Rightarrow> event_kind \<Rightarrow> bool \<Rightarrow> bool \<Rightarrow> trigger_head" where
  "trigger_head_of i ty k w x = \<lparr>th_ident = i, th_type = ty, th_kind = k, th_wildcard = w, th_external = x\<rparr>"

definition parse_unexpected :: "syn_parsers \<Rightarrow> string \<Rightarrow> token list \<Rightarrow> trigger_head parsed" where
  "parse_unexpected syn first ts =
     try_then
       (case eat_word ''_'' ts of
          Some ts' \<Rightarrow> Ok ((''__AnyEvent'', None, True), ts')
        | None \<Rightarrow>
            try_then (external_event_type syn ts)
              (\<lambda>((i, t), ts'). Ok ((i, if first = ''unexpected_event'' then Some t else None, False), ts')))
       (\<lambda>((i, ty, wildcard), ts').
          require ''expected `>`'' (eat_punct CHR ''>'' ts')
            (\<lambda>ts'. Ok (trigger_head_of i ty Unexpected wildcard (first = ''unexpected_event'' \<and> \<not> wildcard), ts')))"

definition parse_trigger_head :: "syn_parsers \<Rightarrow> string \<Rightarrow> token list \<Rightarrow> trigger_head parsed" where
  "parse_trigger_head syn first ts =
     (case eat_punct CHR ''<'' ts of
        None \<Rightarrow> Ok (trigger_head_of first None Normal False False, ts)
      | Some ts' \<Rightarrow>
          if first = ''event''
          then try_then (external_event_type syn ts') (\<lambda>((i, t), ts').
            require ''expected `>`'' (eat_punct CHR ''>'' ts')
              (\<lambda>ts'. Ok (trigger_head_of i (Some t) Normal False True, ts')))
          else if first = ''unexpected'' \<or> first = ''unexpected_event''
          then parse_unexpected syn first ts'
          else if first = ''on_entry'' \<or> first = ''on_exit''
          then require ''expected `_`'' (eat_word ''_'' ts') (\<lambda>ts'.
            require ''expected `>`'' (eat_punct CHR ''>'' ts')
              (\<lambda>ts'. Ok (trigger_head_of first None (if first = ''on_entry'' then Entry else Exit) False False, ts')))
          else if first = ''completion''
          then try_then (parse_angle_name ''__AnyCompletion'' ts')
            (\<lambda>((i, w), ts'). Ok (trigger_head_of i None Completion w False, ts'))
          else if first = ''exception''
          then try_then (parse_angle_name ''__AnyException'' ts')
            (\<lambda>((i, w), ts'). Ok (trigger_head_of i None Exception w False, ts'))
          else Ok (trigger_head_of first None Normal False False, ts))"

text \<open>The spelling that the name check compares.\<close>

fun starts_with :: "string \<Rightarrow> string \<Rightarrow> bool" where
  "starts_with [] s = True"
| "starts_with (p # ps) [] = False"
| "starts_with (p # ps) (c # cs) = (p = c \<and> starts_with ps cs)"

definition trigger_source :: "string \<Rightarrow> string \<Rightarrow> trigger_head \<Rightarrow> string" where
  "trigger_source first source h =
     (let source' =
        (case th_kind h of
           Normal \<Rightarrow> if th_external h then ''external:'' @ th_ident h else source
         | Unexpected \<Rightarrow>
             if th_external h then ''external-unexpected:'' @ th_ident h
             else if \<not> th_wildcard h then ''unexpected:'' @ th_ident h else source
         | Entry \<Rightarrow> ''lifecycle:'' @ first
         | Exit \<Rightarrow> ''lifecycle:'' @ first
         | Completion \<Rightarrow> if \<not> th_wildcard h then ''completion:'' @ th_ident h else source
         | Exception \<Rightarrow> if \<not> th_wildcard h then ''exception:'' @ th_ident h else source)
      in if \<not> starts_with ''literal:'' source' \<and> \<not> th_wildcard h \<and> th_kind h \<notin> {Entry, Exit, Exception}
         then ''identifier:'' @ th_ident h else source')"

definition trigger_data_type ::
  "syn_parsers \<Rightarrow> trigger_head \<Rightarrow> token list \<Rightarrow> rust_type option parsed" where
  "trigger_data_type syn h ts =
     (case eat_group Parenthesis ts of
        Some (content, ts') \<Rightarrow>
          try_then (parse_supported_type syn ''This is an invalid type for events.'' content)
            (\<lambda>t. Ok (Some t, ts'))
      | None \<Rightarrow>
          Ok (if th_type h \<noteq> None then th_type h
              else if th_external h \<or> th_kind h = Exception \<and> \<not> th_wildcard h then Some (ident_type (th_ident h))
              else None, ts))"

definition Event_parse :: "syn_parsers \<Rightarrow> token list \<Rightarrow> event_trigger parsed" where
  "Event_parse syn ts =
     require ''expected `+`'' (eat_punct CHR ''+'' ts) (\<lambda>ts.
     try_then (parse_trigger_name ts) (\<lambda>((first, source), ts).
     try_then (parse_trigger_head syn first ts) (\<lambda>(h, ts).
     try_then (trigger_data_type syn h ts) (\<lambda>(ty, ts).
       if th_wildcard h \<and> ty \<noteq> None then fail ''A wildcard trigger cannot carry event data.''
       else Ok (\<lparr>ev_ident = th_ident h, ev_source = trigger_source first source h, ev_data_type = ty,
                 ev_kind = th_kind h, ev_wildcard = th_wildcard h, ev_external = th_external h\<rparr>, ts)))))"

section \<open>Action sequences\<close>

record action_sequence =
  seq_actions :: "async_ident list"
  seq_process :: "rust_expr list"
  seq_defer :: bool
  seq_evals :: "eval_action list"
  seq_position :: nat

definition empty_sequence :: action_sequence where
  "empty_sequence = \<lparr>seq_actions = [], seq_process = [], seq_defer = False, seq_evals = [], seq_position = 0\<rparr>"

definition parse_async_ident :: "token list \<Rightarrow> async_ident parsed" where
  "parse_async_ident ts =
     (let (async, ts) = optional ts (eat_word ''async'' ts) in
      try_then (parse_ident ts) (\<lambda>(i, ts). Ok (\<lparr>ident = i, is_async = async\<rparr>, ts)))"

definition parse_eval :: "nat \<Rightarrow> token list \<Rightarrow> token list \<Rightarrow> eval_action parsed" where
  "parse_eval position content ts =
     try_then (parse_exactly GuardExpression_parse content) (\<lambda>g.
     require ''expected `/`'' (eat_punct CHR ''/'' ts) (\<lambda>ts.
     try_then (parse_async_ident ts)
       (\<lambda>(a, ts). Ok (\<lparr>ea_position = position, ea_guard = g, ea_action = a\<rparr>, ts))))"

text \<open>
  \<open>defer\<close>, \<open>process(event)\<close> or the call of an action, as the only item after \<open>/\<close> and in a sequence.
\<close>

definition parse_operator ::
  "syn_parsers \<Rightarrow> async_ident \<Rightarrow> token list \<Rightarrow> action_sequence \<Rightarrow> action_sequence parsed" where
  "parse_operator syn a ts acc =
     (if ident a = ''defer''
      then if is_async a then fail ''`defer` is a queue operation, not an async callback''
           else Ok (acc\<lparr>seq_defer := True\<rparr>, ts)
      else case (if ident a = ''process'' then eat_group Parenthesis ts else None) of
          Some (content, ts') \<Rightarrow>
            if is_async a then fail ''`process(...)` is a queue operation, not an async callback''
            else try_then (parse_exactly (syn_expr syn) content)
              (\<lambda>e. Ok (acc\<lparr>seq_process := seq_process acc @ [e]\<rparr>, ts'))
        | None \<Rightarrow> Ok (acc\<lparr>seq_actions := seq_actions acc @ [a]\<rparr>, ts))"

definition parse_item ::
  "syn_parsers \<Rightarrow> token list \<Rightarrow> action_sequence \<Rightarrow> action_sequence parsed" where
  "parse_item syn ts acc =
     try_then (parse_async_ident ts) (\<lambda>(a, ts).
     try_then
       (case (if ident a = ''eval'' then eat_group Bracket ts else None) of
          Some (content, ts') \<Rightarrow>
            if is_async a then fail ''`eval` is an action-sequence operator, not an async callback''
            else try_then (parse_eval (seq_position acc) content ts')
              (\<lambda>(e, ts'). Ok (acc\<lparr>seq_evals := seq_evals acc @ [e]\<rparr>, ts'))
        | None \<Rightarrow> parse_operator syn a ts acc)
       (\<lambda>(acc, ts). Ok (acc\<lparr>seq_position := Suc (seq_position acc)\<rparr>, ts)))"

lemma try_then_cong [fundef_cong]:
  "r = r' \<Longrightarrow> (\<And>a. r' = Inr a \<Longrightarrow> k a = k' a) \<Longrightarrow> try_then r k = try_then r' k'"
  by (cases r') simp_all

lemma require_Inr_iff [simp]: "require msg r k = Inr x \<longleftrightarrow> (\<exists>ts. r = Some ts \<and> k ts = Inr x)"
  by (cases r) (simp_all add: require_def fail_def)

lemma parse_async_ident_shorter [shorter]:
  "parse_async_ident ts = Inr (a, ts') \<Longrightarrow> length ts' < length ts"
  by (auto simp: parse_async_ident_def optional_def try_then_Inr_iff dest!: shorter split: option.splits)

lemma parse_eval_shorter [shorter]: "parse_eval n content ts = Inr (e, ts') \<Longrightarrow> length ts' < length ts"
  by (auto simp: parse_eval_def fail_def try_then_Inr_iff dest!: shorter split: option.splits)

lemma parse_operator_shorter: "parse_operator syn a ts acc = Inr (acc', ts') \<Longrightarrow> length ts' \<le> length ts"
  by (auto simp: parse_operator_def fail_def try_then_Inr_iff dest!: shorter split: option.splits if_splits)

lemma parse_item_shorter [shorter]:
  assumes "parse_item syn ts acc = Inr (acc', ts')"
  shows "length ts' < length ts"
proof -
  obtain a us where a: "parse_async_ident ts = Inr (a, us)"
    using assms by (auto simp: parse_item_def try_then_Inr_iff)
  have "length ts' \<le> length us"
  proof (cases "if ident a = ''eval'' then eat_group Bracket us else None")
    case None
    then show ?thesis
      using assms a by (auto simp: parse_item_def try_then_Inr_iff dest!: parse_operator_shorter)
  next
    case (Some r)
    then obtain content vs where r: "r = (content, vs)" "eat_group Bracket us = Some (content, vs)"
      by (cases r) (auto split: if_splits)
    with Some have "length ts' < length vs"
      using assms a by (auto simp: parse_item_def fail_def try_then_Inr_iff dest!: parse_eval_shorter split: if_splits)
    with eat_shorter(4) [OF r(2)] show ?thesis by simp
  qed
  with parse_async_ident_shorter [OF a] show ?thesis by simp
qed

function parse_items ::
  "syn_parsers \<Rightarrow> token list \<Rightarrow> action_sequence \<Rightarrow> (parse_error, action_sequence) rust_result" where
  "parse_items syn ts acc =
     (if ts = [] then Ok acc
      else try_then (parse_item syn ts acc) (\<lambda>(acc', ts').
        if ts' = [] then Ok acc'
        else case eat_punct CHR '','' ts' of
            None \<Rightarrow> Err (ParseError ''expected `,`'')
          | Some rest \<Rightarrow> parse_items syn rest acc'))"
  by pat_completeness auto
termination
  by (relation "measure (\<lambda>(_, ts, _). length ts)")
    (auto dest!: shorter)

declare parse_items.simps [simp del]

definition parse_action_sequence :: "syn_parsers \<Rightarrow> token list \<Rightarrow> action_sequence parsed" where
  "parse_action_sequence syn ts =
     (case eat_group Parenthesis ts of
        Some (content, ts') \<Rightarrow> try_then (parse_items syn content empty_sequence) (\<lambda>acc. Ok (acc, ts'))
      | None \<Rightarrow> try_then (parse_async_ident ts) (\<lambda>(a, ts). parse_operator syn a ts empty_sequence))"

section \<open>Rows\<close>

lemma parse_name_shorter [shorter]: "parse_name ts = Inr (r, ts') \<Longrightarrow> length ts' < length ts"
  by (auto simp: parse_name_def try_then_Inr_iff dest!: shorter split: option.splits)

lemma parse_composite_shorter: "parse_composite name ts = Inr (r, ts') \<Longrightarrow> length ts' \<le> length ts"
  by (auto simp: parse_composite_def fail_def try_then_Inr_iff dest!: shorter
      split: option.splits if_splits)

lemma parse_qualified_shorter: "parse_qualified name ts = Inr (r, ts') \<Longrightarrow> length ts' \<le> length ts"
  by (auto simp: parse_qualified_def fail_def try_then_Inr_iff dest!: shorter split: option.splits if_splits)

lemma parse_state_data_shorter:
  "parse_state_data syn w inferred ts = Inr (r, ts') \<Longrightarrow> length ts' \<le> length ts"
  by (auto simp: parse_state_data_def fail_def try_then_Inr_iff dest!: shorter split: option.splits if_splits)

lemma parse_plain_state_shorter [shorter]:
  "parse_plain_state syn start ts = Inr (i, ts') \<Longrightarrow> length ts' < length ts"
  by (auto simp: parse_plain_state_def Let_def optional_def fail_def try_then_Inr_iff
      dest!: shorter parse_composite_shorter parse_qualified_shorter parse_state_data_shorter
      split: option.splits if_splits prod.splits)

lemma InputState_parse_shorter [shorter]:
  "InputState_parse syn ts = Inr (i, ts') \<Longrightarrow> length ts' < length ts"
  by (subst (asm) InputState_parse.simps)
    (auto simp: optional_def fail_def dest!: shorter split: option.splits sum.splits if_splits)

function parse_in_states :: "syn_parsers \<Rightarrow> token list \<Rightarrow> input_state list parsed" where
  "parse_in_states syn ts =
     try_then (InputState_parse syn ts) (\<lambda>(i, ts').
       case eat_punct CHR ''|'' ts' of
         None \<Rightarrow> Ok ([i], ts')
       | Some rest \<Rightarrow> try_then (parse_in_states syn rest) (\<lambda>(is, ts''). Ok (i # is, ts'')))"
  by pat_completeness auto
termination
  by (relation "measure (\<lambda>(_, ts). length ts)")
    (auto dest!: shorter)

declare parse_in_states.simps [simp del]

definition parse_guard :: "token list \<Rightarrow> guard_expression option parsed" where
  "parse_guard ts =
     (case eat_group Bracket ts of
        None \<Rightarrow> Ok (None, ts)
      | Some (content, ts') \<Rightarrow>
          try_then (parse_exactly GuardExpression_parse content) (\<lambda>g. Ok (Some g, ts')))"

definition StateTransitions_parse :: "syn_parsers \<Rightarrow> token list \<Rightarrow> state_transitions parsed" where
  "StateTransitions_parse syn ts =
     try_then (parse_in_states syn ts) (\<lambda>(ins, ts).
     if 1 < length ins \<and> list_ex in_wildcard ins
     then fail ''Wildcards already include all states, so should not be used with input state patterns.''
     else try_then (Event_parse syn ts) (\<lambda>(ev, ts).
     try_then (parse_guard ts) (\<lambda>(guard, ts).
     try_then
       (case eat_punct CHR ''/'' ts of
          None \<Rightarrow> Ok (empty_sequence, ts)
        | Some ts \<Rightarrow> parse_action_sequence syn ts)
       (\<lambda>(acc, ts).
     try_then (OutputState_parse syn ts) (\<lambda>(out, ts).
       Ok (\<lparr>sts_in_states = ins, sts_event = ev, sts_guard = guard,
            sts_action = (case seq_actions acc of [] \<Rightarrow> None | a # _ \<Rightarrow> Some a),
            sts_additional_actions = drop 1 (seq_actions acc),
            sts_process_events = seq_process acc, sts_defer = seq_defer acc,
            sts_eval_actions = seq_evals acc, sts_out = out\<rparr>, ts))))))"

section \<open>Machines\<close>

text \<open>
  \<open>transitions: { .. }\<close> and the fields of a machine. A row consumes tokens when the type parser does
  not give back more than it got; fuel bounds the loops otherwise, one unit for each token and one
  for the end.
\<close>

fun parse_rows :: "nat \<Rightarrow> syn_parsers \<Rightarrow> token list \<Rightarrow> state_machine \<Rightarrow> (parse_error, state_machine \<times> token list) rust_result" where
  "parse_rows 0 syn ts sm = Err OutOfFuel"
| "parse_rows (Suc n) syn ts sm =
     (if ts = [] then Ok (sm, [])
      else try_then (StateTransitions_parse syn ts) (\<lambda>(row, ts').
        let sm' = add_transitions sm row in
        if ts' = [] then Ok (sm', [])
        else case eat_punct CHR '','' ts' of
            None \<Rightarrow> Ok (sm', ts')
          | Some rest \<Rightarrow> parse_rows n syn rest sm'))"

definition parse_transitions :: "syn_parsers \<Rightarrow> token list \<Rightarrow> state_machine \<Rightarrow> state_machine parsed" where
  "parse_transitions syn ts sm =
     (case eat_group Brace ts of
        None \<Rightarrow> Ok (sm, ts)
      | Some (content, ts') \<Rightarrow>
          try_then (parse_rows (Suc (length content)) syn content sm) (\<lambda>(sm', left).
            if left = [] then Ok (sm', ts') else Err (ParseError ''unexpected token'')))"

definition parse_field :: "syn_parsers \<Rightarrow> string \<Rightarrow> token list \<Rightarrow> state_machine \<Rightarrow> state_machine parsed" where
  "parse_field syn field ts sm =
     (if field \<notin> set [''transitions'', ''custom_error'', ''temporary_context'', ''name'', ''states_attr'',
          ''events_attr'', ''entry_exit_async'']
      then fail (''Unknown keyword '' @ field)
      else require ''expected `:`'' (eat_punct CHR '':'' ts) (\<lambda>ts.
        if field = ''transitions'' then parse_transitions syn ts sm
        else if field = ''custom_error''
        then try_then (parse_lit_bool ts) (\<lambda>(b, ts). Ok (if b then sm\<lparr>custom_error := True\<rparr> else sm, ts))
        else if field = ''temporary_context''
        then try_then (syn_type syn ts) (\<lambda>(t, ts).
          if supported_type t then Ok (sm\<lparr>temporary_context_type := Some t\<rparr>, ts)
          else fail ''This is an invalid type for the temporary state.'')
        else if field = ''name''
        then try_then (parse_ident ts) (\<lambda>(i, ts). Ok (sm\<lparr>machine_name := Some i\<rparr>, ts))
        else if field = ''states_attr''
        then try_then (syn_attributes syn ts) (\<lambda>(as, ts). Ok (sm\<lparr>states_attr := as\<rparr>, ts))
        else if field = ''events_attr''
        then try_then (syn_attributes syn ts) (\<lambda>(as, ts). Ok (sm\<lparr>events_attr := as\<rparr>, ts))
        else try_then (parse_lit_bool ts)
          (\<lambda>(b, ts). Ok (if b then sm\<lparr>entry_exit_async := True\<rparr> else sm, ts))))"

fun parse_fields :: "nat \<Rightarrow> syn_parsers \<Rightarrow> token list \<Rightarrow> state_machine \<Rightarrow> state_machine parsed" where
  "parse_fields 0 syn ts sm = Err OutOfFuel"
| "parse_fields (Suc n) syn ts sm =
     (if ts = [] then Ok (sm, [])
      else try_then (parse_ident ts) (\<lambda>(field, ts').
        try_then (parse_field syn field ts' sm) (\<lambda>(sm', ts').
          if ts' = [] then Ok (sm', [])
          else case eat_punct CHR '','' ts' of
              None \<Rightarrow> Ok (sm', ts')
            | Some rest \<Rightarrow> parse_fields n syn rest sm')))"

definition StateMachine_parse :: "syn_parsers \<Rightarrow> token list \<Rightarrow> state_machine parsed" where
  "StateMachine_parse syn ts = parse_fields (Suc (length ts)) syn ts StateMachine_new"

end
