(* ===== verification/Action_Order.thy ===== *)
theory Action_Order
  imports Table_Syntax Flat_Codegen
begin

text \<open>
  Action sequences from their text to the generated steps: what \<open>parse_items\<close> reads from a printed
  sequence, and in which order \<open>generate_actions\<close> emits it. Without \<open>defer\<close> and \<open>process\<close> the steps are
  the items in source order; an \<open>eval\<close> after a queue operator is rejected or moved.
\<close>

section \<open>Items of a sequence\<close>

datatype seq_item =
    ActionItem async_ident
  | EvalItem guard_expression async_ident
  | DeferItem
  | ProcessItem rust_expr

fun item_tokens :: "seq_item \<Rightarrow> token list" where
  "item_tokens (ActionItem a) = guard_tokens a"
| "item_tokens (EvalItem g a) =
     [Ident ''eval'', Group Bracket (print_guard g), Punct CHR ''/'' False] @ guard_tokens a"
| "item_tokens DeferItem = [Ident ''defer'']"
| "item_tokens (ProcessItem e) = [Ident ''process'', Group Parenthesis e]"

fun sequence_tokens :: "seq_item list \<Rightarrow> token list" where
  "sequence_tokens [] = []"
| "sequence_tokens [x] = item_tokens x"
| "sequence_tokens (x # xs) = item_tokens x @ Punct CHR '','' False # sequence_tokens xs"

fun add_item :: "seq_item \<Rightarrow> action_sequence \<Rightarrow> action_sequence" where
  "add_item (ActionItem a) acc =
     acc\<lparr>seq_actions := seq_actions acc @ [a], seq_position := Suc (seq_position acc)\<rparr>"
| "add_item (EvalItem g a) acc =
     acc\<lparr>seq_evals := seq_evals acc @ [\<lparr>ea_position = seq_position acc, ea_guard = g, ea_action = a\<rparr>],
         seq_position := Suc (seq_position acc)\<rparr>"
| "add_item DeferItem acc = acc\<lparr>seq_defer := True, seq_position := Suc (seq_position acc)\<rparr>"
| "add_item (ProcessItem e) acc =
     acc\<lparr>seq_process := seq_process acc @ [e], seq_position := Suc (seq_position acc)\<rparr>"

text \<open>
  Items that the grammar can tell apart: callbacks are no keywords, an action is not called
  \<open>defer\<close>, and expressions are ones that \<open>syn\<close> reads as a whole.
\<close>

fun wf_item :: "syn_parsers \<Rightarrow> seq_item \<Rightarrow> bool" where
  "wf_item syn (ActionItem a) \<longleftrightarrow> \<not> is_keyword (ident a) \<and> ident a \<noteq> ''defer''"
| "wf_item syn (EvalItem g a) \<longleftrightarrow> wf_or g \<and> \<not> is_keyword (ident a)"
| "wf_item syn DeferItem \<longleftrightarrow> True"
| "wf_item syn (ProcessItem e) \<longleftrightarrow> syn_expr syn e = Ok (e, [])"

lemma not_keywords [simp]:
  "\<not> is_keyword ''eval''" "\<not> is_keyword ''defer''" "\<not> is_keyword ''process''" "is_keyword ''async''"
  by (simp_all add: is_keyword_def rust_keywords_def)

lemma parse_async_ident_tokens:
  "\<not> is_keyword (ident a) \<Longrightarrow> parse_async_ident (guard_tokens a @ ts) = Ok (a, ts)"
  by (cases a) (auto simp: parse_async_ident_def guard_tokens_def optional_def)

text \<open>An item is followed by a comma or by the end of the sequence.\<close>

definition item_end :: "token list \<Rightarrow> bool" where
  "item_end ts \<longleftrightarrow> ts = [] \<or> (\<exists>us. ts = Punct CHR '','' False # us)"

lemma parse_item_tokens:
  assumes "wf_item syn x" "item_end ts"
  shows "parse_item syn (item_tokens x @ ts) acc = Ok (add_item x acc, ts)"
proof (cases x)
  case (ActionItem a)
  have "eat_group d ts = None" for d using assms(2) by (auto simp: item_end_def)
  with ActionItem show ?thesis
    using assms by (auto simp: parse_item_def parse_async_ident_tokens parse_operator_def)
next
  case (EvalItem g a)
  have "parse_async_ident (Ident ''eval'' # us) = Ok (\<lparr>ident = ''eval'', is_async = False\<rparr>, us)" for us
    by (simp add: parse_async_ident_def optional_def)
  with EvalItem show ?thesis
    using assms print_guard_parses [of g]
    by (simp add: parse_item_def parse_eval_def parse_exactly_def require_def parse_async_ident_tokens)
next
  case DeferItem
  then show ?thesis by (simp add: parse_item_def parse_async_ident_def optional_def parse_operator_def)
next
  case (ProcessItem e)
  then show ?thesis
    using assms by (simp add: parse_item_def parse_async_ident_def optional_def parse_operator_def parse_exactly_def)
qed

lemma item_tokens_nonempty [simp]: "item_tokens x \<noteq> []"
  by (cases x) (auto simp: guard_tokens_def)

lemma parse_items_tokens:
  assumes "list_all (wf_item syn) xs"
  shows "parse_items syn (sequence_tokens xs) acc = Ok (fold add_item xs acc)"
  using assms
proof (induction xs arbitrary: acc rule: sequence_tokens.induct)
  case 1
  show ?case by (simp add: parse_items.simps)
next
  case (2 x)
  then show ?case
    using parse_item_tokens [of syn x "[]" acc] by (simp add: parse_items.simps item_end_def)
next
  case (3 x y xs)
  then show ?case
    using parse_item_tokens [of syn x "Punct CHR '','' False # sequence_tokens (y # xs)" acc]
    by (subst parse_items.simps) (simp add: item_end_def)
qed

section \<open>The order of the generated steps\<close>

fun is_queue_item :: "seq_item \<Rightarrow> bool" where
  "is_queue_item DeferItem = True"
| "is_queue_item (ProcessItem e) = True"
| "is_queue_item _ = False"

text \<open>The steps of a sequence in source order; the last action provides the state's data.\<close>

fun steps_of :: "bool \<Rightarrow> seq_item list \<Rightarrow> action_step list" where
  "steps_of produces [] = []"
| "steps_of produces (ActionItem a # xs) =
     ActionStep (produces \<and> list_all (\<lambda>x. \<not> (\<exists>b. x = ActionItem b)) xs) a # steps_of produces xs"
| "steps_of produces (EvalItem g a # xs) = EvalStep g a # steps_of produces xs"
| "steps_of produces (_ # xs) = steps_of produces xs"

fun actions_of :: "seq_item list \<Rightarrow> async_ident list" where
  "actions_of [] = []"
| "actions_of (ActionItem a # xs) = a # actions_of xs"
| "actions_of (_ # xs) = actions_of xs"

fun evals_from :: "nat \<Rightarrow> seq_item list \<Rightarrow> eval_action list" where
  "evals_from n [] = []"
| "evals_from n (EvalItem g a # xs) = \<lparr>ea_position = n, ea_guard = g, ea_action = a\<rparr> # evals_from (Suc n) xs"
| "evals_from n (_ # xs) = evals_from (Suc n) xs"

lemma fold_add_item:
  "seq_actions (fold add_item xs acc) = seq_actions acc @ actions_of xs"
  "seq_evals (fold add_item xs acc) = seq_evals acc @ evals_from (seq_position acc) xs"
proof (induction xs arbitrary: acc)
  case (Cons x xs)
  { case 1 show ?case by (cases x) (simp_all add: Cons.IH) }
  { case 2 show ?case by (cases x) (simp_all add: Cons.IH) }
qed simp_all

lemma evals_from_positions: "e \<in> set (evals_from n xs) \<Longrightarrow> n \<le> ea_position e"
  by (induction n xs rule: evals_from.induct) auto

lemma length_sequence:
  "list_all (\<lambda>x. \<not> is_queue_item x) xs \<Longrightarrow> length (actions_of xs) + length (evals_from n xs) = length xs"
  by (induction n xs rule: evals_from.induct) auto

lemma find_none_from: "(\<And>e. e \<in> set es \<Longrightarrow> ea_position e \<noteq> n) \<Longrightarrow> find (\<lambda>e. ea_position e = n) es = None"
  by (induction es) auto

lemma find_append: "find p xs = None \<Longrightarrow> find p (xs @ ys) = find p ys"
  by (induction xs) (auto split: if_splits)

lemma no_more_actions: "actions_of xs = [] \<longleftrightarrow> list_all (\<lambda>x. \<forall>b. x \<noteq> ActionItem b) xs"
  by (induction xs rule: actions_of.induct) auto

lemma generate_steps_order:
  assumes "list_all (\<lambda>x. \<not> is_queue_item x) xs" "\<And>e. e \<in> set es \<Longrightarrow> ea_position e < n"
  shows "generate_steps (length xs) (as @ actions_of xs) produces (es @ evals_from n xs) n (length as) =
    Ok (steps_of produces xs)"
  using assms
proof (induction xs arbitrary: as es n)
  case Nil
  show ?case by simp
next
  case (Cons x xs)
  have none: "find (\<lambda>e. ea_position e = n) es = None"
    using Cons.prems(2) by (intro find_none_from) auto
  show ?case
  proof (cases x)
    case (ActionItem a)
    have "find (\<lambda>e. ea_position e = n) (es @ evals_from (Suc n) xs) = None"
      using none by (auto simp: find_append intro!: find_none_from dest: evals_from_positions)
    moreover have "generate_steps (length xs) ((as @ [a]) @ actions_of xs) produces (es @ evals_from (Suc n) xs)
        (Suc n) (length (as @ [a])) = Ok (steps_of produces xs)"
      by (rule Cons.IH) (use Cons.prems in \<open>auto simp: less_Suc_eq\<close>)
    ultimately show ?thesis
      using ActionItem by (auto simp: nth_append no_more_actions)
  next
    case (EvalItem g a)
    let ?e = "\<lparr>ea_position = n, ea_guard = g, ea_action = a\<rparr>"
    have "generate_steps (length xs) (as @ actions_of xs) produces ((es @ [?e]) @ evals_from (Suc n) xs)
        (Suc n) (length as) = Ok (steps_of produces xs)"
      by (rule Cons.IH) (use Cons.prems in \<open>auto simp: less_Suc_eq\<close>)
    then show ?thesis using EvalItem none by (simp add: find_append)
  qed (use Cons.prems in simp_all)
qed

text \<open>
  C19. A printed action sequence without \<open>defer\<close> and \<open>process\<close> parses to its items, and the code
  generated from the parsed sequence performs them in source order: every action and every guarded
  \<open>eval\<close> step at its place, the last action providing the data of the target state.
\<close>

theorem action_sequence_keeps_order:
  assumes "list_all (wf_item syn) xs" "list_all (\<lambda>x. \<not> is_queue_item x) xs"
  shows "\<exists>acc. parse_action_sequence syn (Group Parenthesis (sequence_tokens xs) # ts) = Ok (acc, ts) \<and>
    generate_actions (seq_actions acc) produces (seq_evals acc) = Ok (steps_of produces xs)"
proof -
  let ?acc = "fold add_item xs empty_sequence"
  have "parse_action_sequence syn (Group Parenthesis (sequence_tokens xs) # ts) = Ok (?acc, ts)"
    using parse_items_tokens [OF assms(1)] by (simp add: parse_action_sequence_def)
  moreover have "generate_actions (seq_actions ?acc) produces (seq_evals ?acc) = Ok (steps_of produces xs)"
    using generate_steps_order [OF assms(2), of "[]" 0 "[]" produces] length_sequence [OF assms(2), of 0]
    by (simp add: generate_actions_def fold_add_item empty_sequence_def)
  ultimately show ?thesis by blast
qed

definition no_syn :: syn_parsers where
  "no_syn = \<lparr>syn_type = (\<lambda>ts. Ok (TypeOther ts, [])), syn_expr = (\<lambda>ts. Ok (ts, [])),
     syn_attributes = (\<lambda>ts. Ok ([], ts))\<rparr>"

abbreviation call :: "string \<Rightarrow> async_ident" where
  "call i \<equiv> \<lparr>ident = i, is_async = False\<rparr>"

theorem action_sequence_keeps_order_witness:
  "\<exists>acc. parse_action_sequence no_syn
      (Group Parenthesis (sequence_tokens
        [EvalItem (Guard (call ''ready'')) (call ''warm''), ActionItem (call ''start''), ActionItem (call ''log'')]) # []) =
      Ok (acc, []) \<and>
    generate_actions (seq_actions acc) True (seq_evals acc) =
      Ok [EvalStep (Guard (call ''ready'')) (call ''warm''), ActionStep False (call ''start''),
          ActionStep True (call ''log'')]"
  using action_sequence_keeps_order [of no_syn
      "[EvalItem (Guard (call ''ready'')) (call ''warm''), ActionItem (call ''start''), ActionItem (call ''log'')]"
      "[]" True]
  by (simp add: is_keyword_def rust_keywords_def)

text \<open>
  The condition on queue operators is needed. The parser counts them as positions of the
  sequence and the generator does not: \<open>(process(Next), eval[ready] / warm)\<close> parses and is then rejected
  for a missing action, and in \<open>(process(Next), eval[ready] / warm, start, log)\<close> the \<open>eval\<close> runs after
  \<open>start\<close>, which follows it in the source.
\<close>

theorem queue_operator_moves_eval:
  "\<exists>acc acc'.
     parse_items no_syn (sequence_tokens
       [ProcessItem [Ident ''Next''], EvalItem (Guard (call ''ready'')) (call ''warm'')]) empty_sequence = Ok acc \<and>
     generate_actions (seq_actions acc) False (seq_evals acc) =
       Err ''generated action sequence references a missing action'' \<and>
     parse_items no_syn (sequence_tokens
       [ProcessItem [Ident ''Next''], EvalItem (Guard (call ''ready'')) (call ''warm''),
        ActionItem (call ''start''), ActionItem (call ''log'')]) empty_sequence = Ok acc' \<and>
     generate_actions (seq_actions acc') False (seq_evals acc') =
       Ok [ActionStep False (call ''start''), EvalStep (Guard (call ''ready'')) (call ''warm''),
           ActionStep False (call ''log'')]"
proof -
  let ?p = "ProcessItem [Ident ''Next'']" and ?e = "EvalItem (Guard (call ''ready'')) (call ''warm'')"
    and ?a = "ActionItem (call ''start'')" and ?b = "ActionItem (call ''log'')"
  have parse: "parse_items no_syn (sequence_tokens xs) empty_sequence = Ok (fold add_item xs empty_sequence)"
    if "set xs \<subseteq> {?p, ?e, ?a, ?b}" for xs
    by (rule parse_items_tokens)
      (use that in \<open>auto simp: list_all_iff no_syn_def is_keyword_def rust_keywords_def\<close>)
  let ?acc = "fold add_item [?p, ?e] empty_sequence"
  let ?acc' = "fold add_item [?p, ?e, ?a, ?b] empty_sequence"
  have "generate_actions (seq_actions ?acc) False (seq_evals ?acc) =
      Err ''generated action sequence references a missing action''"
    by code_simp
  moreover have "generate_actions (seq_actions ?acc') False (seq_evals ?acc') =
      Ok [ActionStep False (call ''start''), EvalStep (Guard (call ''ready'')) (call ''warm''),
          ActionStep False (call ''log'')]"
    by code_simp
  moreover have "parse_items no_syn (sequence_tokens [?p, ?e]) empty_sequence = Ok ?acc"
    "parse_items no_syn (sequence_tokens [?p, ?e, ?a, ?b]) empty_sequence = Ok ?acc'"
    by (rule parse, simp)+
  ultimately show ?thesis by blast
qed

end
