(* ===== verification/Table_Examples.thy ===== *)
theory Table_Examples
  imports Parsed_Correctness Action_Order
begin

text \<open>
  Tables from their text to the running machine: the parsers of \<open>Table_Syntax\<close>, the construction of
  \<open>Parsed_Machine\<close>, the generator and the generated machine composed on concrete token lists.
\<close>

section \<open>A lamp as text\<close>

abbreviation op_tok :: "char \<Rightarrow> token" where
  "op_tok c \<equiv> Punct c False"

text \<open>\<open>transitions: { *Off + Toggle / click = On, On + Toggle [broken] = On, _ + Reset / (log, beep) = Off }\<close>\<close>

definition lamp_text :: "token list" where
  "lamp_text =
     [Ident ''transitions'', op_tok CHR '':'', Group Brace
       [op_tok CHR ''*'', Ident ''Off'', op_tok CHR ''+'', Ident ''Toggle'',
          op_tok CHR ''/'', Ident ''click'', op_tok CHR ''='', Ident ''On'', op_tok CHR '','',
        Ident ''On'', op_tok CHR ''+'', Ident ''Toggle'', Group Bracket [Ident ''broken''],
          op_tok CHR ''='', Ident ''On'', op_tok CHR '','',
        Ident ''_'', op_tok CHR ''+'', Ident ''Reset'',
          op_tok CHR ''/'', Group Parenthesis [Ident ''log'', op_tok CHR '','', Ident ''beep''],
          op_tok CHR ''='', Ident ''Off'']]"

definition starred_text :: "token list \<Rightarrow> token list" where
  "starred_text start =
     [Ident ''transitions'', op_tok CHR '':'', Group Brace
       (op_tok CHR ''*'' # start @ [op_tok CHR ''+'', Ident ''Go'', op_tok CHR ''='', Ident ''Run''])]"

definition parse_text :: "token list \<Rightarrow> (string, parsed_state_machine) rust_result" where
  "parse_text ts =
     (case StateMachine_parse no_syn ts of
        Inl _ \<Rightarrow> Err ''syntax''
      | Inr (sm, rest) \<Rightarrow> if rest = [] then ParsedStateMachine_new sm else Err ''syntax'')"

lemma lamp_text_run:
  "case parse_text lamp_text of
     Inl _ \<Rightarrow> False
   | Inr p \<Rightarrow> (case generate_code p of
       Inl _ \<Rightarrow> False
     | Inr code \<Rightarrow>
         (case process_event_unlocked 3 test_env code (plain_event ''Toggle'') (new_core test_env code 0 None) of
            Some (k, Inr ()) \<Rightarrow> variant (state k) = ''On''
          | _ \<Rightarrow> False))"
  by code_simp

text \<open>
  The parser refuses the wildcard as the starting state, \<open>*_\<close>, but not in parentheses: \<open>*(_)\<close>
  is accepted as the start, and the parsed machine then starts in a state it does not declare.
\<close>

theorem parenthesized_wildcard_start:
  "parse_text (starred_text [Ident ''_'']) = Err ''syntax'' \<and>
   (\<exists>p. parse_text (starred_text [Group Parenthesis [Ident ''_'']]) = Ok p \<and>
      p_starting_state p = ''_'' \<and> p_starting_state p \<notin> declared p)"
proof
  show "parse_text (starred_text [Ident ''_'']) = Err ''syntax''" by code_simp
  let ?p = "case parse_text (starred_text [Group Parenthesis [Ident ''_'']]) of Inr p \<Rightarrow> p | Inl _ \<Rightarrow> door"
  have "parse_text (starred_text [Group Parenthesis [Ident ''_'']]) = Ok ?p" by code_simp
  moreover have "p_starting_state ?p = ''_''" "''_'' \<notin> declared ?p" unfolding declared_def by code_simp+
  ultimately show "\<exists>p. parse_text (starred_text [Group Parenthesis [Ident ''_'']]) = Ok p \<and>
      p_starting_state p = ''_'' \<and> p_starting_state p \<notin> declared p" by auto
qed

end
