(* ===== verification/Policies.thy ===== *)
theory Policies
  imports Event_Queue
begin

text \<open>
  The policies of src/src/policy.rs: the slots of a bundle and how it is split before processing
  starts, the built-in dispatch strategies, the default queue policy, and the macro \<open>sml_policies!\<close>
  that names a bundle by its slots. The hooks of \<open>Logger\<close> and \<open>Observer\<close> have empty defaults; what a
  generated machine reports to them is part of its observations. Locks are values here: taking one
  is the owner's code.
\<close>

section \<open>Dispatch strategies and queues\<close>

record dispatch_strategy =
  strategy_dispatch :: "string \<Rightarrow> bool"
  strategy_candidate :: "string \<Rightarrow> string \<Rightarrow> nat \<Rightarrow> bool"

text \<open>The default method accepts every candidate; the three strategies accept every event.\<close>

definition default_candidate :: "string \<Rightarrow> string \<Rightarrow> nat \<Rightarrow> bool" where
  "default_candidate state event candidate = True"

definition JumpTable :: dispatch_strategy where
  "JumpTable = \<lparr>strategy_dispatch = (\<lambda>_. True), strategy_candidate = default_candidate\<rparr>"

definition BranchStm :: dispatch_strategy where
  "BranchStm = \<lparr>strategy_dispatch = (\<lambda>_. True), strategy_candidate = default_candidate\<rparr>"

definition SwitchStm :: dispatch_strategy where
  "SwitchStm = \<lparr>strategy_dispatch = (\<lambda>_. True), strategy_candidate = default_candidate\<rparr>"

definition DefaultQueuePolicy_new_queue :: "'e event_queue" where
  "DefaultQueuePolicy_new_queue = EventQueue_new 16"

section \<open>Bundles\<close>

record ('l, 'o, 'd, 't, 'dq, 'pq) policies_parts =
  part_logger :: 'l
  part_observer :: 'o
  part_testing :: 't
  part_defer_queue :: 'dq
  part_process_queue :: 'pq
  part_dispatch :: 'd

record ('l, 'o, 'd, 's, 't, 'dq, 'pq, 'sc) policies =
  logger :: 'l
  observer :: 'o
  thread_safe :: 's
  testing :: 't
  defer_queue :: 'dq
  process_queue :: 'pq
  dispatch :: 'd
  scheduler :: 'sc

definition Policies_with_dispatch ::
  "'d \<Rightarrow> 'l \<Rightarrow> 'o \<Rightarrow> 's \<Rightarrow> 't \<Rightarrow> 'dq \<Rightarrow> 'pq \<Rightarrow> ('l, 'o, 'd, 's, 't, 'dq, 'pq, unit) policies" where
  "Policies_with_dispatch d l ob s t dq pq =
     \<lparr>logger = l, observer = ob, thread_safe = s, testing = t, defer_queue = dq, process_queue = pq,
      dispatch = d, scheduler = ()\<rparr>"

text \<open>\<open>new\<close> takes the default of the dispatch type.\<close>

definition Policies_new ::
  "'d \<Rightarrow> 'l \<Rightarrow> 'o \<Rightarrow> 's \<Rightarrow> 't \<Rightarrow> 'dq \<Rightarrow> 'pq \<Rightarrow> ('l, 'o, 'd, 's, 't, 'dq, 'pq, unit) policies" where
  "Policies_new dispatch_default l ob s t dq pq = Policies_with_dispatch dispatch_default l ob s t dq pq"

definition Policies_into_parts ::
  "('l, 'o, 'd, 's, 't, 'dq, 'pq, unit) policies \<Rightarrow> ('l, 'o, 'd, 't, 'dq, 'pq) policies_parts \<times> 's" where
  "Policies_into_parts p =
     (\<lparr>part_logger = logger p, part_observer = observer p, part_testing = testing p,
       part_defer_queue = defer_queue p, part_process_queue = process_queue p, part_dispatch = dispatch p\<rparr>,
      thread_safe p)"

definition Policies_with_scheduler ::
  "'sc2 \<Rightarrow> ('l, 'o, 'd, 's, 't, 'dq, 'pq, 'sc) policies \<Rightarrow> ('l, 'o, 'd, 's, 't, 'dq, 'pq, 'sc2) policies" where
  "Policies_with_scheduler sc p =
     \<lparr>logger = logger p, observer = observer p, thread_safe = thread_safe p, testing = testing p,
      defer_queue = defer_queue p, process_queue = process_queue p, dispatch = dispatch p, scheduler = sc\<rparr>"

definition Policies_into_scheduler ::
  "('l, 'o, 'd, 's, 't, 'dq, 'pq, 'sc) policies \<Rightarrow> ('l, 'o, 'd, 's, 't, 'dq, 'pq, unit) policies \<times> 'sc" where
  "Policies_into_scheduler p = (Policies_with_scheduler () p, scheduler p)"

text \<open>The methods of the \<open>Policy\<close> trait for a bundle.\<close>

definition Policy_into_parts ::
  "('l, 'o, 'd, 's, 't, 'dq, 'pq, 'sc) policies \<Rightarrow> ('l, 'o, 'd, 't, 'dq, 'pq) policies_parts \<times> 's" where
  "Policy_into_parts p = (case Policies_into_scheduler p of (unscheduled, _) \<Rightarrow> Policies_into_parts unscheduled)"

definition Policy_into_scheduled_parts ::
  "('l, 'o, 'd, 's, 't, 'dq, 'pq, 'sc) policies \<Rightarrow> ('l, 'o, 'd, 't, 'dq, 'pq) policies_parts \<times> 's \<times> 'sc" where
  "Policy_into_scheduled_parts p =
     (case Policies_into_scheduler p of (unscheduled, sched) \<Rightarrow>
        case Policies_into_parts unscheduled of (parts, ts) \<Rightarrow> (parts, ts, sched))"

text \<open>\<open>NoPolicy\<close> has no queue slots: both queues are the default queue.\<close>

record no_policy_parts =
  none_logger :: unit
  none_observer :: unit
  none_testing :: unit
  none_dispatch :: dispatch_strategy

record no_policy = no_policy_parts +
  none_thread_safe :: unit

definition NoPolicy_default :: no_policy where
  "NoPolicy_default = \<lparr>none_logger = (), none_observer = (), none_testing = (), none_dispatch = JumpTable,
     none_thread_safe = ()\<rparr>"

definition NoPolicy_into_parts :: "no_policy \<Rightarrow> no_policy_parts \<times> unit" where
  "NoPolicy_into_parts p = (\<lparr>none_logger = none_logger p, none_observer = none_observer p,
     none_testing = none_testing p, none_dispatch = none_dispatch p\<rparr>, none_thread_safe p)"

definition NoPolicy_into_scheduled_parts :: "no_policy \<Rightarrow> no_policy_parts \<times> unit \<times> unit" where
  "NoPolicy_into_scheduled_parts p = (case NoPolicy_into_parts p of (parts, ts) \<Rightarrow> (parts, ts, ()))"

section \<open>What a machine relies on\<close>

text \<open>
  A machine takes its policy apart once, before it processes events: both ways of doing so give the
  same lock and parts with the bundle's own slots.
\<close>

locale policy_contract =
  fixes into_parts :: "'p \<Rightarrow> 'parts \<times> 's"
    and into_scheduled_parts :: "'p \<Rightarrow> 'parts \<times> 's \<times> 'sc"
    and slots :: "'p \<Rightarrow> 'l \<times> 'o \<times> 'd \<times> 't"
    and part_slots :: "'parts \<Rightarrow> 'l \<times> 'o \<times> 'd \<times> 't"
    and lock_slot :: "'p \<Rightarrow> 's"
  assumes split_slots: "part_slots (fst (into_parts p)) = slots p"
    and split_lock: "snd (into_parts p) = lock_slot p"
    and split_scheduled: "fst (into_scheduled_parts p) = fst (into_parts p)"
      "fst (snd (into_scheduled_parts p)) = snd (into_parts p)"
begin

lemma scheduled_slots:
  "into_scheduled_parts p = (parts, ts, sched) \<Longrightarrow> part_slots parts = slots p \<and> ts = lock_slot p"
  using split_slots split_lock split_scheduled by (metis fst_conv snd_conv)

end

interpretation slots_of: policy_contract Policy_into_parts Policy_into_scheduled_parts
  "\<lambda>p. (logger p, observer p, dispatch p, testing p)"
  "\<lambda>q. (part_logger q, part_observer q, part_dispatch q, part_testing q)" thread_safe
  by unfold_locales
    (simp_all add: Policy_into_parts_def Policy_into_scheduled_parts_def Policies_into_scheduler_def
      Policies_with_scheduler_def Policies_into_parts_def)

interpretation no_slots: policy_contract NoPolicy_into_parts NoPolicy_into_scheduled_parts
  "\<lambda>p. (none_logger p, none_observer p, none_dispatch p, none_testing p)"
  "\<lambda>q. (none_logger q, none_observer q, none_dispatch q, none_testing q)" none_thread_safe
  by unfold_locales (simp_all add: NoPolicy_into_parts_def NoPolicy_into_scheduled_parts_def)

text \<open>Replacing the scheduler slot changes no other part.\<close>

lemma with_scheduler_parts:
  "Policy_into_scheduled_parts (Policies_with_scheduler sc p) =
     (fst (Policy_into_parts p), snd (Policy_into_parts p), sc)"
  by (simp add: Policy_into_parts_def Policy_into_scheduled_parts_def Policies_into_scheduler_def
      Policies_with_scheduler_def Policies_into_parts_def)

section \<open>The macro \<open>sml_policies!\<close>\<close>

datatype policy_slot =
    LoggerSlot | ObserverSlot | DispatchSlot | ThreadSafeSlot | TestingSlot | DeferQueueSlot
  | ProcessQueueSlot | SchedulerSlot

fun slot_name :: "policy_slot \<Rightarrow> string" where
  "slot_name LoggerSlot = ''logger''"
| "slot_name ObserverSlot = ''observer''"
| "slot_name DispatchSlot = ''dispatch''"
| "slot_name ThreadSafeSlot = ''thread_safe''"
| "slot_name TestingSlot = ''testing''"
| "slot_name DeferQueueSlot = ''defer_queue''"
| "slot_name ProcessQueueSlot = ''process_queue''"
| "slot_name SchedulerSlot = ''scheduler''"

definition all_slots :: "policy_slot list" where
  "all_slots = [LoggerSlot, ObserverSlot, DispatchSlot, ThreadSafeSlot, TestingSlot, DeferQueueSlot,
     ProcessQueueSlot, SchedulerSlot]"

definition slot_of_name :: "string \<Rightarrow> policy_slot option" where
  "slot_of_name n = find (\<lambda>s. slot_name s = n) all_slots"

text \<open>The eight types that the expansion carries along.\<close>

type_synonym 'ty slot_types = "('ty, 'ty, 'ty, 'ty, 'ty, 'ty, 'ty, 'ty) policies"

fun set_slot :: "policy_slot \<Rightarrow> 'ty \<Rightarrow> 'ty slot_types \<Rightarrow> 'ty slot_types" where
  "set_slot LoggerSlot v b = b\<lparr>logger := v\<rparr>"
| "set_slot ObserverSlot v b = b\<lparr>observer := v\<rparr>"
| "set_slot DispatchSlot v b = b\<lparr>dispatch := v\<rparr>"
| "set_slot ThreadSafeSlot v b = b\<lparr>thread_safe := v\<rparr>"
| "set_slot TestingSlot v b = b\<lparr>testing := v\<rparr>"
| "set_slot DeferQueueSlot v b = b\<lparr>defer_queue := v\<rparr>"
| "set_slot ProcessQueueSlot v b = b\<lparr>process_queue := v\<rparr>"
| "set_slot SchedulerSlot v b = b\<lparr>scheduler := v\<rparr>"

fun slot_value :: "'ty slot_types \<Rightarrow> policy_slot \<Rightarrow> 'ty" where
  "slot_value b LoggerSlot = logger b"
| "slot_value b ObserverSlot = observer b"
| "slot_value b DispatchSlot = dispatch b"
| "slot_value b ThreadSafeSlot = thread_safe b"
| "slot_value b TestingSlot = testing b"
| "slot_value b DeferQueueSlot = defer_queue b"
| "slot_value b ProcessQueueSlot = process_queue b"
| "slot_value b SchedulerSlot = scheduler b"

text \<open>\<open>__sml_policy_check_duplicates!\<close>: the compile errors of the slots that were seen.\<close>

fun find_duplicate :: "policy_slot \<Rightarrow> policy_slot list \<Rightarrow> string list" where
  "find_duplicate s [] = []"
| "find_duplicate s (h # rest) =
     (if h = s then [''policy slot `'' @ slot_name s @ ''` may only be specified once'']
      else find_duplicate s rest)"

fun check_duplicates :: "policy_slot list \<Rightarrow> string list" where
  "check_duplicates [] = []"
| "check_duplicates (s # rest) = find_duplicate s rest @ check_duplicates rest"

definition policy_finish :: "'ty slot_types \<Rightarrow> policy_slot list \<Rightarrow> (string list, 'ty slot_types) rust_result" where
  "policy_finish b seen = (if check_duplicates seen = [] then Ok b else Err (check_duplicates seen))"

text \<open>
  \<open>__sml_policy_parse!\<close>: an entry is a name, its type and whether a comma follows. Only the last entry
  may go without one.
\<close>

fun policy_parse ::
  "'ty slot_types \<Rightarrow> policy_slot list \<Rightarrow> (string \<times> 'ty \<times> bool) list \<Rightarrow> (string list, 'ty slot_types) rust_result"
where
  "policy_parse b seen [] = policy_finish b seen"
| "policy_parse b seen ((name, v, comma) # rest) =
     (case slot_of_name name of
        None \<Rightarrow> Err [''no rules expected the token'']
      | Some s \<Rightarrow>
          if comma then policy_parse (set_slot s v b) (seen @ [s]) rest
          else if rest = [] then policy_finish (set_slot s v b) (seen @ [s])
          else Err [''no rules expected the token''])"

definition sml_policies_defaults :: "string slot_types" where
  "sml_policies_defaults =
     \<lparr>logger = ''()'', observer = ''()'', thread_safe = ''()'', testing = ''()'',
      defer_queue = ''DefaultQueuePolicy'', process_queue = ''DefaultQueuePolicy'',
      dispatch = ''JumpTable'', scheduler = ''()''\<rparr>"

definition sml_policies :: "(string \<times> string \<times> bool) list \<Rightarrow> (string list, string slot_types) rust_result" where
  "sml_policies slots = policy_parse sml_policies_defaults [] slots"

text \<open>Entries as they are written, with or without a comma after the last one.\<close>

fun slot_source :: "bool \<Rightarrow> (policy_slot \<times> 'ty) list \<Rightarrow> (string \<times> 'ty \<times> bool) list" where
  "slot_source trailing [] = []"
| "slot_source trailing [(s, v)] = [(slot_name s, v, trailing)]"
| "slot_source trailing ((s, v) # rest) = (slot_name s, v, True) # slot_source trailing rest"

lemma slot_of_slot_name [simp]: "slot_of_name (slot_name s) = Some s"
  by (cases s) (simp_all add: slot_of_name_def all_slots_def)

lemma find_duplicate_Nil: "find_duplicate s xs = [] \<longleftrightarrow> s \<notin> set xs"
  by (induction xs) auto

lemma check_duplicates_Nil: "check_duplicates xs = [] \<longleftrightarrow> distinct xs"
  by (induction xs) (auto simp: find_duplicate_Nil)

lemma slot_value_set [simp]: "slot_value (set_slot s v b) s' = (if s' = s then v else slot_value b s')"
  by (cases s; cases s') simp_all

lemma slot_types_eqI:
  assumes "\<And>s. slot_value b s = slot_value b' s"
  shows "b = b'"
  using assms [of LoggerSlot] assms [of ObserverSlot] assms [of DispatchSlot] assms [of ThreadSafeSlot]
    assms [of TestingSlot] assms [of DeferQueueSlot] assms [of ProcessQueueSlot] assms [of SchedulerSlot]
  by simp

lemma policy_parse_source:
  "policy_parse b seen (slot_source trailing slots) =
     policy_finish (fold (\<lambda>(s, v). set_slot s v) slots b) (seen @ map fst slots)"
  by (induction trailing slots arbitrary: b seen rule: slot_source.induct) simp_all

lemma slot_value_fold:
  "distinct (map fst slots) \<Longrightarrow>
    slot_value (fold (\<lambda>(s, v). set_slot s v) slots b) s =
      (case map_of slots s of None \<Rightarrow> slot_value b s | Some v \<Rightarrow> v)"
  by (induction slots arbitrary: b) (auto simp: image_iff split: option.split dest: map_of_SomeD)

text \<open>
  \<open>sml_policies!\<close> accepts slots in any order, with or without a trailing comma, exactly when no
  slot is named twice; the bundle then has the named type in every slot that is named and the
  allocation-free default in every other.
\<close>

theorem sml_policies_slots:
  "sml_policies (slot_source trailing slots) = Ok b \<longleftrightarrow>
     distinct (map fst slots) \<and>
     (\<forall>s. slot_value b s = (case map_of slots s of None \<Rightarrow> slot_value sml_policies_defaults s | Some v \<Rightarrow> v))"
proof (cases "distinct (map fst slots)")
  case True
  let ?b = "fold (\<lambda>(s, v). set_slot s v) slots sml_policies_defaults"
  have "sml_policies (slot_source trailing slots) = Ok ?b"
    using True by (simp add: sml_policies_def policy_parse_source policy_finish_def check_duplicates_Nil)
  moreover have "?b = b \<longleftrightarrow> (\<forall>s. slot_value b s = slot_value ?b s)" by (auto intro: slot_types_eqI)
  ultimately show ?thesis using True by (simp add: slot_value_fold)
next
  case False
  then show ?thesis
    by (simp add: sml_policies_def policy_parse_source policy_finish_def check_duplicates_Nil)
qed

end
