(* ===== verification/Validation.thy ===== *)
theory Validation
  imports Parsed_Correctness
begin

text \<open>
  macros/src/validation.rs: the checks on a parsed machine before code is generated. A callback has
  one signature over all its uses, and no row of a mapping follows an unguarded one. The maps of the
  code are walked in an order that Rust leaves open; here it is the order of the association lists.
\<close>

section \<open>Signatures\<close>

record signature =
  sg_arguments :: "rust_type list"
  sg_result :: "rust_type option"
  sg_async :: bool

definition FunctionSignature_new ::
  "rust_type option \<Rightarrow> rust_type option \<Rightarrow> rust_type option \<Rightarrow> bool \<Rightarrow> signature" where
  "FunctionSignature_new input_data event_data output_data async =
     \<lparr>sg_arguments = option_list input_data @ option_list event_data, sg_result = output_data, sg_async = async\<rparr>"

definition FunctionSignature_new_guard :: "rust_type option \<Rightarrow> rust_type option \<Rightarrow> bool \<Rightarrow> signature" where
  "FunctionSignature_new_guard input_state event async = FunctionSignature_new input_state event None async"

text \<open>A use of a callback: its name, the signature it has there, and the error if it had another before.\<close>

record callback_use =
  use_name :: string
  use_signature :: signature
  use_error :: string

definition register_use ::
  "callback_use \<Rightarrow> (string \<times> signature) list \<Rightarrow> (string, (string \<times> signature) list) rust_result" where
  "register_use u known =
     (case map_of known (use_name u) of
        None \<Rightarrow> Ok (AList.update (use_name u) (use_signature u) known)
      | Some registered \<Rightarrow> if registered \<noteq> use_signature u then Err (use_error u) else Ok known)"

section \<open>Actions\<close>

fun action_uses_from ::
  "rust_type option \<Rightarrow> rust_type option \<Rightarrow> rust_type option \<Rightarrow> async_ident list \<Rightarrow> callback_use list" where
  "action_uses_from i e out [] = []"
| "action_uses_from i e out (a # as) =
     \<lparr>use_name = ident a,
      use_signature = FunctionSignature_new i e (if as = [] then out else None) (is_async a),
      use_error = ''Action `'' @ ident a @
        ''` can only be reused when all input states, events, and output states have the same data''\<rparr>
     # action_uses_from i e out as"

definition eval_use :: "rust_type option \<Rightarrow> rust_type option \<Rightarrow> eval_action \<Rightarrow> callback_use" where
  "eval_use i e x =
     \<lparr>use_name = ident (ea_action x), use_signature = FunctionSignature_new i e None (is_async (ea_action x)),
      use_error = ''Eval action `'' @ ident (ea_action x) @ ''` has incompatible input state or event data''\<rparr>"

text \<open>The output data is looked up by the key of the mapping, as the code does.\<close>

definition mapping_action_uses :: "parsed_state_machine \<Rightarrow> string \<Rightarrow> string \<Rightarrow> event_mapping \<Rightarrow> callback_use list" where
  "mapping_action_uses sm in_state key m =
     (let i = map_of (data_types (p_state_data sm)) in_state;
          out = map_of (data_types (p_state_data sm)) key;
          e = map_of (data_types (p_event_data sm)) (m_event m)
      in concat (map (\<lambda>t. action_uses_from i e out (transition_actions t) @ map (eval_use i e) (t_eval_actions t))
           (m_transitions m)))"

definition over_mappings ::
  "parsed_state_machine \<Rightarrow> (string \<Rightarrow> string \<Rightarrow> event_mapping \<Rightarrow> 'a list) \<Rightarrow> 'a list" where
  "over_mappings sm f =
     concat (map (\<lambda>(s, ms). concat (map (\<lambda>(k, m). f s k m) ms)) (p_states_events_mapping sm))"

definition validate_action_signatures :: "parsed_state_machine \<Rightarrow> (string, unit) rust_result" where
  "validate_action_signatures sm =
     try_then (try_fold register_use (over_mappings sm (mapping_action_uses sm)) []) (\<lambda>_. Ok ())"

section \<open>Guards\<close>

definition guard_use ::
  "(string \<Rightarrow> string) \<Rightarrow> rust_type option \<Rightarrow> rust_type option \<Rightarrow> async_ident \<Rightarrow> callback_use" where
  "guard_use msg i e g =
     \<lparr>use_name = ident g, use_signature = FunctionSignature_new_guard i e (is_async g), use_error = msg (ident g)\<rparr>"

definition guard_error :: "string \<Rightarrow> string" where
  "guard_error g = ''Guard `'' @ g @ ''` can only be reused when all input states and events have the same data''"

definition eval_guard_error :: "string \<Rightarrow> string" where
  "eval_guard_error g = ''Eval guard `'' @ g @ ''` has incompatible input state or event data''"

text \<open>\<open>visit_guards\<close> hands the guards of an expression to the check from the last to the first.\<close>

definition visit_guard_uses ::
  "(async_ident \<Rightarrow> callback_use) \<Rightarrow> guard_expression \<Rightarrow> (string \<times> signature) list
    \<Rightarrow> (string, (string \<times> signature) list) rust_result" where
  "visit_guard_uses f g known = visit_guards g (\<lambda>x. register_use (f x)) known"

definition mapping_guard_checks ::
  "parsed_state_machine \<Rightarrow> string \<Rightarrow> string \<Rightarrow> event_mapping \<Rightarrow> ((async_ident \<Rightarrow> callback_use) \<times> guard_expression) list" where
  "mapping_guard_checks sm in_state key m =
     (let i = map_of (data_types (p_state_data sm)) in_state;
          e = map_of (data_types (p_event_data sm)) (m_event m)
      in concat (map (\<lambda>t. map (Pair (guard_use guard_error i e)) (option_list (t_guard t)) @
             map (\<lambda>x. (guard_use eval_guard_error i e, ea_guard x)) (t_eval_actions t))
           (m_transitions m)))"

definition validate_guard_signatures :: "parsed_state_machine \<Rightarrow> (string, unit) rust_result" where
  "validate_guard_signatures sm =
     try_then (try_fold (\<lambda>(f, g). visit_guard_uses f g) (over_mappings sm (mapping_guard_checks sm)) []) (\<lambda>_. Ok ())"

section \<open>Unreachable rows\<close>

fun unreachable_rows :: "string \<Rightarrow> nat \<Rightarrow> transition list \<Rightarrow> (string, unit) rust_result" where
  "unreachable_rows site unguarded [] = Ok ()"
| "unreachable_rows site unguarded (t # ts) =
     (case t_guard t of
        Some g \<Rightarrow>
          if 0 < unguarded
          then Err (site @ '': ['' @ GuardExpression_fmt g @
            ''] : guarded transition is unreachable because it follows an unguarded transition, which handles all cases'')
          else unreachable_rows site unguarded ts
      | None \<Rightarrow>
          if 1 < Suc unguarded
          then Err (site @ '': State and event combination specified multiple times, remove duplicates.'')
          else unreachable_rows site (Suc unguarded) ts)"

definition validate_mapping :: "string \<Rightarrow> string \<Rightarrow> event_mapping \<Rightarrow> (string, unit) rust_result" where
  "validate_mapping in_state key m =
     (if 1 < length (m_transitions m)
      then unreachable_rows (in_state @ '' + '' @ key) 0 (m_transitions m) else Ok ())"

definition validate_unreachable_transitions :: "parsed_state_machine \<Rightarrow> (string, unit) rust_result" where
  "validate_unreachable_transitions sm =
     try_fold (\<lambda>r _. r) (over_mappings sm (\<lambda>s k m. [validate_mapping s k m])) ()"

definition validate :: "parsed_state_machine \<Rightarrow> (string, unit) rust_result" where
  "validate sm =
     try_then (validate_action_signatures sm) (\<lambda>_.
     try_then (validate_guard_signatures sm) (\<lambda>_.
     validate_unreachable_transitions sm))"

section \<open>What is accepted\<close>

text \<open>Uses are consistent when equal names have equal signatures.\<close>

definition consistent_uses :: "callback_use list \<Rightarrow> bool" where
  "consistent_uses us \<longleftrightarrow>
     (\<forall>u \<in> set us. \<forall>v \<in> set us. use_name u = use_name v \<longrightarrow> use_signature u = use_signature v)"

definition known_as :: "(string \<times> signature) list \<Rightarrow> callback_use \<Rightarrow> bool" where
  "known_as known u \<longleftrightarrow> map_of known (use_name u) \<in> {None, Some (use_signature u)}"

lemma register_use_Ok:
  "register_use u known = Ok known' \<longleftrightarrow>
     known_as known u \<and> known' = (if map_of known (use_name u) = None
       then AList.update (use_name u) (use_signature u) known else known)"
  by (auto simp: register_use_def known_as_def split: option.splits)

lemma consistent_uses_Cons:
  "consistent_uses (u # us) \<longleftrightarrow> consistent_uses us \<and>
     (\<forall>v \<in> set us. use_name v = use_name u \<longrightarrow> use_signature v = use_signature u)"
  unfolding consistent_uses_def list.set by (metis insert_iff)

lemma register_uses_Ok:
  "is_ok (try_fold register_use us known) \<longleftrightarrow> consistent_uses us \<and> list_all (known_as known) us"
proof (induction us arbitrary: known)
  case Nil
  show ?case by (simp add: consistent_uses_def)
next
  case (Cons u us)
  show ?case
  proof (cases "known_as known u")
    case False
    then obtain e where "register_use u known = Err e"
      by (auto simp: register_use_def known_as_def split: option.splits)
    with False show ?thesis by simp
  next
    case True
    define known' where "known' = (if map_of known (use_name u) = None
        then AList.update (use_name u) (use_signature u) known else known)"
    have run: "register_use u known = Ok known'" using True by (simp add: register_use_Ok known'_def)
    have "known_as known' v \<longleftrightarrow> known_as known v \<and> (use_name v = use_name u \<longrightarrow> use_signature v = use_signature u)" for v
      using True by (cases "map_of known (use_name u)") (auto simp: known'_def known_as_def update_conv')
    then have "list_all (known_as known') us \<longleftrightarrow> list_all (known_as known) us \<and>
        (\<forall>v \<in> set us. use_name v = use_name u \<longrightarrow> use_signature v = use_signature u)"
      unfolding list_all_iff by blast
    with run True Cons.IH [of known'] show ?thesis by (simp add: consistent_uses_Cons) blast
  qed
qed

lemma known_as_Nil [simp]: "list_all (known_as []) us"
  by (simp add: list_all_iff known_as_def)

lemma try_fold_concat:
  "try_fold (\<lambda>x. try_fold f (g x)) xs s = try_fold f (concat (map g xs)) s"
  by (induction xs arbitrary: s) (auto simp: try_fold_append try_then_def split: sum.splits)

lemma try_fold_map: "try_fold f (map g xs) s = try_fold (\<lambda>x. f (g x)) xs s"
  by (induction xs arbitrary: s) (auto simp: try_then_def split: sum.splits)

text \<open>All guard uses of a machine, in the order in which they are checked.\<close>

definition guard_uses :: "parsed_state_machine \<Rightarrow> callback_use list" where
  "guard_uses sm = concat (map (\<lambda>(f, g). map f (rev (guards_of g))) (over_mappings sm (mapping_guard_checks sm)))"

lemma visit_guard_uses_fold: "visit_guard_uses f g = try_fold register_use (map f (rev (guards_of g)))"
  by (rule ext) (simp add: visit_guard_uses_def visit_guards_fold try_fold_map)

lemma validate_guard_signatures_fold:
  "validate_guard_signatures sm = try_then (try_fold register_use (guard_uses sm) []) (\<lambda>_. Ok ())"
  unfolding validate_guard_signatures_def guard_uses_def try_fold_concat [symmetric]
  by (simp add: visit_guard_uses_fold case_prod_beta')

lemma unreachable_rows_after: "0 < n \<Longrightarrow> is_ok (unreachable_rows w n ts) \<longleftrightarrow> ts = []"
  by (cases ts) (simp_all split: option.split)

lemma unreachable_rows_Ok:
  "is_ok (unreachable_rows w 0 ts) \<longleftrightarrow> list_all (\<lambda>t. t_guard t \<noteq> None) (butlast ts)"
proof (induction ts)
  case (Cons t ts)
  have "is_ok (unreachable_rows w 0 (t # ts)) \<longleftrightarrow>
      (case t_guard t of None \<Rightarrow> ts = [] | Some g \<Rightarrow> is_ok (unreachable_rows w 0 ts))"
    by (subst unreachable_rows.simps) (simp add: unreachable_rows_after split: option.split del: unreachable_rows.simps)
  with Cons.IH show ?case by (cases "t_guard t"; cases ts) simp_all
qed simp

lemma validate_mapping_Ok:
  "is_ok (validate_mapping s k m) \<longleftrightarrow> list_all (\<lambda>t. t_guard t \<noteq> None) (butlast (m_transitions m))"
proof (cases "1 < length (m_transitions m)")
  case True
  then show ?thesis unfolding validate_mapping_def by (simp only: if_True unreachable_rows_Ok)
next
  case False
  then have "butlast (m_transitions m) = []" by (cases "m_transitions m") auto
  with False show ?thesis by (simp add: validate_mapping_def)
qed

lemma is_ok_try_fold_const: "is_ok (try_fold (\<lambda>r _. r) rs ()) \<longleftrightarrow> list_all is_ok rs"
proof (induction rs)
  case (Cons r rs)
  then show ?case by (cases r) simp_all
qed simp

lemma list_all_over_mappings:
  "list_all P (over_mappings sm f) \<longleftrightarrow>
     (\<forall>(s, ms) \<in> set (p_states_events_mapping sm). \<forall>(k, m) \<in> set ms. list_all P (f s k m))"
  unfolding over_mappings_def list_all_iff by fastforce

lemma all_mappings_over: "all_mappings (p_states_events_mapping sm) = over_mappings sm (\<lambda>s k m. [m])"
proof -
  have "map snd ms = concat (map (\<lambda>(k, m). [m]) ms)" for ms :: event_mappings by (induction ms) auto
  then show ?thesis by (simp add: all_mappings_def over_mappings_def)
qed

lemma validate_unreachable_Ok:
  "is_ok (validate_unreachable_transitions sm) \<longleftrightarrow>
     list_all (\<lambda>m. list_all (\<lambda>t. t_guard t \<noteq> None) (butlast (m_transitions m)))
       (all_mappings (p_states_events_mapping sm))"
  unfolding validate_unreachable_transitions_def is_ok_try_fold_const all_mappings_over list_all_over_mappings
  by (simp add: validate_mapping_Ok)

lemma is_ok_try_then: "is_ok (try_then r k) \<longleftrightarrow> (\<exists>a. r = Ok a \<and> is_ok (k a))"
  by (cases r) simp_all

lemma is_ok_discard: "is_ok (try_then r (\<lambda>_. Ok ())) \<longleftrightarrow> is_ok r"
  by (cases r) simp_all

section \<open>Occurrences of callbacks\<close>

text \<open>
  The payloads of a mapping: that of its source state, then that of its event. A guard occurs in the
  guard of a row or in that of an \<open>eval\<close>; an action is one of the actions of a row, of which the last
  produces the output data, or belongs to an \<open>eval\<close>. The output data is the one under the key of the
  mapping, which names an event.
\<close>

definition payloads :: "parsed_state_machine \<Rightarrow> string \<Rightarrow> event_mapping \<Rightarrow> rust_type list" where
  "payloads p s m = option_list (map_of (data_types (p_state_data p)) s) @ option_list (map_of (data_types (p_event_data p)) (m_event m))"

inductive row_at :: "parsed_state_machine \<Rightarrow> string \<Rightarrow> string \<Rightarrow> event_mapping \<Rightarrow> transition \<Rightarrow> bool" for p where
  "(s, ms) \<in> set (p_states_events_mapping p) \<Longrightarrow> (k, m) \<in> set ms \<Longrightarrow> t \<in> set (m_transitions m) \<Longrightarrow> row_at p s k m t"

inductive_simps row_at_iff: "row_at p s k m t"

inductive guard_occurs :: "parsed_state_machine \<Rightarrow> string \<Rightarrow> signature \<Rightarrow> bool" for p where
  in_row: "row_at p s k m t \<Longrightarrow> t_guard t = Some g \<Longrightarrow> x \<in> set (guards_of g) \<Longrightarrow>
    guard_occurs p (ident x) \<lparr>sg_arguments = payloads p s m, sg_result = None, sg_async = is_async x\<rparr>"
| in_eval: "row_at p s k m t \<Longrightarrow> y \<in> set (t_eval_actions t) \<Longrightarrow> x \<in> set (guards_of (ea_guard y)) \<Longrightarrow>
    guard_occurs p (ident x) \<lparr>sg_arguments = payloads p s m, sg_result = None, sg_async = is_async x\<rparr>"

inductive action_occurs :: "parsed_state_machine \<Rightarrow> string \<Rightarrow> signature \<Rightarrow> bool" for p where
  of_row: "row_at p s k m t \<Longrightarrow> as = option_list (t_action t) @ t_additional_actions t \<Longrightarrow> j < length as \<Longrightarrow>
    action_occurs p (ident (as ! j)) \<lparr>sg_arguments = payloads p s m,
      sg_result = (if Suc j = length as then map_of (data_types (p_state_data p)) k else None), sg_async = is_async (as ! j)\<rparr>"
| of_eval: "row_at p s k m t \<Longrightarrow> y \<in> set (t_eval_actions t) \<Longrightarrow>
    action_occurs p (ident (ea_action y)) \<lparr>sg_arguments = payloads p s m, sg_result = None, sg_async = is_async (ea_action y)\<rparr>"

inductive_simps guard_occurs_iff: "guard_occurs p n sg"
inductive_simps action_occurs_iff: "action_occurs p n sg"

lemma in_over_mappings:
  "x \<in> set (over_mappings p f) \<longleftrightarrow>
     (\<exists>s ms k m. (s, ms) \<in> set (p_states_events_mapping p) \<and> (k, m) \<in> set ms \<and> x \<in> set (f s k m))"
  by (fastforce simp: over_mappings_def)

lemma over_rows:
  "(\<exists>x \<in> set (over_mappings p (\<lambda>s k m. concat (map (f s k m) (m_transitions m)))). P x) \<longleftrightarrow>
     (\<exists>s k m t. row_at p s k m t \<and> (\<exists>x \<in> set (f s k m t). P x))" (is "?all \<longleftrightarrow> ?rows")
proof
  assume ?all
  then obtain x where "x \<in> set (over_mappings p (\<lambda>s k m. concat (map (f s k m) (m_transitions m))))" "P x" by blast
  then obtain s ms k m t where "(s, ms) \<in> set (p_states_events_mapping p)" "(k, m) \<in> set ms" "t \<in> set (m_transitions m)"
      "x \<in> set (f s k m t)" by (auto simp: in_over_mappings)
  with \<open>P x\<close> show ?rows using row_at.intros by blast
next
  assume ?rows
  then obtain s k m t x where "row_at p s k m t" and x: "x \<in> set (f s k m t)" "P x" by blast
  then obtain ms where "(s, ms) \<in> set (p_states_events_mapping p)" "(k, m) \<in> set ms" "t \<in> set (m_transitions m)"
    by (auto simp: row_at_iff)
  with x(1) have "x \<in> set (over_mappings p (\<lambda>s k m. concat (map (f s k m) (m_transitions m))))"
    unfolding in_over_mappings by (intro exI [of _ s] exI [of _ ms] exI [of _ k] exI [of _ m]) auto
  with x(2) show ?all by blast
qed

text \<open>Uses that are checked and occurrences are the same.\<close>

definition uses_are :: "callback_use list \<Rightarrow> (string \<Rightarrow> signature \<Rightarrow> bool) \<Rightarrow> bool" where
  "uses_are us occurs \<longleftrightarrow> (\<forall>n sg. occurs n sg \<longleftrightarrow> (\<exists>u \<in> set us. use_name u = n \<and> use_signature u = sg))"

lemma uses_are_consistent: "uses_are us occurs \<Longrightarrow> consistent_uses us \<longleftrightarrow> right_unique occurs"
  unfolding uses_are_def consistent_uses_def right_unique_def by metis

lemma in_option_list: "x \<in> set (option_list r) \<longleftrightarrow> r = Some x"
  by (auto simp: option_list_def split: option.split)

lemma own_action_uses:
  "(\<exists>u \<in> set (action_uses_from i e out as). use_name u = n \<and> use_signature u = sg) \<longleftrightarrow>
     (\<exists>j < length as. ident (as ! j) = n \<and> \<lparr>sg_arguments = option_list i @ option_list e,
        sg_result = (if Suc j = length as then out else None), sg_async = is_async (as ! j)\<rparr> = sg)"
  by (induction as) (simp_all add: Ex_less_Suc2 FunctionSignature_new_def)

lemma eval_action_uses:
  "(\<exists>u \<in> set (map (eval_use i e) ys). use_name u = n \<and> use_signature u = sg) \<longleftrightarrow>
     (\<exists>y \<in> set ys. ident (ea_action y) = n \<and>
        \<lparr>sg_arguments = option_list i @ option_list e, sg_result = None, sg_async = is_async (ea_action y)\<rparr> = sg)"
  by (simp add: eval_use_def FunctionSignature_new_def)

lemma action_occurs_rows:
  "action_occurs p n sg \<longleftrightarrow> (\<exists>s k m t. row_at p s k m t \<and>
     ((\<exists>j < length (transition_actions t). ident (transition_actions t ! j) = n \<and> \<lparr>sg_arguments = payloads p s m,
        sg_result = (if Suc j = length (transition_actions t) then map_of (data_types (p_state_data p)) k else None),
        sg_async = is_async (transition_actions t ! j)\<rparr> = sg) \<or>
      (\<exists>y \<in> set (t_eval_actions t). ident (ea_action y) = n \<and>
        \<lparr>sg_arguments = payloads p s m, sg_result = None, sg_async = is_async (ea_action y)\<rparr> = sg)))" (is "_ \<longleftrightarrow> ?rows")
proof -
  have acts: "transition_actions t = option_list (t_action t) @ t_additional_actions t" for t :: transition
    by (simp add: transition_actions_def option_list_def)
  show ?thesis
  proof
    assume "action_occurs p n sg"
    then show ?rows
    proof cases
      case (of_row s k m t as j)
      show ?thesis
        by (intro exI [of _ s] exI [of _ k] exI [of _ m] exI [of _ t] conjI disjI1 exI [of _ j])
          (use of_row in \<open>simp_all add: acts\<close>)
    next
      case (of_eval s k m t y)
      then show ?thesis by blast
    qed
  next
    assume ?rows
    then show "action_occurs p n sg" using of_row [OF _ acts] of_eval by blast
  qed
qed

lemma bex_append: "(\<exists>u \<in> set (xs @ ys). P u) \<longleftrightarrow> (\<exists>u \<in> set xs. P u) \<or> (\<exists>u \<in> set ys. P u)"
  by auto

lemma action_uses_are: "uses_are (over_mappings p (mapping_action_uses p)) (action_occurs p)"
  unfolding uses_are_def mapping_action_uses_def Let_def over_rows bex_append own_action_uses eval_action_uses action_occurs_rows payloads_def
  by blast

lemma guard_use_name: "use_name (guard_use f i e x) = ident x"
  by (simp add: guard_use_def)

lemma guard_use_signature:
  "use_signature (guard_use f i e x) = \<lparr>sg_arguments = option_list i @ option_list e, sg_result = None, sg_async = is_async x\<rparr>"
  by (simp add: guard_use_def FunctionSignature_new_guard_def FunctionSignature_new_def)

lemma row_guard_uses:
  "(\<exists>u \<in> set (concat (map (\<lambda>(f, g). map f (rev (guards_of g)))
       (map (Pair (guard_use a i e)) (option_list r) @ map (\<lambda>x. (guard_use b i e, ea_guard x)) ys))).
     use_name u = n \<and> use_signature u = sg) \<longleftrightarrow>
   (\<exists>g \<in> set (option_list r @ map ea_guard ys). \<exists>x \<in> set (guards_of g). ident x = n \<and>
     \<lparr>sg_arguments = option_list i @ option_list e, sg_result = None, sg_async = is_async x\<rparr> = sg)"
  by (simp only: set_concat set_map set_append set_rev bex_UN bex_Un image_image bex_simps image_Un case_prod_conv
      guard_use_name guard_use_signature Union_Un_distrib)

lemma guard_occurs_rows:
  "guard_occurs p n sg \<longleftrightarrow> (\<exists>s k m t. row_at p s k m t \<and>
     (\<exists>g \<in> set (option_list (t_guard t) @ map ea_guard (t_eval_actions t)). \<exists>x \<in> set (guards_of g). ident x = n \<and>
       \<lparr>sg_arguments = payloads p s m, sg_result = None, sg_async = is_async x\<rparr> = sg))" (is "_ \<longleftrightarrow> ?rows")
proof
  assume "guard_occurs p n sg"
  then show ?rows
  proof cases
    case (in_row s k m t g x)
    then show ?thesis by (intro exI conjI bexI [of _ g] bexI [of _ x]) (auto simp: in_option_list)
  next
    case (in_eval s k m t y x)
    then show ?thesis by (intro exI conjI bexI [of _ "ea_guard y"] bexI [of _ x]) (auto simp: in_option_list)
  qed
next
  assume ?rows
  then obtain s k m t g x where at: "row_at p s k m t" and g: "g \<in> set (option_list (t_guard t) @ map ea_guard (t_eval_actions t))"
      and x: "x \<in> set (guards_of g)" and eqs: "ident x = n"
        "\<lparr>sg_arguments = payloads p s m, sg_result = None, sg_async = is_async x\<rparr> = sg" by blast
  from g consider "t_guard t = Some g" | y where "y \<in> set (t_eval_actions t)" "g = ea_guard y" by (auto simp: in_option_list)
  then show "guard_occurs p n sg" unfolding eqs [symmetric] using at x by cases (auto intro: guard_occurs.intros)
qed

lemma concat_map_concat: "concat (map h (concat (map f xs))) = concat (map (\<lambda>x. concat (map h (f x))) xs)"
  by (induction xs) simp_all

lemma concat_over_mappings: "concat (map h (over_mappings p f)) = over_mappings p (\<lambda>s k m. concat (map h (f s k m)))"
  by (simp add: over_mappings_def concat_map_concat case_prod_beta')

text \<open>The guards of a row with their checks.\<close>

lemma guard_uses_rows:
  "guard_uses p = over_mappings p (\<lambda>s k m. concat (map (\<lambda>t. concat (map (\<lambda>(f, g). map f (rev (guards_of g)))
     (let i = map_of (data_types (p_state_data p)) s; e = map_of (data_types (p_event_data p)) (m_event m) in
      map (Pair (guard_use guard_error i e)) (option_list (t_guard t)) @
      map (\<lambda>x. (guard_use eval_guard_error i e, ea_guard x)) (t_eval_actions t)))) (m_transitions m)))"
  unfolding guard_uses_def mapping_guard_checks_def concat_over_mappings
  by (simp only: Let_def concat_map_concat)

lemma guard_uses_are: "uses_are (guard_uses p) (guard_occurs p)"
  unfolding uses_are_def guard_uses_rows Let_def over_rows row_guard_uses guard_occurs_rows payloads_def
  by blast

lemma validated_actions: "is_ok (validate_action_signatures p) \<longleftrightarrow> right_unique (action_occurs p)"
  using uses_are_consistent [OF action_uses_are]
  by (simp add: validate_action_signatures_def is_ok_discard register_uses_Ok)

lemma validated_guards: "is_ok (validate_guard_signatures p) \<longleftrightarrow> right_unique (guard_occurs p)"
  using uses_are_consistent [OF guard_uses_are]
  by (simp add: validate_guard_signatures_fold is_ok_discard register_uses_Ok)

lemma validate_Ok:
  "validate p = Ok () \<longleftrightarrow> is_ok (validate_action_signatures p) \<and> is_ok (validate_guard_signatures p) \<and>
     is_ok (validate_unreachable_transitions p)"
  by (cases "validate p") (auto simp: validate_def is_ok_iff try_then_Inr_iff try_then_def split: sum.splits)

text \<open>
  C37. \<open>validate\<close> accepts a parsed machine exactly when every name of an action has one signature and every
  name of a guard has one, over all its occurrences in the guards, actions and \<open>eval\<close>s of all rows, and
  all rows of a mapping but the last are guarded, so that none is shadowed by an earlier one. A
  signature is the list of the payload types of state and event, the asynchrony and, for the last
  action of a row, the data type found under the key of the mapping.
\<close>

theorem validate_iff:
  "validate p = Ok () \<longleftrightarrow> right_unique (action_occurs p) \<and> right_unique (guard_occurs p) \<and>
     list_all (\<lambda>m. list_all (\<lambda>t. t_guard t \<noteq> None) (butlast (m_transitions m)))
       (all_mappings (p_states_events_mapping p))"
  by (simp only: validate_Ok validated_actions validated_guards validate_unreachable_Ok)

section \<open>Output data is not compared\<close>

text \<open>
  The output data of an action is looked up under the key of the event. Two uses of \<open>make\<close> that
  provide different payload types pass the check.
\<close>

abbreviation named_type :: "string \<Rightarrow> rust_type" where
  "named_type n \<equiv> TypePath None False [PathSegment n []]"

definition maker :: state_machine where
  "maker = StateMachine_new\<lparr>transitions :=
     [(table_row True ''Start'' ''First'' (Some ''make'') ''One'')\<lparr>st_out := (to_state ''One'')\<lparr>out_data_type := Some (named_type ''u8'')\<rparr>\<rparr>,
      (table_row False ''Start'' ''Second'' (Some ''make'') ''Two'')\<lparr>st_out := (to_state ''Two'')\<lparr>out_data_type := Some (named_type ''u64'')\<rparr>\<rparr>]\<rparr>"

lemma validate_accepts_two_outputs:
  "\<exists>p. ParsedStateMachine_new maker = Ok p \<and> validate p = Ok () \<and>
     map_of (data_types (p_state_data p)) ''One'' \<noteq> map_of (data_types (p_state_data p)) ''Two'' \<and>
     map t_action (transitions_at (p_states_events_mapping p) ''Start'' ''First'') =
       map t_action (transitions_at (p_states_events_mapping p) ''Start'' ''Second'')"
proof -
  let ?p = "case ParsedStateMachine_new maker of Inr p \<Rightarrow> p | Inl _ \<Rightarrow> door"
  have "ParsedStateMachine_new maker = Ok ?p" "validate ?p = Ok ()"
    "map_of (data_types (p_state_data ?p)) ''One'' \<noteq> map_of (data_types (p_state_data ?p)) ''Two''"
    "map t_action (transitions_at (p_states_events_mapping ?p) ''Start'' ''First'') =
       map t_action (transitions_at (p_states_events_mapping ?p) ''Start'' ''Second'')"
    by code_simp+
  then show ?thesis by blast
qed

end
