(* ===== verification/Cpp_Syntax.thy ===== *)
theory Cpp_Syntax
  imports Action_Order
begin

text \<open>
  The front end of \<open>sml!\<close>, macros/src/parser/cpp.rs: machine headers, the division of a body into
  rows, the normal form of a row (target on the right, anonymous rows as completions), and the
  choice of generator in macros/src/lib.rs. Generics and \<open>where\<close> clauses are read by \<open>syn\<close>, whose
  parsers are parameters.
\<close>

section \<open>Rows\<close>

fun punct_char :: "token \<Rightarrow> char option" where
  "punct_char (Punct c j) = Some c"
| "punct_char t = None"

definition starts_with_punct :: "char \<Rightarrow> token list \<Rightarrow> bool" where
  "starts_with_punct c ts = (case ts of [] \<Rightarrow> False | t # _ \<Rightarrow> punct_char t = Some c)"

text \<open>The loop over the tokens of the body, with the angle depth and the row so far.\<close>

fun split_loop :: "token list \<Rightarrow> nat \<Rightarrow> token list \<Rightarrow> token list list" where
  "split_loop [] depth row = (if row = [] then [] else [row])"
| "split_loop (t # ts) depth row =
     (if punct_char t = Some CHR ''<'' \<and> \<not> starts_with_punct CHR ''='' ts
      then split_loop ts (Suc depth) (row @ [t])
      else if punct_char t = Some CHR ''>'' \<and> 0 < depth
      then split_loop ts (depth - 1) (row @ [t])
      else if punct_char t = Some CHR '','' \<and> depth = 0
      then (if row = [] then split_loop ts depth [] else row # split_loop ts depth [])
      else split_loop ts depth (row @ [t]))"

definition split_transitions :: "token list \<Rightarrow> token list list" where
  "split_transitions body = split_loop body 0 []"

text \<open>The first position of a \<open><\<close> that is followed by a \<open>=\<close>.\<close>

fun reverse_arrow :: "token list \<Rightarrow> nat option" where
  "reverse_arrow (t # u # ts) =
     (if punct_char t = Some CHR ''<'' \<and> punct_char u = Some CHR ''='' then Some 0
      else map_option Suc (reverse_arrow (u # ts)))"
| "reverse_arrow ts = None"

definition normalize_direction :: "token list \<Rightarrow> token list" where
  "normalize_direction ts =
     (case reverse_arrow ts of
        None \<Rightarrow> ts
      | Some index \<Rightarrow> drop (index + 2) ts @ Punct CHR ''='' False # take index ts)"

text \<open>Where the trigger of an anonymous row goes: before the actions, the target or the guard.\<close>

fun ends_source :: "token \<Rightarrow> bool" where
  "ends_source (Punct c j) = (c = CHR ''/'' \<or> c = CHR ''='')"
| "ends_source (Group d ts) = (d = Bracket)"
| "ends_source t = False"

fun insertion_point :: "token list \<Rightarrow> nat option" where
  "insertion_point [] = None"
| "insertion_point (t # ts) = (if ends_source t then Some 0 else map_option Suc (insertion_point ts))"

definition completion_trigger :: "token list" where
  "completion_trigger =
     [Punct CHR ''+'' False, Ident ''completion'', Punct CHR ''<'' False, Ident ''_'', Punct CHR ''>'' False]"

definition has_trigger :: "token list \<Rightarrow> bool" where
  "has_trigger ts \<longleftrightarrow> list_ex (\<lambda>t. punct_char t = Some CHR ''+'') ts"

definition normalize_transition :: "token list \<Rightarrow> token list" where
  "normalize_transition row =
     (let ts = normalize_direction row in
      if has_trigger ts then ts
      else case insertion_point ts of
          None \<Rightarrow> ts
        | Some i \<Rightarrow> take i ts @ completion_trigger @ drop i ts)"

section \<open>Machines\<close>

record event_generic =
  eg_param :: generic_param
  eg_default :: bool

record cpp_parsers = syn_parsers +
  syn_generics :: "token list \<Rightarrow> event_generic list parsed"
  syn_where :: "token list \<Rightarrow> unit parsed"

definition parse_machine_name :: "token list \<Rightarrow> string option parsed" where
  "parse_machine_name ts =
     (case eat_word ''_'' ts of
        Some ts' \<Rightarrow> Ok (None, ts')
      | None \<Rightarrow> try_then (parse_ident ts) (\<lambda>(i, ts'). Ok (Some i, ts')))"

definition parse_event_generics :: "cpp_parsers \<Rightarrow> token list \<Rightarrow> generic_param list parsed" where
  "parse_event_generics syn ts =
     try_then (syn_generics syn ts) (\<lambda>(gs, ts').
     try_then
       (if eat_word ''where'' ts' \<noteq> None
        then try_then (syn_where syn ts') (\<lambda>(_, ts''). Ok (True, ts'')) else Ok (False, ts'))
       (\<lambda>(clause, ts'').
          if gs = [] \<and> clause
          then fail ''a generic event `where` clause requires declared parameters after the machine name''
          else if list_ex eg_default gs
          then fail ''generic event parameters cannot have defaults because they are propagated to generated methods''
          else Ok (map eg_param gs, ts'')))"

definition parse_option :: "cpp_parsers \<Rightarrow> token list \<Rightarrow> state_machine \<Rightarrow> state_machine parsed" where
  "parse_option syn ts sm =
     try_then (parse_ident ts) (\<lambda>(option, ts).
       if option = ''custom_error'' then Ok (sm\<lparr>custom_error := True\<rparr>, ts)
       else if option = ''entry_exit_async'' then Ok (sm\<lparr>entry_exit_async := True\<rparr>, ts)
       else if option \<in> {''temporary_context'', ''states_attr'', ''events_attr''}
       then require ''expected `:`'' (eat_punct CHR '':'' ts) (\<lambda>ts.
         if option = ''temporary_context''
         then try_then (syn_type (syn_parsers.truncate syn) ts)
           (\<lambda>(t, ts). Ok (sm\<lparr>temporary_context_type := Some t\<rparr>, ts))
         else try_then (syn_attributes (syn_parsers.truncate syn) ts)
           (\<lambda>(as, ts). Ok (if option = ''states_attr'' then sm\<lparr>states_attr := as\<rparr> else sm\<lparr>events_attr := as\<rparr>, ts)))
       else fail ''supported sml! options: custom_error, entry_exit_async, temporary_context, states_attr, events_attr'')"

text \<open>An option takes at least its name when the type parser gives nothing back; the fuel is the length.\<close>

fun parse_options :: "nat \<Rightarrow> cpp_parsers \<Rightarrow> token list \<Rightarrow> state_machine \<Rightarrow> (parse_error, state_machine) rust_result" where
  "parse_options 0 syn ts sm = Err OutOfFuel"
| "parse_options (Suc n) syn ts sm =
     (if ts = [] then Ok sm
      else try_then (parse_option syn ts sm) (\<lambda>(sm', ts').
        if ts' = [] then Ok sm'
        else case eat_punct CHR '','' ts' of
            None \<Rightarrow> Err (ParseError ''expected `,`'')
          | Some rest \<Rightarrow> parse_options n syn rest sm'))"

definition parse_body :: "cpp_parsers \<Rightarrow> token list \<Rightarrow> state_machine \<Rightarrow> (parse_error, state_machine) rust_result" where
  "parse_body syn body sm =
     try_fold (\<lambda>row sm. try_then
         (parse_exactly (StateTransitions_parse (syn_parsers.truncate syn)) (normalize_transition row))
         (\<lambda>ts. Ok (add_transitions sm ts)))
       (split_transitions body) sm"

text \<open>The error type of typed exception rows, which all of them share.\<close>

definition note_error_type ::
  "state_transition \<Rightarrow> rust_type option \<Rightarrow> (parse_error, rust_type option) rust_result" where
  "note_error_type t known =
     (if ev_kind (st_event t) = Exception \<and> \<not> ev_wildcard (st_event t)
      then case ev_data_type (st_event t) of
          None \<Rightarrow> Err (ParseError ''typed exception transitions must declare an error payload type'')
        | Some ty \<Rightarrow>
            if known \<noteq> None \<and> known \<noteq> Some ty
            then Err (ParseError ''one machine cannot route multiple unrelated Rust callback error types'')
            else Ok (Some ty)
      else Ok known)"

definition set_error_type :: "state_machine \<Rightarrow> (parse_error, state_machine) rust_result" where
  "set_error_type sm =
     try_then (try_fold note_error_type (transitions sm) None) (\<lambda>known.
       Ok (if known = None then sm else sm\<lparr>custom_error := True, fixed_error_type := known\<rparr>))"

definition SmlDefinition_parse :: "cpp_parsers \<Rightarrow> token list \<Rightarrow> state_machine parsed" where
  "SmlDefinition_parse syn ts =
     try_then (parse_machine_name ts) (\<lambda>(name, ts).
     try_then (parse_event_generics syn ts) (\<lambda>(gs, ts).
     let sm = StateMachine_new\<lparr>machine_name := name, event_generics := gs\<rparr> in
     try_then
       (case eat_group Bracket ts of
          None \<Rightarrow> Ok (sm, ts)
        | Some (options, ts') \<Rightarrow>
            try_then (parse_options (Suc (length options)) syn options sm) (\<lambda>sm. Ok (sm, ts')))
       (\<lambda>(sm, ts).
     case eat_group Brace ts of
       None \<Rightarrow> fail ''expected curly braces''
     | Some (body, ts') \<Rightarrow>
         try_then (parse_body syn body sm) (\<lambda>sm.
         try_then (set_error_type sm) (\<lambda>sm. Ok (sm, ts'))))))"

fun SmlDefinitions_parse :: "nat \<Rightarrow> cpp_parsers \<Rightarrow> token list \<Rightarrow> (parse_error, state_machine list) rust_result" where
  "SmlDefinitions_parse 0 syn ts = Err OutOfFuel"
| "SmlDefinitions_parse (Suc n) syn ts =
     (if ts = [] then Ok []
      else try_then (SmlDefinition_parse syn ts) (\<lambda>(sm, ts').
        let (_, rest) = optional ts' (eat_punct CHR '','' ts') in
        try_then (SmlDefinitions_parse n syn rest) (\<lambda>sms. Ok (sm # sms))))"

section \<open>The choice of generator\<close>

datatype expansion =
    ExpandComposite "state_machine list"
  | ExpandOrthogonal state_machine
  | ExpandFlat "state_machine list"

definition composite_reference :: "state_transition \<Rightarrow> string option" where
  "composite_reference t =
     (case in_composite (st_in t) of Some c \<Rightarrow> Some c | None \<Rightarrow> out_composite (st_out t))"

definition has_composite :: "state_machine list \<Rightarrow> bool" where
  "has_composite sms \<longleftrightarrow>
     list_ex (\<lambda>sm. list_ex (\<lambda>t. case composite_reference t of None \<Rightarrow> False
         | Some c \<Rightarrow> Some c \<in> set (map machine_name sms)) (transitions sm)) sms"

definition start_rows :: "state_machine \<Rightarrow> state_transition list" where
  "start_rows sm = filter (\<lambda>t. in_start (st_in t)) (transitions sm)"

definition sml_expansion :: "state_machine list \<Rightarrow> (string, expansion) rust_result" where
  "sml_expansion sms =
     (if 1 < length sms
      then if has_composite sms
        then if list_ex (\<lambda>sm. event_generics sm \<noteq> []) sms
          then Err ''generic event declarations are currently supported by flat `sml!` tables; composite tables do not yet have dispatch-scoped generic event enums''
          else Ok (ExpandComposite sms)
        else Ok (ExpandFlat sms)
      else case sms of
          [] \<Rightarrow> Err ''parser requires a machine''
        | sm # _ \<Rightarrow>
            if 1 < length (start_rows sm)
            then if event_generics sm \<noteq> []
              then Err ''generic event declarations are currently supported by flat `sml!` tables; orthogonal tables do not yet have dispatch-scoped generic event enums''
              else Ok (ExpandOrthogonal sm)
            else Ok (ExpandFlat [sm]))"

section \<open>Rows of a body\<close>

text \<open>
  A row that holds together: no comma outside angle brackets, and the brackets closed at its end.
  The scan follows the same rules as the loop, so that \<open><=\<close> opens nothing.
\<close>

fun angle_scan :: "token list \<Rightarrow> nat \<Rightarrow> nat option" where
  "angle_scan [] depth = Some depth"
| "angle_scan (t # ts) depth =
     (if punct_char t = Some CHR ''<'' \<and> \<not> starts_with_punct CHR ''='' ts then angle_scan ts (Suc depth)
      else if punct_char t = Some CHR ''>'' \<and> 0 < depth then angle_scan ts (depth - 1)
      else if punct_char t = Some CHR '','' \<and> depth = 0 then None
      else angle_scan ts depth)"

definition whole_row :: "token list \<Rightarrow> bool" where
  "whole_row row \<longleftrightarrow> row \<noteq> [] \<and> angle_scan row 0 = Some 0"

fun join_rows :: "bool \<Rightarrow> token list list \<Rightarrow> token list" where
  "join_rows trailing [] = []"
| "join_rows trailing [row] = row @ (if trailing then [Punct CHR '','' False] else [])"
| "join_rows trailing (row # rows) = row @ Punct CHR '','' False # join_rows trailing rows"

lemma split_loop_row:
  assumes "angle_scan row depth = Some 0" "us = [] \<or> starts_with_punct CHR '','' us"
  shows "split_loop (row @ us) depth acc = split_loop us 0 (acc @ row)"
  using assms(1)
proof (induction row arbitrary: depth acc)
  case (Cons t row)
  have eq: "starts_with_punct CHR ''='' (row @ us) = starts_with_punct CHR ''='' row"
    using assms(2) by (cases row) (auto simp: starts_with_punct_def split: list.splits)
  show ?case
    using Cons.prems Cons.IH by (auto simp: eq split: if_splits)
qed simp

lemma split_loop_rows:
  assumes "list_all whole_row rows"
  shows "split_loop (join_rows trailing rows) 0 [] = rows"
  using assms
proof (induction trailing rows rule: join_rows.induct)
  case (2 trailing row)
  then show ?case
    using split_loop_row [of row 0 "[]" "[]"] split_loop_row [of row 0 "[Punct CHR '','' False]" "[]"]
    by (cases trailing) (simp_all add: whole_row_def starts_with_punct_def)
next
  case (3 trailing row row' rows)
  then show ?case by (simp add: whole_row_def split_loop_row starts_with_punct_def)
qed simp

text \<open>
  The rows of a body are found whatever they contain, angle brackets with commas and reversed
  arrows included, with or without a comma after the last one: splitting the joined rows gives them
  back.
\<close>

theorem split_transitions_rows:
  assumes "list_all whole_row rows"
  shows "split_transitions (join_rows trailing rows) = rows"
  using split_loop_rows [OF assms] by (simp add: split_transitions_def)

theorem split_transitions_rows_witness:
  "split_transitions
     [Ident ''A'', Punct CHR ''<'' True, Punct CHR ''='' False, Ident ''B'', Punct CHR '','' False,
      Ident ''E'', Punct CHR ''<'' False, Ident ''T'', Punct CHR '','' False, Ident ''U'', Punct CHR ''>'' False] =
     [[Ident ''A'', Punct CHR ''<'' True, Punct CHR ''='' False, Ident ''B''],
      [Ident ''E'', Punct CHR ''<'' False, Ident ''T'', Punct CHR '','' False, Ident ''U'', Punct CHR ''>'' False]]"
  using split_transitions_rows [of
      "[[Ident ''A'', Punct CHR ''<'' True, Punct CHR ''='' False, Ident ''B''],
        [Ident ''E'', Punct CHR ''<'' False, Ident ''T'', Punct CHR '','' False, Ident ''U'', Punct CHR ''>'' False]]"
      False]
  by (simp add: whole_row_def starts_with_punct_def)

section \<open>The two directions of a row\<close>

lemma reverse_arrow_first:
  assumes "reverse_arrow target = None"
  shows "reverse_arrow (target @ Punct CHR ''<'' j # Punct CHR ''='' j' # source) = Some (length target)"
  using assms
proof (induction target)
  case (Cons t ts)
  then show ?case by (cases ts; cases "punct_char t") (auto split: if_splits)
qed simp

lemma normalize_reverse:
  assumes "reverse_arrow target = None"
  shows "normalize_direction (target @ Punct CHR ''<'' j # Punct CHR ''='' j' # source) =
    source @ Punct CHR ''='' False # target"
  by (simp add: normalize_direction_def reverse_arrow_first [OF assms])

lemma insertion_point_first:
  "list_all (\<lambda>t. \<not> ends_source t) pre \<Longrightarrow> ends_source t \<Longrightarrow> insertion_point (pre @ t # ts) = Some (length pre)"
  by (induction pre) simp_all

text \<open>
  A row may be written in either direction, \<open>target <= source ..\<close> or \<open>source .. = target\<close>, and
  without a trigger: both directions normalise to the same tokens, and an anonymous row to the row
  with the trigger \<open>completion<_>\<close> behind its source.
\<close>

theorem row_forms:
  "(reverse_arrow target = None \<and> reverse_arrow (source @ Punct CHR ''='' False # target) = None \<longrightarrow>
     normalize_transition (target @ Punct CHR ''<'' j # Punct CHR ''='' j' # source) =
       normalize_transition (source @ Punct CHR ''='' False # target)) \<and>
   (list_all (\<lambda>t. \<not> ends_source t) pre \<and> ends_source t \<and> reverse_arrow (pre @ t # ts) = None \<and>
      \<not> has_trigger (pre @ t # ts) \<longrightarrow>
     normalize_transition (pre @ t # ts) = pre @ completion_trigger @ t # ts)"
proof (intro conjI impI; elim conjE)
  assume "reverse_arrow target = None" "reverse_arrow (source @ Punct CHR ''='' False # target) = None"
  then show "normalize_transition (target @ Punct CHR ''<'' j # Punct CHR ''='' j' # source) =
      normalize_transition (source @ Punct CHR ''='' False # target)"
    by (simp only: normalize_transition_def normalize_reverse) (simp add: normalize_direction_def)
next
  assume "list_all (\<lambda>t. \<not> ends_source t) pre" "ends_source t" "reverse_arrow (pre @ t # ts) = None"
    "\<not> has_trigger (pre @ t # ts)"
  then show "normalize_transition (pre @ t # ts) = pre @ completion_trigger @ t # ts"
    by (simp add: normalize_transition_def normalize_direction_def Let_def insertion_point_first)
qed

theorem row_forms_witness:
  "normalize_transition [Ident ''B'', Punct CHR ''<'' True, Punct CHR ''='' False, Ident ''A''] =
     normalize_transition [Ident ''A'', Punct CHR ''='' False, Ident ''B''] \<and>
   normalize_transition [Ident ''A'', Punct CHR ''='' False, Ident ''B''] =
     Ident ''A'' # completion_trigger @ [Punct CHR ''='' False, Ident ''B'']"
  using row_forms [of "[Ident ''B'']" "[Ident ''A'']" True False "[Ident ''A'']" "Punct CHR ''='' False" "[Ident ''B'']"]
  by (simp add: has_trigger_def)

section \<open>Tables side by side\<close>

text \<open>
  Only a block with a single table reaches the generator for orthogonal regions: a table with two
  starting states next to an unrelated one is expanded as a flat table, which then refuses it.
\<close>

lemma adjacent_tables_are_flat:
  "\<not> has_composite (sm # sm' # sms) \<Longrightarrow> sml_expansion (sm # sm' # sms) = Ok (ExpandFlat (sm # sm' # sms))"
  by (simp add: sml_expansion_def)

end
