(* ===== verification/Orthogonal_Codegen.thy ===== *)
theory Orthogonal_Codegen
  imports Flat_Codegen Parsed_Machine
begin

text \<open>
  The generator of macros/src/orthogonal_codegen.rs for tables with several starting states. It works
  on the rows as they were parsed. \<open>discover_regions\<close> divides the states into regions,
  \<open>generate_transition_branch\<close> turns a row into a branch, and the dispatch functions group the
  branches into the arms of the emitted \<open>match\<close> statements, region by region. Type declarations,
  name tables and the event queries of \<open>visit_current_events\<close> are left out.
\<close>

section \<open>What the table uses\<close>

definition row_actions :: "state_transition \<Rightarrow> async_ident list" where
  "row_actions t = option_list (st_action t) @ st_additional_actions t"

definition guard_contains_async :: "guard_expression \<Rightarrow> bool" where
  "guard_contains_async g =
     (case visit_guards g (\<lambda>x found. Ok (found \<or> is_async x)) False of
        Inr found \<Rightarrow> found
      | Inl (e :: string) \<Rightarrow> False)"

definition is_async_machine :: "state_machine \<Rightarrow> bool" where
  "is_async_machine sm \<longleftrightarrow> entry_exit_async sm \<or>
     list_ex (\<lambda>t. list_ex is_async (row_actions t) \<or>
         (case st_guard t of None \<Rightarrow> False | Some g \<Rightarrow> guard_contains_async g) \<or>
         list_ex (\<lambda>e. is_async (ea_action e) \<or> guard_contains_async (ea_guard e)) (st_eval_actions t))
       (transitions sm)"

definition orth_has_deferred :: "state_machine \<Rightarrow> bool" where
  "orth_has_deferred sm \<longleftrightarrow> list_ex st_defer (transitions sm)"

definition orth_has_queue_actions :: "state_machine \<Rightarrow> bool" where
  "orth_has_queue_actions sm \<longleftrightarrow> orth_has_deferred sm \<or> list_ex (\<lambda>t. st_process_events t \<noteq> []) (transitions sm)"

definition orth_has_exceptions :: "state_machine \<Rightarrow> bool" where
  "orth_has_exceptions sm \<longleftrightarrow> list_ex (\<lambda>t. ev_kind (st_event t) = Exception) (transitions sm)"

definition validate_supported :: "state_machine \<Rightarrow> (string, unit) rust_result" where
  "validate_supported sm =
     err_if (list_ex (\<lambda>t. ev_kind (st_event t) = Completion \<and> st_internal t) (transitions sm))
       ''an anonymous orthogonal completion must leave its source state''"

section \<open>Regions\<close>

text \<open>Neighbours of a state; the terminal state \<open>X\<close> is shared and joins nothing.\<close>

type_synonym adjacency = "(string \<times> string list) list"

definition neighbours :: "adjacency \<Rightarrow> string \<Rightarrow> string list" where
  "neighbours adj s = (case map_of adj s of None \<Rightarrow> [] | Some ns \<Rightarrow> ns)"

definition link :: "string \<Rightarrow> string list \<Rightarrow> adjacency \<Rightarrow> adjacency" where
  "link s ns adj = AList.update s (neighbours adj s @ ns) adj"

definition row_edges :: "state_transition \<Rightarrow> adjacency \<Rightarrow> adjacency" where
  "row_edges t adj =
     (let a = in_ident (st_in t); b = out_ident (st_out t) in
      if in_wildcard (st_in t) then adj
      else if \<not> st_internal t \<and> b \<noteq> ''X'' then link b [a] (link a [b] (link a [] adj))
      else link a [] adj)"

definition adjacency_of :: "state_transition list \<Rightarrow> adjacency" where
  "adjacency_of ts = fold row_edges ts []"

record region =
  rg_initial :: string
  rg_states :: "string list"

lemma claim_measure:
  assumes "map_of claimed s = None"
  shows "card (dom (map_of adj) - insert s (dom (map_of claimed))) < card (dom (map_of adj) - dom (map_of claimed)) \<or>
    card (dom (map_of adj) - insert s (dom (map_of claimed))) = card (dom (map_of adj) - dom (map_of claimed)) \<and>
      neighbours adj s = []"
proof (cases "map_of adj s")
  case None
  then have "dom (map_of adj) - insert s (dom (map_of claimed)) = dom (map_of adj) - dom (map_of claimed)"
    by (auto simp: domIff)
  with None show ?thesis by (simp add: neighbours_def)
next
  case (Some ns)
  then have "s \<in> dom (map_of adj) - dom (map_of claimed)" using assms by auto
  then have "dom (map_of adj) - insert s (dom (map_of claimed)) \<subset> dom (map_of adj) - dom (map_of claimed)" by auto
  then show ?thesis by (simp add: psubset_card_mono finite_dom_map_of)
qed

text \<open>
  The breadth-first search from an initial state: it claims every state it meets for the region and
  fails at a state of another one.
\<close>

function claim_region ::
  "adjacency \<Rightarrow> nat \<Rightarrow> string list \<Rightarrow> (string \<times> nat) list \<Rightarrow> string list
    \<Rightarrow> (string, (string \<times> nat) list \<times> string list) rust_result" where
  "claim_region adj index [] claimed states = Ok (claimed, states)"
| "claim_region adj index (s # queue) claimed states =
     (case map_of claimed s of
        Some owner \<Rightarrow>
          if owner \<noteq> index then Err (''orthogonal regions overlap at state `'' @ s @ ''`'')
          else claim_region adj index queue claimed states
      | None \<Rightarrow>
          claim_region adj index (queue @ neighbours adj s) (AList.update s index claimed) (states @ [s]))"
  by pat_completeness auto
termination
proof (relation "measures [\<lambda>(adj, _, _, claimed, _). card (dom (map_of adj) - dom (map_of claimed)),
    \<lambda>(_, _, queue, _, _). length queue]", goal_cases)
  case (2 adj index s queue claimed states)
  then show ?case using claim_measure [of claimed s adj] by (auto simp: update_conv')
qed simp_all

fun claim_regions ::
  "adjacency \<Rightarrow> nat \<Rightarrow> string list \<Rightarrow> (string \<times> nat) list
    \<Rightarrow> (string, (string \<times> nat) list \<times> region list) rust_result" where
  "claim_regions adj index [] claimed = Ok (claimed, [])"
| "claim_regions adj index (initial # initials) claimed =
     try_then (claim_region adj index [initial] claimed []) (\<lambda>(claimed', states).
     try_then (claim_regions adj (Suc index) initials claimed') (\<lambda>(claimed'', regions).
       Ok (claimed'', \<lparr>rg_initial = initial, rg_states = states\<rparr> # regions)))"

definition initial_states :: "state_machine \<Rightarrow> string list" where
  "initial_states sm = map (\<lambda>t. in_ident (st_in t)) (filter (\<lambda>t. in_start (st_in t)) (transitions sm))"

definition discover_regions :: "state_machine \<Rightarrow> (string, region list) rust_result" where
  "discover_regions sm =
     (let adj = adjacency_of (transitions sm) in
      try_then (claim_regions adj 0 (initial_states sm) []) (\<lambda>(claimed, regions).
        case find (\<lambda>(s, _). map_of claimed s = None) adj of
          Some (s, _) \<Rightarrow> Err (''state `'' @ s @ ''` is not connected to an orthogonal initial state'')
        | None \<Rightarrow> Ok regions))"

section \<open>Payload types, events and callbacks\<close>

definition note_state_type ::
  "string \<times> rust_type option \<times> string option \<Rightarrow> string list \<Rightarrow> (string \<times> rust_type) list
    \<Rightarrow> (string, (string \<times> rust_type) list) rust_result" where
  "note_state_type entry children types =
     (case entry of (s, ty, composite) \<Rightarrow>
        if (case composite of None \<Rightarrow> False | Some c \<Rightarrow> c \<in> set children) then Ok types
        else case ty of
            None \<Rightarrow> Ok types
          | Some ty \<Rightarrow>
              (case map_of types s of
                 Some existing \<Rightarrow>
                   if existing \<noteq> ty then Err (''state `'' @ s @ ''` has incompatible payload types'') else Ok types
               | None \<Rightarrow> Ok (AList.update s ty types)))"

definition collect_state_types_excluding ::
  "state_machine \<Rightarrow> string list \<Rightarrow> (string, (string \<times> rust_type) list) rust_result" where
  "collect_state_types_excluding sm children =
     try_fold (\<lambda>t types.
         try_then (note_state_type (in_ident (st_in t), in_data_type (st_in t), in_composite (st_in t)) children types)
           (note_state_type (out_ident (st_out t), out_data_type (st_out t), out_composite (st_out t)) children))
       (transitions sm) []"

definition collect_state_types :: "state_machine \<Rightarrow> (string, (string \<times> rust_type) list) rust_result" where
  "collect_state_types sm = collect_state_types_excluding sm []"

text \<open>The variants of the states enum, sorted by name.\<close>

definition collect_states :: "state_machine \<Rightarrow> string list" where
  "collect_states sm =
     sort (push_new [] (concat (map (\<lambda>t. (if in_wildcard (st_in t) then [] else [in_ident (st_in t)]) @
        (if st_internal t then [] else [out_ident (st_out t)])) (transitions sm))))"

record event_info =
  ei_type :: "rust_type option"
  ei_external :: bool

definition collect_events :: "state_machine \<Rightarrow> (string \<times> event_info) list" where
  "collect_events sm =
     fold (\<lambda>t events.
         if ev_kind (st_event t) \<in> {Normal, Unexpected} \<and> \<not> ev_wildcard (st_event t) \<and>
           map_of events (ev_ident (st_event t)) = None
         then events @ [(ev_ident (st_event t),
             \<lparr>ei_type = ev_data_type (st_event t), ei_external = ev_external (st_event t)\<rparr>)]
         else events)
       (transitions sm) []"

definition check_conversions :: "state_machine \<Rightarrow> (string, unit) rust_result" where
  "check_conversions sm =
     err_if (list_ex (\<lambda>(_, e). ei_external e \<and> ei_type e = None) (collect_events sm))
       ''external events must have a concrete payload type''"

record lifecycle =
  lc_entry :: "async_ident list option"
  lc_exit :: "async_ident list option"

text \<open>The last row of a state and kind counts.\<close>

definition collect_lifecycle :: "state_machine \<Rightarrow> (string \<times> lifecycle) list" where
  "collect_lifecycle sm =
     fold (\<lambda>t hooks.
         let s = in_ident (st_in t);
             known = (case map_of hooks s of None \<Rightarrow> \<lparr>lc_entry = None, lc_exit = None\<rparr> | Some l \<Rightarrow> l)
         in case ev_kind (st_event t) of
             Entry \<Rightarrow> AList.update s (known\<lparr>lc_entry := Some (row_actions t)\<rparr>) hooks
           | Exit \<Rightarrow> AList.update s (known\<lparr>lc_exit := Some (row_actions t)\<rparr>) hooks
           | _ \<Rightarrow> hooks)
       (transitions sm) []"

definition hook_actions ::
  "(lifecycle \<Rightarrow> async_ident list option) \<Rightarrow> (string \<times> lifecycle) list \<Rightarrow> string \<Rightarrow> async_ident list" where
  "hook_actions which hooks s =
     (case map_of hooks s of None \<Rightarrow> [] | Some l \<Rightarrow> (case which l of None \<Rightarrow> [] | Some as \<Rightarrow> as))"

definition transition_event_type :: "state_machine \<Rightarrow> state_transition \<Rightarrow> rust_type option" where
  "transition_event_type sm t =
     (case ev_data_type (st_event t) of
        Some ty \<Rightarrow> Some ty
      | None \<Rightarrow>
          if ev_kind (st_event t) = Completion \<and> \<not> ev_wildcard (st_event t)
          then (case find (\<lambda>c. ev_kind (st_event c) = Normal \<and> ev_ident (st_event c) = ev_ident (st_event t))
                  (transitions sm) of
                  None \<Rightarrow> None
                | Some c \<Rightarrow> ev_data_type (st_event c))
          else None)"

text \<open>The signature of a callback as it is printed into the context trait.\<close>

record method_signature =
  ms_async :: bool
  ms_state :: "rust_type option"
  ms_event :: "rust_type option"
  ms_output :: "rust_type option"

definition insert_unique ::
  "string \<times> method_signature \<Rightarrow> (string \<times> method_signature) list \<Rightarrow> (string, (string \<times> method_signature) list) rust_result" where
  "insert_unique entry methods =
     (case map_of methods (fst entry) of
        None \<Rightarrow> Ok (AList.update (fst entry) (snd entry) methods)
      | Some existing \<Rightarrow>
          if existing \<noteq> snd entry
          then Err (''callback `'' @ fst entry @ ''` is used with incompatible event types'')
          else Ok methods)"

definition row_signature :: "state_machine \<Rightarrow> state_transition \<Rightarrow> async_ident \<Rightarrow> rust_type option \<Rightarrow> string \<times> method_signature" where
  "row_signature sm t a out =
     (ident a, \<lparr>ms_async = is_async a, ms_state = in_data_type (st_in t),
                ms_event = transition_event_type sm t, ms_output = out\<rparr>)"

text \<open>The last action of an external row to a state with data provides that data.\<close>

fun row_action_signatures ::
  "state_machine \<Rightarrow> state_transition \<Rightarrow> async_ident list \<Rightarrow> (string \<times> method_signature) list" where
  "row_action_signatures sm t [] = []"
| "row_action_signatures sm t (a # as) =
     row_signature sm t a (if \<not> st_internal t \<and> as = [] then out_data_type (st_out t) else None) #
       row_action_signatures sm t as"

definition generate_context_methods ::
  "state_machine \<Rightarrow> (string, (string \<times> method_signature) list \<times> (string \<times> method_signature) list) rust_result" where
  "generate_context_methods sm =
     try_fold (\<lambda>t (guards, actions).
         try_then (case st_guard t of None \<Rightarrow> Ok guards
           | Some g \<Rightarrow> visit_guards g (\<lambda>x. insert_unique (row_signature sm t x None)) guards) (\<lambda>guards.
         try_then (try_fold insert_unique (row_action_signatures sm t (row_actions t)) actions) (\<lambda>actions.
         try_fold (\<lambda>e (guards, actions).
             try_then (visit_guards (ea_guard e) (\<lambda>x. insert_unique (row_signature sm t x None)) guards) (\<lambda>guards.
             try_then (insert_unique (row_signature sm t (ea_action e) None) actions) (\<lambda>actions.
               Ok (guards, actions))))
           (st_eval_actions t) (guards, actions))))
       (transitions sm) ([], [])"

section \<open>Branches\<close>

text \<open>
  A row as emitted code. Beside what a flat candidate has, a branch carries the actions of the exit
  row of its source and of the entry row of its target, whether the target has a payload, and
  whether it counts as progress when it handles an exception.
\<close>

record branch = candidate +
  br_out_data :: bool
  br_exit :: "async_ident list"
  br_entry :: "async_ident list"
  br_moves :: bool

definition exception_row_moves :: "state_transition \<Rightarrow> bool" where
  "exception_row_moves t \<longleftrightarrow> \<not> st_internal t \<and> out_ident (st_out t) \<noteq> in_ident (st_in t)"

text \<open>\<open>action_sequence\<close> lays out actions and evals as \<open>generate_actions\<close> does.\<close>

definition action_sequence ::
  "async_ident list \<Rightarrow> bool \<Rightarrow> eval_action list \<Rightarrow> (string, action_step list) rust_result" where
  "action_sequence actions produces evals =
     generate_steps (length actions + length evals) actions produces evals 0 0"

definition generate_transition_branch ::
  "(string \<times> lifecycle) list \<Rightarrow> bool \<Rightarrow> nat \<Rightarrow> state_transition \<Rightarrow> (string, branch) rust_result" where
  "generate_transition_branch hooks has_event_data index t =
     (let actions = row_actions t;
          out_data = (out_data_type (st_out t) \<noteq> None);
          produces = (\<not> st_internal t \<and> out_data \<and> actions \<noteq> [])
      in try_then (action_sequence actions produces (st_eval_actions t)) (\<lambda>steps.
         if st_defer t \<and> ev_wildcard (st_event t)
         then Err ''a wildcard event cannot be deferred because its owned type is unknown''
         else Ok
           \<lparr>cd_index = index,
            cd_in_state = in_ident (st_in t),
            cd_event = ev_ident (st_event t),
            cd_wildcard = ev_wildcard (st_event t),
            cd_kind = ev_kind (st_event t),
            cd_state_data = (in_data_type (st_in t) \<noteq> None),
            cd_event_data = has_event_data,
            cd_guard = st_guard t,
            cd_steps = steps,
            cd_default_output = (out_data \<and> \<not> st_internal t \<and> \<not> produces),
            cd_defer = st_defer t,
            cd_process = st_process_events t,
            cd_internal = st_internal t,
            cd_out_state = out_ident (st_out t),
            br_out_data = out_data,
            br_exit = hook_actions lc_exit hooks (in_ident (st_in t)),
            br_entry = hook_actions lc_entry hooks (out_ident (st_out t)),
            br_moves = exception_row_moves t\<rparr>))"

section \<open>Arms\<close>

record region_arms =
  ra_state :: string
  ra_normal :: "(string \<times> branch list) list"
  ra_unexpected :: "(string \<times> branch) list"
  ra_unexpected_wildcard :: "branch option"
  ra_origin :: "(string \<times> branch) list"
  ra_anonymous :: "branch list"
  ra_exception :: "branch list"

definition rows_of_kind :: "state_machine \<Rightarrow> string \<Rightarrow> event_kind \<Rightarrow> state_transition list" where
  "rows_of_kind sm s k = filter (\<lambda>t. in_ident (st_in t) = s \<and> ev_kind (st_event t) = k) (transitions sm)"

definition specific_rows :: "state_transition list \<Rightarrow> state_transition list" where
  "specific_rows ts = filter (\<lambda>t. \<not> ev_wildcard (st_event t)) ts"

definition wildcard_rows :: "state_transition list \<Rightarrow> state_transition list" where
  "wildcard_rows ts = filter (\<lambda>t. ev_wildcard (st_event t)) ts"

definition event_arm :: "(string \<times> lifecycle) list \<Rightarrow> state_transition list \<Rightarrow> string \<Rightarrow> (string, string \<times> branch list) rust_result" where
  "event_arm hooks rows e =
     try_then (try_map (\<lambda>(i, t). generate_transition_branch hooks (ev_data_type (st_event t) \<noteq> None) i t)
         (enumerate 0 (filter (\<lambda>t. ev_ident (st_event t) = e) rows)))
       (\<lambda>bs. Ok (e, bs))"

text \<open>The normal arms of a state, sorted by event; each groups the rows of its event.\<close>

definition normal_arms ::
  "(string \<times> lifecycle) list \<Rightarrow> state_machine \<Rightarrow> string \<Rightarrow> (string, (string \<times> branch list) list) rust_result" where
  "normal_arms hooks sm s =
     (let rows = rows_of_kind sm s Normal in
      try_map (event_arm hooks rows) (sort (push_new [] (map (\<lambda>t. ev_ident (st_event t)) rows))))"

definition single_arm ::
  "(string \<times> lifecycle) list \<Rightarrow> (state_transition \<Rightarrow> bool) \<Rightarrow> state_transition \<Rightarrow> (string, string \<times> branch) rust_result" where
  "single_arm hooks typed t =
     try_then (generate_transition_branch hooks (typed t) 0 t) (\<lambda>b. Ok (ev_ident (st_event t), b))"

text \<open>\<open>generate_region_dispatch\<close> for one state: normal, specific unexpected and \<open>unexpected<_>\<close> arms.\<close>

definition generate_state_dispatch ::
  "(string \<times> lifecycle) list \<Rightarrow> state_machine \<Rightarrow> string
    \<Rightarrow> (string, (string \<times> branch list) list \<times> (string \<times> branch) list \<times> branch option) rust_result" where
  "generate_state_dispatch hooks sm s =
     try_then (normal_arms hooks sm s) (\<lambda>normal.
     try_then (try_map (single_arm hooks (\<lambda>t. ev_data_type (st_event t) \<noteq> None))
         (specific_rows (rows_of_kind sm s Unexpected))) (\<lambda>unexpected.
     try_then
       (case wildcard_rows (rows_of_kind sm s Unexpected) of
          [] \<Rightarrow> Ok None
        | t # _ \<Rightarrow> try_then (generate_transition_branch hooks False 0 t) (\<lambda>b. Ok (Some b)))
       (\<lambda>any. Ok (normal, unexpected, any))))"

text \<open>\<open>generate_completion_dispatch\<close> for one state: \<open>completion<E>\<close> arms and the \<open>completion<_>\<close> block.\<close>

definition generate_state_completion ::
  "(string \<times> lifecycle) list \<Rightarrow> state_machine \<Rightarrow> string \<Rightarrow> (string, (string \<times> branch) list \<times> branch list) rust_result" where
  "generate_state_completion hooks sm s =
     try_then (try_map (generate_transition_branch hooks False 0) (wildcard_rows (rows_of_kind sm s Completion))) (\<lambda>anonymous.
     try_then (try_map (single_arm hooks (\<lambda>t. transition_event_type sm t \<noteq> None))
         (specific_rows (rows_of_kind sm s Completion))) (\<lambda>origin.
       Ok (origin, anonymous)))"

text \<open>\<open>generate_exception_dispatch\<close> for one state: typed rows before \<open>exception<_>\<close>.\<close>

definition generate_state_exception ::
  "(string \<times> lifecycle) list \<Rightarrow> state_machine \<Rightarrow> string \<Rightarrow> (string, branch list) rust_result" where
  "generate_state_exception hooks sm s =
     (let rows = specific_rows (rows_of_kind sm s Exception) @ wildcard_rows (rows_of_kind sm s Exception) in
      if list_ex (\<lambda>t. st_defer t \<or> st_process_events t \<noteq> []) rows
      then Err ''exception handlers cannot defer or process events''
      else try_map (\<lambda>t. generate_transition_branch hooks (\<not> ev_wildcard (st_event t)) 0 t) rows)"

definition generate_state_region_arms ::
  "(string \<times> lifecycle) list \<Rightarrow> state_machine \<Rightarrow> string \<Rightarrow> (string, region_arms) rust_result" where
  "generate_state_region_arms hooks sm s =
     try_then (generate_state_dispatch hooks sm s) (\<lambda>(normal, unexpected, any).
     try_then (generate_state_completion hooks sm s) (\<lambda>(origin, anonymous).
     try_then (generate_state_exception hooks sm s) (\<lambda>exception.
       Ok \<lparr>ra_state = s, ra_normal = normal, ra_unexpected = unexpected, ra_unexpected_wildcard = any,
           ra_origin = origin, ra_anonymous = anonymous, ra_exception = exception\<rparr>)))"

section \<open>The emitted machine\<close>

text \<open>
  The code generates the dispatch of all regions before their completions and exceptions; here a
  state is done at a time, which decides only which of several errors is reported.
\<close>

record region_code =
  rc_initial :: string
  rc_initial_data :: bool
  rc_initial_entry :: "async_ident list"
  rc_arms :: "region_arms list"

record orth_code =
  oc_regions :: "region_code list"
  oc_async_queue :: bool
  oc_has_deferred :: bool
  oc_has_exception :: bool

definition generate_region ::
  "(string \<times> lifecycle) list \<Rightarrow> state_machine \<Rightarrow> (string \<times> rust_type) list \<Rightarrow> region \<Rightarrow> (string, region_code) rust_result" where
  "generate_region hooks sm types r =
     try_then (try_map (generate_state_region_arms hooks sm) (rg_states r)) (\<lambda>arms.
       Ok \<lparr>rc_initial = rg_initial r, rc_initial_data = (map_of types (rg_initial r) \<noteq> None),
           rc_initial_entry = hook_actions lc_entry hooks (rg_initial r), rc_arms = arms\<rparr>)"

definition orthogonal_code :: "state_machine \<Rightarrow> (string, orth_code) rust_result" where
  "orthogonal_code sm =
     (if machine_name sm = None then Err ''the `sml!` machine must have a name'' else
      try_then (validate_name_collisions sm) (\<lambda>_.
      try_then (validate_supported sm) (\<lambda>_.
      try_then (discover_regions sm) (\<lambda>regions.
      try_then (collect_state_types sm) (\<lambda>types.
      try_then (check_conversions sm) (\<lambda>_.
      try_then (generate_context_methods sm) (\<lambda>_.
      try_then (try_map (generate_region (collect_lifecycle sm) sm types) regions) (\<lambda>rs.
        Ok \<lparr>oc_regions = rs,
            oc_async_queue = (is_async_machine sm \<and> orth_has_queue_actions sm),
            oc_has_deferred = orth_has_deferred sm,
            oc_has_exception = orth_has_exceptions sm\<rparr>))))))))"

end
