(* ===== verification/Orthogonal_Machine.thy ===== *)
theory Orthogonal_Machine
  imports Orthogonal_Codegen Flat_Machine
begin

text \<open>
  The meaning of the code that macros/src/orthogonal_codegen.rs emits: a core with one state for each
  region, the broadcast of an event to the regions in order, the recovery of callback errors by
  exception rows, and the stabilization loop with its settle sites (\<open>recovering_stabilize_body\<close> of
  macros/src/composite_codegen.rs). Fuel and steps are those of \<open>Flat_Machine\<close>.
\<close>

section \<open>Environment and core\<close>

text \<open>Guards of \<open>exception<E>\<close> rows get the error, so that every callback takes trigger data.\<close>

record ('c, 'v, 'err, 'q) region_env =
  rv_guard :: "string \<Rightarrow> 'c \<Rightarrow> 'v option \<Rightarrow> ('v, 'err) trigger_data \<Rightarrow> ('err, bool) rust_result"
  rv_action :: "string \<Rightarrow> 'c \<Rightarrow> 'v option \<Rightarrow> ('v, 'err) trigger_data \<Rightarrow> 'c \<times> ('err, 'v option) rust_result"
  rv_event :: "rust_expr \<Rightarrow> 'c \<Rightarrow> 'v option \<Rightarrow> ('v, 'err) trigger_data \<Rightarrow> 'v variant_value"
  rv_default :: "string \<Rightarrow> 'v"
  rv_dispatch :: "string \<Rightarrow> bool"
  rv_candidate :: "string \<Rightarrow> string \<Rightarrow> nat \<Rightarrow> bool"
  rv_queue_new :: 'q
  rv_queue_defer :: "'q \<Rightarrow> 'v variant_value \<Rightarrow> 'q \<times> (queue_full, unit) rust_result"
  rv_queue_process :: "'q \<Rightarrow> 'v variant_value \<Rightarrow> 'q \<times> (queue_full, unit) rust_result"
  rv_queue_pop :: "'q \<Rightarrow> 'q \<times> 'v variant_value option"

datatype region_observation =
    RegionEvent string
  | RegionGuard string string bool
  | RegionAction string string
  | RegionCallback nat string string
  | RegionChange string string

record ('c, 'v, 'q) orth_core =
  region_states :: "'v variant_value list"
  states_exit_skip :: "bool list"
  orth_context :: 'c
  orth_deferred :: 'q
  orth_pending :: 'q
  orth_observed :: "region_observation list"

type_synonym ('c, 'v, 'err, 'q, 'a) orth_step = "(('c, 'v, 'q) orth_core, 'err machine_error, 'a) step"

definition observe_region :: "region_observation \<Rightarrow> ('c, 'v, 'q) orth_core \<Rightarrow> ('c, 'v, 'q) orth_core" where
  "observe_region x k = k\<lparr>orth_observed := orth_observed k @ [x]\<rparr>"

section \<open>Callbacks\<close>

definition region_call_guard ::
  "('c, 'v, 'err, 'q) region_env \<Rightarrow> string \<Rightarrow> 'v option \<Rightarrow> ('v, 'err) trigger_data \<Rightarrow> ('c, 'v, 'q) orth_core
    \<Rightarrow> async_ident \<Rightarrow> ('c, 'v, 'q) orth_core \<times> ('err machine_error, bool) rust_result" where
  "region_call_guard env event sd td k g =
     (case rv_guard env (ident g) (orth_context k) sd td of
        Inl e \<Rightarrow> (k, Err (GuardFailed e))
      | Inr b \<Rightarrow> (observe_region (RegionGuard (ident g) event b) k, Ok b))"

definition guard_tokens ::
  "('c, 'v, 'err, 'q) region_env \<Rightarrow> string \<Rightarrow> 'v option \<Rightarrow> ('v, 'err) trigger_data \<Rightarrow> guard_expression
    \<Rightarrow> ('c, 'v, 'err, 'q, bool) orth_step" where
  "guard_tokens env event sd td g = lift_step (\<lambda>k. eval_guard (region_call_guard env event sd td) k g)"

definition region_call_action ::
  "('c, 'v, 'err, 'q) region_env \<Rightarrow> string \<Rightarrow> 'v option \<Rightarrow> ('v, 'err) trigger_data \<Rightarrow> async_ident
    \<Rightarrow> ('c, 'v, 'err, 'q, 'v option) orth_step" where
  "region_call_action env event sd td a = lift_step (\<lambda>k.
     case rv_action env (ident a) (orth_context k) sd td of
       (c, Inl e) \<Rightarrow> (k\<lparr>orth_context := c\<rparr>, Err (ActionFailed e))
     | (c, Inr v) \<Rightarrow> (observe_region (RegionAction (ident a) event) (k\<lparr>orth_context := c\<rparr>), Ok v))"

text \<open>The steps of a branch for given guard and action calls; the value is \<open>output_data\<close>.\<close>

fun run_steps ::
  "(guard_expression \<Rightarrow> ('k, 'e, bool) step) \<Rightarrow> (async_ident \<Rightarrow> ('k, 'e, 'v option) step)
    \<Rightarrow> action_step list \<Rightarrow> 'v option \<Rightarrow> ('k, 'e, 'v option) step" where
  "run_steps guard act [] data = ret data"
| "run_steps guard act (ActionStep binds a # steps) data =
     bind (act a) (\<lambda>v. run_steps guard act steps (if binds then v else data))"
| "run_steps guard act (EvalStep g a # steps) data =
     then_do (bind (guard g) (\<lambda>b. if b then then_do (act a) (ret ()) else ret ()))
       (run_steps guard act steps data)"

text \<open>Lifecycle actions get the payload of their state and log no event.\<close>

definition action_calls ::
  "('c, 'v, 'err, 'q) region_env \<Rightarrow> async_ident list \<Rightarrow> 'v option \<Rightarrow> ('c, 'v, 'err, 'q, unit) orth_step" where
  "action_calls env actions sd = for_each (region_call_action env [] sd NoData) actions"

section \<open>Queue actions\<close>

definition push_region_queue ::
  "(('c, 'v, 'q) orth_core \<Rightarrow> 'q \<Rightarrow> ('c, 'v, 'q) orth_core)
    \<Rightarrow> (('c, 'v, 'q) orth_core \<Rightarrow> 'q \<times> (queue_full, unit) rust_result) \<Rightarrow> ('c, 'v, 'err, 'q, unit) orth_step" where
  "push_region_queue upd push = lift_step (\<lambda>k.
     case push k of (q, r) \<Rightarrow> (upd k q, (case r of Inl _ \<Rightarrow> Err QueueFullError | Inr _ \<Rightarrow> Ok ())))"

definition region_defer ::
  "('c, 'v, 'err, 'q) region_env \<Rightarrow> 'v variant_value \<Rightarrow> ('c, 'v, 'err, 'q, unit) orth_step" where
  "region_defer env e =
     push_region_queue (\<lambda>k q. k\<lparr>orth_deferred := q\<rparr>) (\<lambda>k. rv_queue_defer env (orth_deferred k) e)"

definition region_pend ::
  "('c, 'v, 'err, 'q) region_env \<Rightarrow> 'v variant_value \<Rightarrow> ('c, 'v, 'err, 'q, unit) orth_step" where
  "region_pend env e =
     push_region_queue (\<lambda>k q. k\<lparr>orth_pending := q\<rparr>) (\<lambda>k. rv_queue_process env (orth_pending k) e)"

definition region_pop_deferred ::
  "('c, 'v, 'err, 'q) region_env \<Rightarrow> ('c, 'v, 'err, 'q, 'v variant_value option) orth_step" where
  "region_pop_deferred env = lift_step (\<lambda>k.
     case rv_queue_pop env (orth_deferred k) of (q, e) \<Rightarrow> (k\<lparr>orth_deferred := q\<rparr>, Ok e))"

definition region_pop_pending ::
  "('c, 'v, 'err, 'q) region_env \<Rightarrow> ('c, 'v, 'err, 'q, 'v variant_value option) orth_step" where
  "region_pop_pending env = lift_step (\<lambda>k.
     case rv_queue_pop env (orth_pending k) of (q, e) \<Rightarrow> (k\<lparr>orth_pending := q\<rparr>, Ok e))"

definition region_process ::
  "('c, 'v, 'err, 'q) region_env \<Rightarrow> orth_code \<Rightarrow> ('v variant_value \<Rightarrow> ('c, 'v, 'err, 'q, unit) orth_step)
    \<Rightarrow> 'v option \<Rightarrow> ('v, 'err) trigger_data \<Rightarrow> rust_expr \<Rightarrow> ('c, 'v, 'err, 'q, unit) orth_step" where
  "region_process env code rec sd td x = with_core (\<lambda>k.
     let e = rv_event env x (orth_context k) sd td in
     if oc_async_queue code then region_pend env e else rec e)"

definition region_drain_step ::
  "('c, 'v, 'err, 'q) region_env \<Rightarrow> orth_code \<Rightarrow> ('v variant_value \<Rightarrow> ('c, 'v, 'err, 'q, unit) orth_step)
    \<Rightarrow> ('c, 'v, 'err, 'q, bool) orth_step" where
  "region_drain_step env code rec =
     bind (region_pop_deferred env) (\<lambda>popped.
       case popped of
         None \<Rightarrow> ret False
       | Some e \<Rightarrow>
           then_do
             (if oc_async_queue code then region_pend env e
              else catch (rec e)
                (\<lambda>err. if err = InvalidEvent \<or> err = TransitionsFailed then ret () else raise err))
             (ret True))"

definition region_drain ::
  "('c, 'v, 'err, 'q) region_env \<Rightarrow> orth_code \<Rightarrow> ('v variant_value \<Rightarrow> ('c, 'v, 'err, 'q, unit) orth_step)
    \<Rightarrow> nat \<Rightarrow> ('c, 'v, 'err, 'q, unit) orth_step" where
  "region_drain env code rec n =
     (if oc_has_deferred code then while_ok n (region_drain_step env code rec) else ret ())"

section \<open>Branches\<close>

definition set_exit_skip :: "nat \<Rightarrow> bool \<Rightarrow> ('c, 'v, 'err, 'q, unit) orth_step" where
  "set_exit_skip i b = update (\<lambda>k. k\<lparr>states_exit_skip := (states_exit_skip k)[i := b]\<rparr>)"

definition exit_region ::
  "('c, 'v, 'err, 'q) region_env \<Rightarrow> nat \<Rightarrow> branch \<Rightarrow> 'v option \<Rightarrow> ('c, 'v, 'err, 'q, unit) orth_step" where
  "exit_region env i br sd = with_core (\<lambda>k.
     if states_exit_skip k ! i then set_exit_skip i False else action_calls env (br_exit br) sd)"

definition replace_region :: "nat \<Rightarrow> 'v variant_value \<Rightarrow> ('c, 'v, 'err, 'q, unit) orth_step" where
  "replace_region i v = update (\<lambda>k.
     let old = variant (region_states k ! i) in
     observe_region (RegionChange old (variant v)) (observe_region (RegionCallback i old (variant v))
       (k\<lparr>region_states := (region_states k)[i := v], states_exit_skip := (states_exit_skip k)[i := False]\<rparr>)))"

definition change_region ::
  "('c, 'v, 'err, 'q) region_env \<Rightarrow> nat \<Rightarrow> branch \<Rightarrow> 'v option \<Rightarrow> ('c, 'v, 'err, 'q, 'v option) orth_step
    \<Rightarrow> ('c, 'v, 'err, 'q, unit) orth_step" where
  "change_region env i br sd actions =
     then_do (exit_region env i br sd)
       (then_do (set_exit_skip i True)
       (bind actions (\<lambda>data.
          let new = (if cd_default_output br then Some (rv_default env (cd_out_state br)) else data) in
          then_do (replace_region i (Variant (cd_out_state br) new))
            (action_calls env (br_entry br) (if br_out_data br then new else None)))))"

text \<open>One branch: whether the region handled the trigger with it.\<close>

definition run_branch ::
  "('c, 'v, 'err, 'q) region_env \<Rightarrow> orth_code \<Rightarrow> ('v variant_value \<Rightarrow> ('c, 'v, 'err, 'q, unit) orth_step)
    \<Rightarrow> nat \<Rightarrow> nat \<Rightarrow> 'v option \<Rightarrow> ('v, 'err) trigger_data \<Rightarrow> branch \<Rightarrow> ('c, 'v, 'err, 'q, bool) orth_step" where
  "run_branch env code rec n i sd0 td0 br =
     (let sd = (if cd_state_data br then sd0 else None);
          td = (if cd_event_data br then td0 else NoData);
          guard = guard_tokens env (cd_event br) sd td;
          actions = run_steps guard (region_call_action env (cd_event br) sd td) (cd_steps br) None;
          defer_code = (if cd_defer br
            then region_defer env (Variant (cd_event br) (case td of EventData v \<Rightarrow> Some v | _ \<Rightarrow> None)) else ret ());
          processes = for_each (region_process env code rec sd td) (cd_process br);
          body = (if cd_internal br
            then then_do actions (then_do defer_code (then_do processes (ret True)))
            else then_do (change_region env i br sd actions)
              (then_do defer_code (then_do processes (then_do (region_drain env code rec n) (ret True)))));
          dispatched = (if cd_kind br = Normal \<or> cd_kind br = Unexpected
            then rv_candidate env (cd_in_state br) (cd_event br) (cd_index br) else True)
      in if dispatched
         then (case cd_guard br of None \<Rightarrow> body | Some g \<Rightarrow> bind (guard g) (\<lambda>b. if b then body else ret False))
         else ret False)"

text \<open>The branches of an arm up to the first that handles; with it, whether that one moves the region.\<close>

fun run_branches ::
  "('c, 'v, 'err, 'q) region_env \<Rightarrow> orth_code \<Rightarrow> ('v variant_value \<Rightarrow> ('c, 'v, 'err, 'q, unit) orth_step)
    \<Rightarrow> nat \<Rightarrow> nat \<Rightarrow> 'v option \<Rightarrow> ('v, 'err) trigger_data \<Rightarrow> branch list \<Rightarrow> ('c, 'v, 'err, 'q, bool option) orth_step"
where
  "run_branches env code rec n i sd td [] = ret None"
| "run_branches env code rec n i sd td (br # brs) =
     bind (run_branch env code rec n i sd td br) (\<lambda>handled.
       if handled then ret (Some (br_moves br)) else run_branches env code rec n i sd td brs)"

definition handles ::
  "('c, 'v, 'err, 'q) region_env \<Rightarrow> orth_code \<Rightarrow> ('v variant_value \<Rightarrow> ('c, 'v, 'err, 'q, unit) orth_step)
    \<Rightarrow> nat \<Rightarrow> nat \<Rightarrow> (region_arms \<Rightarrow> branch list) \<Rightarrow> ('v, 'err) trigger_data \<Rightarrow> region_code
    \<Rightarrow> ('c, 'v, 'err, 'q, bool option) orth_step" where
  "handles env code rec n i select td rc = with_core (\<lambda>k.
     case find (\<lambda>a. ra_state a = variant (region_states k ! i)) (rc_arms rc) of
       None \<Rightarrow> ret None
     | Some a \<Rightarrow> run_branches env code rec n i (payload (region_states k ! i)) td (select a))"

text \<open>\<open>match (&mut self.states[i], &event)\<close>: normal, specific unexpected, \<open>unexpected<_>\<close>.\<close>

definition event_branches :: "string \<Rightarrow> region_arms \<Rightarrow> branch list" where
  "event_branches e a =
     (case map_of (ra_normal a) e of
        Some bs \<Rightarrow> bs
      | None \<Rightarrow>
          (case map_of (ra_unexpected a) e of
             Some b \<Rightarrow> [b]
           | None \<Rightarrow> option_list (ra_unexpected_wildcard a)))"

definition event_trigger_data :: "'v variant_value \<Rightarrow> ('v, 'err) trigger_data" where
  "event_trigger_data e = (case payload e of None \<Rightarrow> NoData | Some v \<Rightarrow> EventData v)"

fun dispatch_regions ::
  "('c, 'v, 'err, 'q) region_env \<Rightarrow> orth_code \<Rightarrow> ('v variant_value \<Rightarrow> ('c, 'v, 'err, 'q, unit) orth_step)
    \<Rightarrow> nat \<Rightarrow> 'v variant_value \<Rightarrow> nat \<Rightarrow> region_code list \<Rightarrow> ('c, 'v, 'err, 'q, bool) orth_step" where
  "dispatch_regions env code rec n e i [] = ret False"
| "dispatch_regions env code rec n e i (rc # rcs) =
     bind (handles env code rec n i (event_branches (variant e)) (event_trigger_data e) rc) (\<lambda>h.
     bind (dispatch_regions env code rec n e (Suc i) rcs) (\<lambda>handled. ret (h \<noteq> None \<or> handled)))"

section \<open>Exceptions\<close>

text \<open>
  Every region gets the error. The recovery says whether some region handled it and made progress
  for the faulting site; \<open>exited\<close> collects the regions that moved.
\<close>

fun recover_regions ::
  "('c, 'v, 'err, 'q) region_env \<Rightarrow> orth_code \<Rightarrow> ('v variant_value \<Rightarrow> ('c, 'v, 'err, 'q, unit) orth_step)
    \<Rightarrow> nat \<Rightarrow> 'err \<Rightarrow> nat option \<Rightarrow> nat \<Rightarrow> region_code list \<Rightarrow> bool option \<times> bool list
    \<Rightarrow> ('c, 'v, 'err, 'q, bool option \<times> bool list) orth_step" where
  "recover_regions env code rec n err site i [] acc = ret acc"
| "recover_regions env code rec n err site i (rc # rcs) (recovery, exited) =
     bind (handles env code rec n i ra_exception (ErrorData err) rc) (\<lambda>h.
       recover_regions env code rec n err site (Suc i) rcs
         (case h of
            None \<Rightarrow> (recovery, exited)
          | Some moved \<Rightarrow> (Some (moved \<and> site = Some i \<or> recovery = Some True),
              if moved then exited[i := True] else exited)))"

definition recover_walk ::
  "('c, 'v, 'err, 'q) region_env \<Rightarrow> orth_code \<Rightarrow> ('v variant_value \<Rightarrow> ('c, 'v, 'err, 'q, unit) orth_step)
    \<Rightarrow> nat \<Rightarrow> 'err \<Rightarrow> nat option \<Rightarrow> ('c, 'v, 'err, 'q, bool option \<times> bool list) orth_step" where
  "recover_walk env code rec n err site =
     recover_regions env code rec n err site 0 (oc_regions code)
       (None, replicate (length (oc_regions code)) False)"

definition dispatch_attempt ::
  "('c, 'v, 'err, 'q) region_env \<Rightarrow> orth_code \<Rightarrow> ('v variant_value \<Rightarrow> ('c, 'v, 'err, 'q, unit) orth_step)
    \<Rightarrow> nat \<Rightarrow> 'v variant_value \<Rightarrow> ('c, 'v, 'err, 'q, bool \<times> bool) orth_step" where
  "dispatch_attempt env code rec n e =
     (let attempt = bind (dispatch_regions env code rec n e 0 (oc_regions code)) (\<lambda>h. ret (h, False)) in
      if oc_has_exception code
      then catch attempt (\<lambda>error.
        case callback_error error of
          None \<Rightarrow> raise error
        | Some err \<Rightarrow>
            bind (recover_walk env code rec n err None) (\<lambda>(recovery, _).
              if recovery \<noteq> None then ret (True, True) else raise error))
      else attempt)"

section \<open>Stabilization\<close>

definition complete_region ::
  "('c, 'v, 'err, 'q) region_env \<Rightarrow> orth_code \<Rightarrow> ('v variant_value \<Rightarrow> ('c, 'v, 'err, 'q, unit) orth_step)
    \<Rightarrow> nat \<Rightarrow> 'v variant_value option \<Rightarrow> nat \<Rightarrow> region_code \<Rightarrow> ('c, 'v, 'err, 'q, bool) orth_step" where
  "complete_region env code rec n origin i rc =
     bind
       (case origin of
          None \<Rightarrow> ret None
        | Some e \<Rightarrow>
            handles env code rec n i (\<lambda>a. option_list (map_of (ra_origin a) (variant e))) (event_trigger_data e) rc)
       (\<lambda>h. if h \<noteq> None then ret True
         else bind (handles env code rec n i ra_anonymous NoData rc) (\<lambda>h. ret (h \<noteq> None)))"

text \<open>
  One pass over the regions that are not settled: whether some region progressed, or the callback
  error with the region in which it happened.
\<close>

fun completion_pass ::
  "('c, 'v, 'err, 'q) region_env \<Rightarrow> orth_code \<Rightarrow> ('v variant_value \<Rightarrow> ('c, 'v, 'err, 'q, unit) orth_step)
    \<Rightarrow> nat \<Rightarrow> 'v variant_value option \<Rightarrow> bool list \<Rightarrow> nat \<Rightarrow> region_code list
    \<Rightarrow> ('c, 'v, 'err, 'q, nat \<times> 'err machine_error + bool) orth_step" where
  "completion_pass env code rec n origin settled i [] = ret (Inr False)"
| "completion_pass env code rec n origin settled i (rc # rcs) =
     (if settled ! i then completion_pass env code rec n origin settled (Suc i) rcs
      else bind
        (let step = bind (complete_region env code rec n origin i rc) (\<lambda>h. ret (Inr h)) in
         if oc_has_exception code
         then catch step (\<lambda>error. if callback_error error = None then raise error else ret (Inl (i, error)))
         else step)
        (\<lambda>r. case r of
            Inl fault \<Rightarrow> ret (Inl fault)
          | Inr h \<Rightarrow>
              bind (completion_pass env code rec n origin settled (Suc i) rcs) (\<lambda>r'.
                ret (case r' of Inl fault \<Rightarrow> Inl fault | Inr h' \<Rightarrow> Inr (h \<or> h')))))"

text \<open>
  \<open>stabilize\<close>: a recovered fault that moved its own region goes on without an origin; any other one
  settles the region for the rest of the call. Regions that moved are settled no longer.
\<close>

fun stabilize ::
  "nat \<Rightarrow> ('c, 'v, 'err, 'q) region_env \<Rightarrow> orth_code \<Rightarrow> ('v variant_value \<Rightarrow> ('c, 'v, 'err, 'q, unit) orth_step)
    \<Rightarrow> nat \<Rightarrow> 'v variant_value option \<Rightarrow> bool list \<Rightarrow> ('c, 'v, 'err, 'q, unit) orth_step" where
  "stabilize 0 env code rec n origin settled = (\<lambda>_. None)"
| "stabilize (Suc m) env code rec n origin settled =
     bind (completion_pass env code rec n origin settled 0 (oc_regions code)) (\<lambda>r.
       case r of
         Inr handled \<Rightarrow> if handled then stabilize m env code rec n origin settled else ret ()
       | Inl (site, error) \<Rightarrow>
           (case callback_error error of
              None \<Rightarrow> raise error
            | Some err \<Rightarrow>
                bind (recover_walk env code rec n err (Some site)) (\<lambda>(recovery, exited).
                  let settled' = map2 (\<lambda>s x. s \<and> \<not> x) settled exited in
                  case recovery of
                    None \<Rightarrow> raise error
                  | Some moved \<Rightarrow>
                      if moved then stabilize m env code rec n None settled'
                      else stabilize m env code rec n origin (settled'[site := True]))))"

definition stabilize_machine ::
  "('c, 'v, 'err, 'q) region_env \<Rightarrow> orth_code \<Rightarrow> ('v variant_value \<Rightarrow> ('c, 'v, 'err, 'q, unit) orth_step)
    \<Rightarrow> nat \<Rightarrow> 'v variant_value option \<Rightarrow> ('c, 'v, 'err, 'q, unit) orth_step" where
  "stabilize_machine env code rec n origin =
     stabilize n env code rec n origin (replicate (length (oc_regions code)) False)"

section \<open>Events\<close>

definition orth_dispatch ::
  "('c, 'v, 'err, 'q) region_env \<Rightarrow> orth_code \<Rightarrow> ('v variant_value \<Rightarrow> ('c, 'v, 'err, 'q, unit) orth_step)
    \<Rightarrow> nat \<Rightarrow> 'v variant_value \<Rightarrow> ('c, 'v, 'err, 'q, unit) orth_step" where
  "orth_dispatch env code rec n e =
     then_do (update (observe_region (RegionEvent (variant e))))
       (if rv_dispatch env (variant e)
        then bind (dispatch_attempt env code rec n e) (\<lambda>(handled, recovered).
          if handled then stabilize_machine env code rec n (if recovered then None else Some e)
          else raise InvalidEvent)
        else raise InvalidEvent)"

primrec orth_process_sync ::
  "nat \<Rightarrow> ('c, 'v, 'err, 'q) region_env \<Rightarrow> orth_code \<Rightarrow> 'v variant_value \<Rightarrow> ('c, 'v, 'err, 'q, unit) orth_step" where
  "orth_process_sync 0 env code e = (\<lambda>_. None)"
| "orth_process_sync (Suc n) env code e = orth_dispatch env code (orth_process_sync n env code) n e"

definition orth_process_async ::
  "nat \<Rightarrow> ('c, 'v, 'err, 'q) region_env \<Rightarrow> orth_code \<Rightarrow> 'v variant_value \<Rightarrow> ('c, 'v, 'err, 'q, unit) orth_step" where
  "orth_process_async n env code e =
     then_do (region_pend env e)
       (while_ok n (bind (region_pop_pending env) (\<lambda>popped.
          case popped of
            None \<Rightarrow> ret False
          | Some e' \<Rightarrow> then_do (orth_dispatch env code (\<lambda>_ _. None) n e') (ret True))))"

definition orth_process_event ::
  "nat \<Rightarrow> ('c, 'v, 'err, 'q) region_env \<Rightarrow> orth_code \<Rightarrow> 'v variant_value \<Rightarrow> ('c, 'v, 'err, 'q, unit) orth_step" where
  "orth_process_event n env code e =
     (if oc_async_queue code then orth_process_async n env code e else orth_process_sync n env code e)"

section \<open>Construction, initialization and queries\<close>

definition initial_value :: "('c, 'v, 'err, 'q) region_env \<Rightarrow> region_code \<Rightarrow> 'v variant_value" where
  "initial_value env rc =
     Variant (rc_initial rc) (if rc_initial_data rc then Some (rv_default env (rc_initial rc)) else None)"

definition new_orth_core :: "('c, 'v, 'err, 'q) region_env \<Rightarrow> orth_code \<Rightarrow> 'c \<Rightarrow> ('c, 'v, 'q) orth_core" where
  "new_orth_core env code ctx =
     \<lparr>region_states = map (initial_value env) (oc_regions code),
      states_exit_skip = replicate (length (oc_regions code)) False, orth_context = ctx,
      orth_deferred = rv_queue_new env, orth_pending = rv_queue_new env, orth_observed = []\<rparr>"

definition initial_entry ::
  "('c, 'v, 'err, 'q) region_env \<Rightarrow> nat \<times> region_code \<Rightarrow> ('c, 'v, 'err, 'q, unit) orth_step" where
  "initial_entry env = (\<lambda>(i, rc). with_core (\<lambda>k.
     action_calls env (rc_initial_entry rc) (if rc_initial_data rc then payload (region_states k ! i) else None)))"

definition orth_initialize ::
  "nat \<Rightarrow> ('c, 'v, 'err, 'q) region_env \<Rightarrow> orth_code \<Rightarrow> ('c, 'v, 'err, 'q, unit) orth_step" where
  "orth_initialize n env code =
     then_do (for_each (initial_entry env) (enumerate 0 (oc_regions code)))
       (stabilize_machine env code (orth_process_event n env code) n None)"

definition orth_set_current_states ::
  "('c, 'v, 'q) orth_core \<Rightarrow> 'v variant_value list \<Rightarrow> ('c, 'v, 'q) orth_core \<times> 'v variant_value list" where
  "orth_set_current_states k ss =
     (k\<lparr>states_exit_skip := map (\<lambda>_. False) (states_exit_skip k), region_states := ss\<rparr>, region_states k)"

definition orth_is :: "('c, 'v, 'q) orth_core \<Rightarrow> 'v variant_value list \<Rightarrow> bool" where
  "orth_is k expected \<longleftrightarrow> map variant (region_states k) = map variant expected"

definition orth_is_region :: "('c, 'v, 'q) orth_core \<Rightarrow> nat \<Rightarrow> 'v variant_value \<Rightarrow> bool" where
  "orth_is_region k i expected \<longleftrightarrow>
     i < length (region_states k) \<and> variant (region_states k ! i) = variant expected"

definition orth_is_terminated :: "('c, 'v, 'q) orth_core \<Rightarrow> bool" where
  "orth_is_terminated k \<longleftrightarrow> list_all (\<lambda>s. variant s = ''X'') (region_states k)"

inductive orth_reachable :: "('c, 'v, 'err, 'q) region_env \<Rightarrow> orth_code \<Rightarrow> ('c, 'v, 'q) orth_core \<Rightarrow> bool"
  for env code where
  orth_initialized: "orth_initialize n env code (new_orth_core env code ctx) = Some (k, r) \<Longrightarrow> orth_reachable env code k"
| orth_processed: "orth_reachable env code k \<Longrightarrow> orth_process_event n env code e k = Some (k', r) \<Longrightarrow>
    orth_reachable env code k'"

end
