(* ===== verification/Region_Discovery.thy ===== *)
theory Region_Discovery
  imports Orthogonal_Codegen
begin

text \<open>
  What \<open>discover_regions\<close> computes: the connected components of the initial states in the undirected
  graph of the external rows. The search is compared with reachability in that graph.
\<close>

section \<open>The graph of a table\<close>

definition joins :: "state_transition \<Rightarrow> bool" where
  "joins t \<longleftrightarrow> \<not> in_wildcard (st_in t) \<and> \<not> st_internal t \<and> out_ident (st_out t) \<noteq> ''X''"

definition state_edges :: "state_transition list \<Rightarrow> (string \<times> string) set" where
  "state_edges ts =
     (let es = (\<lambda>t. (in_ident (st_in t), out_ident (st_out t))) ` {t \<in> set ts. joins t} in es \<union> es\<inverse>)"

definition component :: "state_transition list \<Rightarrow> string \<Rightarrow> string set" where
  "component ts s = (state_edges ts)\<^sup>* `` {s}"

definition graph_states :: "state_transition list \<Rightarrow> string set" where
  "graph_states ts =
     {in_ident (st_in t) |t. t \<in> set ts \<and> \<not> in_wildcard (st_in t)} \<union>
     {out_ident (st_out t) |t. t \<in> set ts \<and> joins t}"

definition edge_rel :: "adjacency \<Rightarrow> (string \<times> string) set" where
  "edge_rel adj = {(a, b). b \<in> set (neighbours adj a)}"

lemma sym_state_edges: "sym (state_edges ts)"
  by (auto simp: state_edges_def sym_def Let_def)

lemma component_refl: "s \<in> component ts s"
  by (simp add: component_def)

lemma component_sym: "t \<in> component ts s \<Longrightarrow> s \<in> component ts t"
  unfolding component_def using sym_rtrancl [OF sym_state_edges] by (auto dest: symD)

lemma component_trans: "t \<in> component ts s \<Longrightarrow> u \<in> component ts t \<Longrightarrow> u \<in> component ts s"
  unfolding component_def by (auto intro: rtrancl_trans)

lemma component_closed: "t \<in> component ts s \<Longrightarrow> component ts t = component ts s"
  by (meson component_sym component_trans subsetI subset_antisym)

lemma neighbours_link: "neighbours (link s ns adj) a = (if a = s then neighbours adj s @ ns else neighbours adj a)"
  by (simp add: neighbours_def link_def update_conv')

lemma dom_link: "dom (map_of (link s ns adj)) = insert s (dom (map_of adj))"
  by (simp add: link_def update_conv')

lemma row_edges_edges: "edge_rel (row_edges t adj) = edge_rel adj \<union> state_edges [t]"
  by (auto simp: row_edges_def edge_rel_def state_edges_def joins_def neighbours_link Let_def split: if_splits)

lemma row_edges_dom: "dom (map_of (row_edges t adj)) = dom (map_of adj) \<union> graph_states [t]"
  by (auto simp: row_edges_def graph_states_def joins_def dom_link Let_def)

lemma state_edges_Cons: "state_edges (t # ts) = state_edges [t] \<union> state_edges ts"
  by (auto simp: state_edges_def Let_def)

lemma graph_states_Cons: "graph_states (t # ts) = graph_states [t] \<union> graph_states ts"
  by (auto simp: graph_states_def)

lemma adjacency_fold:
  "edge_rel (fold row_edges ts adj) = edge_rel adj \<union> state_edges ts \<and>
   dom (map_of (fold row_edges ts adj)) = dom (map_of adj) \<union> graph_states ts"
proof (induction ts arbitrary: adj)
  case Nil
  show ?case by (simp add: state_edges_def graph_states_def)
next
  case (Cons t ts)
  show ?case
    by (simp add: Cons.IH row_edges_edges row_edges_dom state_edges_Cons [of t ts] graph_states_Cons [of t ts] Un_assoc)
qed

lemma adjacency_of_edges: "edge_rel (adjacency_of ts) = state_edges ts"
  by (simp add: adjacency_of_def adjacency_fold) (simp add: edge_rel_def neighbours_def)

lemma adjacency_of_dom: "dom (map_of (adjacency_of ts)) = graph_states ts"
  by (simp add: adjacency_of_def adjacency_fold)

section \<open>The search\<close>

lemma step_rel: "b \<in> set (neighbours adj a) \<Longrightarrow> (a, b) \<in> (edge_rel adj)\<^sup>*"
  by (auto simp: edge_rel_def)

lemma queue_reach:
  "(edge_rel adj)\<^sup>* `` set (queue @ neighbours adj s) \<subseteq> (edge_rel adj)\<^sup>* `` set (s # queue)"
  by (auto dest: rtrancl_trans [OF step_rel])

text \<open>
  A search that succeeds claims new states only; they are reachable from the queue, contain it, and
  all their neighbours are claimed for the region.
\<close>

lemma claim_region_Ok:
  assumes "claim_region adj i queue claimed states = Ok (claimed', states')"
  shows "\<exists>S. map_of claimed' = (\<lambda>s. if s \<in> S then Some i else map_of claimed s) \<and>
    S \<inter> dom (map_of claimed) = {} \<and> set states' = set states \<union> S \<and>
    S \<subseteq> (edge_rel adj)\<^sup>* `` set queue \<and> (\<forall>s \<in> set queue. map_of claimed' s = Some i) \<and>
    (\<forall>s \<in> S. \<forall>t \<in> set (neighbours adj s). map_of claimed' t = Some i)"
  using assms
proof (induction adj i queue claimed states rule: claim_region.induct)
  case (1 adj i claimed states)
  then show ?case by (intro exI [of _ "{}"]) auto
next
  case (2 adj i s queue claimed states)
  show ?case
  proof (cases "map_of claimed s")
    case (Some owner)
    with "2.prems" have "owner = i" "claim_region adj i queue claimed states = Ok (claimed', states')"
      by (simp_all split: if_splits)
    with "2.IH"(2) [OF Some] obtain S where
      "map_of claimed' = (\<lambda>s. if s \<in> S then Some i else map_of claimed s)"
      "S \<inter> dom (map_of claimed) = {}" "set states' = set states \<union> S"
      "S \<subseteq> (edge_rel adj)\<^sup>* `` set queue" "\<forall>s \<in> set queue. map_of claimed' s = Some i"
      "\<forall>s \<in> S. \<forall>t \<in> set (neighbours adj s). map_of claimed' t = Some i"
      by auto
    with Some \<open>owner = i\<close> show ?thesis by (intro exI [of _ S]) auto
  next
    case None
    from "2.prems" None have
      "claim_region adj i (queue @ neighbours adj s) (AList.update s i claimed) (states @ [s]) = Ok (claimed', states')"
      by simp
    from "2.IH"(1) [OF None this] obtain S where
      S: "map_of claimed' = (\<lambda>t. if t \<in> S then Some i else map_of (AList.update s i claimed) t)"
      "S \<inter> dom (map_of (AList.update s i claimed)) = {}" "set states' = set (states @ [s]) \<union> S"
      "S \<subseteq> (edge_rel adj)\<^sup>* `` set (queue @ neighbours adj s)"
      "\<forall>t \<in> set (queue @ neighbours adj s). map_of claimed' t = Some i"
      "\<forall>t \<in> S. \<forall>u \<in> set (neighbours adj t). map_of claimed' u = Some i"
      by blast
    have reach: "insert s S \<subseteq> (edge_rel adj)\<^sup>* `` set (s # queue)"
      using subset_trans [OF S(4) queue_reach] by auto
    show ?thesis
      using S(1,2,3,5,6) None reach
      by (intro exI [of _ "insert s S"]) (auto simp: update_conv')
  qed
qed

text \<open>A search fails at a reachable state of another region.\<close>

lemma claim_region_Err:
  assumes "claim_region adj i queue claimed states = Err e"
  shows "\<exists>s \<in> (edge_rel adj)\<^sup>* `` set queue. \<exists>j. j \<noteq> i \<and> map_of claimed s = Some j"
  using assms
proof (induction adj i queue claimed states rule: claim_region.induct)
  case (2 adj i s queue claimed states)
  show ?case
  proof (cases "map_of claimed s")
    case (Some owner)
    with 2 show ?thesis by (cases "owner = i") auto
  next
    case None
    with 2 obtain t j where t: "t \<in> (edge_rel adj)\<^sup>* `` set (queue @ neighbours adj s)" "j \<noteq> i"
      "map_of (AList.update s i claimed) t = Some j" by auto
    then have "map_of claimed t = Some j" by (simp add: update_conv' split: if_splits)
    with t(1,2) queue_reach show ?thesis by blast
  qed
qed simp

lemma closed_reach:
  assumes "\<And>s t. s \<in> C \<Longrightarrow> (s, t) \<in> E \<Longrightarrow> t \<in> C" "a \<in> C"
  shows "E\<^sup>* `` {a} \<subseteq> C"
proof
  fix b assume "b \<in> E\<^sup>* `` {a}"
  then have "(a, b) \<in> E\<^sup>*" by simp
  then show "b \<in> C" by induction (use assms in auto)
qed

text \<open>A search for a fresh index from one state yields the component of that state.\<close>

lemma claim_component:
  assumes "claim_region (adjacency_of ts) i [a] claimed [] = Ok (claimed', states)"
    and fresh: "\<forall>s j. map_of claimed s = Some j \<longrightarrow> j < i"
  shows "set states = component ts a \<and> component ts a \<inter> dom (map_of claimed) = {} \<and>
    map_of claimed' = (\<lambda>s. if s \<in> component ts a then Some i else map_of claimed s)"
proof -
  from claim_region_Ok [OF assms(1)] obtain S where
    S: "map_of claimed' = (\<lambda>s. if s \<in> S then Some i else map_of claimed s)"
    "S \<inter> dom (map_of claimed) = {}" "set states = S" "S \<subseteq> (state_edges ts)\<^sup>* `` {a}"
    "map_of claimed' a = Some i" "\<forall>s \<in> S. \<forall>t. (s, t) \<in> state_edges ts \<longrightarrow> map_of claimed' t = Some i"
    by (auto simp: adjacency_of_edges [symmetric] edge_rel_def)
  have mem: "s \<in> S" if "map_of claimed' s = Some i" for s
    using that fresh S(1) by (metis less_irrefl)
  have "(state_edges ts)\<^sup>* `` {a} \<subseteq> S"
  proof (rule closed_reach)
    show "a \<in> S" by (rule mem [OF S(5)])
    show "t \<in> S" if "s \<in> S" "(s, t) \<in> state_edges ts" for s t
      using S(6) that mem by blast
  qed
  with S(4) have "S = component ts a" by (simp add: component_def)
  with S(1-3) show ?thesis by simp
qed

definition apart :: "state_transition list \<Rightarrow> string list \<Rightarrow> bool" where
  "apart ts initials \<longleftrightarrow> sorted_wrt (\<lambda>a b. component ts a \<inter> component ts b = {}) initials"

lemma claim_regions_Ok:
  assumes "claim_regions (adjacency_of ts) i initials claimed = Ok (claimed', rs)"
    and "\<forall>s j. map_of claimed s = Some j \<longrightarrow> j < i"
  shows "map rg_initial rs = initials \<and> (\<forall>r \<in> set rs. set (rg_states r) = component ts (rg_initial r)) \<and>
    apart ts initials \<and> (\<forall>a \<in> set initials. component ts a \<inter> dom (map_of claimed) = {}) \<and>
    dom (map_of claimed') = dom (map_of claimed) \<union> (\<Union>a \<in> set initials. component ts a)"
  using assms
proof (induction initials arbitrary: i claimed rs)
  case Nil
  then show ?case by (simp add: apart_def)
next
  case (Cons a initials)
  from Cons.prems(1) obtain c1 states rs' where
    run: "claim_region (adjacency_of ts) i [a] claimed [] = Ok (c1, states)"
    "claim_regions (adjacency_of ts) (Suc i) initials c1 = Ok (claimed', rs')"
    "rs = \<lparr>rg_initial = a, rg_states = states\<rparr> # rs'"
    by (auto simp: try_then_Inr_iff)
  note one = claim_component [OF run(1) Cons.prems(2)]
  have "\<forall>s j. map_of c1 s = Some j \<longrightarrow> j < Suc i"
    using one Cons.prems(2) by (auto simp: less_Suc_eq split: if_splits)
  from Cons.IH [OF run(2) this] one run(3) show ?case
    by (auto simp: apart_def dom_def split: if_splits)
qed

lemma claim_regions_Err:
  assumes "claim_regions (adjacency_of ts) i initials claimed = Err e"
    and "\<forall>s j. map_of claimed s = Some j \<longrightarrow> j < i"
  shows "\<not> apart ts initials \<or> (\<exists>a \<in> set initials. component ts a \<inter> dom (map_of claimed) \<noteq> {})"
  using assms
proof (induction initials arbitrary: i claimed)
  case (Cons a initials)
  show ?case
  proof (cases "claim_region (adjacency_of ts) i [a] claimed []")
    case (Inl e')
    from claim_region_Err [OF Inl] show ?thesis by (auto simp: adjacency_of_edges component_def)
  next
    case (Inr r)
    obtain c1 states where r: "r = (c1, states)" by (cases r)
    note one = claim_component [OF Inr [unfolded r] Cons.prems(2)]
    have "claim_regions (adjacency_of ts) (Suc i) initials c1 = Err e"
      using Cons.prems(1) unfolding claim_regions.simps(2) Inr r
      by (cases "claim_regions (adjacency_of ts) (Suc i) initials c1") auto
    moreover have "\<forall>s j. map_of c1 s = Some j \<longrightarrow> j < Suc i"
      using one Cons.prems(2) by (auto simp: less_Suc_eq split: if_splits)
    ultimately have "\<not> apart ts initials \<or> (\<exists>b \<in> set initials. component ts b \<inter> dom (map_of c1) \<noteq> {})"
      by (rule Cons.IH)
    moreover have "dom (map_of c1) = dom (map_of claimed) \<union> component ts a"
      using one by (auto simp: dom_def split: if_splits)
    ultimately show ?thesis unfolding apart_def sorted_wrt.simps list.set by blast
  qed
qed simp

definition covered :: "state_transition list \<Rightarrow> string list \<Rightarrow> bool" where
  "covered ts initials \<longleftrightarrow> graph_states ts \<subseteq> (\<Union>a \<in> set initials. component ts a)"

lemma unclaimed_None:
  "find (\<lambda>(s, _). map_of claimed s = None) adj = None \<longleftrightarrow> dom (map_of adj) \<subseteq> dom (map_of claimed)"
  by (simp add: find_None_iff dom_map_of_conv_image_fst map_of_eq_None_iff image_subset_iff case_prod_unfold)
    (metis (no_types, lifting) fst_conv surj_pair)

lemma discover_regions_cases:
  "(\<exists>e. discover_regions sm = Err e) \<and> \<not> (apart (transitions sm) (initial_states sm) \<and> covered (transitions sm) (initial_states sm)) \<or>
   (\<exists>rs. discover_regions sm = Ok rs \<and> apart (transitions sm) (initial_states sm) \<and>
     covered (transitions sm) (initial_states sm) \<and> map rg_initial rs = initial_states sm \<and>
     (\<forall>r \<in> set rs. set (rg_states r) = component (transitions sm) (rg_initial r)))"
proof (cases "claim_regions (adjacency_of (transitions sm)) 0 (initial_states sm) []")
  case (Inl e)
  with claim_regions_Err [OF Inl] show ?thesis by (auto simp: discover_regions_def Let_def)
next
  case (Inr r)
  obtain claimed rs where r: "r = (claimed, rs)" by (cases r)
  note found = claim_regions_Ok [OF Inr [unfolded r]]
  let ?missing = "find (\<lambda>(s, _). map_of claimed s = None) (adjacency_of (transitions sm))"
  have "?missing = None \<longleftrightarrow> covered (transitions sm) (initial_states sm)"
    unfolding unclaimed_None adjacency_of_dom covered_def using found by simp
  moreover have "discover_regions sm =
      (case ?missing of Some (s, _) \<Rightarrow> Err (''state `'' @ s @ ''` is not connected to an orthogonal initial state'')
        | None \<Rightarrow> Ok rs)"
    by (simp add: discover_regions_def Let_def Inr r)
  ultimately show ?thesis using found by (cases ?missing) auto
qed

lemma discover_components:
  assumes "discover_regions sm = Ok rs"
  shows "map rg_initial rs = initial_states sm" "r \<in> set rs \<Longrightarrow> set (rg_states r) = component (transitions sm) (rg_initial r)"
  using discover_regions_cases [of sm] assms by auto

text \<open>
  C31. \<open>discover_regions\<close> accepts a table exactly when the starting states lie in different components
  of the graph of its external rows (the shared final state \<open>X\<close> apart) and every state lies in the
  component of one; the regions it returns are these components, one for each starting row, in order.
\<close>

theorem discover_regions_components:
  "case discover_regions sm of
     Inl _ \<Rightarrow> \<not> (apart (transitions sm) (initial_states sm) \<and> covered (transitions sm) (initial_states sm))
   | Inr rs \<Rightarrow> apart (transitions sm) (initial_states sm) \<and> covered (transitions sm) (initial_states sm) \<and>
       map (\<lambda>r. (rg_initial r, set (rg_states r))) rs =
         map (\<lambda>a. (a, component (transitions sm) a)) (initial_states sm)"
proof (cases "discover_regions sm")
  case (Inl e)
  then show ?thesis using discover_regions_cases [of sm] by auto
next
  case (Inr rs)
  then have "map (\<lambda>r. (rg_initial r, set (rg_states r))) rs = map (\<lambda>r. (rg_initial r, component (transitions sm) (rg_initial r))) rs"
    using discover_components(2) by simp
  also have "\<dots> = map (\<lambda>a. (a, component (transitions sm) a)) (map rg_initial rs)" by simp
  finally show ?thesis
    using Inr discover_regions_cases [of sm] unfolding discover_components(1) [OF Inr] by auto
qed

end
