(* ===== verification/Orthogonal_Runs.thy ===== *)
theory Orthogonal_Runs
  imports Orthogonal_Machine Flat_Runs Region_Discovery
begin

text \<open>
  Invariants of orthogonal machines. The locale \<open>region_invariant\<close> says what a property of the core
  must satisfy to hold in every run: callbacks and queues keep it, and so does the change of a region
  along a branch of its arms. Its lemmas follow the constructs of the emitted code up to
  \<open>process_event\<close> and \<open>initialize\<close>. The theory interprets it on the invariant of the tables: every
  region is in a state of its own or in \<open>X\<close>, and changes follow the rows.
\<close>

section \<open>Properties that callbacks keep\<close>

definition region_callbacks_keep :: "(('c, 'v, 'q) orth_core \<Rightarrow> bool) \<Rightarrow> bool" where
  "region_callbacks_keep P \<longleftrightarrow>
     (\<forall>k c. P k \<longrightarrow> P (k\<lparr>orth_context := c\<rparr>)) \<and>
     (\<forall>k q. P k \<longrightarrow> P (k\<lparr>orth_deferred := q\<rparr>)) \<and>
     (\<forall>k q. P k \<longrightarrow> P (k\<lparr>orth_pending := q\<rparr>)) \<and>
     (\<forall>k ss. P k \<longrightarrow> P (k\<lparr>states_exit_skip := ss\<rparr>)) \<and>
     (\<forall>k x. P k \<longrightarrow> (case x of RegionEvent _ \<Rightarrow> True | RegionGuard _ _ _ \<Rightarrow> True | RegionAction _ _ \<Rightarrow> True | _ \<Rightarrow> False)
        \<longrightarrow> P (observe_region x k))"

lemma region_callbacks_keepD:
  assumes "region_callbacks_keep P" "P k"
  shows "P (k\<lparr>orth_context := c\<rparr>)" "P (k\<lparr>orth_deferred := q\<rparr>)" "P (k\<lparr>orth_pending := q\<rparr>)"
    "P (k\<lparr>states_exit_skip := ss\<rparr>)" "P (observe_region (RegionEvent e) k)"
    "P (observe_region (RegionGuard g e b) k)" "P (observe_region (RegionAction a e) k)"
  using assms unfolding region_callbacks_keep_def by simp_all

lemma region_callbacks_keep_at:
  "region_callbacks_keep P \<Longrightarrow> region_callbacks_keep (\<lambda>k. P k \<and> variant (region_states k ! i) = s)"
  unfolding region_callbacks_keep_def by (simp add: observe_region_def)

lemma guard_tokens_keeps [step_inv]:
  "region_callbacks_keep P \<Longrightarrow> preserves P (guard_tokens env e sd td g)"
  unfolding guard_tokens_def
  by (rule preserves_lift_step, rule eval_guard_keeps)
     (auto simp: region_call_guard_def region_callbacks_keepD split: sum.splits)

lemma region_call_action_keeps [step_inv]:
  "region_callbacks_keep P \<Longrightarrow> preserves P (region_call_action env e sd td a)"
  unfolding region_call_action_def
  by (rule preserves_lift_step) (auto simp: region_callbacks_keepD split: prod.splits sum.splits)

lemma run_steps_keeps [step_inv]:
  "(\<And>g. preserves P (guard g)) \<Longrightarrow> (\<And>a. preserves P (act a)) \<Longrightarrow> preserves P (run_steps guard act steps data)"
proof (induction steps arbitrary: data)
  case (Cons x steps)
  then show ?case by (cases x) (auto intro!: step_inv)
qed (auto intro: triple_ret)

lemma action_calls_keeps [step_inv]: "region_callbacks_keep P \<Longrightarrow> preserves P (action_calls env as sd)"
  unfolding action_calls_def by (intro step_inv)

lemma region_queue_steps_keep [step_inv]:
  assumes "region_callbacks_keep P"
  shows "preserves P (region_defer env e)" "preserves P (region_pend env e)"
    "preserves P (region_pop_deferred env)" "preserves P (region_pop_pending env)"
  unfolding region_defer_def region_pend_def region_pop_deferred_def region_pop_pending_def
  using assms
  by (auto intro!: preserves_lift_step simp: push_region_queue_def region_callbacks_keepD split: prod.splits)

lemma region_process_keeps [step_inv]:
  "region_callbacks_keep P \<Longrightarrow> (\<And>e. preserves P (rec e)) \<Longrightarrow> preserves P (region_process env code rec sd td x)"
  unfolding region_process_def Let_def by (intro step_inv) auto

lemma region_drain_keeps [step_inv]:
  "region_callbacks_keep P \<Longrightarrow> (\<And>e. preserves P (rec e)) \<Longrightarrow> preserves P (region_drain env code rec n)"
  unfolding region_drain_def region_drain_step_def by (intro step_inv) (auto intro!: step_inv)

lemma set_exit_skip_keeps [step_inv]: "region_callbacks_keep P \<Longrightarrow> preserves P (set_exit_skip i b)"
  unfolding set_exit_skip_def by (rule preserves_update) (rule region_callbacks_keepD)

lemma exit_region_keeps [step_inv]: "region_callbacks_keep P \<Longrightarrow> preserves P (exit_region env i br sd)"
  unfolding exit_region_def by (intro step_inv)

section \<open>Branches of a state\<close>

definition arm_branches :: "region_arms \<Rightarrow> branch list" where
  "arm_branches a =
     concat (map snd (ra_normal a)) @ map snd (ra_unexpected a) @ option_list (ra_unexpected_wildcard a) @
     map snd (ra_origin a) @ ra_anonymous a @ ra_exception a"

lemma map_of_snd: "map_of xs k = Some v \<Longrightarrow> v \<in> snd ` set xs"
  by (force dest: map_of_SomeD)

lemma set_option_list [simp]: "set (option_list x) = set_option x"
  by (cases x) (simp_all add: option_list_def)

lemma selected_branches:
  "set (event_branches e a) \<subseteq> set (arm_branches a)" "set (ra_exception a) \<subseteq> set (arm_branches a)"
  "set (option_list (map_of (ra_origin a) e)) \<subseteq> set (arm_branches a)" "set (ra_anonymous a) \<subseteq> set (arm_branches a)"
  by (auto simp: event_branches_def arm_branches_def dest!: map_of_snd split: option.splits)

text \<open>The core after region \<open>i\<close> has taken the value \<open>v\<close>.\<close>

definition replaced :: "nat \<Rightarrow> 'v variant_value \<Rightarrow> ('c, 'v, 'q) orth_core \<Rightarrow> ('c, 'v, 'q) orth_core" where
  "replaced i v k =
     observe_region (RegionChange (variant (region_states k ! i)) (variant v))
       (observe_region (RegionCallback i (variant (region_states k ! i)) (variant v))
         (k\<lparr>region_states := (region_states k)[i := v], states_exit_skip := (states_exit_skip k)[i := False]\<rparr>))"

lemma replace_region_replaced: "replace_region i v = update (replaced i v)"
  by (simp add: replace_region_def replaced_def [abs_def] Let_def)

section \<open>Invariants of runs\<close>

locale region_invariant =
  fixes env :: "('c, 'v, 'err, 'q) region_env" and code :: orth_code
    and P :: "('c, 'v, 'q) orth_core \<Rightarrow> bool"
  assumes callbacks: "region_callbacks_keep P"
    and change: "\<And>i a br k v. i < length (oc_regions code) \<Longrightarrow> a \<in> set (rc_arms (oc_regions code ! i)) \<Longrightarrow>
      br \<in> set (arm_branches a) \<Longrightarrow> \<not> cd_internal br \<Longrightarrow> P k \<Longrightarrow>
      variant (region_states k ! i) = ra_state a \<Longrightarrow> variant v = cd_out_state br \<Longrightarrow> P (replaced i v k)"
begin

abbreviation at_state :: "nat \<Rightarrow> string \<Rightarrow> ('c, 'v, 'q) orth_core \<Rightarrow> bool" where
  "at_state i s k \<equiv> P k \<and> variant (region_states k ! i) = s"

lemmas at_keep = region_callbacks_keep_at [OF callbacks]

definition branch_of :: "nat \<Rightarrow> string \<Rightarrow> branch \<Rightarrow> bool" where
  "branch_of i s br \<longleftrightarrow> i < length (oc_regions code) \<and>
     (\<exists>a \<in> set (rc_arms (oc_regions code ! i)). ra_state a = s \<and> br \<in> set (arm_branches a))"

lemma change_region_keeps:
  assumes br: "branch_of i s br" "\<not> cd_internal br" and actions: "preserves (at_state i s) actions"
  shows "triple (at_state i s) (change_region env i br sd actions) (\<lambda>_. P) P"
proof -
  note keeps = exit_region_keeps [OF at_keep] set_exit_skip_keeps [OF at_keep]
  have weaken: "preserves (at_state i s) m \<Longrightarrow> triple (at_state i s) m (\<lambda>_. at_state i s) P"
    for m :: "('c, 'v, 'err, 'q, 'a) orth_step"
    by (erule triple_post) auto
  have replace: "triple (at_state i s) (replace_region i (Variant (cd_out_state br) new)) (\<lambda>_. P) P" for new
    unfolding replace_region_replaced
    using br by (intro triple_update) (auto simp: branch_of_def intro: change)
  have "triple (at_state i s)
      (let new = (if cd_default_output br then Some (rv_default env (cd_out_state br)) else data) in
        then_do (replace_region i (Variant (cd_out_state br) new))
          (action_calls env (br_entry br) (if br_out_data br then new else None))) (\<lambda>_. P) P" for data
    unfolding Let_def by (rule triple_then_do [OF replace action_calls_keeps [OF callbacks]])
  then show ?thesis
    unfolding change_region_def
    by (intro triple_then_do [OF weaken [OF keeps(1)]] triple_then_do [OF weaken [OF keeps(2)]]
        triple_bind [OF weaken [OF actions]])
qed

lemma run_branch_keeps:
  assumes br: "branch_of i s br" and rec: "\<And>e. preserves P (rec e)"
  shows "triple (at_state i s) (run_branch env code rec n i sd td br)
    (\<lambda>b k. P k \<and> (\<not> b \<longrightarrow> at_state i s k)) P"
proof -
  have acts: "preserves (at_state i s) (run_steps (guard_tokens env e sd td) (region_call_action env e sd td) steps None)"
    for e sd td steps
    by (intro run_steps_keeps guard_tokens_keeps region_call_action_keeps at_keep)
  show ?thesis
    unfolding run_branch_def Let_def
    by (intro emitted_row_keeps guard_tokens_keeps at_keep acts change_region_keeps br step_inv callbacks rec) simp
qed

lemma run_branches_keeps:
  assumes brs: "\<And>br. br \<in> set brs \<Longrightarrow> branch_of i s br" and rec: "\<And>e. preserves P (rec e)"
  shows "triple (at_state i s) (run_branches env code rec n i sd td brs) (\<lambda>_. P) P"
  using brs
proof (induction brs)
  case Nil
  show ?case by (auto intro: triple_ret)
next
  case (Cons br brs)
  have "triple (\<lambda>k. P k \<and> (\<not> b \<longrightarrow> at_state i s k))
      (if b then ret (Some (br_moves br)) else run_branches env code rec n i sd td brs) (\<lambda>_. P) P" for b
    using Cons by (cases b) (auto intro!: triple_ret)
  then show ?case
    unfolding run_branches.simps by (intro triple_bind [OF run_branch_keeps]) (simp_all add: Cons.prems rec)
qed

lemma handles_keeps:
  assumes i: "i < length (oc_regions code)" and rec: "\<And>e. preserves P (rec e)"
    and select: "\<And>a. set (select a) \<subseteq> set (arm_branches a)"
  shows "preserves P (handles env code rec n i select td (oc_regions code ! i))"
proof -
  have "triple (at_state i (variant (region_states k ! i)))
      (case find (\<lambda>a. ra_state a = variant (region_states k ! i)) (rc_arms (oc_regions code ! i)) of
         None \<Rightarrow> ret None
       | Some a \<Rightarrow> run_branches env code rec n i (payload (region_states k ! i)) td (select a)) (\<lambda>_. P) P" for k
  proof (rule triple_case_option)
    show "triple (at_state i (variant (region_states k ! i))) (ret None) (\<lambda>_. P) P" by (auto intro: triple_ret)
    fix a assume "find (\<lambda>a. ra_state a = variant (region_states k ! i)) (rc_arms (oc_regions code ! i)) = Some a"
    then have "a \<in> set (rc_arms (oc_regions code ! i))" "ra_state a = variant (region_states k ! i)"
      by (auto simp: find_Some_iff)
    with i select show "triple (at_state i (variant (region_states k ! i)))
        (run_branches env code rec n i (payload (region_states k ! i)) td (select a)) (\<lambda>_. P) P"
      by (intro run_branches_keeps rec) (auto simp: branch_of_def)
  qed
  then have "triple (\<lambda>k. k = k0 \<and> P k)
      (case find (\<lambda>a. ra_state a = variant (region_states k0 ! i)) (rc_arms (oc_regions code ! i)) of
         None \<Rightarrow> ret None
       | Some a \<Rightarrow> run_branches env code rec n i (payload (region_states k0 ! i)) td (select a)) (\<lambda>_. P) P" for k0
    by (rule triple_pre [rotated]) simp
  then show ?thesis unfolding handles_def by (rule triple_with_core)
qed

lemmas event_keeps = handles_keeps [OF _ _ selected_branches(1)]
  and exception_keeps = handles_keeps [OF _ _ selected_branches(2)]
  and origin_keeps = handles_keeps [OF _ _ selected_branches(3)]
  and anonymous_keeps = handles_keeps [OF _ _ selected_branches(4)]

text \<open>The loops run over the rest of the regions from an index on.\<close>

lemma region_suffix:
  assumes "rc # rcs = drop i (oc_regions code)"
  shows "i < length (oc_regions code)" "rc = oc_regions code ! i" "rcs = drop (Suc i) (oc_regions code)"
proof -
  show i: "i < length (oc_regions code)" using assms by (metis drop_all list.discI not_le)
  have "rc # rcs = oc_regions code ! i # drop (Suc i) (oc_regions code)"
    using assms Cons_nth_drop_Suc [OF i] by simp
  then show "rc = oc_regions code ! i" "rcs = drop (Suc i) (oc_regions code)" by simp_all
qed

lemma dispatch_regions_keeps:
  assumes rec: "\<And>e. preserves P (rec e)"
  shows "rcs = drop i (oc_regions code) \<Longrightarrow> preserves P (dispatch_regions env code rec n e i rcs)"
proof (induction rcs arbitrary: i)
  case (Cons rc rcs)
  note suffix = region_suffix [OF Cons.prems]
  show ?case
    unfolding dispatch_regions.simps suffix(2)
    by (intro preserves_bind event_keeps [OF suffix(1) rec] Cons.IH [OF suffix(3)] triple_ret) simp
qed (auto intro: triple_ret)

lemma recover_regions_keeps:
  assumes rec: "\<And>e. preserves P (rec e)"
  shows "rcs = drop i (oc_regions code) \<Longrightarrow> preserves P (recover_regions env code rec n err site i rcs acc)"
proof (induction rcs arbitrary: i acc)
  case (Cons rc rcs)
  note suffix = region_suffix [OF Cons.prems]
  obtain r x where acc: "acc = (r, x)" by (cases acc)
  show ?case
    unfolding acc recover_regions.simps suffix(2)
    by (intro preserves_bind exception_keeps [OF suffix(1) rec] Cons.IH [OF suffix(3)])
qed (auto intro: triple_ret)

lemma recover_walk_keeps [step_inv]:
  "(\<And>e. preserves P (rec e)) \<Longrightarrow> preserves P (recover_walk env code rec n err site)"
  unfolding recover_walk_def by (rule recover_regions_keeps) simp_all

lemma dispatch_attempt_keeps [step_inv]:
  assumes "\<And>e. preserves P (rec e)"
  shows "preserves P (dispatch_attempt env code rec n e)"
  unfolding dispatch_attempt_def Let_def
  by (intro step_inv dispatch_regions_keeps assms) (auto intro!: step_inv assms)

lemma complete_region_keeps:
  assumes "i < length (oc_regions code)" "\<And>e. preserves P (rec e)"
  shows "preserves P (complete_region env code rec n origin i (oc_regions code ! i))"
  unfolding complete_region_def
  by (intro step_inv origin_keeps anonymous_keeps assms) (auto intro!: step_inv)

lemma completion_pass_keeps:
  assumes rec: "\<And>e. preserves P (rec e)"
  shows "rcs = drop i (oc_regions code) \<Longrightarrow> preserves P (completion_pass env code rec n origin settled i rcs)"
proof (induction rcs arbitrary: i)
  case (Cons rc rcs)
  note suffix = region_suffix [OF Cons.prems]
  have step: "preserves P (let step = bind (complete_region env code rec n origin i rc) (\<lambda>h. ret (Inr h)) in
      if oc_has_exception code
      then catch step (\<lambda>error. if callback_error error = None then raise error else ret (Inl (i, error)))
      else step)"
    unfolding Let_def suffix(2)
    by (intro step_inv complete_region_keeps [OF suffix(1) rec]) (auto intro!: step_inv)
  have rest: "preserves P (completion_pass env code rec n origin settled (Suc i) rcs)"
    by (rule Cons.IH [OF suffix(3)])
  show ?case
    unfolding completion_pass.simps
    by (auto intro!: step_inv step rest split: sum.split)
qed (auto intro: triple_ret)

lemma stabilize_keeps [step_inv]:
  assumes rec: "\<And>e. preserves P (rec e)"
  shows "preserves P (stabilize m env code rec n origin settled)"
proof (induction m arbitrary: origin settled)
  case (Suc m)
  have pass: "preserves P (completion_pass env code rec n origin settled 0 (oc_regions code))"
    by (rule completion_pass_keeps [OF rec]) simp
  have walk: "preserves P (recover_walk env code rec n err site)" for err site
    by (rule recover_walk_keeps [OF rec])
  show ?case
    unfolding stabilize.simps Let_def
    by (intro preserves_bind pass) (auto intro!: step_inv walk Suc.IH split: sum.split prod.split)
qed simp

lemma stabilize_machine_keeps [step_inv]:
  "(\<And>e. preserves P (rec e)) \<Longrightarrow> preserves P (stabilize_machine env code rec n origin)"
  unfolding stabilize_machine_def by (rule stabilize_keeps)

lemma orth_dispatch_keeps [step_inv]:
  assumes rec: "\<And>e. preserves P (rec e)"
  shows "preserves P (orth_dispatch env code rec n e)"
proof -
  have "preserves P (update (observe_region (RegionEvent (variant e))))"
    by (rule preserves_update) (rule region_callbacks_keepD [OF callbacks])
  then show ?thesis
    unfolding orth_dispatch_def by (auto intro!: step_inv dispatch_attempt_keeps stabilize_machine_keeps rec split: prod.split)
qed

theorem orth_process_event_keeps [step_inv]: "preserves P (orth_process_event n env code e)"
proof -
  have sync: "preserves P (orth_process_sync n env code e)" for n e
    by (induction n arbitrary: e) (simp_all add: orth_dispatch_keeps)
  have "preserves P (orth_process_async n env code e)"
    unfolding orth_process_async_def using callbacks
    by (intro step_inv) (auto intro!: step_inv)
  then show ?thesis using sync by (simp add: orth_process_event_def)
qed

lemma orth_initialize_keeps: "preserves P (orth_initialize n env code)"
  unfolding orth_initialize_def initial_entry_def
  by (auto intro!: step_inv action_calls_keeps callbacks)

lemma reachable_keeps:
  assumes "orth_reachable env code k" and start: "\<And>ctx. P (new_orth_core env code ctx)"
  shows "P k"
  using assms(1)
proof induction
  case (orth_initialized n ctx k r)
  then show ?case by (rule preservesD [OF orth_initialize_keeps _ start])
next
  case (orth_processed k n e k' r)
  then show ?case by (blast intro: preservesD [OF orth_process_event_keeps])
qed

end

end
