(* ===== verification/Orthogonal_Rows.thy ===== *)
theory Orthogonal_Rows
  imports Orthogonal_Runs Flat_Transition Flat_Examples Parsed_Correctness
begin

text \<open>
  What the generator for orthogonal tables emits, row by row: every branch of an arm comes from a
  row of the table with the state and trigger of the arm. From this, the invariant that regions stay
  within their components and change along rows.
\<close>

section \<open>Rows behind branches\<close>

definition row_branch :: "state_machine \<Rightarrow> string \<Rightarrow> (state_transition \<Rightarrow> bool) \<Rightarrow> branch \<Rightarrow> bool" where
  "row_branch sm s Q br \<longleftrightarrow>
     (\<exists>t \<in> set (transitions sm). in_ident (st_in t) = s \<and> Q t \<and>
       (\<exists>hooks typed i. generate_transition_branch hooks typed i t = Ok br))"

lemma row_branch_mono: "row_branch sm s Q br \<Longrightarrow> (\<And>t. Q t \<Longrightarrow> R t) \<Longrightarrow> row_branch sm s R br"
  unfolding row_branch_def by blast

lemma row_branch_any: "row_branch sm s Q br \<Longrightarrow> row_branch sm s (\<lambda>_. True) br"
  by (erule row_branch_mono) simp

lemma rows_of_kind_branch:
  assumes "t \<in> set (rows_of_kind sm s k)" "generate_transition_branch hooks typed i t = Ok br"
    and "ev_kind (st_event t) = k \<Longrightarrow> Q t"
  shows "row_branch sm s Q br"
  using assms unfolding row_branch_def rows_of_kind_def by (intro bexI [of _ t]) auto

lemma generated_branch:
  assumes "generate_transition_branch hooks typed i t = Ok br"
  shows "cd_in_state br = in_ident (st_in t)" "cd_internal br = st_internal t" "cd_out_state br = out_ident (st_out t)"
    "cd_process br = st_process_events t" "cd_defer br = st_defer t" "cd_event br = ev_ident (st_event t)"
    "cd_kind br = ev_kind (st_event t)"
  using assms by (auto simp: generate_transition_branch_def Let_def try_then_Inr_iff split: if_splits)

lemma normal_arms_rows:
  assumes "normal_arms hooks sm s = Ok arms" "(e, bs) \<in> set arms" "br \<in> set bs"
  shows "row_branch sm s (\<lambda>t. ev_kind (st_event t) = Normal \<and> ev_ident (st_event t) = e) br"
proof -
  let ?rows = "rows_of_kind sm s Normal"
  obtain e' where "event_arm hooks ?rows e' = Ok (e, bs)"
    using assms(1,2) unfolding normal_arms_def Let_def by (auto elim: try_map_member)
  then have bs: "try_map (\<lambda>(i, t). generate_transition_branch hooks (ev_data_type (st_event t) \<noteq> None) i t)
      (enumerate 0 (filter (\<lambda>t. ev_ident (st_event t) = e) ?rows)) = Ok bs"
    by (auto simp: event_arm_def try_then_Inr_iff)
  from try_map_member [OF bs assms(3)] obtain i t where
    "(i, t) \<in> set (enumerate 0 (filter (\<lambda>t. ev_ident (st_event t) = e) ?rows))"
    "generate_transition_branch hooks (ev_data_type (st_event t) \<noteq> None) i t = Ok br" by auto
  then have "t \<in> set (filter (\<lambda>t. ev_ident (st_event t) = e) ?rows)"
    "generate_transition_branch hooks (ev_data_type (st_event t) \<noteq> None) i t = Ok br"
    by (auto simp: in_set_enumerate_eq dest: nth_mem)
  then show ?thesis by (auto intro: rows_of_kind_branch)
qed

lemma single_arm_rows:
  assumes "try_map (single_arm hooks typed) (specific_rows (rows_of_kind sm s k)) = Ok arms" "(e, br) \<in> set arms"
  shows "row_branch sm s (\<lambda>t. ev_kind (st_event t) = k \<and> ev_ident (st_event t) = e) br"
proof -
  from assms obtain t where "t \<in> set (specific_rows (rows_of_kind sm s k))" "single_arm hooks typed t = Ok (e, br)"
    by (auto elim: try_map_member)
  then show ?thesis
    by (auto simp: single_arm_def specific_rows_def try_then_Inr_iff intro: rows_of_kind_branch)
qed

lemma branches_rows:
  assumes "try_map (\<lambda>t. generate_transition_branch hooks (typed t) i t) ts = Ok brs" "br \<in> set brs"
    and "set ts \<subseteq> set (rows_of_kind sm s k)"
  shows "row_branch sm s (\<lambda>t. ev_kind (st_event t) = k) br"
proof -
  from assms(1,2) obtain t where "t \<in> set ts" "generate_transition_branch hooks (typed t) i t = Ok br"
    by (auto elim: try_map_member)
  with assms(3) show ?thesis by (auto intro: rows_of_kind_branch)
qed

lemma region_arms_rows:
  assumes "generate_state_region_arms hooks sm s = Ok a"
  shows "ra_state a = s"
    and "br \<in> set (event_branches e a) \<Longrightarrow> row_branch sm s (\<lambda>t. ev_kind (st_event t) \<in> {Normal, Unexpected} \<and>
      (ev_ident (st_event t) = e \<or> ev_kind (st_event t) = Unexpected \<and> ev_wildcard (st_event t))) br"
    and "br \<in> snd ` set (ra_origin a) \<union> set (ra_anonymous a) \<Longrightarrow>
      row_branch sm s (\<lambda>t. ev_kind (st_event t) = Completion) br"
    and "br \<in> set (arm_branches a) \<Longrightarrow> row_branch sm s (\<lambda>_. True) br"
proof -
  from assms obtain normal unexpected any origin anonymous exception where
    gen: "normal_arms hooks sm s = Ok normal"
    "try_map (single_arm hooks (\<lambda>t. ev_data_type (st_event t) \<noteq> None)) (specific_rows (rows_of_kind sm s Unexpected)) = Ok unexpected"
    "(case wildcard_rows (rows_of_kind sm s Unexpected) of [] \<Rightarrow> Ok None
      | t # _ \<Rightarrow> try_then (generate_transition_branch hooks False 0 t) (\<lambda>b. Ok (Some b))) = Ok any"
    "try_map (single_arm hooks (\<lambda>t. transition_event_type sm t \<noteq> None)) (specific_rows (rows_of_kind sm s Completion)) = Ok origin"
    "try_map (generate_transition_branch hooks False 0) (wildcard_rows (rows_of_kind sm s Completion)) = Ok anonymous"
    "generate_state_exception hooks sm s = Ok exception"
    and a: "a = \<lparr>ra_state = s, ra_normal = normal, ra_unexpected = unexpected, ra_unexpected_wildcard = any,
      ra_origin = origin, ra_anonymous = anonymous, ra_exception = exception\<rparr>"
    by (auto simp: generate_state_region_arms_def generate_state_dispatch_def generate_state_completion_def try_then_Inr_iff)
  show "ra_state a = s" using a by simp
  have any: "row_branch sm s (\<lambda>t. ev_kind (st_event t) = Unexpected \<and> ev_wildcard (st_event t)) b" if "any = Some b" for b
  proof (cases "wildcard_rows (rows_of_kind sm s Unexpected)")
    case (Cons t ts)
    then have "t \<in> set (wildcard_rows (rows_of_kind sm s Unexpected))" by simp
    then have "t \<in> set (rows_of_kind sm s Unexpected)" "ev_wildcard (st_event t)" by (simp_all add: wildcard_rows_def)
    moreover have "generate_transition_branch hooks False 0 t = Ok b"
      using gen(3) that Cons by (auto simp: try_then_Inr_iff)
    ultimately show ?thesis by (auto intro: rows_of_kind_branch)
  qed (use gen(3) that in simp)
  show event: "row_branch sm s (\<lambda>t. ev_kind (st_event t) \<in> {Normal, Unexpected} \<and>
      (ev_ident (st_event t) = e \<or> ev_kind (st_event t) = Unexpected \<and> ev_wildcard (st_event t))) br"
    if "br \<in> set (event_branches e a)" for br e
  proof (cases "map_of normal e")
    case (Some bs)
    with that a have "(e, bs) \<in> set normal" "br \<in> set bs" by (auto simp: event_branches_def dest: map_of_SomeD)
    from normal_arms_rows [OF gen(1) this] show ?thesis by (rule row_branch_mono) simp
  next
    case normal: None
    show ?thesis
    proof (cases "map_of unexpected e")
      case (Some b)
      with that a normal have "(e, br) \<in> set unexpected" by (auto simp: event_branches_def dest: map_of_SomeD)
      from single_arm_rows [OF gen(2) this] show ?thesis by (rule row_branch_mono) simp
    next
      case None
      with that a normal have "any = Some br" by (auto simp: event_branches_def)
      from any [OF this] show ?thesis by (rule row_branch_mono) simp
    qed
  qed
  have origin: "row_branch sm s (\<lambda>t. ev_kind (st_event t) = Completion) br" if "(e, br) \<in> set origin" for e br
    by (rule row_branch_mono [OF single_arm_rows [OF gen(4) that]]) simp
  have anonymous: "row_branch sm s (\<lambda>t. ev_kind (st_event t) = Completion) br" if "br \<in> set anonymous" for br
    by (rule branches_rows [OF gen(5) that]) (simp add: wildcard_rows_def)
  show "row_branch sm s (\<lambda>t. ev_kind (st_event t) = Completion) br"
    if "br \<in> snd ` set (ra_origin a) \<union> set (ra_anonymous a)" for br
    using that origin anonymous a by auto
  have exception: "row_branch sm s (\<lambda>t. ev_kind (st_event t) = Exception) br" if "br \<in> set exception" for br
    using gen(6) that
    by (auto simp: generate_state_exception_def Let_def specific_rows_def wildcard_rows_def split: if_splits
        intro: branches_rows)
  show "row_branch sm s (\<lambda>_. True) br" if "br \<in> set (arm_branches a)" for br
    using that a
    by (auto simp: arm_branches_def dest: row_branch_any [OF normal_arms_rows [OF gen(1)]]
        row_branch_any [OF single_arm_rows [OF gen(2)]] row_branch_any [OF any] row_branch_any [OF origin]
        row_branch_any [OF anonymous] row_branch_any [OF exception])
qed

section \<open>Regions of the code\<close>

text \<open>The emitted regions are those of \<open>discover_regions\<close>, with an arm for every state.\<close>

definition region_names :: "region_code \<Rightarrow> string set" where
  "region_names rc = ra_state ` set (rc_arms rc)"

definition region_generated :: "state_machine \<Rightarrow> region \<Rightarrow> region_code \<Rightarrow> bool" where
  "region_generated sm r rc \<longleftrightarrow> rc_initial rc = rg_initial r \<and>
    region_names rc = set (rg_states r) \<and>
    (\<forall>a \<in> set (rc_arms rc). generate_state_region_arms (collect_lifecycle sm) sm (ra_state a) = Ok a)"

lemma orthogonal_code_regions:
  assumes "orthogonal_code sm = Ok code"
  obtains rs where "discover_regions sm = Ok rs" "list_all2 (region_generated sm) rs (oc_regions code)"
proof -
  from assms obtain rs types rcs where rs: "discover_regions sm = Ok rs" "oc_regions code = rcs"
    "try_map (generate_region (collect_lifecycle sm) sm types) rs = Ok rcs"
    unfolding orthogonal_code_def by (auto simp: try_then_Inr_iff split: if_splits)
  have "region_generated sm r rc"
    if region: "generate_region (collect_lifecycle sm) sm types r = Ok rc" for r rc
  proof -
    from region obtain arms where arms: "try_map (generate_state_region_arms (collect_lifecycle sm) sm) (rg_states r) = Ok arms"
      and rc: "rc_arms rc = arms" "rc_initial rc = rg_initial r"
      by (auto simp: generate_region_def try_then_Inr_iff)
    from try_map_Inr [OF arms] have all: "list_all2 (\<lambda>s a. ra_state a = s \<and> generate_state_region_arms (collect_lifecycle sm) sm s = Ok a) (rg_states r) arms"
      by (rule list_all2_mono) (simp add: region_arms_rows(1))
    then have "map ra_state arms = rg_states r"
      by (auto simp: list_all2_conv_all_nth intro: nth_equalityI)
    then have "region_names rc = set (rg_states r)" by (metis region_names_def rc(1) set_map)
    moreover have "\<forall>a \<in> set arms. generate_state_region_arms (collect_lifecycle sm) sm (ra_state a) = Ok a"
      using all by (auto simp: list_all2_conv_all_nth in_set_conv_nth)
    ultimately show ?thesis using rc by (simp add: region_generated_def)
  qed
  with rs(2) list_all2_mono [OF try_map_Inr [OF rs(3)]] have "list_all2 (region_generated sm) rs (oc_regions code)" by blast
  with rs(1) show thesis by (rule that)
qed


lemma code_region:
  assumes "orthogonal_code sm = Ok code" "rc \<in> set (oc_regions code)"
  obtains rs r where "discover_regions sm = Ok rs" "r \<in> set rs" "region_generated sm r rc"
proof -
  from orthogonal_code_regions [OF assms(1)] obtain rs where
    rs: "discover_regions sm = Ok rs" "list_all2 (region_generated sm) rs (oc_regions code)" .
  then obtain r where "r \<in> set rs" "region_generated sm r rc"
    using assms(2) by (metis in_set_conv_nth list_all2_conv_all_nth)
  with rs(1) show thesis by (rule that)
qed

lemma code_arm_rows:
  assumes "orthogonal_code sm = Ok code" "rc \<in> set (oc_regions code)" "a \<in> set (rc_arms rc)"
  shows "generate_state_region_arms (collect_lifecycle sm) sm (ra_state a) = Ok a"
proof -
  from code_region [OF assms(1,2)] obtain r where "region_generated sm r rc" by blast
  with assms(3) show ?thesis by (simp add: region_generated_def)
qed

text \<open>
  The names of a table are in order when the wildcard \<open>_\<close> is used as such: it starts no region and no
  external row leads to it. The parser of the table syntax only gives such rows, apart from a start
  in parentheses.
\<close>

definition names_in_order :: "state_machine \<Rightarrow> bool" where
  "names_in_order sm \<longleftrightarrow> list_all (\<lambda>t. (in_wildcard (st_in t) \<longleftrightarrow> in_ident (st_in t) = ''_'') \<and>
     (in_start (st_in t) \<longrightarrow> \<not> in_wildcard (st_in t)) \<and> (\<not> st_internal t \<longrightarrow> out_ident (st_out t) \<noteq> ''_''))
     (transitions sm)"

lemma component_named:
  assumes "names_in_order sm" "a \<in> set (initial_states sm)" "s \<in> component (transitions sm) a"
  shows "s \<noteq> ''_''"
proof -
  have named: "in_ident (st_in t) \<noteq> ''_'' \<and> out_ident (st_out t) \<noteq> ''_''"
    if "t \<in> set (transitions sm)" "joins t" for t
    using assms(1) that unfolding names_in_order_def list_all_iff joins_def by blast
  have start: "a \<noteq> ''_''"
    using assms(1,2) unfolding initial_states_def names_in_order_def list_all_iff by auto
  have edge: "z \<noteq> ''_''" if "(y, z) \<in> state_edges (transitions sm)" for y z
    using that by (auto simp: state_edges_def Let_def dest!: named)
  have "(a, s) \<in> (state_edges (transitions sm))\<^sup>*" using assms(3) by (simp add: component_def)
  then show ?thesis by (cases rule: rtranclE) (use start edge in blast)+
qed

text \<open>Regions are closed under the external rows of their states, \<open>X\<close> apart.\<close>

lemma region_row_closed:
  assumes code: "orthogonal_code sm = Ok code" and names: "names_in_order sm"
    and rc: "rc \<in> set (oc_regions code)" and t: "t \<in> set (transitions sm)" "in_ident (st_in t) \<in> region_names rc"
      "\<not> st_internal t"
  shows "\<not> in_wildcard (st_in t)" "out_ident (st_out t) \<in> insert ''X'' (region_names rc)"
proof -
  from code_region [OF code rc] obtain rs r where
    rs: "discover_regions sm = Ok rs" "r \<in> set rs" "region_generated sm r rc" .
  have r: "region_names rc = component (transitions sm) (rg_initial r)"
    using discover_components(2) [OF rs(1,2)] rs(3) by (simp add: region_generated_def)
  have "rg_initial r \<in> set (map rg_initial rs)" using rs(2) by simp
  then have start: "rg_initial r \<in> set (initial_states sm)" by (simp only: discover_components(1) [OF rs(1)])
  show w: "\<not> in_wildcard (st_in t)"
    using component_named [OF names start] t names unfolding r names_in_order_def list_all_iff by blast
  show "out_ident (st_out t) \<in> insert ''X'' (region_names rc)"
  proof (cases "out_ident (st_out t) = ''X''")
    case False
    with t w have "(in_ident (st_in t), out_ident (st_out t)) \<in> state_edges (transitions sm)"
      by (auto simp: state_edges_def joins_def Let_def)
    with t(2) show ?thesis unfolding r component_def by (auto intro: rtrancl_into_rtrancl)
  qed simp
qed

section \<open>The invariant of the table\<close>

definition region_changes :: "('c, 'v, 'q) orth_core \<Rightarrow> (string \<times> string) list" where
  "region_changes k = concat (map (\<lambda>x. case x of RegionChange a b \<Rightarrow> [(a, b)] | _ \<Rightarrow> []) (orth_observed k))"

definition external_row :: "state_machine \<Rightarrow> string \<Rightarrow> string \<Rightarrow> bool" where
  "external_row sm a b \<longleftrightarrow> (\<exists>t \<in> set (transitions sm).
     \<not> in_wildcard (st_in t) \<and> \<not> st_internal t \<and> in_ident (st_in t) = a \<and> out_ident (st_out t) = b)"

definition regions_follow :: "state_machine \<Rightarrow> orth_code \<Rightarrow> ('c, 'v, 'q) orth_core \<Rightarrow> bool" where
  "regions_follow sm code k \<longleftrightarrow>
     list_all2 (\<lambda>v rc. variant v \<in> insert ''X'' (region_names rc)) (region_states k) (oc_regions code) \<and>
     list_all (\<lambda>(a, b). external_row sm a b) (region_changes k)"

lemma region_changes_observe:
  "region_changes (observe_region x k) = region_changes k @ (case x of RegionChange a b \<Rightarrow> [(a, b)] | _ \<Rightarrow> [])"
  "region_changes (k\<lparr>region_states := ss\<rparr>) = region_changes k"
  "region_changes (k\<lparr>states_exit_skip := bs\<rparr>) = region_changes k"
  "region_changes (k\<lparr>orth_context := c\<rparr>) = region_changes k"
  "region_changes (k\<lparr>orth_deferred := q\<rparr>) = region_changes k"
  "region_changes (k\<lparr>orth_pending := q\<rparr>) = region_changes k"
  by (simp_all add: region_changes_def observe_region_def)

lemma region_states_observe: "region_states (observe_region x k) = region_states k"
  by (simp add: observe_region_def)

lemma regions_follow_callbacks: "region_callbacks_keep (regions_follow sm code)"
  unfolding region_callbacks_keep_def regions_follow_def
  by (simp add: region_changes_observe region_states_observe split: region_observation.split)

lemma regions_follow_replaced:
  assumes "regions_follow sm code k" "i < length (oc_regions code)"
    and "variant v \<in> insert ''X'' (region_names (oc_regions code ! i))"
      "external_row sm (variant (region_states k ! i)) (variant v)"
  shows "regions_follow sm code (replaced i v k)"
  using assms unfolding regions_follow_def replaced_def
  by (auto simp: region_changes_observe region_states_observe list_all2_conv_all_nth nth_list_update)

interpretation table: region_invariant env code
    "\<lambda>k. (orthogonal_code sm = Ok code \<and> names_in_order sm) \<longrightarrow> regions_follow sm code k"
  for env :: "('c, 'v, 'err, 'q) region_env" and code sm
proof (rule region_invariant.intro, goal_cases)
  case 1
  then show ?case using regions_follow_callbacks [of sm code] by (auto simp: region_callbacks_keep_def)
next
  case (2 i a br k v)
  show ?case
  proof (intro impI, elim conjE)
    assume ok: "orthogonal_code sm = Ok code" "names_in_order sm"
    let ?rc = "oc_regions code ! i"
    have rc: "?rc \<in> set (oc_regions code)" using 2 by simp
    from region_arms_rows(4) [OF code_arm_rows [OF ok(1) rc 2(2)] 2(3)] obtain t hooks typed j where
      t: "t \<in> set (transitions sm)" "in_ident (st_in t) = ra_state a" "generate_transition_branch hooks typed j t = Ok br"
      by (auto simp: row_branch_def)
    note fields = generated_branch [OF t(3)]
    have "in_ident (st_in t) \<in> region_names ?rc" using t(2) 2(2) by (simp add: region_names_def)
    note closed = region_row_closed [OF ok rc t(1) this]
    have "\<not> st_internal t" using 2(4) fields by simp
    with closed fields t 2 ok show "regions_follow sm code (replaced i v k)"
      by (intro regions_follow_replaced) (auto simp: external_row_def)
  qed
qed

end
