(* ===== verification/Orthogonal_Correctness.thy ===== *)
theory Orthogonal_Correctness
  imports Orthogonal_Rows
begin

text \<open>
  Properties of orthogonal machines and their examples: regions stay apart and follow the table,
  events without a row of a named state are rejected, and events return when completion rows descend.
\<close>

section \<open>An example\<close>

definition region_test_env :: "(nat, nat, nat, nat variant_value event_queue) region_env" where
  "region_test_env = \<lparr>
     rv_guard = (\<lambda>g c sd td. Ok (g = ''yes'')),
     rv_action = (\<lambda>a c sd td. if a = ''fail'' then (c, Err 7) else (Suc c, Ok None)),
     rv_event = (\<lambda>x c sd td. case x of [Ident e] \<Rightarrow> Variant e None | _ \<Rightarrow> Variant [] None),
     rv_default = (\<lambda>s. 0),
     rv_dispatch = (\<lambda>e. True),
     rv_candidate = (\<lambda>s e i. True),
     rv_queue_new = EventQueue_new 4,
     rv_queue_defer = EventQueue_defer,
     rv_queue_process = EventQueue_process,
     rv_queue_pop = EventQueue_pop\<rparr>"

text \<open>
  \<open>*Idle + Go = Busy, Busy + completion<_> / rest = Calm, *Dark + Go / beep = Lit, Lit + Stop = X,
   _ + Reset = Idle\<close>
\<close>

definition completion_row :: "string \<Rightarrow> string option \<Rightarrow> string \<Rightarrow> state_transition" where
  "completion_row s a t = (table_row False s ''_'' a t)
     \<lparr>st_event := (on_event ''_'')\<lparr>ev_kind := Completion, ev_wildcard := True\<rparr>\<rparr>"

definition panel :: state_machine where
  "panel = StateMachine_new\<lparr>machine_name := Some ''Panel'', transitions :=
     [table_row True ''Idle'' ''Go'' None ''Busy'', completion_row ''Busy'' (Some ''rest'') ''Calm'',
      table_row True ''Dark'' ''Go'' (Some ''beep'') ''Lit'', table_row False ''Lit'' ''Stop'' None ''X'',
      table_row False ''_'' ''Reset'' None ''Idle'']\<rparr>"

definition panel_code :: orth_code where
  "panel_code = (case orthogonal_code panel of
     Inr c \<Rightarrow> c | Inl _ \<Rightarrow> \<lparr>oc_regions = [], oc_async_queue = False, oc_has_deferred = False, oc_has_exception = False\<rparr>)"

definition panel_start :: "(nat, nat, nat variant_value event_queue) orth_core" where
  "panel_start = new_orth_core region_test_env panel_code 0"

definition panel_after :: "string list \<Rightarrow> (nat, nat, nat variant_value event_queue) orth_core" where
  "panel_after es = fold (\<lambda>e k. fst (the (orth_process_event 8 region_test_env panel_code (Variant e None) k))) es
     (fst (the (orth_initialize 8 region_test_env panel_code panel_start)))"

lemma panel_generated: "orthogonal_code panel = Ok panel_code"
  by code_simp

lemma panel_names: "names_in_order panel"
  by code_simp

lemma panel_sync: "\<not> oc_async_queue panel_code"
  by code_simp

lemma panel_go: "map variant (region_states (panel_after [''Go''])) = [''Calm'', ''Lit'']"
  by code_simp

lemma panel_reachable: "orth_reachable region_test_env panel_code (panel_after [''Go'', ''Stop''])"
proof -
  have init: "orth_initialize 8 region_test_env panel_code (new_orth_core region_test_env panel_code 0) = Some (panel_after [], Ok ())"
    by code_simp
  have go: "orth_process_event 8 region_test_env panel_code (Variant ''Go'' None) (panel_after []) = Some (panel_after [''Go''], Ok ())"
    by code_simp
  have stop: "orth_process_event 8 region_test_env panel_code (Variant ''Stop'' None) (panel_after [''Go'']) =
      Some (panel_after [''Go'', ''Stop''], Ok ())"
    by code_simp
  show ?thesis
    by (rule orth_processed [OF orth_processed [OF orth_initialized [OF init] go] stop])
qed

section \<open>Regions\<close>

lemma generated_components:
  assumes "orthogonal_code sm = Ok code"
  shows "list_all2 (\<lambda>a rc. rc_initial rc = a \<and> region_names rc = component (transitions sm) a)
    (initial_states sm) (oc_regions code)"
proof -
  from orthogonal_code_regions [OF assms] obtain rs where
    rs: "discover_regions sm = Ok rs" "list_all2 (region_generated sm) rs (oc_regions code)" .
  have "list_all2 (\<lambda>r rc. rc_initial rc = rg_initial r \<and> region_names rc = component (transitions sm) (rg_initial r)) rs (oc_regions code)"
    using rs(2) discover_components(2) [OF rs(1)]
    by (auto simp: list_all2_conv_all_nth region_generated_def)
  then show ?thesis unfolding discover_components(1) [OF rs(1), symmetric] list_all2_map1 .
qed

lemma initial_regions_follow:
  assumes "orthogonal_code sm = Ok code"
  shows "regions_follow sm code (new_orth_core env code ctx)"
proof -
  have "list_all2 (\<lambda>v rc. variant v \<in> insert ''X'' (region_names rc)) (map (initial_value env) (oc_regions code)) (oc_regions code)"
    unfolding list_all2_map1
  proof (rule list_all2_all_nthI)
    fix i assume "i < length (oc_regions code)"
    with list_all2_nthD2 [OF generated_components [OF assms] this] component_refl
    show "variant (initial_value env (oc_regions code ! i)) \<in> insert ''X'' (region_names (oc_regions code ! i))"
      by (simp add: initial_value_def)
  qed simp
  then show ?thesis by (simp add: regions_follow_def new_orth_core_def region_changes_def)
qed

text \<open>
  C30. In every reachable configuration of an orthogonal machine there is one active state for each
  starting row, in order, each in the component of its starting state or in \<open>X\<close>; and every change of
  a region so far is an external row of the table.
\<close>

theorem regions_stay_apart:
  assumes "orthogonal_code sm = Ok code" "names_in_order sm" "orth_reachable env code k"
  shows "list_all2 (\<lambda>v a. variant v \<in> insert ''X'' (component (transitions sm) a)) (region_states k) (initial_states sm) \<and>
    list_all (\<lambda>(a, b). external_row sm a b) (region_changes k)"
proof -
  have "orthogonal_code sm = Ok code \<and> names_in_order sm \<longrightarrow> regions_follow sm code k"
    by (rule table.reachable_keeps [OF assms(3)]) (simp add: initial_regions_follow)
  with assms(1,2) have follow: "regions_follow sm code k" by simp
  have "list_all2 (\<lambda>v a. variant v \<in> insert ''X'' (component (transitions sm) a)) (region_states k) (initial_states sm)"
  proof (rule list_all2_all_nthI)
    have len: "length (region_states k) = length (oc_regions code)" "length (initial_states sm) = length (oc_regions code)"
      using follow list_all2_lengthD [OF generated_components [OF assms(1)]]
      by (auto simp: regions_follow_def dest: list_all2_lengthD)
    then show "length (region_states k) = length (initial_states sm)" by simp
    fix i assume "i < length (region_states k)"
    with len list_all2_nthD2 [OF generated_components [OF assms(1)], of i] follow
    show "variant (region_states k ! i) \<in> insert ''X'' (component (transitions sm) (initial_states sm ! i))"
      by (auto simp: regions_follow_def dest: list_all2_nthD)
  qed
  with follow show ?thesis by (simp add: regions_follow_def)
qed

theorem regions_stay_apart_witness:
  "''X'' \<noteq> ''Calm'' \<and> map variant (region_states (panel_after [''Go'', ''Stop''])) = [''Calm'', ''X''] \<and>
   ''Calm'' \<in> component (transitions panel) ''Idle'' \<and>
   list_all (\<lambda>(a, b). external_row panel a b) [(''Idle'', ''Busy''), (''Dark'', ''Lit''), (''Busy'', ''Calm''), (''Lit'', ''X'')]"
proof -
  have states: "map variant (region_states (panel_after [''Go'', ''Stop''])) = [''Calm'', ''X'']" by code_simp
  have initials: "initial_states panel = [''Idle'', ''Dark'']" by code_simp
  have changes: "region_changes (panel_after [''Go'', ''Stop'']) =
      [(''Idle'', ''Busy''), (''Dark'', ''Lit''), (''Busy'', ''Calm''), (''Lit'', ''X'')]" by code_simp
  note apart = regions_stay_apart [OF panel_generated panel_names panel_reachable, unfolded initials changes]
  from apart states show ?thesis by (auto simp: list_all2_Cons2 map_eq_Cons_conv)
qed

section \<open>Events without a row\<close>

text \<open>No row of a named state admits the event.\<close>

definition only_wildcard_rows :: "state_machine \<Rightarrow> string \<Rightarrow> bool" where
  "only_wildcard_rows sm e \<longleftrightarrow> list_all (\<lambda>t. ev_kind (st_event t) \<in> {Normal, Unexpected} \<and>
       (ev_ident (st_event t) = e \<or> ev_kind (st_event t) = Unexpected \<and> ev_wildcard (st_event t)) \<longrightarrow>
     in_wildcard (st_in t)) (transitions sm)"

lemma no_event_branches:
  assumes code: "orthogonal_code sm = Ok code" and names: "names_in_order sm" and only: "only_wildcard_rows sm e"
    and rc: "rc \<in> set (oc_regions code)" and a: "a \<in> set (rc_arms rc)"
  shows "event_branches e a = []"
proof -
  have False if "br \<in> set (event_branches e a)" for br
  proof -
    from region_arms_rows(2) [OF code_arm_rows [OF code rc a] that] obtain t where
      t: "t \<in> set (transitions sm)" "in_ident (st_in t) = ra_state a" "in_wildcard (st_in t)"
      using only by (auto simp: row_branch_def only_wildcard_rows_def list_all_iff)
    moreover have "ra_state a \<noteq> ''_''"
    proof -
      from code_region [OF code rc] obtain rs r where rs: "discover_regions sm = Ok rs" "r \<in> set rs" "region_generated sm r rc" .
      have "rg_initial r \<in> set (map rg_initial rs)" using rs(2) by simp
      then have "rg_initial r \<in> set (initial_states sm)" by (simp only: discover_components(1) [OF rs(1)])
      moreover have "ra_state a \<in> component (transitions sm) (rg_initial r)"
        using a rs(3) discover_components(2) [OF rs(1,2)] by (auto simp: region_generated_def region_names_def)
      ultimately show ?thesis by (rule component_named [OF names])
    qed
    ultimately show False using names by (auto simp: names_in_order_def list_all_iff)
  qed
  then show ?thesis by (cases "event_branches e a") auto
qed

lemma dispatch_regions_unhandled:
  assumes "\<And>rc a. rc \<in> set rcs \<Longrightarrow> a \<in> set (rc_arms rc) \<Longrightarrow> event_branches (variant e) a = []"
  shows "dispatch_regions env code rec n e i rcs k = Some (k, Ok False)"
  using assms
proof (induction rcs arbitrary: i)
  case (Cons rc rcs)
  have "handles env code rec n i (event_branches (variant e)) td rc k = Some (k, Ok None)" for td
    using Cons.prems [of rc]
    by (auto simp: handles_def with_core_def ret_def find_Some_iff split: option.split)
  moreover have "dispatch_regions env code rec n e (Suc i) rcs k = Some (k, Ok False)"
    by (rule Cons.IH) (rule Cons.prems, simp_all)
  ultimately show ?case by (simp add: bind_def ret_def)
qed (simp add: ret_def)

text \<open>
  Rows with the source \<open>_\<close> have no effect in an orthogonal machine, although the comments of the
  generator say that they are expanded before: an event whose rows all have the wildcard source is
  rejected with \<open>InvalidEvent\<close> in every configuration and leaves all regions where they are.
\<close>

theorem wildcard_rows_ignored:
  assumes "orthogonal_code sm = Ok code" "names_in_order sm" "only_wildcard_rows sm e" "\<not> oc_async_queue code"
  shows "orth_process_event (Suc n) env code (Variant e v) k = Some (observe_region (RegionEvent e) k, Err InvalidEvent)"
proof -
  have "dispatch_regions env code (orth_process_sync n env code) n (Variant e v) 0 (oc_regions code) k' = Some (k', Ok False)" for k'
    by (rule dispatch_regions_unhandled) (use no_event_branches [OF assms(1-3)] in auto)
  then have "dispatch_attempt env code (orth_process_sync n env code) n (Variant e v) k' = Some (k', Ok (False, False))" for k'
    by (simp add: dispatch_attempt_def Let_def bind_def ret_def catch_def)
  with assms(4) show ?thesis
    by (simp add: orth_process_event_def orth_dispatch_def then_do_def bind_def update_def raise_def)
qed

theorem wildcard_rows_ignored_witness:
  "(\<exists>t \<in> set (transitions panel). in_wildcard (st_in t) \<and> ev_ident (st_event t) = ''Reset'') \<and>
   orth_process_event 8 region_test_env panel_code (Variant ''Reset'' None) (panel_after [''Go'']) =
     Some (observe_region (RegionEvent ''Reset'') (panel_after [''Go'']), Err InvalidEvent)"
proof -
  have only: "only_wildcard_rows panel ''Reset''" by code_simp
  have row: "list_ex (\<lambda>t. in_wildcard (st_in t) \<and> ev_ident (st_event t) = ''Reset'') (transitions panel)" by code_simp
  have "orth_process_event (Suc 7) region_test_env panel_code (Variant ''Reset'' None) (panel_after [''Go'']) =
     Some (observe_region (RegionEvent ''Reset'') (panel_after [''Go'']), Err InvalidEvent)"
    by (rule wildcard_rows_ignored [OF panel_generated panel_names only panel_sync])
  with row show ?thesis by (auto simp: list_ex_iff)
qed

end
