(* ===== verification/Composite_Codegen.thy ===== *)
theory Composite_Codegen
  imports Orthogonal_Codegen Names
begin

text \<open>
  The generator of macros/src/composite_codegen.rs for a parent table with one child table. A state
  \<open>state<Sub>\<close> of the parent that names the table \<open>Sub\<close> is composite. Rows become branches, as for
  orthogonal tables, and the branches are grouped into the arms of three \<open>match\<close> statements for each
  table: events, completions, exceptions. Trees with more tables are only recognised here.
\<close>

section \<open>The choice of parent and child\<close>

definition references :: "state_machine \<Rightarrow> string list" where
  "references sm = concat (map (\<lambda>t. option_list (in_composite (st_in t)) @ option_list (out_composite (st_out t))) (transitions sm))"

definition machine_names :: "state_machine list \<Rightarrow> string list" where
  "machine_names sms = concat (map (\<lambda>sm. option_list (machine_name sm)) sms)"

definition refers_to_table :: "string list \<Rightarrow> state_machine \<Rightarrow> bool" where
  "refers_to_table names sm \<longleftrightarrow> list_ex (\<lambda>t.
     case (case in_composite (st_in t) of Some c \<Rightarrow> Some c | None \<Rightarrow> out_composite (st_out t)) of
       None \<Rightarrow> False | Some c \<Rightarrow> c \<in> set names) (transitions sm)"

definition composite_parent :: "state_machine list \<Rightarrow> (string, state_machine) rust_result" where
  "composite_parent sms =
     (let names = machine_names sms; referenced = concat (map references sms) in
      case find (\<lambda>sm. refers_to_table names sm \<and>
          (case machine_name sm of None \<Rightarrow> False | Some n \<Rightarrow> n \<notin> set referenced)) sms of
        Some sm \<Rightarrow> Ok sm
      | None \<Rightarrow>
          (case find (refers_to_table names) sms of
             Some sm \<Rightarrow> Ok sm
           | None \<Rightarrow> Err ''no composite parent table found''))"

definition child_references :: "string list \<Rightarrow> state_machine \<Rightarrow> string list" where
  "child_references names sm = push_new [] (filter (\<lambda>r. r \<in> set names) (references sm))"

definition table_named :: "state_machine list \<Rightarrow> string \<Rightarrow> state_machine option" where
  "table_named sms n = find (\<lambda>sm. machine_name sm = Some n) sms"

definition several_starts :: "state_machine \<Rightarrow> bool" where
  "several_starts sm \<longleftrightarrow> 1 < length (filter (\<lambda>t. in_start (st_in t)) (transitions sm))"

definition needs_tree :: "state_machine list \<Rightarrow> state_machine \<Rightarrow> bool" where
  "needs_tree sms parent \<longleftrightarrow>
     (let names = machine_names sms; children = child_references names parent;
          child_has = (\<lambda>p r. case table_named sms r of None \<Rightarrow> False | Some c \<Rightarrow> p c) in
      1 < length children \<or> list_ex (child_has (refers_to_table names)) children \<or>
      list_ex (child_has several_starts) children \<or> several_starts parent)"

section \<open>Checks and normal form\<close>

definition validate_table :: "state_machine \<Rightarrow> (string, unit) rust_result" where
  "validate_table sm =
     (if filter (\<lambda>t. in_start (st_in t)) (transitions sm) = []
      then Err ''each table in a composite tree requires at least one initial state''
      else err_if (list_ex (\<lambda>t. ev_kind (st_event t) = Completion \<and> st_internal t) (transitions sm))
        ''an anonymous composite completion must leave its source state'')"

definition validate_composite :: "state_machine \<Rightarrow> state_machine \<Rightarrow> (string, unit) rust_result" where
  "validate_composite parent child = try_then (validate_table parent) (\<lambda>_. validate_table child)"

text \<open>Only references to the tables in the list are structural.\<close>

definition normalize_row :: "string list \<Rightarrow> state_transition \<Rightarrow> state_transition" where
  "normalize_row children t =
     (let keep = (\<lambda>c. case c of None \<Rightarrow> None | Some r \<Rightarrow> if r \<in> set children then Some r else None) in
      t\<lparr>st_in := (st_in t)\<lparr>in_composite := keep (in_composite (st_in t))\<rparr>,
        st_out := (st_out t)\<lparr>out_composite := keep (out_composite (st_out t))\<rparr>\<rparr>)"

definition normalize_table :: "string list \<Rightarrow> state_machine \<Rightarrow> state_machine" where
  "normalize_table children sm = sm\<lparr>transitions := map (normalize_row children) (transitions sm)\<rparr>"

definition initial_state :: "state_machine \<Rightarrow> (string, string) rust_result" where
  "initial_state sm =
     (case find (\<lambda>t. in_start (st_in t)) (transitions sm) of
        Some t \<Rightarrow> Ok (in_ident (st_in t))
      | None \<Rightarrow> Err ''missing initial state'')"

definition composite_state_types ::
  "state_machine \<Rightarrow> string option \<Rightarrow> (string, (string \<times> rust_type) list) rust_result" where
  "composite_state_types sm structural_child =
     try_fold (\<lambda>t types.
         try_then (note_state_type (in_ident (st_in t), in_data_type (st_in t), in_composite (st_in t))
             (option_list structural_child) types)
           (note_state_type (out_ident (st_out t), out_data_type (st_out t), out_composite (st_out t))
             (option_list structural_child)))
       (transitions sm) []"

definition note_event :: "state_transition \<Rightarrow> (string \<times> event_info) list \<Rightarrow> (string, (string \<times> event_info) list) rust_result" where
  "note_event t events =
     (let e = st_event t; info = \<lparr>ei_type = ev_data_type e, ei_external = ev_external e\<rparr> in
      if ev_kind e \<in> {Entry, Exit, Exception} \<or> ev_wildcard e \<or> ev_kind e = Completion then Ok events
      else case map_of events (ev_ident e) of
          Some existing \<Rightarrow>
            if existing \<noteq> info
            then Err (''event `'' @ ev_ident e @ ''` has incompatible definitions in parent and child'')
            else Ok events
        | None \<Rightarrow> Ok (AList.update (ev_ident e) info events))"

definition collect_events_many :: "state_machine list \<Rightarrow> (string, (string \<times> event_info) list) rust_result" where
  "collect_events_many sms = try_fold note_event (concat (map transitions sms)) []"

definition shared_type :: "string \<Rightarrow> rust_type option \<Rightarrow> rust_type option \<Rightarrow> (string, rust_type option) rust_result" where
  "shared_type msg parent child =
     (case (parent, child) of
        (Some p, Some c) \<Rightarrow> if p \<noteq> c then Err msg else Ok (Some p)
      | (Some p, None) \<Rightarrow> Ok (Some p)
      | (None, c) \<Rightarrow> Ok c)"

section \<open>Callbacks\<close>

definition add_callback ::
  "string \<times> method_signature \<Rightarrow> (string \<times> method_signature) list \<Rightarrow> (string, (string \<times> method_signature) list) rust_result" where
  "add_callback entry methods =
     (case map_of methods (fst entry) of
        None \<Rightarrow> Ok (AList.update (fst entry) (snd entry) methods)
      | Some existing \<Rightarrow>
          if existing \<noteq> snd entry then Err (''callback `'' @ fst entry @ ''` has incompatible uses'') else Ok methods)"

text \<open>The payload of the source counts when the state is not composite.\<close>

definition plain_in_type :: "state_transition \<Rightarrow> rust_type option" where
  "plain_in_type t = (if in_composite (st_in t) = None then in_data_type (st_in t) else None)"

definition plain_out_type :: "state_transition \<Rightarrow> rust_type option" where
  "plain_out_type t = (if out_composite (st_out t) = None then out_data_type (st_out t) else None)"

definition callback_event_type :: "(string \<times> event_info) list \<Rightarrow> state_transition \<Rightarrow> rust_type option" where
  "callback_event_type events t =
     (case ev_data_type (st_event t) of
        Some ty \<Rightarrow> Some ty
      | None \<Rightarrow>
          if ev_kind (st_event t) = Completion \<and> \<not> ev_wildcard (st_event t)
          then (case map_of events (ev_ident (st_event t)) of None \<Rightarrow> None | Some i \<Rightarrow> ei_type i)
          else None)"

definition callback_signature ::
  "(string \<times> event_info) list \<Rightarrow> state_transition \<Rightarrow> async_ident \<Rightarrow> rust_type option \<Rightarrow> string \<times> method_signature" where
  "callback_signature events t a out =
     (ident a, \<lparr>ms_async = is_async a, ms_state = plain_in_type t, ms_event = callback_event_type events t, ms_output = out\<rparr>)"

fun action_signatures ::
  "(string \<times> event_info) list \<Rightarrow> state_transition \<Rightarrow> async_ident list \<Rightarrow> (string \<times> method_signature) list" where
  "action_signatures events t [] = []"
| "action_signatures events t (a # as) =
     callback_signature events t a (if \<not> st_internal t \<and> as = [] then plain_out_type t else None) #
       action_signatures events t as"

definition row_callbacks ::
  "(string \<times> event_info) list \<Rightarrow> state_transition \<Rightarrow> (string \<times> method_signature) list \<times> (string \<times> method_signature) list
    \<Rightarrow> (string, (string \<times> method_signature) list \<times> (string \<times> method_signature) list) rust_result" where
  "row_callbacks events t = (\<lambda>(guards, actions).
     try_then (case st_guard t of None \<Rightarrow> Ok guards
       | Some g \<Rightarrow> visit_guards g (\<lambda>x. add_callback (callback_signature events t x None)) guards) (\<lambda>guards.
     try_then (try_fold add_callback (action_signatures events t (row_actions t)) actions) (\<lambda>actions.
     try_fold (\<lambda>e (guards, actions).
         try_then (visit_guards (ea_guard e) (\<lambda>x. add_callback (callback_signature events t x None)) guards) (\<lambda>guards.
         try_then (add_callback (callback_signature events t (ea_action e) None) actions) (\<lambda>actions.
           Ok (guards, actions))))
       (st_eval_actions t) (guards, actions))))"

definition context_methods_many ::
  "state_machine list \<Rightarrow> (string \<times> event_info) list
    \<Rightarrow> (string, (string \<times> method_signature) list \<times> (string \<times> method_signature) list) rust_result" where
  "context_methods_many sms events = try_fold (row_callbacks events) (concat (map transitions sms)) ([], [])"

section \<open>Branches\<close>

text \<open>
  \<open>transition_code\<close>: a row as emitted code. Beside the fields of a flat candidate, the branch says
  whether leaving the source leaves the child and whether reaching the target enters it.
\<close>

record composite_branch = candidate +
  cb_out_data :: bool
  cb_exit :: "async_ident list"
  cb_entry :: "async_ident list"
  cb_exit_child :: bool
  cb_enter_child :: bool
  cb_moves :: bool

definition composite_lifecycle :: "bool \<Rightarrow> state_transition \<Rightarrow> bool \<times> bool" where
  "composite_lifecycle owner t =
     (owner \<and> in_composite (st_in t) \<noteq> None \<and> out_composite (st_out t) = None,
      owner \<and> out_composite (st_out t) \<noteq> None \<and> in_composite (st_in t) = None)"

definition transition_code ::
  "bool \<Rightarrow> (string \<times> lifecycle) list \<Rightarrow> nat \<Rightarrow> state_transition \<Rightarrow> (string, composite_branch) rust_result" where
  "transition_code owner hooks index t =
     (let actions = row_actions t;
          out_data = (plain_out_type t \<noteq> None);
          produces = (\<not> st_internal t \<and> out_data \<and> actions \<noteq> [])
      in try_then (action_sequence actions produces (st_eval_actions t)) (\<lambda>steps.
         if st_defer t \<and> ev_wildcard (st_event t)
         then Err ''a wildcard event cannot be deferred because its owned type is unknown''
         else Ok
           \<lparr>cd_index = index,
            cd_in_state = in_ident (st_in t),
            cd_event = ev_ident (st_event t),
            cd_wildcard = ev_wildcard (st_event t),
            cd_kind = ev_kind (st_event t),
            cd_state_data = (plain_in_type t \<noteq> None),
            cd_event_data = (ev_data_type (st_event t) \<noteq> None),
            cd_guard = st_guard t,
            cd_steps = steps,
            cd_default_output = (out_data \<and> \<not> st_internal t \<and> \<not> produces),
            cd_defer = st_defer t,
            cd_process = st_process_events t,
            cd_internal = st_internal t,
            cd_out_state = out_ident (st_out t),
            cb_out_data = out_data,
            cb_exit = hook_actions lc_exit hooks (in_ident (st_in t)),
            cb_entry = hook_actions lc_entry hooks (out_ident (st_out t)),
            cb_exit_child = fst (composite_lifecycle owner t),
            cb_enter_child = snd (composite_lifecycle owner t),
            cb_moves = exception_row_moves t\<rparr>))"

section \<open>Arms\<close>

text \<open>The hash maps of the code group rows by a key; here the groups keep the order of the rows.\<close>

definition group_rows :: "('t \<Rightarrow> 'k) \<Rightarrow> 't list \<Rightarrow> ('k \<times> 't list) list" where
  "group_rows key ts = map (\<lambda>k. (k, filter (\<lambda>t. key t = k) ts)) (push_new [] (map key ts))"

definition site :: "state_transition \<Rightarrow> string \<times> string" where
  "site t = (in_ident (st_in t), ev_ident (st_event t))"

definition kind_rows :: "event_kind \<Rightarrow> bool \<Rightarrow> state_machine \<Rightarrow> state_transition list" where
  "kind_rows k wildcard sm =
     filter (\<lambda>t. ev_kind (st_event t) = k \<and> ev_wildcard (st_event t) = wildcard) (transitions sm)"

record event_arms =
  ea_normal :: "((string \<times> string) \<times> composite_branch list) list"
  ea_unexpected :: "((string \<times> string) \<times> composite_branch) list"
  ea_unexpected_wildcard :: "(string \<times> composite_branch) list"

definition normal_rows :: "state_machine \<Rightarrow> state_transition list" where
  "normal_rows sm = filter (\<lambda>t. ev_kind (st_event t) = Normal) (transitions sm)"

definition branches_of ::
  "bool \<Rightarrow> (string \<times> lifecycle) list \<Rightarrow> 'k \<times> state_transition list \<Rightarrow> (string, 'k \<times> composite_branch list) rust_result" where
  "branches_of owner hooks = (\<lambda>(key, ts).
     try_then (try_map (transition_code owner hooks 0) ts) (\<lambda>bs. Ok (key, bs)))"

definition numbered_branches ::
  "bool \<Rightarrow> (string \<times> lifecycle) list \<Rightarrow> 'k \<times> state_transition list \<Rightarrow> (string, 'k \<times> composite_branch list) rust_result" where
  "numbered_branches owner hooks = (\<lambda>(key, ts).
     try_then (try_map (\<lambda>(i, t). transition_code owner hooks i t) (enumerate 0 ts)) (\<lambda>bs. Ok (key, bs)))"

definition dispatch_code ::
  "bool \<Rightarrow> (string \<times> lifecycle) list \<Rightarrow> state_machine \<Rightarrow> (string, event_arms) rust_result" where
  "dispatch_code owner hooks sm =
     try_then (try_map (numbered_branches owner hooks) (group_rows site (normal_rows sm))) (\<lambda>normal.
     try_then (try_map (\<lambda>t. try_then (transition_code owner hooks 0 t) (\<lambda>b. Ok (site t, b)))
         (kind_rows Unexpected False sm)) (\<lambda>unexpected.
     try_then (try_map (\<lambda>t. try_then (transition_code owner hooks 0 t) (\<lambda>b. Ok (in_ident (st_in t), b)))
         (kind_rows Unexpected True sm)) (\<lambda>any.
       Ok \<lparr>ea_normal = normal, ea_unexpected = unexpected, ea_unexpected_wildcard = any\<rparr>)))"

text \<open>
  The arms of completions; the flag says that the first row of the arm leaves a composite state, so
  that the arm waits for the child to end.
\<close>

record completion_arms =
  ca_origin :: "((string \<times> string) \<times> bool \<times> composite_branch list) list"
  ca_anonymous :: "(string \<times> bool \<times> composite_branch list) list"

definition waits_for_child :: "state_transition list \<Rightarrow> bool" where
  "waits_for_child ts = (case ts of [] \<Rightarrow> False | t # _ \<Rightarrow> in_composite (st_in t) \<noteq> None)"

definition with_event_type :: "(string \<times> event_info) list \<Rightarrow> state_transition \<Rightarrow> state_transition" where
  "with_event_type events t = t\<lparr>st_event := (st_event t)\<lparr>ev_data_type :=
     (case map_of events (ev_ident (st_event t)) of None \<Rightarrow> None | Some i \<Rightarrow> ei_type i)\<rparr>\<rparr>"

definition completion_arm ::
  "bool \<Rightarrow> (string \<times> lifecycle) list \<Rightarrow> (state_transition \<Rightarrow> state_transition) \<Rightarrow> 'k \<times> state_transition list
    \<Rightarrow> (string, 'k \<times> bool \<times> composite_branch list) rust_result" where
  "completion_arm owner hooks effective = (\<lambda>(key, ts).
     try_then (branches_of owner hooks (key, map effective ts)) (\<lambda>(_, bs). Ok (key, waits_for_child ts, bs)))"

definition completion_code ::
  "bool \<Rightarrow> (string \<times> lifecycle) list \<Rightarrow> (string \<times> event_info) list \<Rightarrow> state_machine \<Rightarrow> (string, completion_arms) rust_result" where
  "completion_code owner hooks events sm =
     try_then (try_map (completion_arm owner hooks id)
         (group_rows (\<lambda>t. in_ident (st_in t)) (kind_rows Completion True sm))) (\<lambda>anonymous.
     try_then (try_map (completion_arm owner hooks (with_event_type events))
         (group_rows site (kind_rows Completion False sm))) (\<lambda>origin.
       Ok \<lparr>ca_origin = origin, ca_anonymous = anonymous\<rparr>))"

definition exception_rows :: "state_machine \<Rightarrow> state_transition list" where
  "exception_rows sm = filter (\<lambda>t. ev_kind (st_event t) = Exception) (transitions sm)"

definition typed_first :: "state_transition list \<Rightarrow> state_transition list" where
  "typed_first ts = specific_rows ts @ wildcard_rows ts"

definition exception_code ::
  "bool \<Rightarrow> (string \<times> lifecycle) list \<Rightarrow> state_machine \<Rightarrow> (string, (string \<times> composite_branch list) list) rust_result" where
  "exception_code owner hooks sm =
     (if list_ex (\<lambda>t. st_defer t \<or> st_process_events t \<noteq> []) (exception_rows sm)
      then Err ''exception handlers cannot defer or process events''
      else try_map (\<lambda>(s, ts). branches_of owner hooks (s, typed_first ts))
        (group_rows (\<lambda>t. in_ident (st_in t)) (exception_rows sm)))"

section \<open>The emitted machine\<close>

record table_code =
  tc_initial :: string
  tc_initial_data :: bool
  tc_has_terminal :: bool
  tc_types :: "(string \<times> rust_type) list"
  tc_hooks :: "(string \<times> lifecycle) list"
  tc_events :: event_arms
  tc_completions :: completion_arms
  tc_exceptions :: "(string \<times> composite_branch list) list"

definition generate_table ::
  "bool \<Rightarrow> string option \<Rightarrow> (string \<times> event_info) list \<Rightarrow> state_machine \<Rightarrow> (string, table_code) rust_result" where
  "generate_table owner structural_child events sm =
     (let hooks = collect_lifecycle sm in
      try_then (composite_state_types sm structural_child) (\<lambda>types.
      try_then (initial_state sm) (\<lambda>initial.
      try_then (dispatch_code owner hooks sm) (\<lambda>dispatch.
      try_then (completion_code owner hooks events sm) (\<lambda>completion.
      try_then (exception_code owner hooks sm) (\<lambda>exception.
        Ok \<lparr>tc_initial = initial, tc_initial_data = (map_of types initial \<noteq> None),
            tc_has_terminal = (''X'' \<in> set (collect_states sm)), tc_types = types, tc_hooks = hooks,
            tc_events = dispatch, tc_completions = completion, tc_exceptions = exception\<rparr>))))))"

record composite_code =
  cc_parent :: table_code
  cc_child :: table_code
  cc_child_variant :: string
  cc_child_history :: bool
  cc_async_queue :: bool
  cc_has_deferred :: bool
  cc_has_exception :: bool

text \<open>\<open>generate_code\<close> for a parent and a child; which of several errors comes first is not kept.\<close>

definition composite_code_of :: "state_machine \<Rightarrow> state_machine \<Rightarrow> string \<Rightarrow> (string, composite_code) rust_result" where
  "composite_code_of parent0 child0 child_reference =
     (let parent = normalize_table [child_reference] parent0; child = normalize_table [] child0;
          deferred = (orth_has_deferred parent \<or> orth_has_deferred child);
          queue_actions = (orth_has_queue_actions parent \<or> orth_has_queue_actions child) in
      try_then (validate_composite parent0 child0) (\<lambda>_.
      try_then (validate_name_collisions_many [parent0, child0]) (\<lambda>_.
      if machine_name parent = None then Err ''composite tables must have a named parent''
      else
      try_then (collect_events_many [parent, child]) (\<lambda>events.
      try_then (err_if (list_ex (\<lambda>(_, e). ei_external e \<and> ei_type e = None) events)
        ''external events must have a concrete payload type'') (\<lambda>_.
      try_then (shared_type ''parent and child exception error types must match''
        (fixed_error_type parent) (fixed_error_type child)) (\<lambda>_.
      try_then (shared_type ''parent and child temporary context types must match''
        (temporary_context_type parent) (temporary_context_type child)) (\<lambda>_.
      try_then (context_methods_many [parent, child] events) (\<lambda>_.
      try_then (generate_table True (Some child_reference) events parent) (\<lambda>p.
      try_then (generate_table False None events child) (\<lambda>c.
        Ok \<lparr>cc_parent = p, cc_child = c, cc_child_variant = state_ident child_reference,
            cc_child_history = list_ex (\<lambda>t. in_history (st_in t)) (transitions child),
            cc_async_queue = ((is_async_machine parent \<or> is_async_machine child) \<and> queue_actions),
            cc_has_deferred = deferred,
            cc_has_exception = (orth_has_exceptions parent \<or> orth_has_exceptions child)\<rparr>))))))))))"

datatype composite_generation =
    SingleChild composite_code
  | Tree state_machine "string list"

definition composite_generation_of :: "state_machine list \<Rightarrow> (string, composite_generation) rust_result" where
  "composite_generation_of sms =
     try_then (composite_parent sms) (\<lambda>parent.
       let children = child_references (machine_names sms) parent in
       if needs_tree sms parent then Ok (Tree parent children)
       else case children of
           [] \<Rightarrow> Err ''missing `state<Sub>` reference''
         | r # _ \<Rightarrow>
             (case table_named sms r of
                None \<Rightarrow> Err (''no `'' @ r @ '' { ... }` child table was provided'')
              | Some child \<Rightarrow> try_then (composite_code_of parent child r) (\<lambda>code. Ok (SingleChild code))))"

end
