(* ===== verification/Composite_Machine.thy ===== *)
theory Composite_Machine
  imports Composite_Codegen Orthogonal_Machine
begin

text \<open>
  The meaning of the code that macros/src/composite_codegen.rs emits for a parent and a child table.
  Events go to the active child first and to the parent when the child does not handle them. The
  environment is that of orthogonal machines.
\<close>

section \<open>Core\<close>

datatype slot = ParentSlot | ChildSlot

datatype composite_observation =
    CompositeEvent string
  | CompositeGuard string string bool
  | CompositeAction string string
  | CompositeCallback slot string string
  | CompositeChange string string

record ('c, 'v, 'q) composite_core =
  parent_state :: "'v variant_value"
  child_state :: "'v variant_value"
  parent_exit_skip :: bool
  child_exit_skip :: bool
  composite_context :: 'c
  composite_deferred :: 'q
  composite_pending :: 'q
  composite_observed :: "composite_observation list"

type_synonym ('c, 'v, 'err, 'q, 'a) composite_step = "(('c, 'v, 'q) composite_core, 'err machine_error, 'a) step"

definition composite_log :: "composite_observation \<Rightarrow> ('c, 'v, 'q) composite_core \<Rightarrow> ('c, 'v, 'q) composite_core" where
  "composite_log x k = k\<lparr>composite_observed := composite_observed k @ [x]\<rparr>"

text \<open>A table runs over its own state place and its exit-skip token.\<close>

definition slot_state :: "slot \<Rightarrow> ('c, 'v, 'q) composite_core \<Rightarrow> 'v variant_value" where
  "slot_state s k = (case s of ParentSlot \<Rightarrow> parent_state k | ChildSlot \<Rightarrow> child_state k)"

definition put_state :: "slot \<Rightarrow> 'v variant_value \<Rightarrow> ('c, 'v, 'q) composite_core \<Rightarrow> ('c, 'v, 'q) composite_core" where
  "put_state s v k = (case s of ParentSlot \<Rightarrow> k\<lparr>parent_state := v\<rparr> | ChildSlot \<Rightarrow> k\<lparr>child_state := v\<rparr>)"

definition exit_skip_place :: "slot \<Rightarrow> ('c, 'v, 'q) composite_core \<Rightarrow> bool" where
  "exit_skip_place s k = (case s of ParentSlot \<Rightarrow> parent_exit_skip k | ChildSlot \<Rightarrow> child_exit_skip k)"

definition put_skip :: "slot \<Rightarrow> bool \<Rightarrow> ('c, 'v, 'q) composite_core \<Rightarrow> ('c, 'v, 'q) composite_core" where
  "put_skip s b k = (case s of ParentSlot \<Rightarrow> k\<lparr>parent_exit_skip := b\<rparr> | ChildSlot \<Rightarrow> k\<lparr>child_exit_skip := b\<rparr>)"

definition slot_table :: "composite_code \<Rightarrow> slot \<Rightarrow> table_code" where
  "slot_table code s = (case s of ParentSlot \<Rightarrow> cc_parent code | ChildSlot \<Rightarrow> cc_child code)"

definition child_active :: "composite_code \<Rightarrow> ('c, 'v, 'q) composite_core \<Rightarrow> bool" where
  "child_active code k \<longleftrightarrow> variant (parent_state k) = cc_child_variant code"

definition child_terminal :: "composite_code \<Rightarrow> ('c, 'v, 'q) composite_core \<Rightarrow> bool" where
  "child_terminal code k \<longleftrightarrow> tc_has_terminal (cc_child code) \<and> variant (child_state k) = ''X''"

section \<open>Callbacks\<close>

definition composite_call_guard ::
  "('c, 'v, 'err, 'q) region_env \<Rightarrow> string \<Rightarrow> 'v option \<Rightarrow> ('v, 'err) trigger_data \<Rightarrow> ('c, 'v, 'q) composite_core
    \<Rightarrow> async_ident \<Rightarrow> ('c, 'v, 'q) composite_core \<times> ('err machine_error, bool) rust_result" where
  "composite_call_guard env event sd td k g =
     (case rv_guard env (ident g) (composite_context k) sd td of
        Inl e \<Rightarrow> (k, Err (GuardFailed e))
      | Inr b \<Rightarrow> (composite_log (CompositeGuard (ident g) event b) k, Ok b))"

definition guard_code ::
  "('c, 'v, 'err, 'q) region_env \<Rightarrow> string \<Rightarrow> 'v option \<Rightarrow> ('v, 'err) trigger_data \<Rightarrow> guard_expression
    \<Rightarrow> ('c, 'v, 'err, 'q, bool) composite_step" where
  "guard_code env event sd td g = lift_step (\<lambda>k. eval_guard (composite_call_guard env event sd td) k g)"

definition action_code ::
  "('c, 'v, 'err, 'q) region_env \<Rightarrow> string \<Rightarrow> 'v option \<Rightarrow> ('v, 'err) trigger_data \<Rightarrow> async_ident
    \<Rightarrow> ('c, 'v, 'err, 'q, 'v option) composite_step" where
  "action_code env event sd td a = lift_step (\<lambda>k.
     case rv_action env (ident a) (composite_context k) sd td of
       (c, Inl e) \<Rightarrow> (k\<lparr>composite_context := c\<rparr>, Err (ActionFailed e))
     | (c, Inr v) \<Rightarrow> (composite_log (CompositeAction (ident a) event) (k\<lparr>composite_context := c\<rparr>), Ok v))"

definition hook_calls ::
  "('c, 'v, 'err, 'q) region_env \<Rightarrow> async_ident list \<Rightarrow> 'v option \<Rightarrow> ('c, 'v, 'err, 'q, unit) composite_step" where
  "hook_calls env actions sd = for_each (action_code env [] sd NoData) actions"

text \<open>\<open>current_lifecycle_code\<close>: the hooks of the state in which a table is.\<close>

definition current_lifecycle_code ::
  "('c, 'v, 'err, 'q) region_env \<Rightarrow> (lifecycle \<Rightarrow> async_ident list option) \<Rightarrow> table_code \<Rightarrow> 'v variant_value
    \<Rightarrow> ('c, 'v, 'err, 'q, unit) composite_step" where
  "current_lifecycle_code env which tc v =
     hook_calls env (hook_actions which (tc_hooks tc) (variant v))
       (if map_of (tc_types tc) (variant v) = None then None else payload v)"

section \<open>Entering and leaving the child\<close>

definition table_initial :: "('c, 'v, 'err, 'q) region_env \<Rightarrow> table_code \<Rightarrow> 'v variant_value" where
  "table_initial env tc = Variant (tc_initial tc) (if tc_initial_data tc then Some (rv_default env (tc_initial tc)) else None)"

definition enter_child_current ::
  "('c, 'v, 'err, 'q) region_env \<Rightarrow> composite_code \<Rightarrow> ('c, 'v, 'err, 'q, unit) composite_step" where
  "enter_child_current env code =
     then_do (update (\<lambda>k. if cc_child_history code then k else k\<lparr>child_state := table_initial env (cc_child code)\<rparr>))
       (then_do (update (\<lambda>k. k\<lparr>child_exit_skip := False\<rparr>))
         (with_core (\<lambda>k. current_lifecycle_code env lc_entry (cc_child code) (child_state k))))"

definition exit_child_current ::
  "('c, 'v, 'err, 'q) region_env \<Rightarrow> composite_code \<Rightarrow> ('c, 'v, 'err, 'q, unit) composite_step" where
  "exit_child_current env code = with_core (\<lambda>k.
     if child_exit_skip k then ret ()
     else then_do (current_lifecycle_code env lc_exit (cc_child code) (child_state k))
       (update (\<lambda>k. k\<lparr>child_exit_skip := True\<rparr>)))"

section \<open>Queue actions\<close>

definition push_composite_queue ::
  "(('c, 'v, 'q) composite_core \<Rightarrow> 'q \<Rightarrow> ('c, 'v, 'q) composite_core)
    \<Rightarrow> (('c, 'v, 'q) composite_core \<Rightarrow> 'q \<times> (queue_full, unit) rust_result) \<Rightarrow> ('c, 'v, 'err, 'q, unit) composite_step" where
  "push_composite_queue upd push = lift_step (\<lambda>k.
     case push k of (q, r) \<Rightarrow> (upd k q, (case r of Inl _ \<Rightarrow> Err QueueFullError | Inr _ \<Rightarrow> Ok ())))"

definition composite_defer ::
  "('c, 'v, 'err, 'q) region_env \<Rightarrow> 'v variant_value \<Rightarrow> ('c, 'v, 'err, 'q, unit) composite_step" where
  "composite_defer env e =
     push_composite_queue (\<lambda>k q. k\<lparr>composite_deferred := q\<rparr>) (\<lambda>k. rv_queue_defer env (composite_deferred k) e)"

definition composite_pend ::
  "('c, 'v, 'err, 'q) region_env \<Rightarrow> 'v variant_value \<Rightarrow> ('c, 'v, 'err, 'q, unit) composite_step" where
  "composite_pend env e =
     push_composite_queue (\<lambda>k q. k\<lparr>composite_pending := q\<rparr>) (\<lambda>k. rv_queue_process env (composite_pending k) e)"

definition composite_pop_deferred ::
  "('c, 'v, 'err, 'q) region_env \<Rightarrow> ('c, 'v, 'err, 'q, 'v variant_value option) composite_step" where
  "composite_pop_deferred env = lift_step (\<lambda>k.
     case rv_queue_pop env (composite_deferred k) of (q, e) \<Rightarrow> (k\<lparr>composite_deferred := q\<rparr>, Ok e))"

definition composite_pop_pending ::
  "('c, 'v, 'err, 'q) region_env \<Rightarrow> ('c, 'v, 'err, 'q, 'v variant_value option) composite_step" where
  "composite_pop_pending env = lift_step (\<lambda>k.
     case rv_queue_pop env (composite_pending k) of (q, e) \<Rightarrow> (k\<lparr>composite_pending := q\<rparr>, Ok e))"

definition composite_process ::
  "('c, 'v, 'err, 'q) region_env \<Rightarrow> composite_code \<Rightarrow> ('v variant_value \<Rightarrow> ('c, 'v, 'err, 'q, unit) composite_step)
    \<Rightarrow> 'v option \<Rightarrow> ('v, 'err) trigger_data \<Rightarrow> rust_expr \<Rightarrow> ('c, 'v, 'err, 'q, unit) composite_step" where
  "composite_process env code rec sd td x = with_core (\<lambda>k.
     let e = rv_event env x (composite_context k) sd td in
     if cc_async_queue code then composite_pend env e else rec e)"

definition composite_drain_step ::
  "('c, 'v, 'err, 'q) region_env \<Rightarrow> composite_code \<Rightarrow> ('v variant_value \<Rightarrow> ('c, 'v, 'err, 'q, unit) composite_step)
    \<Rightarrow> ('c, 'v, 'err, 'q, bool) composite_step" where
  "composite_drain_step env code rec =
     bind (composite_pop_deferred env) (\<lambda>popped.
       case popped of
         None \<Rightarrow> ret False
       | Some e \<Rightarrow>
           then_do
             (if cc_async_queue code then composite_pend env e
              else catch (rec e)
                (\<lambda>err. if err = InvalidEvent \<or> err = TransitionsFailed then ret () else raise err))
             (ret True))"

definition composite_drain ::
  "('c, 'v, 'err, 'q) region_env \<Rightarrow> composite_code \<Rightarrow> ('v variant_value \<Rightarrow> ('c, 'v, 'err, 'q, unit) composite_step)
    \<Rightarrow> nat \<Rightarrow> ('c, 'v, 'err, 'q, unit) composite_step" where
  "composite_drain env code rec n =
     (if cc_has_deferred code then while_ok n (composite_drain_step env code rec) else ret ())"

section \<open>Branches\<close>

definition put_exit_skip :: "slot \<Rightarrow> bool \<Rightarrow> ('c, 'v, 'err, 'q, unit) composite_step" where
  "put_exit_skip s b = update (put_skip s b)"

definition leave_source ::
  "('c, 'v, 'err, 'q) region_env \<Rightarrow> composite_code \<Rightarrow> slot \<Rightarrow> composite_branch \<Rightarrow> 'v option
    \<Rightarrow> ('c, 'v, 'err, 'q, unit) composite_step" where
  "leave_source env code s br sd = with_core (\<lambda>k.
     if exit_skip_place s k then put_exit_skip s False
     else then_do (if cb_exit_child br then exit_child_current env code else ret ())
       (hook_calls env (cb_exit br) sd))"

definition replace_slot :: "slot \<Rightarrow> 'v variant_value \<Rightarrow> ('c, 'v, 'err, 'q, unit) composite_step" where
  "replace_slot s v = update (\<lambda>k.
     let old = variant (slot_state s k) in
     composite_log (CompositeChange old (variant v)) (composite_log (CompositeCallback s old (variant v))
       (put_skip s False (put_state s v k))))"

definition reach_target ::
  "('c, 'v, 'err, 'q) region_env \<Rightarrow> composite_code \<Rightarrow> slot \<Rightarrow> composite_branch \<Rightarrow> 'v option
    \<Rightarrow> ('c, 'v, 'err, 'q, unit) composite_step" where
  "reach_target env code s br data =
     (let new = (if cd_default_output br then Some (rv_default env (cd_out_state br)) else data) in
      then_do (replace_slot s (Variant (cd_out_state br) new))
        (then_do (hook_calls env (cb_entry br) (if cb_out_data br then new else None))
          (if cb_enter_child br then enter_child_current env code else ret ())))"

definition change_slot ::
  "('c, 'v, 'err, 'q) region_env \<Rightarrow> composite_code \<Rightarrow> slot \<Rightarrow> composite_branch \<Rightarrow> 'v option
    \<Rightarrow> ('c, 'v, 'err, 'q, 'v option) composite_step \<Rightarrow> ('c, 'v, 'err, 'q, unit) composite_step" where
  "change_slot env code s br sd actions =
     then_do (leave_source env code s br sd)
       (then_do (put_exit_skip s True) (bind actions (reach_target env code s br)))"

definition run_row ::
  "('c, 'v, 'err, 'q) region_env \<Rightarrow> composite_code \<Rightarrow> ('v variant_value \<Rightarrow> ('c, 'v, 'err, 'q, unit) composite_step)
    \<Rightarrow> nat \<Rightarrow> slot \<Rightarrow> ('v, 'err) trigger_data \<Rightarrow> composite_branch \<Rightarrow> ('c, 'v, 'err, 'q, bool) composite_step" where
  "run_row env code rec n s td0 br = with_core (\<lambda>k.
     let sd = (if cd_state_data br then payload (slot_state s k) else None);
         td = (if cd_event_data br then td0 else NoData);
         guard = guard_code env (cd_event br) sd td;
         actions = run_steps guard (action_code env (cd_event br) sd td) (cd_steps br) None;
         defer_code = (if cd_defer br
           then composite_defer env (Variant (cd_event br) (case td of EventData v \<Rightarrow> Some v | _ \<Rightarrow> None)) else ret ());
         processes = for_each (composite_process env code rec sd td) (cd_process br);
         body = (if cd_internal br
           then then_do actions (then_do defer_code (then_do processes (ret True)))
           else then_do (change_slot env code s br sd actions)
             (then_do defer_code (then_do processes (then_do (composite_drain env code rec n) (ret True)))));
         dispatched = (if cd_kind br = Normal \<or> cd_kind br = Unexpected
           then rv_candidate env (cd_in_state br) (cd_event br) (cd_index br) else True)
     in if dispatched
        then (case cd_guard br of None \<Rightarrow> body | Some g \<Rightarrow> bind (guard g) (\<lambda>b. if b then body else ret False))
        else ret False)"

text \<open>The rows of an arm up to the first that handles; with it, whether that one moves the slot.\<close>

fun run_rows ::
  "('c, 'v, 'err, 'q) region_env \<Rightarrow> composite_code \<Rightarrow> ('v variant_value \<Rightarrow> ('c, 'v, 'err, 'q, unit) composite_step)
    \<Rightarrow> nat \<Rightarrow> slot \<Rightarrow> ('v, 'err) trigger_data \<Rightarrow> composite_branch list \<Rightarrow> ('c, 'v, 'err, 'q, bool option) composite_step"
where
  "run_rows env code rec n s td [] = ret None"
| "run_rows env code rec n s td (br # brs) =
     bind (run_row env code rec n s td br) (\<lambda>handled.
       if handled then ret (Some (cb_moves br)) else run_rows env code rec n s td brs)"

section \<open>Events, completions and exceptions of a table\<close>

text \<open>\<open>match (&state, &event)\<close>: normal rows, specific unexpected rows, \<open>unexpected<_>\<close>.\<close>

definition event_rows :: "event_arms \<Rightarrow> string \<Rightarrow> string \<Rightarrow> composite_branch list" where
  "event_rows a s e =
     (case map_of (ea_normal a) (s, e) of
        Some bs \<Rightarrow> bs
      | None \<Rightarrow>
          (case map_of (ea_unexpected a) (s, e) of
             Some b \<Rightarrow> [b]
           | None \<Rightarrow> option_list (map_of (ea_unexpected_wildcard a) s)))"

definition dispatch_table_rows ::
  "('c, 'v, 'err, 'q) region_env \<Rightarrow> composite_code \<Rightarrow> ('v variant_value \<Rightarrow> ('c, 'v, 'err, 'q, unit) composite_step)
    \<Rightarrow> nat \<Rightarrow> slot \<Rightarrow> 'v variant_value \<Rightarrow> ('c, 'v, 'err, 'q, bool) composite_step" where
  "dispatch_table_rows env code rec n s e = with_core (\<lambda>k.
     bind (run_rows env code rec n s (event_trigger_data e)
         (event_rows (tc_events (slot_table code s)) (variant (slot_state s k)) (variant e)))
       (\<lambda>h. ret (h \<noteq> None)))"

definition eligible_rows :: "bool \<Rightarrow> (bool \<times> composite_branch list) option \<Rightarrow> composite_branch list" where
  "eligible_rows terminal arm =
     (case arm of None \<Rightarrow> [] | Some (waits, bs) \<Rightarrow> if waits \<and> \<not> terminal then [] else bs)"

text \<open>The child's own completions are always eligible.\<close>

definition arm_terminal :: "composite_code \<Rightarrow> slot \<Rightarrow> ('c, 'v, 'q) composite_core \<Rightarrow> bool" where
  "arm_terminal code s k = (case s of ParentSlot \<Rightarrow> child_terminal code k | ChildSlot \<Rightarrow> True)"

definition complete_table ::
  "('c, 'v, 'err, 'q) region_env \<Rightarrow> composite_code \<Rightarrow> ('v variant_value \<Rightarrow> ('c, 'v, 'err, 'q, unit) composite_step)
    \<Rightarrow> nat \<Rightarrow> slot \<Rightarrow> 'v variant_value option \<Rightarrow> ('c, 'v, 'err, 'q, bool) composite_step" where
  "complete_table env code rec n s origin =
     (let arms = tc_completions (slot_table code s) in
      bind
        (case origin of
           None \<Rightarrow> ret None
         | Some e \<Rightarrow> with_core (\<lambda>k. run_rows env code rec n s (event_trigger_data e)
             (eligible_rows (arm_terminal code s k) (map_of (ca_origin arms) (variant (slot_state s k), variant e)))))
        (\<lambda>h. if h \<noteq> None then ret True
          else with_core (\<lambda>k. bind (run_rows env code rec n s NoData
              (eligible_rows (arm_terminal code s k) (map_of (ca_anonymous arms) (variant (slot_state s k)))))
            (\<lambda>h. ret (h \<noteq> None)))))"

definition recover_table ::
  "('c, 'v, 'err, 'q) region_env \<Rightarrow> composite_code \<Rightarrow> ('v variant_value \<Rightarrow> ('c, 'v, 'err, 'q, unit) composite_step)
    \<Rightarrow> nat \<Rightarrow> 'err \<Rightarrow> slot \<Rightarrow> bool option \<Rightarrow> ('c, 'v, 'err, 'q, bool option) composite_step" where
  "recover_table env code rec n err s recovery =
     (if recovery = None
      then with_core (\<lambda>k. run_rows env code rec n s (ErrorData err)
        (case map_of (tc_exceptions (slot_table code s)) (variant (slot_state s k)) of None \<Rightarrow> [] | Some bs \<Rightarrow> bs))
      else ret recovery)"

section \<open>Dispatch\<close>

text \<open>The active child first, then the parent.\<close>

definition child_first ::
  "composite_code \<Rightarrow> (slot \<Rightarrow> ('c, 'v, 'err, 'q, bool) composite_step) \<Rightarrow> ('c, 'v, 'err, 'q, bool) composite_step" where
  "child_first code run = with_core (\<lambda>k.
     bind (if child_active code k then run ChildSlot else ret False)
       (\<lambda>handled. if handled then ret True else run ParentSlot))"

definition composite_recover_walk ::
  "('c, 'v, 'err, 'q) region_env \<Rightarrow> composite_code \<Rightarrow> ('v variant_value \<Rightarrow> ('c, 'v, 'err, 'q, unit) composite_step)
    \<Rightarrow> nat \<Rightarrow> 'err \<Rightarrow> ('c, 'v, 'err, 'q, bool option) composite_step" where
  "composite_recover_walk env code rec n err = with_core (\<lambda>k.
     bind (if child_active code k then recover_table env code rec n err ChildSlot None else ret None)
       (recover_table env code rec n err ParentSlot))"

definition composite_attempt ::
  "('c, 'v, 'err, 'q) region_env \<Rightarrow> composite_code \<Rightarrow> ('v variant_value \<Rightarrow> ('c, 'v, 'err, 'q, unit) composite_step)
    \<Rightarrow> nat \<Rightarrow> 'v variant_value \<Rightarrow> ('c, 'v, 'err, 'q, bool \<times> bool) composite_step" where
  "composite_attempt env code rec n e =
     (let attempt = bind (child_first code (\<lambda>s. dispatch_table_rows env code rec n s e)) (\<lambda>h. ret (h, False)) in
      if cc_has_exception code
      then catch attempt (\<lambda>error.
        case callback_error error of
          None \<Rightarrow> raise error
        | Some err \<Rightarrow>
            bind (composite_recover_walk env code rec n err) (\<lambda>recovery.
              if recovery \<noteq> None then ret (True, True) else raise error))
      else attempt)"

text \<open>
  \<open>stabilize\<close>. A callback error of a completion is recovered as that of an event; a recovery that does
  not move ends the call, any other one goes on without the origin.
\<close>

definition stabilize_attempt ::
  "('c, 'v, 'err, 'q) region_env \<Rightarrow> composite_code \<Rightarrow> ('v variant_value \<Rightarrow> ('c, 'v, 'err, 'q, unit) composite_step)
    \<Rightarrow> nat \<Rightarrow> 'v variant_value option \<Rightarrow> ('c, 'v, 'err, 'q, bool \<times> bool) composite_step" where
  "stabilize_attempt env code rec n origin =
     (let attempt = bind (child_first code (\<lambda>s. complete_table env code rec n s origin)) (\<lambda>h. ret (h, False)) in
      if cc_has_exception code
      then catch attempt (\<lambda>error.
        case callback_error error of
          None \<Rightarrow> raise error
        | Some err \<Rightarrow>
            bind (composite_recover_walk env code rec n err) (\<lambda>recovery.
              case recovery of None \<Rightarrow> raise error | Some moved \<Rightarrow> ret (moved, True)))
      else attempt)"

fun composite_stabilize ::
  "nat \<Rightarrow> ('c, 'v, 'err, 'q) region_env \<Rightarrow> composite_code \<Rightarrow> ('v variant_value \<Rightarrow> ('c, 'v, 'err, 'q, unit) composite_step)
    \<Rightarrow> nat \<Rightarrow> 'v variant_value option \<Rightarrow> ('c, 'v, 'err, 'q, unit) composite_step" where
  "composite_stabilize 0 env code rec n origin = (\<lambda>_. None)"
| "composite_stabilize (Suc m) env code rec n origin =
     bind (stabilize_attempt env code rec n origin) (\<lambda>(continue, recovered).
       if continue then composite_stabilize m env code rec n (if recovered then None else origin) else ret ())"

definition composite_dispatch ::
  "('c, 'v, 'err, 'q) region_env \<Rightarrow> composite_code \<Rightarrow> ('v variant_value \<Rightarrow> ('c, 'v, 'err, 'q, unit) composite_step)
    \<Rightarrow> nat \<Rightarrow> 'v variant_value \<Rightarrow> ('c, 'v, 'err, 'q, unit) composite_step" where
  "composite_dispatch env code rec n e =
     then_do (update (composite_log (CompositeEvent (variant e))))
       (if rv_dispatch env (variant e)
        then bind (composite_attempt env code rec n e) (\<lambda>(handled, recovered).
          if handled then composite_stabilize n env code rec n (if recovered then None else Some e)
          else raise InvalidEvent)
        else raise InvalidEvent)"

primrec composite_process_sync ::
  "nat \<Rightarrow> ('c, 'v, 'err, 'q) region_env \<Rightarrow> composite_code \<Rightarrow> 'v variant_value \<Rightarrow> ('c, 'v, 'err, 'q, unit) composite_step" where
  "composite_process_sync 0 env code e = (\<lambda>_. None)"
| "composite_process_sync (Suc n) env code e = composite_dispatch env code (composite_process_sync n env code) n e"

definition composite_process_async ::
  "nat \<Rightarrow> ('c, 'v, 'err, 'q) region_env \<Rightarrow> composite_code \<Rightarrow> 'v variant_value \<Rightarrow> ('c, 'v, 'err, 'q, unit) composite_step" where
  "composite_process_async n env code e =
     then_do (composite_pend env e)
       (while_ok n (bind (composite_pop_pending env) (\<lambda>popped.
          case popped of
            None \<Rightarrow> ret False
          | Some e' \<Rightarrow> then_do (composite_dispatch env code (\<lambda>_ _. None) n e') (ret True))))"

definition composite_process_event ::
  "nat \<Rightarrow> ('c, 'v, 'err, 'q) region_env \<Rightarrow> composite_code \<Rightarrow> 'v variant_value \<Rightarrow> ('c, 'v, 'err, 'q, unit) composite_step" where
  "composite_process_event n env code e =
     (if cc_async_queue code then composite_process_async n env code e else composite_process_sync n env code e)"

section \<open>Construction, initialization and queries\<close>

definition new_composite_core :: "('c, 'v, 'err, 'q) region_env \<Rightarrow> composite_code \<Rightarrow> 'c \<Rightarrow> ('c, 'v, 'q) composite_core" where
  "new_composite_core env code ctx =
     \<lparr>parent_state = table_initial env (cc_parent code), child_state = table_initial env (cc_child code),
      parent_exit_skip = False, child_exit_skip = False, composite_context = ctx,
      composite_deferred = rv_queue_new env, composite_pending = rv_queue_new env, composite_observed = []\<rparr>"

text \<open>Only the entry actions of the parent's initial state run.\<close>

definition parent_initial_entry ::
  "('c, 'v, 'err, 'q) region_env \<Rightarrow> composite_code \<Rightarrow> ('c, 'v, 'err, 'q, unit) composite_step" where
  "parent_initial_entry env code = with_core (\<lambda>k.
     hook_calls env (hook_actions lc_entry (tc_hooks (cc_parent code)) (tc_initial (cc_parent code)))
       (if tc_initial_data (cc_parent code) then payload (parent_state k) else None))"

definition composite_initialize ::
  "nat \<Rightarrow> ('c, 'v, 'err, 'q) region_env \<Rightarrow> composite_code \<Rightarrow> ('c, 'v, 'err, 'q, unit) composite_step" where
  "composite_initialize n env code =
     then_do (parent_initial_entry env code)
       (composite_stabilize n env code (composite_process_event n env code) n None)"

definition set_parent_state ::
  "('c, 'v, 'q) composite_core \<Rightarrow> 'v variant_value \<Rightarrow> ('c, 'v, 'q) composite_core \<times> 'v variant_value" where
  "set_parent_state k v = (k\<lparr>parent_exit_skip := False, parent_state := v\<rparr>, parent_state k)"

definition set_child_state ::
  "('c, 'v, 'q) composite_core \<Rightarrow> 'v variant_value \<Rightarrow> ('c, 'v, 'q) composite_core \<times> 'v variant_value" where
  "set_child_state k v = (k\<lparr>child_exit_skip := False, child_state := v\<rparr>, child_state k)"

definition composite_is :: "('c, 'v, 'q) composite_core \<Rightarrow> 'v variant_value \<Rightarrow> bool" where
  "composite_is k expected \<longleftrightarrow> variant (parent_state k) = variant expected"

definition composite_is_child :: "('c, 'v, 'q) composite_core \<Rightarrow> 'v variant_value \<Rightarrow> bool" where
  "composite_is_child k expected \<longleftrightarrow> variant (child_state k) = variant expected"

definition composite_is_terminated :: "composite_code \<Rightarrow> ('c, 'v, 'q) composite_core \<Rightarrow> bool" where
  "composite_is_terminated code k \<longleftrightarrow> tc_has_terminal (cc_parent code) \<and> variant (parent_state k) = ''X''"

inductive composite_reachable ::
  "('c, 'v, 'err, 'q) region_env \<Rightarrow> composite_code \<Rightarrow> ('c, 'v, 'q) composite_core \<Rightarrow> bool"
  for env code where
  composite_initialized: "composite_initialize n env code (new_composite_core env code ctx) = Some (k, r) \<Longrightarrow>
    composite_reachable env code k"
| composite_processed: "composite_reachable env code k \<Longrightarrow> composite_process_event n env code e k = Some (k', r) \<Longrightarrow>
    composite_reachable env code k'"

end
