(* ===== verification/Composite_Runs.thy ===== *)
theory Composite_Runs
  imports Composite_Machine Orthogonal_Runs
begin

text \<open>
  Invariants of composite machines. As for orthogonal machines, the locale \<open>composite_invariant\<close> says
  what a property must satisfy to hold in every run; the change of a table along a branch and the
  reset of the child are its obligations.
\<close>

section \<open>Properties that callbacks keep\<close>

definition composite_callbacks_keep :: "(('c, 'v, 'q) composite_core \<Rightarrow> bool) \<Rightarrow> bool" where
  "composite_callbacks_keep P \<longleftrightarrow>
     (\<forall>k c. P k \<longrightarrow> P (k\<lparr>composite_context := c\<rparr>)) \<and>
     (\<forall>k q. P k \<longrightarrow> P (k\<lparr>composite_deferred := q\<rparr>)) \<and>
     (\<forall>k q. P k \<longrightarrow> P (k\<lparr>composite_pending := q\<rparr>)) \<and>
     (\<forall>k b. P k \<longrightarrow> P (k\<lparr>parent_exit_skip := b\<rparr>)) \<and>
     (\<forall>k b. P k \<longrightarrow> P (k\<lparr>child_exit_skip := b\<rparr>)) \<and>
     (\<forall>k x. P k \<longrightarrow> (case x of CompositeEvent _ \<Rightarrow> True | CompositeGuard _ _ _ \<Rightarrow> True | CompositeAction _ _ \<Rightarrow> True | _ \<Rightarrow> False)
        \<longrightarrow> P (composite_log x k))"

lemma composite_callbacks_keepD:
  assumes "composite_callbacks_keep P" "P k"
  shows "P (k\<lparr>composite_context := c\<rparr>)" "P (k\<lparr>composite_deferred := q\<rparr>)" "P (k\<lparr>composite_pending := q\<rparr>)"
    "P (k\<lparr>parent_exit_skip := b\<rparr>)" "P (k\<lparr>child_exit_skip := b\<rparr>)" "P (put_skip s b k)"
    "P (composite_log (CompositeEvent e) k)"
    "P (composite_log (CompositeGuard g e b) k)" "P (composite_log (CompositeAction a e) k)"
  using assms unfolding composite_callbacks_keep_def by (simp_all add: put_skip_def split: slot.split)

lemma slot_state_updates [simp]:
  "slot_state s (k\<lparr>composite_context := c\<rparr>) = slot_state s k"
  "slot_state s (k\<lparr>composite_deferred := q\<rparr>) = slot_state s k"
  "slot_state s (k\<lparr>composite_pending := q\<rparr>) = slot_state s k"
  "slot_state s (k\<lparr>parent_exit_skip := b\<rparr>) = slot_state s k"
  "slot_state s (k\<lparr>child_exit_skip := b\<rparr>) = slot_state s k"
  "slot_state s (composite_log x k) = slot_state s k"
  by (cases s; simp add: slot_state_def composite_log_def)+

lemma composite_callbacks_keep_at:
  "composite_callbacks_keep P \<Longrightarrow> composite_callbacks_keep (\<lambda>k. P k \<and> variant (slot_state s k) = st)"
  unfolding composite_callbacks_keep_def by simp

lemma guard_code_keeps [step_inv]:
  "composite_callbacks_keep P \<Longrightarrow> preserves P (guard_code env e sd td g)"
  unfolding guard_code_def
  by (rule preserves_lift_step, rule eval_guard_keeps)
     (auto simp: composite_call_guard_def composite_callbacks_keepD split: sum.splits)

lemma action_code_keeps [step_inv]:
  "composite_callbacks_keep P \<Longrightarrow> preserves P (action_code env e sd td a)"
  unfolding action_code_def
  by (rule preserves_lift_step) (auto simp: composite_callbacks_keepD split: prod.splits sum.splits)

lemma hook_calls_keeps [step_inv]: "composite_callbacks_keep P \<Longrightarrow> preserves P (hook_calls env as sd)"
  unfolding hook_calls_def by (intro step_inv)

lemma current_lifecycle_code_keeps [step_inv]:
  "composite_callbacks_keep P \<Longrightarrow> preserves P (current_lifecycle_code env w tc v)"
  unfolding current_lifecycle_code_def by (intro step_inv)

lemma put_exit_skip_keeps [step_inv]: "composite_callbacks_keep P \<Longrightarrow> preserves P (put_exit_skip s b)"
  unfolding put_exit_skip_def by (rule preserves_update) (rule composite_callbacks_keepD)

lemma exit_child_current_keeps [step_inv]: "composite_callbacks_keep P \<Longrightarrow> preserves P (exit_child_current env code)"
  unfolding exit_child_current_def
  by (intro preserves_with_core preserves_if preserves_then_do current_lifecycle_code_keeps preserves_update triple_ret)
    (simp_all add: composite_callbacks_keepD)

lemma leave_source_keeps [step_inv]: "composite_callbacks_keep P \<Longrightarrow> preserves P (leave_source env code s br sd)"
  unfolding leave_source_def
  by (intro preserves_with_core preserves_if put_exit_skip_keeps preserves_then_do exit_child_current_keeps
      hook_calls_keeps triple_ret)

lemma composite_queue_steps_keep [step_inv]:
  assumes "composite_callbacks_keep P"
  shows "preserves P (composite_defer env e)" "preserves P (composite_pend env e)"
    "preserves P (composite_pop_deferred env)" "preserves P (composite_pop_pending env)"
  unfolding composite_defer_def composite_pend_def composite_pop_deferred_def composite_pop_pending_def
  using assms
  by (auto intro!: preserves_lift_step simp: push_composite_queue_def composite_callbacks_keepD split: prod.splits)

lemma composite_process_keeps [step_inv]:
  "composite_callbacks_keep P \<Longrightarrow> (\<And>e. preserves P (rec e)) \<Longrightarrow> preserves P (composite_process env code rec sd td x)"
  unfolding composite_process_def Let_def by (intro step_inv) auto

lemma composite_drain_keeps [step_inv]:
  "composite_callbacks_keep P \<Longrightarrow> (\<And>e. preserves P (rec e)) \<Longrightarrow> preserves P (composite_drain env code rec n)"
  unfolding composite_drain_def composite_drain_step_def by (intro step_inv) (auto intro!: step_inv)

section \<open>Branches of a state\<close>

text \<open>\<open>branch_at code s st br\<close>: the branch stands in an arm of the state \<open>st\<close> of the table of \<open>s\<close>.\<close>

definition branch_at :: "composite_code \<Rightarrow> slot \<Rightarrow> string \<Rightarrow> composite_branch \<Rightarrow> bool" where
  "branch_at code s st br \<longleftrightarrow>
     (let tc = slot_table code s in
      (\<exists>e. br \<in> set (event_rows (tc_events tc) st e)) \<or>
      (\<exists>e w bs. ((st, e), w, bs) \<in> set (ca_origin (tc_completions tc)) \<and> br \<in> set bs) \<or>
      (\<exists>w bs. (st, w, bs) \<in> set (ca_anonymous (tc_completions tc)) \<and> br \<in> set bs) \<or>
      (\<exists>bs. (st, bs) \<in> set (tc_exceptions tc) \<and> br \<in> set bs))"

lemma eligible_rows_subset: "set (eligible_rows b x) \<subseteq> (case x of None \<Rightarrow> {} | Some (w, bs) \<Rightarrow> set bs)"
  by (auto simp: eligible_rows_def split: option.splits if_splits)

lemma selected_rows:
  "br \<in> set (event_rows (tc_events (slot_table code s)) st e) \<Longrightarrow> branch_at code s st br"
  "br \<in> set (eligible_rows b (map_of (ca_origin (tc_completions (slot_table code s))) (st, e))) \<Longrightarrow> branch_at code s st br"
  "br \<in> set (eligible_rows b (map_of (ca_anonymous (tc_completions (slot_table code s))) st)) \<Longrightarrow> branch_at code s st br"
  "br \<in> set (case map_of (tc_exceptions (slot_table code s)) st of None \<Rightarrow> [] | Some bs \<Rightarrow> bs) \<Longrightarrow> branch_at code s st br"
proof -
  show "br \<in> set (event_rows (tc_events (slot_table code s)) st e) \<Longrightarrow> branch_at code s st br"
    unfolding branch_at_def Let_def by blast
  show "br \<in> set (eligible_rows b (map_of (ca_origin (tc_completions (slot_table code s))) (st, e))) \<Longrightarrow> branch_at code s st br"
    unfolding branch_at_def Let_def
    by (drule set_mp [OF eligible_rows_subset]) (auto dest: map_of_SomeD split: option.splits)
  show "br \<in> set (eligible_rows b (map_of (ca_anonymous (tc_completions (slot_table code s))) st)) \<Longrightarrow> branch_at code s st br"
    unfolding branch_at_def Let_def
    by (drule set_mp [OF eligible_rows_subset]) (auto dest: map_of_SomeD split: option.splits)
  show "br \<in> set (case map_of (tc_exceptions (slot_table code s)) st of None \<Rightarrow> [] | Some bs \<Rightarrow> bs) \<Longrightarrow> branch_at code s st br"
    unfolding branch_at_def Let_def
    by (cases "map_of (tc_exceptions (slot_table code s)) st") (auto dest: map_of_SomeD)
qed

definition slot_replaced :: "slot \<Rightarrow> 'v variant_value \<Rightarrow> ('c, 'v, 'q) composite_core \<Rightarrow> ('c, 'v, 'q) composite_core" where
  "slot_replaced s v k =
     composite_log (CompositeChange (variant (slot_state s k)) (variant v))
       (composite_log (CompositeCallback s (variant (slot_state s k)) (variant v)) (put_skip s False (put_state s v k)))"

lemma replace_slot_replaced: "replace_slot s v = update (slot_replaced s v)"
  by (simp add: replace_slot_def slot_replaced_def [abs_def] Let_def)

section \<open>Invariants of runs\<close>

locale composite_invariant =
  fixes env :: "('c, 'v, 'err, 'q) region_env" and code :: composite_code
    and P :: "('c, 'v, 'q) composite_core \<Rightarrow> bool"
  assumes callbacks: "composite_callbacks_keep P"
    and change: "\<And>s st br k v. branch_at code s st br \<Longrightarrow> \<not> cd_internal br \<Longrightarrow> P k \<Longrightarrow>
      variant (slot_state s k) = st \<Longrightarrow> variant v = cd_out_state br \<Longrightarrow> P (slot_replaced s v k)"
    and reset: "\<And>k. P k \<Longrightarrow> P (k\<lparr>child_state := table_initial env (cc_child code)\<rparr>)"
begin

abbreviation at_slot :: "slot \<Rightarrow> string \<Rightarrow> ('c, 'v, 'q) composite_core \<Rightarrow> bool" where
  "at_slot s st k \<equiv> P k \<and> variant (slot_state s k) = st"

lemmas at_keep = composite_callbacks_keep_at [OF callbacks]

lemma enter_child_current_keeps: "preserves P (enter_child_current env code)"
  unfolding enter_child_current_def
  by (intro step_inv callbacks preserves_update) (auto intro: reset composite_callbacks_keepD [OF callbacks])

lemma at_weaken:
  "preserves (at_slot s st) m \<Longrightarrow> triple (at_slot s st) m (\<lambda>_. at_slot s st) P"
  for m :: "('c, 'v, 'err, 'q, 'a) composite_step"
  by (erule triple_post) auto

lemma change_slot_keeps:
  assumes br: "branch_at code s st br" "\<not> cd_internal br" and actions: "preserves (at_slot s st) actions"
  shows "triple (at_slot s st) (change_slot env code s br sd actions) (\<lambda>_. P) P"
proof -
  have replace: "triple (at_slot s st) (replace_slot s (Variant (cd_out_state br) new)) (\<lambda>_. P) P" for new
    unfolding replace_slot_replaced using br by (intro triple_update) (auto intro: change)
  have enter: "preserves P (if cb_enter_child br then enter_child_current env code else ret ())"
    by (auto intro: enter_child_current_keeps triple_ret)
  have "triple (at_slot s st) (reach_target env code s br data) (\<lambda>_. P) P" for data
    unfolding reach_target_def Let_def
    by (rule triple_then_do [OF replace preserves_then_do [OF hook_calls_keeps [OF callbacks] enter]])
  then show ?thesis
    unfolding change_slot_def
    by (intro triple_then_do [OF at_weaken [OF leave_source_keeps [OF at_keep]]]
        triple_then_do [OF at_weaken [OF put_exit_skip_keeps [OF at_keep]]] triple_bind [OF at_weaken [OF actions]])
qed

lemma run_row_keeps:
  assumes br: "branch_at code s st br" and rec: "\<And>e. preserves P (rec e)"
  shows "triple (at_slot s st) (run_row env code rec n s td br) (\<lambda>b k. P k \<and> (\<not> b \<longrightarrow> at_slot s st k)) P"
proof -
  have acts: "preserves (at_slot s st) (run_steps (guard_code env e sd td) (action_code env e sd td) steps None)"
    for e sd td steps
    by (intro run_steps_keeps guard_code_keeps action_code_keeps at_keep)
  show ?thesis
    unfolding run_row_def Let_def
    by (rule triple_with_core, rule triple_pre [of _ "at_slot s st"], simp,
        intro emitted_row_keeps guard_code_keeps at_keep acts change_slot_keeps br step_inv callbacks rec) simp
qed

lemma run_rows_keeps:
  assumes "\<And>br. br \<in> set brs \<Longrightarrow> branch_at code s st br" and rec: "\<And>e. preserves P (rec e)"
  shows "triple (at_slot s st) (run_rows env code rec n s td brs) (\<lambda>_. P) P"
  using assms(1)
proof (induction brs)
  case Nil
  show ?case by (auto intro: triple_ret)
next
  case (Cons br brs)
  have "triple (\<lambda>k. P k \<and> (\<not> b \<longrightarrow> at_slot s st k))
      (if b then ret (Some (cb_moves br)) else run_rows env code rec n s td brs) (\<lambda>_. P) P" for b
    using Cons by (cases b) (auto intro!: triple_ret)
  then show ?case
    unfolding run_rows.simps by (intro triple_bind [OF run_row_keeps]) (simp_all add: Cons.prems rec)
qed

text \<open>Rows selected by the state of the slot.\<close>

lemma selected_rows_keep:
  assumes rows: "\<And>k br. br \<in> set (rows k) \<Longrightarrow> branch_at code s (variant (slot_state s k)) br"
    and rec: "\<And>e. preserves P (rec e)"
  shows "preserves P (with_core (\<lambda>k. run_rows env code rec n s td (rows k)))"
proof (rule triple_with_core)
  fix k0
  have "triple (at_slot s (variant (slot_state s k0))) (run_rows env code rec n s td (rows k0)) (\<lambda>_. P) P"
    by (rule run_rows_keeps [OF rows rec])
  then show "triple (\<lambda>k. k = k0 \<and> P k) (run_rows env code rec n s td (rows k0)) (\<lambda>_. P) P"
    by (rule triple_pre [rotated]) simp
qed

lemma with_core_bind: "with_core (\<lambda>k. bind (m k) f) = bind (with_core m) f"
  by (rule ext) (simp add: with_core_def bind_def)

lemma dispatch_table_rows_keeps:
  "(\<And>e. preserves P (rec e)) \<Longrightarrow> preserves P (dispatch_table_rows env code rec n s e)"
  unfolding dispatch_table_rows_def with_core_bind
  by (intro preserves_bind selected_rows_keep) (auto intro: selected_rows triple_ret)

lemma complete_table_keeps:
  assumes rec: "\<And>e. preserves P (rec e)"
  shows "preserves P (complete_table env code rec n s origin)"
proof -
  have origin: "preserves P (with_core (\<lambda>k. run_rows env code rec n s td
      (eligible_rows (arm_terminal code s k) (map_of (ca_origin (tc_completions (slot_table code s))) (variant (slot_state s k), e)))))" for td e
    by (rule selected_rows_keep [OF selected_rows(2) rec])
  have anonymous: "preserves P (with_core (\<lambda>k. run_rows env code rec n s NoData
      (eligible_rows (arm_terminal code s k) (map_of (ca_anonymous (tc_completions (slot_table code s))) (variant (slot_state s k))))))"
    by (rule selected_rows_keep [OF selected_rows(3) rec])
  show ?thesis
    unfolding complete_table_def Let_def with_core_bind
    by (intro preserves_bind preserves_case_option preserves_if origin anonymous) (auto intro: triple_ret)
qed

lemma recover_table_keeps:
  assumes "\<And>e. preserves P (rec e)"
  shows "preserves P (recover_table env code rec n err s recovery)"
  unfolding recover_table_def
  by (intro preserves_if selected_rows_keep [OF selected_rows(4) assms]) (auto intro: triple_ret)

lemma child_first_keeps:
  "(\<And>s. preserves P (run s)) \<Longrightarrow> preserves P (child_first code run)"
  unfolding child_first_def by (intro step_inv) (auto intro!: step_inv)

lemma composite_recover_walk_keeps:
  "(\<And>e. preserves P (rec e)) \<Longrightarrow> preserves P (composite_recover_walk env code rec n err)"
  unfolding composite_recover_walk_def by (intro step_inv recover_table_keeps) (auto intro: triple_ret)

lemma composite_attempt_keeps:
  assumes rec: "\<And>e. preserves P (rec e)"
  shows "preserves P (composite_attempt env code rec n e)" "preserves P (stabilize_attempt env code rec n origin)"
  unfolding composite_attempt_def stabilize_attempt_def Let_def
  by (intro step_inv child_first_keeps dispatch_table_rows_keeps complete_table_keeps composite_recover_walk_keeps rec;
      simp add: triple_ret triple_raise)+

lemma composite_stabilize_keeps:
  assumes rec: "\<And>e. preserves P (rec e)"
  shows "preserves P (composite_stabilize m env code rec n origin)"
proof (induction m arbitrary: origin)
  case (Suc m)
  then show ?case
    unfolding composite_stabilize.simps
    by (intro preserves_bind composite_attempt_keeps rec) (auto intro!: step_inv split: prod.split)
qed simp

lemma composite_dispatch_keeps:
  assumes rec: "\<And>e. preserves P (rec e)"
  shows "preserves P (composite_dispatch env code rec n e)"
proof -
  have "preserves P (update (composite_log (CompositeEvent (variant e))))"
    by (rule preserves_update) (rule composite_callbacks_keepD [OF callbacks])
  then show ?thesis
    unfolding composite_dispatch_def
    by (auto intro!: step_inv composite_attempt_keeps composite_stabilize_keeps rec split: prod.split)
qed

theorem composite_process_event_keeps: "preserves P (composite_process_event n env code e)"
proof -
  have sync: "preserves P (composite_process_sync n env code e)" for n e
    by (induction n arbitrary: e) (simp_all add: composite_dispatch_keeps)
  have "preserves P (composite_process_async n env code e)"
    unfolding composite_process_async_def using callbacks
    by (intro step_inv) (auto intro!: step_inv composite_dispatch_keeps)
  then show ?thesis using sync by (simp add: composite_process_event_def)
qed

lemma composite_reachable_keeps:
  assumes "composite_reachable env code k" and start: "\<And>ctx. P (new_composite_core env code ctx)"
  shows "P k"
  using assms(1)
proof induction
  case (composite_initialized n ctx k r)
  have "preserves P (composite_initialize n env code)"
    unfolding composite_initialize_def parent_initial_entry_def
    by (intro step_inv composite_stabilize_keeps callbacks composite_process_event_keeps)
  from preservesD [OF this composite_initialized start] show ?case .
next
  case (composite_processed k n e k' r)
  then show ?case by (blast intro: preservesD [OF composite_process_event_keeps])
qed

end

end
