(* ===== verification/Composite_Rows.thy ===== *)
theory Composite_Rows
  imports Composite_Runs Parsed_Correctness Flat_Transition
begin

text \<open>
  The rows behind the branches that the generator for a parent and a child table emits, and the
  invariant that both tables move along their rows: the changes of the parent form a path of its table
  from the initial state to the current one.
\<close>

section \<open>Rows behind branches\<close>

definition behind :: "state_machine \<Rightarrow> string \<Rightarrow> composite_branch \<Rightarrow> bool" where
  "behind sm s br \<longleftrightarrow> (\<exists>t \<in> set (transitions sm). in_ident (st_in t) = s \<and>
     cd_internal br = st_internal t \<and> cd_out_state br = out_ident (st_out t))"

lemma transition_code_fields:
  assumes "transition_code owner hooks i t = Ok br"
  shows "cd_in_state br = in_ident (st_in t)" "cd_internal br = st_internal t" "cd_out_state br = out_ident (st_out t)"
    "cd_event br = ev_ident (st_event t)" "cd_kind br = ev_kind (st_event t)" "cd_guard br = st_guard t"
    "cd_process br = st_process_events t" "cd_defer br = st_defer t"
    "cb_exit_child br = fst (composite_lifecycle owner t)" "cb_enter_child br = snd (composite_lifecycle owner t)"
  using assms by (auto simp: transition_code_def Let_def try_then_Inr_iff split: if_splits)

lemma group_rows_member:
  assumes "(k, ts) \<in> set (group_rows key rows)" "t \<in> set ts"
  shows "t \<in> set rows" "key t = k"
  using assms by (auto simp: group_rows_def)

text \<open>The row of a branch may have been given the payload type of its event (\<open>with_event_type\<close>).\<close>

lemma behindI:
  assumes "t \<in> set (transitions sm)" "in_ident (st_in t) = s" "transition_code owner hooks i t' = Ok br"
    "st_internal t' = st_internal t" "st_out t' = st_out t"
  shows "behind sm s br"
  unfolding behind_def using assms(1,2,4,5) transition_code_fields [OF assms(3)] by auto

lemma numbered_branches_behind:
  assumes "numbered_branches owner hooks (key, ts) = Ok (key', bs)" "br \<in> set bs"
    and "\<And>t. t \<in> set ts \<Longrightarrow> t \<in> set (transitions sm) \<and> in_ident (st_in t) = s"
  shows "key' = key" "behind sm s br"
proof -
  from assms(1) have all: "try_map (\<lambda>(i, t). transition_code owner hooks i t) (enumerate 0 ts) = Ok bs" and "key' = key"
    by (auto simp: numbered_branches_def try_then_Inr_iff)
  then show "key' = key" by simp
  from try_map_member [OF all assms(2)] obtain i t where
    "(i, t) \<in> set (enumerate 0 ts)" "transition_code owner hooks i t = Ok br" by auto
  moreover from this(1) have "t \<in> set ts" by (auto simp: in_set_enumerate_eq dest: nth_mem)
  ultimately show "behind sm s br" using assms(3) by (auto intro: behindI)
qed

lemma branches_of_behind:
  assumes "branches_of owner hooks (key, map f ts) = Ok (key', bs)" "br \<in> set bs"
    and "\<And>t. t \<in> set ts \<Longrightarrow> t \<in> set (transitions sm) \<and> in_ident (st_in t) = s"
    and "\<And>t. st_internal (f t) = st_internal t \<and> st_out (f t) = st_out t"
  shows "key' = key" "behind sm s br"
proof -
  from assms(1) have all: "try_map (transition_code owner hooks 0) (map f ts) = Ok bs" and "key' = key"
    by (auto simp: branches_of_def try_then_Inr_iff)
  then show "key' = key" by simp
  from try_map_member [OF all assms(2)] obtain t where "t \<in> set ts" "transition_code owner hooks 0 (f t) = Ok br" by auto
  with assms(3) [of t] assms(4) [of t] show "behind sm s br" by (auto intro: behindI)
qed

lemma completion_arm_behind:
  assumes "completion_arm owner hooks f (key, ts) = Ok (key', w, bs)" "br \<in> set bs"
    and "\<And>t. t \<in> set ts \<Longrightarrow> t \<in> set (transitions sm) \<and> in_ident (st_in t) = s"
    and "\<And>t. st_internal (f t) = st_internal t \<and> st_out (f t) = st_out t"
  shows "key' = key" "behind sm s br"
proof -
  from assms(1) have "key' = key" and "try_map (transition_code owner hooks 0) (map f ts) = Ok bs"
    by (auto simp: completion_arm_def branches_of_def try_then_Inr_iff)
  then have "branches_of owner hooks (key, map f ts) = Ok (key, bs)" by (simp add: branches_of_def)
  from branches_of_behind(2) [OF this assms(2-4)] show "behind sm s br" .
  show "key' = key" by fact
qed

text \<open>The branches that an event selects in a state.\<close>

lemma dispatch_code_parts:
  assumes "dispatch_code owner hooks sm = Ok arms"
  shows "try_map (numbered_branches owner hooks) (group_rows site (normal_rows sm)) = Ok (ea_normal arms)"
    "try_map (\<lambda>t. try_then (transition_code owner hooks 0 t) (\<lambda>b. Ok (site t, b))) (kind_rows Unexpected False sm) =
      Ok (ea_unexpected arms)"
    "try_map (\<lambda>t. try_then (transition_code owner hooks 0 t) (\<lambda>b. Ok (in_ident (st_in t), b))) (kind_rows Unexpected True sm) =
      Ok (ea_unexpected_wildcard arms)"
  using assms by (auto simp: dispatch_code_def try_then_Inr_iff)

lemma normal_arm_rows:
  assumes "dispatch_code owner hooks sm = Ok arms" "((s, e), bs) \<in> set (ea_normal arms)"
  shows "try_map (\<lambda>(i, t). transition_code owner hooks i t)
    (enumerate 0 (filter (\<lambda>t. site t = (s, e)) (normal_rows sm))) = Ok bs"
proof -
  from try_map_member [OF dispatch_code_parts(1) [OF assms(1)] assms(2)] obtain key ts where
    ts: "(key, ts) \<in> set (group_rows site (normal_rows sm))" "numbered_branches owner hooks (key, ts) = Ok ((s, e), bs)"
    by auto
  then have "key = (s, e)" by (auto simp: numbered_branches_def try_then_Inr_iff)
  with ts show ?thesis by (auto simp: numbered_branches_def try_then_Inr_iff group_rows_def)
qed

lemma dispatch_code_rows:
  assumes "dispatch_code owner hooks sm = Ok arms" "br \<in> set (event_rows arms s e)"
  obtains t i where "t \<in> set (transitions sm)" "in_ident (st_in t) = s" "transition_code owner hooks i t = Ok br"
proof -
  consider (normal) bs where "((s, e), bs) \<in> set (ea_normal arms)" "br \<in> set bs"
    | (unexpected) "((s, e), br) \<in> set (ea_unexpected arms)" | (any) "(s, br) \<in> set (ea_unexpected_wildcard arms)"
    using assms(2) by (auto simp: event_rows_def split: option.splits dest: map_of_SomeD)
  then show ?thesis
  proof cases
    case (normal bs)
    from try_map_member [OF normal_arm_rows [OF assms(1) normal(1)] normal(2)] obtain i t where
      t: "(i, t) \<in> set (enumerate 0 (filter (\<lambda>t. site t = (s, e)) (normal_rows sm)))" "transition_code owner hooks i t = Ok br"
      by auto
    from t(1) have "t \<in> set (filter (\<lambda>t. site t = (s, e)) (normal_rows sm))"
      by (auto simp: in_set_enumerate_eq dest: nth_mem)
    with t(2) show ?thesis by (intro that) (auto simp: normal_rows_def site_def)
  next
    case unexpected
    from try_map_member [OF dispatch_code_parts(2) [OF assms(1)] this] obtain t where
      "t \<in> set (kind_rows Unexpected False sm)" "try_then (transition_code owner hooks 0 t) (\<lambda>b. Ok (site t, b)) = Ok ((s, e), br)" .
    then show ?thesis by (intro that) (auto simp: try_then_Inr_iff kind_rows_def site_def)
  next
    case any
    from try_map_member [OF dispatch_code_parts(3) [OF assms(1)] this] obtain t where
      "t \<in> set (kind_rows Unexpected True sm)" "try_then (transition_code owner hooks 0 t) (\<lambda>b. Ok (in_ident (st_in t), b)) = Ok (s, br)" .
    then show ?thesis by (intro that) (auto simp: try_then_Inr_iff kind_rows_def)
  qed
qed

lemma dispatch_code_behind:
  assumes "dispatch_code owner hooks sm = Ok arms" "br \<in> set (event_rows arms s e)"
  shows "behind sm s br"
  using dispatch_code_rows [OF assms] by (metis behindI)

lemma try_map_image:
  assumes "try_map f xs = Ok ys" "x \<in> set xs"
  obtains y where "y \<in> set ys" "f x = Ok y"
proof -
  note all = try_map_Inr [OF assms(1)]
  from assms(2) obtain i where i: "i < length xs" "x = xs ! i" by (auto simp: in_set_conv_nth)
  with list_all2_lengthD [OF all] have "ys ! i \<in> set ys" by simp
  with list_all2_nthD [OF all i(1)] i(2) show thesis by (auto intro: that)
qed

lemma member_enumerate: "x \<in> set xs \<Longrightarrow> \<exists>i. (i, x) \<in> set (enumerate n xs)"
  by (induction xs arbitrary: n) auto

lemma unguarded_row_selected:
  assumes code: "dispatch_code owner hooks sm = Ok arms"
    and t: "t \<in> set (transitions sm)" "ev_kind (st_event t) = Normal" "st_guard t = None"
  obtains br where "br \<in> set (event_rows arms (in_ident (st_in t)) (ev_ident (st_event t)))" "cd_guard br = None"
proof -
  from t have row: "t \<in> set (filter (\<lambda>t'. site t' = site t) (normal_rows sm))" by (simp add: normal_rows_def)
  then have "(site t, filter (\<lambda>t'. site t' = site t) (normal_rows sm)) \<in> set (group_rows site (normal_rows sm))"
    by (auto simp: group_rows_def)
  from try_map_image [OF dispatch_code_parts(1) [OF code] this] obtain arm where
    arm: "arm \<in> set (ea_normal arms)" "numbered_branches owner hooks (site t, filter (\<lambda>t'. site t' = site t) (normal_rows sm)) = Ok arm" .
  from arm(2) have "fst arm = site t" by (auto simp: numbered_branches_def try_then_Inr_iff)
  with arm(1) have "(site t, snd arm) \<in> set (ea_normal arms)" by (metis prod.collapse)
  then obtain bs where found: "map_of (ea_normal arms) (site t) = Some bs" by (auto dest: weak_map_of_SomeI)
  then have "((in_ident (st_in t), ev_ident (st_event t)), bs) \<in> set (ea_normal arms)"
    by (auto simp: site_def dest: map_of_SomeD)
  from normal_arm_rows [OF code this] have bs: "try_map (\<lambda>(i, t). transition_code owner hooks i t)
      (enumerate 0 (filter (\<lambda>t'. site t' = site t) (normal_rows sm))) = Ok bs" by (simp add: site_def)
  from member_enumerate [OF row] obtain i where
    "(i, t) \<in> set (enumerate 0 (filter (\<lambda>t'. site t' = site t) (normal_rows sm)))" by (rule exE)
  from try_map_image [OF bs this] obtain br where "br \<in> set bs" "transition_code owner hooks i t = Ok br" by auto
  with found t(3) show ?thesis
    by (intro that [of br]) (simp_all add: event_rows_def site_def transition_code_fields)
qed

lemma completion_code_behind:
  assumes "completion_code owner hooks evs sm = Ok arms" "br \<in> set bs"
  shows "((s, e), w, bs) \<in> set (ca_origin arms) \<Longrightarrow> behind sm s br"
    and "(s, w, bs) \<in> set (ca_anonymous arms) \<Longrightarrow> behind sm s br"
proof -
  from assms(1) obtain anonymous origin where
    gen: "try_map (completion_arm owner hooks id) (group_rows (\<lambda>t. in_ident (st_in t)) (kind_rows Completion True sm)) = Ok anonymous"
    "try_map (completion_arm owner hooks (with_event_type evs)) (group_rows site (kind_rows Completion False sm)) = Ok origin"
    and arms: "arms = \<lparr>ca_origin = origin, ca_anonymous = anonymous\<rparr>"
    by (auto simp: completion_code_def try_then_Inr_iff)
  show "behind sm s br" if "((s, e), w, bs) \<in> set (ca_origin arms)"
  proof -
    from that arms have "((s, e), w, bs) \<in> set origin" by simp
    from try_map_member [OF gen(2) this] obtain key ts where
      ts: "(key, ts) \<in> set (group_rows site (kind_rows Completion False sm))"
        "completion_arm owner hooks (with_event_type evs) (key, ts) = Ok ((s, e), w, bs)" by auto
    from ts(2) have "key = (s, e)" by (auto simp: completion_arm_def try_then_Inr_iff)
    then have "t \<in> set (transitions sm) \<and> in_ident (st_in t) = s" if "t \<in> set ts" for t
      using group_rows_member [OF ts(1) that] by (simp add: kind_rows_def site_def)
    then show ?thesis by (rule completion_arm_behind(2) [OF ts(2) assms(2)]) (simp_all add: with_event_type_def)
  qed
  show "behind sm s br" if "(s, w, bs) \<in> set (ca_anonymous arms)"
  proof -
    from that arms have "(s, w, bs) \<in> set anonymous" by simp
    from try_map_member [OF gen(1) this] obtain key ts where
      ts: "(key, ts) \<in> set (group_rows (\<lambda>t. in_ident (st_in t)) (kind_rows Completion True sm))"
        "completion_arm owner hooks id (key, ts) = Ok (s, w, bs)" by auto
    from ts(2) have "key = s" by (auto simp: completion_arm_def try_then_Inr_iff)
    then have "t \<in> set (transitions sm) \<and> in_ident (st_in t) = s" if "t \<in> set ts" for t
      using group_rows_member [OF ts(1) that] by (simp add: kind_rows_def)
    then show ?thesis by (rule completion_arm_behind(2) [OF ts(2) assms(2)]) simp_all
  qed
qed

lemma exception_code_behind:
  assumes "exception_code owner hooks sm = Ok arms" "(s, bs) \<in> set arms" "br \<in> set bs"
  shows "behind sm s br"
proof -
  from assms(1) have "try_map (\<lambda>(s, ts). branches_of owner hooks (s, typed_first ts))
      (group_rows (\<lambda>t. in_ident (st_in t)) (exception_rows sm)) = Ok arms"
    by (simp add: exception_code_def split: if_splits)
  from try_map_member [OF this assms(2)] obtain key ts where
    ts: "(key, ts) \<in> set (group_rows (\<lambda>t. in_ident (st_in t)) (exception_rows sm))"
      "branches_of owner hooks (key, map id (typed_first ts)) = Ok (s, bs)" by auto
  from ts(2) have "key = s" by (auto simp: branches_of_def try_then_Inr_iff)
  then have "t \<in> set (transitions sm) \<and> in_ident (st_in t) = s" if "t \<in> set (typed_first ts)" for t
  proof -
    from that have "t \<in> set ts" by (auto simp: typed_first_def specific_rows_def wildcard_rows_def)
    from group_rows_member [OF ts(1) this] \<open>key = s\<close> show ?thesis by (simp add: exception_rows_def)
  qed
  then show ?thesis by (rule branches_of_behind(2) [OF ts(2) assms(3)]) simp_all
qed

lemma generated_table:
  assumes "generate_table owner child evs sm = Ok tc"
  shows "initial_state sm = Ok (tc_initial tc)" "dispatch_code owner (tc_hooks tc) sm = Ok (tc_events tc)"
    "completion_code owner (tc_hooks tc) evs sm = Ok (tc_completions tc)"
    "exception_code owner (tc_hooks tc) sm = Ok (tc_exceptions tc)"
  using assms by (auto simp: generate_table_def Let_def try_then_Inr_iff)

section \<open>The rows of the two tables\<close>

lemma normalized_rows:
  "t \<in> set (transitions (normalize_table refs sm)) \<longleftrightarrow> (\<exists>t' \<in> set (transitions sm). t = normalize_row refs t')"
  by (auto simp: normalize_table_def)

lemma normalize_row_fields [simp]:
  "in_ident (st_in (normalize_row refs t)) = in_ident (st_in t)" "in_start (st_in (normalize_row refs t)) = in_start (st_in t)"
  "out_ident (st_out (normalize_row refs t)) = out_ident (st_out t)" "st_internal (normalize_row refs t) = st_internal t"
  "st_event (normalize_row refs t) = st_event t" "st_guard (normalize_row refs t) = st_guard t"
  "st_process_events (normalize_row refs t) = st_process_events t" "st_defer (normalize_row refs t) = st_defer t"
  by (simp_all add: normalize_row_def Let_def)

lemma behind_normalized: "behind (normalize_table refs sm) s br \<longleftrightarrow> behind sm s br"
proof -
  have "behind (normalize_table refs sm) s br \<longleftrightarrow> (\<exists>t \<in> normalize_row refs ` set (transitions sm).
      in_ident (st_in t) = s \<and> cd_internal br = st_internal t \<and> cd_out_state br = out_ident (st_out t))"
    by (simp add: behind_def normalize_table_def)
  then show ?thesis by (simp add: behind_def)
qed

lemma find_map_comp: "find P (map f xs) = map_option f (find (P \<circ> f) xs)"
  by (induction xs) simp_all

lemma initial_normalized: "initial_state (normalize_table refs sm) = initial_state sm"
  by (auto simp: initial_state_def normalize_table_def find_map_comp comp_def split: option.split)

definition slot_machine :: "state_machine \<Rightarrow> state_machine \<Rightarrow> slot \<Rightarrow> state_machine" where
  "slot_machine parent child s = (case s of ParentSlot \<Rightarrow> parent | ChildSlot \<Rightarrow> child)"

lemma composite_code_tables:
  assumes "composite_code_of parent child r = Ok code"
  obtains evs where
    "generate_table True (Some r) evs (normalize_table [r] parent) = Ok (cc_parent code)"
    "generate_table False None evs (normalize_table [] child) = Ok (cc_child code)"
    "cc_child_variant code = state_ident r"
    "cc_child_history code = list_ex (\<lambda>t. in_history (st_in t)) (transitions child)"
  using assms unfolding composite_code_of_def Let_def
  by (auto simp: try_then_Inr_iff normalize_table_def normalize_row_def Let_def list_ex_iff split: if_splits)

lemma composite_code_initial:
  assumes "composite_code_of parent child r = Ok code"
  shows "initial_state (slot_machine parent child s) = Ok (tc_initial (slot_table code s))"
proof -
  from composite_code_tables [OF assms] obtain evs where
    "generate_table True (Some r) evs (normalize_table [r] parent) = Ok (cc_parent code)"
    "generate_table False None evs (normalize_table [] child) = Ok (cc_child code)" by metis
  from generated_table(1) [OF this(1)] generated_table(1) [OF this(2)] show ?thesis
    by (cases s) (simp_all add: slot_machine_def slot_table_def initial_normalized)
qed

lemma table_branch_behind:
  assumes "generate_table owner child evs sm = Ok (slot_table code s)" "branch_at code s st br"
  shows "behind sm st br"
  using assms(2) dispatch_code_behind [OF generated_table(2) [OF assms(1)]]
    completion_code_behind [OF generated_table(3) [OF assms(1)]] exception_code_behind [OF generated_table(4) [OF assms(1)]]
  unfolding branch_at_def Let_def by blast

lemma code_branch_behind:
  assumes "composite_code_of parent child r = Ok code" "branch_at code s st br"
  shows "behind (slot_machine parent child s) st br"
proof -
  from composite_code_tables [OF assms(1)] obtain evs where
    gen: "generate_table True (Some r) evs (normalize_table [r] parent) = Ok (slot_table code ParentSlot)"
    "generate_table False None evs (normalize_table [] child) = Ok (slot_table code ChildSlot)"
    unfolding slot_table_def by auto
  show ?thesis
  proof (cases s)
    case ParentSlot
    with table_branch_behind [OF gen(1)] assms(2) show ?thesis by (simp add: behind_normalized slot_machine_def)
  next
    case ChildSlot
    with table_branch_behind [OF gen(2)] assms(2) show ?thesis by (simp add: behind_normalized slot_machine_def)
  qed
qed

section \<open>The invariant of the two tables\<close>

definition row_between :: "state_machine \<Rightarrow> string \<Rightarrow> string \<Rightarrow> bool" where
  "row_between sm a b \<longleftrightarrow>
     list_ex (\<lambda>t. \<not> st_internal t \<and> in_ident (st_in t) = a \<and> out_ident (st_out t) = b) (transitions sm)"

definition row_target :: "state_machine \<Rightarrow> string \<Rightarrow> bool" where
  "row_target sm b \<longleftrightarrow> list_ex (\<lambda>t. \<not> st_internal t \<and> out_ident (st_out t) = b) (transitions sm)"

text \<open>\<open>row_path sm a cs b\<close>: the changes lead from \<open>a\<close> to \<open>b\<close>, each along a row.\<close>

fun row_path :: "state_machine \<Rightarrow> string \<Rightarrow> (string \<times> string) list \<Rightarrow> string \<Rightarrow> bool" where
  "row_path sm a [] b \<longleftrightarrow> a = b"
| "row_path sm a ((x, y) # cs) b \<longleftrightarrow> a = x \<and> row_between sm x y \<and> row_path sm y cs b"

lemma row_path_snoc: "row_path sm a cs b \<Longrightarrow> row_between sm b c \<Longrightarrow> row_path sm a (cs @ [(b, c)]) c"
  by (induction sm a cs b rule: row_path.induct) auto

definition slot_changes :: "slot \<Rightarrow> ('c, 'v, 'q) composite_core \<Rightarrow> (string \<times> string) list" where
  "slot_changes s k = concat (map (\<lambda>x. case x of CompositeCallback s' a b \<Rightarrow> if s' = s then [(a, b)] else [] | _ \<Rightarrow> [])
     (composite_observed k))"

definition tables_follow :: "state_machine \<Rightarrow> state_machine \<Rightarrow> composite_code \<Rightarrow> ('c, 'v, 'q) composite_core \<Rightarrow> bool" where
  "tables_follow parent child code k \<longleftrightarrow>
     row_path parent (tc_initial (cc_parent code)) (slot_changes ParentSlot k) (variant (parent_state k)) \<and>
     list_all (\<lambda>(a, b). row_between child a b) (slot_changes ChildSlot k) \<and>
     (variant (child_state k) = tc_initial (cc_child code) \<or> row_target child (variant (child_state k)))"

lemma slot_changes_log:
  "slot_changes s (composite_log x k) =
     slot_changes s k @ (case x of CompositeCallback s' a b \<Rightarrow> if s' = s then [(a, b)] else [] | _ \<Rightarrow> [])"
  "slot_changes s (k\<lparr>parent_state := v\<rparr>) = slot_changes s k" "slot_changes s (k\<lparr>child_state := v\<rparr>) = slot_changes s k"
  "slot_changes s (k\<lparr>parent_exit_skip := b\<rparr>) = slot_changes s k" "slot_changes s (k\<lparr>child_exit_skip := b\<rparr>) = slot_changes s k"
  "slot_changes s (k\<lparr>composite_context := c\<rparr>) = slot_changes s k"
  "slot_changes s (k\<lparr>composite_deferred := q\<rparr>) = slot_changes s k"
  "slot_changes s (k\<lparr>composite_pending := q\<rparr>) = slot_changes s k"
  by (simp_all add: slot_changes_def composite_log_def)

lemma composite_log_states [simp]:
  "parent_state (composite_log x k) = parent_state k" "child_state (composite_log x k) = child_state k"
  by (simp_all add: composite_log_def)

lemma tables_follow_callbacks: "composite_callbacks_keep (tables_follow parent child code)"
  unfolding composite_callbacks_keep_def tables_follow_def
  by (simp add: slot_changes_log split: composite_observation.split)

lemma tables_follow_reset:
  "tables_follow parent child code k \<Longrightarrow> tables_follow parent child code (k\<lparr>child_state := table_initial env (cc_child code)\<rparr>)"
  by (simp add: tables_follow_def slot_changes_log table_initial_def)

lemma tables_follow_replaced:
  assumes "tables_follow parent child code k" "row_between (slot_machine parent child s) (variant (slot_state s k)) (variant v)"
  shows "tables_follow parent child code (slot_replaced s v k)"
proof -
  have "row_target (slot_machine parent child s) (variant v)"
    using assms(2) by (auto simp: row_between_def row_target_def list_ex_iff)
  with assms show ?thesis
    by (cases s) (simp_all add: tables_follow_def slot_replaced_def slot_changes_log slot_state_def put_state_def put_skip_def
        slot_machine_def row_path_snoc)
qed

interpretation tables: composite_invariant env code
    "\<lambda>k. composite_code_of parent child r = Ok code \<longrightarrow> tables_follow parent child code k"
  for env :: "('c, 'v, 'err, 'q) region_env" and code parent child r
proof (rule composite_invariant.intro, goal_cases)
  case 1
  then show ?case using tables_follow_callbacks [of parent child code] by (auto simp: composite_callbacks_keep_def)
next
  case (2 s st br k v)
  show ?case
  proof
    assume code: "composite_code_of parent child r = Ok code"
    from code_branch_behind [OF this 2(1)] 2(2,4,5)
    have "row_between (slot_machine parent child s) (variant (slot_state s k)) (variant v)"
      by (auto simp: behind_def row_between_def list_ex_iff)
    with 2(3) code show "tables_follow parent child code (slot_replaced s v k)" by (simp add: tables_follow_replaced)
  qed
next
  case (3 k)
  then show ?case by (simp add: tables_follow_reset)
qed

end
