(* ===== verification/Composite_Correctness.thy ===== *)
theory Composite_Correctness
  imports Composite_Rows Orthogonal_Correctness
begin

text \<open>
  Properties of machines with a parent and a child table and their examples: both tables move along
  their rows, entering the composite state resets the child, and two runs in which the hooks of the
  child do not pair up.
\<close>

section \<open>An example\<close>

text \<open>The environment of the regions with an action that fails while the context is below 4.\<close>

definition composite_test_env :: "(nat, nat, nat, nat variant_value event_queue) region_env" where
  "composite_test_env = region_test_env\<lparr>
     rv_action := (\<lambda>a c sd td. if a = ''fragile'' \<and> c < 4 then (5, Err 7) else (Suc c, Ok None))\<rparr>"

definition into_child :: "string \<Rightarrow> state_transition \<Rightarrow> state_transition" where
  "into_child r t = t\<lparr>st_out := (to_state (state_ident r))\<lparr>out_source := r, out_composite := Some r\<rparr>\<rparr>"

definition from_child :: "string \<Rightarrow> state_transition \<Rightarrow> state_transition" where
  "from_child r t = t\<lparr>st_in := (st_in t)\<lparr>in_ident := state_ident r, in_source := r, in_composite := Some r\<rparr>\<rparr>"

definition hook_row :: "event_kind \<Rightarrow> string \<Rightarrow> string \<Rightarrow> state_transition" where
  "hook_row kind s a = (table_row False s ''_'' (Some a) s)
     \<lparr>st_event := (on_event ''_'')\<lparr>ev_kind := kind, ev_wildcard := True\<rparr>, st_internal := True\<rparr>"

text \<open>
  \<open>Sub { *Low + Next = High, Low + on_exit<_> / low_out, High + on_entry<_> / high_in, High + on_exit<_> / high_out }\<close>
  and \<open>Device { *Idle + Enter = state<Sub>, state<Sub> + Leave / fragile = Idle }\<close>
\<close>

definition sub_table :: state_machine where
  "sub_table = StateMachine_new\<lparr>machine_name := Some ''Sub'', transitions :=
     [table_row True ''Low'' ''Next'' None ''High'', hook_row Entry ''Low'' ''low_in'', hook_row Exit ''Low'' ''low_out'',
      hook_row Entry ''High'' ''high_in'', hook_row Exit ''High'' ''high_out'']\<rparr>"

definition device :: "bool \<Rightarrow> state_machine" where
  "device starts_inside = StateMachine_new\<lparr>machine_name := Some ''Device'', transitions :=
     [into_child ''Sub'' (table_row (\<not> starts_inside) ''Idle'' ''Enter'' None ''''),
      from_child ''Sub'' (table_row starts_inside '''' ''Leave'' (Some ''fragile'') ''Idle'')]\<rparr>"

definition device_code :: "bool \<Rightarrow> composite_code" where
  "device_code starts_inside = (case composite_code_of (device starts_inside) sub_table ''Sub'' of
     Inr c \<Rightarrow> c | Inl _ \<Rightarrow> undefined)"

definition device_start :: "bool \<Rightarrow> (nat, nat, nat variant_value event_queue) composite_core" where
  "device_start starts_inside =
     fst (the (composite_initialize 4 composite_test_env (device_code starts_inside)
       (new_composite_core composite_test_env (device_code starts_inside) 0)))"

definition device_after :: "bool \<Rightarrow> string list \<Rightarrow> (nat, nat, nat variant_value event_queue) composite_core" where
  "device_after starts_inside es =
     fold (\<lambda>e k. fst (the (composite_process_event 4 composite_test_env (device_code starts_inside) (Variant e None) k)))
       es (device_start starts_inside)"

definition composite_actions :: "('c, 'v, 'q) composite_core \<Rightarrow> string list" where
  "composite_actions k = concat (map (\<lambda>x. case x of CompositeAction a _ \<Rightarrow> [a] | _ \<Rightarrow> []) (composite_observed k))"

lemma device_generated: "composite_code_of (device False) sub_table ''Sub'' = Ok (device_code False)"
  by code_simp

lemma device_single:
  "composite_generation_of [sub_table, device False] = Ok (SingleChild (device_code False))"
  "composite_generation_of [sub_table, device True] = Ok (SingleChild (device_code True))"
  by code_simp+

lemma device_reachable: "composite_reachable composite_test_env (device_code False) (device_after False [''Enter'', ''Next'', ''Leave''])"
proof -
  let ?env = composite_test_env and ?code = "device_code False"
  have init: "composite_initialize 4 ?env ?code (new_composite_core ?env ?code 0) = Some (device_after False [], Ok ())" by code_simp
  have enter: "composite_process_event 4 ?env ?code (Variant ''Enter'' None) (device_after False []) =
      Some (device_after False [''Enter''], Ok ())" by code_simp
  have step: "composite_process_event 4 ?env ?code (Variant ''Next'' None) (device_after False [''Enter'']) =
      Some (device_after False [''Enter'', ''Next''], Ok ())" by code_simp
  have leave: "composite_process_event 4 ?env ?code (Variant ''Leave'' None) (device_after False [''Enter'', ''Next'']) =
      Some (device_after False [''Enter'', ''Next'', ''Leave''], Ok ())" by code_simp
  show ?thesis
    by (rule composite_processed [OF composite_processed [OF composite_processed [OF composite_initialized [OF init] enter] step] leave])
qed

section \<open>Both tables move along their rows\<close>

text \<open>
  C23. In every reachable configuration of a machine with a parent and a child table the changes of
  the parent form a path of external rows of the parent table from its initial state to its current
  one, every change of the child is an external row of the child table, and the child is in its initial
  state or in the target of one of its rows.
\<close>

theorem composite_follows_tables:
  assumes "composite_code_of parent child r = Ok code" "composite_reachable env code k"
    and "initial_state parent = Ok p" "initial_state child = Ok c"
  shows "row_path parent p (slot_changes ParentSlot k) (variant (parent_state k)) \<and>
    list_all (\<lambda>(a, b). row_between child a b) (slot_changes ChildSlot k) \<and>
    (variant (child_state k) = c \<or> row_target child (variant (child_state k)))"
proof -
  have "composite_code_of parent child r = Ok code \<longrightarrow> tables_follow parent child code k"
    by (rule tables.composite_reachable_keeps [OF assms(2)])
      (simp add: tables_follow_def new_composite_core_def slot_changes_def table_initial_def)
  moreover have "p = tc_initial (cc_parent code)" "c = tc_initial (cc_child code)"
    using composite_code_initial [OF assms(1), of ParentSlot] composite_code_initial [OF assms(1), of ChildSlot] assms(3,4)
    by (simp_all add: slot_machine_def slot_table_def)
  ultimately show ?thesis using assms(1) by (simp add: tables_follow_def)
qed

theorem composite_follows_tables_witness:
  "row_path (device False) ''Idle'' [(''Idle'', ''Sub''), (''Sub'', ''Idle'')] ''Idle'' \<and> row_between sub_table ''Low'' ''High'' \<and>
   slot_changes ChildSlot (device_after False [''Enter'', ''Next'', ''Leave'']) = [(''Low'', ''High'')]"
proof -
  have init: "initial_state (device False) = Ok ''Idle''" "initial_state sub_table = Ok ''Low''" by code_simp+
  have changes: "slot_changes ParentSlot (device_after False [''Enter'', ''Next'', ''Leave'']) = [(''Idle'', ''Sub''), (''Sub'', ''Idle'')]"
    "slot_changes ChildSlot (device_after False [''Enter'', ''Next'', ''Leave'']) = [(''Low'', ''High'')]"
    "variant (parent_state (device_after False [''Enter'', ''Next'', ''Leave''])) = ''Idle''" by code_simp+
  from composite_follows_tables [OF device_generated device_reachable init, unfolded changes] changes(2) show ?thesis by simp
qed

section \<open>Hooks of the child that do not pair up\<close>

text \<open>
  After a failed attempt to leave the composite state, the entered child states are no longer
  exited: \<open>Leave\<close> fails in its action after the exit of \<open>Low\<close>, \<open>Next\<close> then enters \<open>High\<close>, and the
  second \<open>Leave\<close> succeeds without the exit of \<open>High\<close>, because the exit-skip token of the parent is
  still set and the transition of the child only cleared that of the child. The comment of
  \<open>exit_skip_place\<close> promises exactly one exit for each entry.
\<close>

theorem failed_leave_loses_exit:
  "composite_process_event 4 composite_test_env (device_code False) (Variant ''Leave'' None) (device_after False [''Enter'']) =
     Some (device_after False [''Enter'', ''Leave''], Err (ActionFailed 7)) \<and>
   composite_actions (device_after False [''Enter'', ''Leave'', ''Next'', ''Leave'']) =
     [''low_in'', ''low_out'', ''high_in'', ''fragile''] \<and>
   variant (parent_state (device_after False [''Enter'', ''Leave'', ''Next'', ''Leave''])) = ''Idle''"
  by code_simp

text \<open>
  A machine that starts in the composite state never enters the child: initialization runs the
  entry of the parent alone, although its comment says that the initial parent and child states are
  entered, so that the first change of the child runs the exit hook of a state that was never entered.
\<close>

theorem initial_child_not_entered:
  "composite_initialize 4 composite_test_env (device_code True) (new_composite_core composite_test_env (device_code True) 0) =
     Some (device_start True, Ok ()) \<and>
   composite_is (device_start True) (Variant ''Sub'' None) \<and> composite_is_child (device_start True) (Variant ''Low'' None) \<and>
   composite_actions (device_start True) = [] \<and>
   composite_actions (device_after True [''Next'']) = [''low_out'', ''high_in'']"
  by code_simp

section \<open>Plain pairs of tables\<close>

text \<open>Tables with neither completion rows nor exception rows nor queue actions.\<close>

definition plain_table :: "state_machine \<Rightarrow> bool" where
  "plain_table sm \<longleftrightarrow> list_all (\<lambda>t. ev_kind (st_event t) \<notin> {Completion, Exception} \<and> \<not> st_defer t \<and>
     st_process_events t = []) (transitions sm)"

lemma plain_code:
  assumes "composite_code_of parent child r = Ok code" "plain_table parent" "plain_table child"
  shows "\<not> cc_async_queue code" "\<not> cc_has_deferred code" "\<not> cc_has_exception code"
    "tc_completions (slot_table code s) = \<lparr>ca_origin = [], ca_anonymous = []\<rparr>"
proof -
  have plain: "plain_table (normalize_table refs sm) \<longleftrightarrow> plain_table sm" for refs sm
    by (simp add: plain_table_def normalize_table_def list_all_iff)
  have "\<not> orth_has_deferred (normalize_table refs sm)" "\<not> orth_has_queue_actions (normalize_table refs sm)"
    "\<not> orth_has_exceptions (normalize_table refs sm)" if "plain_table sm" for refs sm
    using that plain [of refs sm]
    by (auto simp: plain_table_def orth_has_deferred_def orth_has_queue_actions_def orth_has_exceptions_def
        list_ex_iff list_all_iff)
  with assms show "\<not> cc_async_queue code" "\<not> cc_has_deferred code" "\<not> cc_has_exception code"
    by (auto simp: composite_code_of_def Let_def try_then_Inr_iff split: if_splits)
  have completions: "completion_code owner hooks evs (normalize_table refs sm) = Ok \<lparr>ca_origin = [], ca_anonymous = []\<rparr>"
    if "plain_table sm" for owner hooks evs refs sm
  proof -
    have "kind_rows Completion w (normalize_table refs sm) = []" for w
      using that plain [of refs sm] by (auto simp: kind_rows_def plain_table_def filter_empty_conv list_all_iff)
    then show ?thesis by (simp add: completion_code_def group_rows_def)
  qed
  from composite_code_tables [OF assms(1)] obtain evs where
    "generate_table True (Some r) evs (normalize_table [r] parent) = Ok (cc_parent code)"
    "generate_table False None evs (normalize_table [] child) = Ok (cc_child code)" by metis
  note completion = generated_table(3) [OF this(1)] generated_table(3) [OF this(2)]
  show "tc_completions (slot_table code s) = \<lparr>ca_origin = [], ca_anonymous = []\<rparr>"
    using completion completions assms(2,3) by (cases s) (auto simp: slot_table_def)
qed

text \<open>Such a machine settles at once and fails as the rows do.\<close>

lemma plain_stabilize:
  assumes "tc_completions (slot_table code ParentSlot) = \<lparr>ca_origin = [], ca_anonymous = []\<rparr>"
    "tc_completions (slot_table code ChildSlot) = \<lparr>ca_origin = [], ca_anonymous = []\<rparr>" "\<not> cc_has_exception code"
  shows "composite_stabilize (Suc m) env code rec n origin k = Some (k, Ok ())"
proof -
  have table: "complete_table env code rec n s origin k = Some (k, Ok False)" for s
    using assms by (cases s; cases origin) (simp_all add: complete_table_def step_defs eligible_rows_def)
  then show ?thesis
    using assms(3) by (simp add: stabilize_attempt_def child_first_def step_defs Let_def)
qed

lemma plain_process:
  assumes "composite_code_of parent child r = Ok code" "plain_table parent" "plain_table child"
  shows "composite_process_event (Suc (Suc n)) env code e k =
    (let k1 = composite_log (CompositeEvent (variant e)) k in
     if \<not> rv_dispatch env (variant e) then Some (k1, Err InvalidEvent)
     else case child_first code (\<lambda>s. dispatch_table_rows env code (composite_process_sync (Suc n) env code) (Suc n) s e) k1 of
         None \<Rightarrow> None
       | Some (k2, Inl err) \<Rightarrow> Some (k2, Inl err)
       | Some (k2, Inr h) \<Rightarrow> Some (k2, if h then Ok () else Err InvalidEvent))"
proof -
  note plain = plain_code [OF assms]
  note settle = plain_stabilize [OF plain(4) plain(4) plain(3)]
  show ?thesis
    using plain(1,3) settle
    by (auto simp: composite_process_event_def composite_dispatch_def composite_attempt_def Let_def
        then_do_def bind_def update_def ret_def raise_def simp del: composite_stabilize.simps
        split: option.split sum.split prod.split)
qed

section \<open>Events of the active child\<close>

lemma child_row_keeps:
  assumes "composite_callbacks_keep Q" "\<And>k v. Q k \<Longrightarrow> Q (slot_replaced ChildSlot v k)"
    and "\<not> cb_enter_child br" "\<not> cd_defer br" "cd_process br = []" "\<not> cc_has_deferred code"
  shows "preserves Q (run_row env code rec n ChildSlot td br)"
proof -
  have reach: "preserves Q (reach_target env code ChildSlot br data)" for data
    unfolding reach_target_def Let_def replace_slot_replaced if_not_P [OF assms(3)]
    by (intro preserves_then_do preserves_update hook_calls_keeps assms(1,2) triple_ret)
  have change: "preserves Q (change_slot env code ChildSlot br sd actions)" if "preserves Q actions" for sd actions
    unfolding change_slot_def
    by (intro preserves_then_do preserves_bind leave_source_keeps put_exit_skip_keeps reach assms(1) that)
  show ?thesis
    unfolding run_row_def Let_def composite_drain_def if_not_P [OF assms(4)] if_not_P [OF assms(6)] assms(5) for_each.simps
    by (intro preserves_with_core preserves_if preserves_case_option preserves_bind preserves_then_do change
        run_steps_keeps guard_code_keeps action_code_keeps assms(1) triple_ret)
qed

lemma then_do_ret [simp]: "then_do (ret a) m = m"
  by (simp add: then_do_def bind_def ret_def)

lemma bind_value:
  assumes "bind m f k = Some (k', Inr b)"
  obtains k1 a where "m k = Some (k1, Inr a)" "f a k1 = Some (k', Inr b)"
  using assms by (auto simp: bind_def split: option.splits sum.splits)

lemma run_rows_unguarded:
  assumes "\<exists>br \<in> set brs. cd_guard br = None" "rv_candidate env = (\<lambda>_ _ _. True)"
  shows "run_rows env code rec n s td brs k \<noteq> Some (k', Ok None)"
  using assms(1)
proof (induction brs arbitrary: k)
  case (Cons br brs)
  show ?case
  proof
    assume "run_rows env code rec n s td (br # brs) k = Some (k', Ok None)"
    then obtain k1 where row: "run_row env code rec n s td br k = Some (k1, Ok False)"
      and rest: "run_rows env code rec n s td brs k1 = Some (k', Ok None)"
      by (auto simp: bind_def ret_def split: option.splits sum.splits if_splits)
    have "cd_guard br \<noteq> None"
    proof
      assume "cd_guard br = None"
      with row assms(2) show False
        by (cases "cd_internal br") (auto simp: run_row_def Let_def with_core_def then_do_def ret_def cong: if_cong elim!: bind_value)
    qed
    with Cons.prems have "\<exists>br \<in> set brs. cd_guard br = None" by auto
    from Cons.IH [OF this] rest show False by blast
  qed
qed (simp add: ret_def)

lemma child_rows_fields:
  assumes "composite_code_of parent child r = Ok code" "plain_table child"
    and "br \<in> set (event_rows (tc_events (slot_table code ChildSlot)) s e)"
  shows "\<not> cb_enter_child br" "\<not> cd_defer br" "cd_process br = []"
proof -
  from composite_code_tables [OF assms(1)] obtain evs where
    "generate_table False None evs (normalize_table [] child) = Ok (cc_child code)" by metis
  from dispatch_code_rows [OF generated_table(2) [OF this]] assms(3) obtain t i where
    t: "t \<in> set (transitions (normalize_table [] child))" "transition_code False (tc_hooks (cc_child code)) i t = Ok br"
    by (metis slot_table_def slot.simps(4))
  from t(1) assms(2) have "\<not> st_defer t" "st_process_events t = []"
    by (auto simp: normalized_rows plain_table_def list_all_iff)
  with transition_code_fields [OF t(2)] show "\<not> cb_enter_child br" "\<not> cd_defer br" "cd_process br = []"
    by (simp_all add: composite_lifecycle_def)
qed

text \<open>
  C40. In a pair of tables without completion, exception and queue rows, an event with an unguarded
  row in the state of the active child does not reach the parent: the state of the parent and its
  changes stay the same, whether the row succeeds or fails.
\<close>

theorem child_event_keeps_parent:
  fixes k :: "('c, 'v, 'q) composite_core" and env :: "('c, 'v, 'err, 'q) region_env"
  assumes "composite_code_of parent child r = Ok code" "plain_table parent" "plain_table child"
    and "rv_candidate env = (\<lambda>_ _ _. True)" "child_active code k"
    and "t \<in> set (transitions child)" "ev_kind (st_event t) = Normal" "st_guard t = None"
      "in_ident (st_in t) = variant (child_state k)" "ev_ident (st_event t) = variant e"
    and "composite_process_event (Suc (Suc n)) env code e k = Some (k', res)"
  shows "parent_state k' = parent_state k \<and> slot_changes ParentSlot k' = slot_changes ParentSlot k"
proof -
  define Q where "Q = (\<lambda>k' :: ('c, 'v, 'q) composite_core. parent_state k' = parent_state k \<and> slot_changes ParentSlot k' = slot_changes ParentSlot k)"
  have callbacks: "composite_callbacks_keep Q"
    unfolding composite_callbacks_keep_def Q_def by (simp add: slot_changes_log split: composite_observation.split)
  have replace: "Q (slot_replaced ChildSlot v k')" if "Q k'" for k' v
    using that by (simp add: Q_def slot_replaced_def slot_changes_log put_state_def put_skip_def)
  let ?k1 = "composite_log (CompositeEvent (variant e)) k"
  have start: "Q ?k1" by (simp add: Q_def slot_changes_log)
  let ?rows = "event_rows (tc_events (slot_table code ChildSlot)) (variant (child_state k)) (variant e)"
  let ?run = "run_rows env code (composite_process_sync (Suc n) env code) (Suc n) ChildSlot (event_trigger_data e) ?rows"
  have keeps: "preserves Q (run_rows env code rec m ChildSlot td brs)" if "set brs \<subseteq> set ?rows" for rec m td brs
    using that
  proof (induction brs)
    case (Cons br brs)
    then have "br \<in> set ?rows" by simp
    note fields = child_rows_fields [OF assms(1,3) this]
    from Cons show ?case
      unfolding run_rows.simps
      by (intro preserves_bind preserves_if triple_ret Cons.IH
          child_row_keeps [OF callbacks replace fields plain_code(2) [OF assms(1-3)]]) auto
  qed (auto intro: triple_ret)
  from composite_code_tables [OF assms(1)] obtain evs where
    child: "generate_table False None evs (normalize_table [] child) = Ok (cc_child code)" by metis
  have "normalize_row [] t \<in> set (transitions (normalize_table [] child))" using assms(6) by (auto simp: normalized_rows)
  from unguarded_row_selected [OF generated_table(2) [OF child] this] assms(7-10)
  have "\<exists>br \<in> set ?rows. cd_guard br = None" by (auto simp: slot_table_def)
  note handled = run_rows_unguarded [OF this assms(4)]
  have child_first: "child_first code (\<lambda>s. dispatch_table_rows env code (composite_process_sync (Suc n) env code) (Suc n) s e) ?k1 =
      bind ?run (\<lambda>_. ret True) ?k1"
    using assms(5) handled
    by (auto simp: child_first_def child_active_def dispatch_table_rows_def slot_state_def with_core_def bind_def ret_def
        split: option.split sum.split)
  from assms(11) have "k' = ?k1 \<or> (\<exists>x. ?run ?k1 = Some (k', x))"
    unfolding plain_process [OF assms(1-3)] Let_def child_first
    by (auto simp: bind_def ret_def split: if_splits option.splits sum.splits)
  then have "Q k'" using start preservesD [OF keeps [OF order_refl]] by blast
  then show ?thesis by (simp add: Q_def)
qed

theorem child_event_keeps_parent_witness:
  "parent_state (device_after False [''Enter'', ''Next'']) = parent_state (device_after False [''Enter'']) \<and>
   variant (child_state (device_after False [''Enter'', ''Next''])) \<noteq> variant (child_state (device_after False [''Enter'']))"
proof -
  let ?t = "table_row True ''Low'' ''Next'' None ''High''" and ?k = "device_after False [''Enter'']"
  have plain: "plain_table (device False)" "plain_table sub_table" by code_simp+
  have env: "rv_candidate composite_test_env = (\<lambda>_ _ _. True)"
    by (simp add: composite_test_env_def region_test_env_def)
  have active: "child_active (device_code False) ?k" by code_simp
  have row: "?t \<in> set (transitions sub_table)" by (simp add: sub_table_def StateMachine_new_def)
  have low: "variant (child_state ?k) = ''Low''" by code_simp
  have run: "composite_process_event (Suc (Suc 2)) composite_test_env (device_code False) (Variant ''Next'' None) ?k =
    Some (device_after False [''Enter'', ''Next''], Ok ())" by code_simp
  have "variant (child_state (device_after False [''Enter'', ''Next''])) = ''High''" by code_simp
  with low child_event_keeps_parent [OF device_generated plain env active row _ _ _ _ run] show ?thesis by simp
qed

section \<open>Entering the composite state\<close>

text \<open>
  The composite state of a table is the one that its rows mark; the parser marks a state that is
  written \<open>state<Sub>\<close> and gives it the name \<open>state_ident\<close>.
\<close>

definition composite_names_marked :: "string \<Rightarrow> state_machine \<Rightarrow> bool" where
  "composite_names_marked r sm \<longleftrightarrow> list_all (\<lambda>t.
     (in_composite (st_in t) = Some r \<longleftrightarrow> in_ident (st_in t) = state_ident r) \<and>
     (out_composite (st_out t) = Some r \<longleftrightarrow> out_ident (st_out t) = state_ident r)) (transitions sm)"

abbreviation child_entered :: "('c, 'v, 'err, 'q) region_env \<Rightarrow> composite_code \<Rightarrow> ('c, 'v, 'q) composite_core \<Rightarrow> bool" where
  "child_entered env code k \<equiv> child_state k = table_initial env (cc_child code) \<and> \<not> child_exit_skip k"

lemma parent_rows_fields:
  assumes "composite_code_of parent child r = Ok code" "plain_table parent" "composite_names_marked r parent"
    and "br \<in> set (event_rows (tc_events (slot_table code ParentSlot)) s e)" "s \<noteq> cc_child_variant code"
  shows "cb_enter_child br \<longleftrightarrow> cd_out_state br = cc_child_variant code" "\<not> cd_defer br" "cd_process br = []"
proof -
  from composite_code_tables [OF assms(1)] obtain evs where
    gen: "generate_table True (Some r) evs (normalize_table [r] parent) = Ok (cc_parent code)"
    and cv: "cc_child_variant code = state_ident r" by metis
  from dispatch_code_rows [OF generated_table(2) [OF gen]] assms(4) obtain t i where
    t: "t \<in> set (transitions (normalize_table [r] parent))" "in_ident (st_in t) = s"
      "transition_code True (tc_hooks (cc_parent code)) i t = Ok br"
    by (metis slot_table_def slot.simps(3))
  from t(1) obtain t' where t': "t' \<in> set (transitions parent)" "t = normalize_row [r] t'" by (auto simp: normalized_rows)
  with assms(2) have "\<not> st_defer t" "st_process_events t = []" by (auto simp: plain_table_def list_all_iff)
  with transition_code_fields [OF t(3)] show "\<not> cd_defer br" "cd_process br = []" by simp_all
  from t' assms(3) have "in_composite (st_in t') = Some r \<longleftrightarrow> in_ident (st_in t') = state_ident r"
    "out_composite (st_out t') = Some r \<longleftrightarrow> out_ident (st_out t') = state_ident r"
    by (auto simp: composite_names_marked_def list_all_iff)
  then show "cb_enter_child br \<longleftrightarrow> cd_out_state br = cc_child_variant code"
    using transition_code_fields [OF t(3)] t(2) assms(5) cv t'(2)
    by (auto simp: composite_lifecycle_def normalize_row_def Let_def split: option.splits)
qed

lemma enter_child_current_enters:
  assumes "\<not> cc_child_history code"
  shows "triple P (enter_child_current env code) (\<lambda>_. child_entered env code) (\<lambda>_. True)"
proof -
  have hooks: "preserves (child_entered env code) (current_lifecycle_code env lc_entry (cc_child code) v)" for v
    unfolding current_lifecycle_code_def hook_calls_def action_code_def
    by (intro preserves_for_each preserves_lift_step) (auto simp: composite_log_def split: prod.split sum.split)
  have "triple (child_entered env code) (with_core (\<lambda>k. current_lifecycle_code env lc_entry (cc_child code) (child_state k)))
      (\<lambda>_. child_entered env code) (\<lambda>_. True)"
    by (rule triple_post [OF preserves_with_core [OF hooks]]) auto
  then show ?thesis
    unfolding enter_child_current_def
    by (intro triple_then_do [where R = "\<lambda>k. child_state k = table_initial env (cc_child code)"]
        triple_then_do [where R = "child_entered env code"] triple_update) (auto simp: assms)
qed

lemma parent_row_enters:
  fixes env :: "('c, 'v, 'err, 'q) region_env"
  assumes "cb_enter_child br \<longleftrightarrow> cd_out_state br = cc_child_variant code" "\<not> cd_defer br" "cd_process br = []"
    and "\<not> cc_has_deferred code" "\<not> cc_child_history code" "st \<noteq> cc_child_variant code"
  shows "triple (\<lambda>k. variant (parent_state k) = st) (run_row env code rec n ParentSlot td br)
    (\<lambda>b k. if b then child_active code k \<longrightarrow> child_entered env code k else variant (parent_state k) = st) (\<lambda>_. True)"
proof -
  let ?at = "\<lambda>x k :: ('c, 'v, 'q) composite_core. variant (parent_state k) = x"
  let ?Q = "\<lambda>k. child_active code k \<longrightarrow> child_entered env code k"
  have callbacks: "composite_callbacks_keep (?at x)" for x
    unfolding composite_callbacks_keep_def by (simp add: composite_log_def)
  have top: "triple (?at st) m (\<lambda>_. ?at st) (\<lambda>_. True)" if "preserves (?at st) m"
    for m :: "('c, 'v, 'err, 'q, 'a) composite_step"
    by (rule triple_post [OF that]) auto
  have reach: "triple (?at st) (reach_target env code ParentSlot br data) (\<lambda>_. ?Q) (\<lambda>_. True)" for data
  proof -
    let ?out = "cd_out_state br"
    have replace: "triple (?at st) (replace_slot ParentSlot (Variant ?out v)) (\<lambda>_. ?at ?out) (\<lambda>_. True)" for v
      unfolding replace_slot_replaced
      by (rule triple_update) (simp add: slot_replaced_def put_state_def put_skip_def)
    have hooks: "triple (?at ?out) (hook_calls env as sd) (\<lambda>_. ?at ?out) (\<lambda>_. True)" for as sd
      by (rule triple_post [OF hook_calls_keeps [OF callbacks]]) auto
    have enter: "triple (?at ?out) (if cb_enter_child br then enter_child_current env code else ret ()) (\<lambda>_. ?Q) (\<lambda>_. True)"
    proof (rule triple_if)
      show "triple (?at ?out) (enter_child_current env code) (\<lambda>_. ?Q) (\<lambda>_. True)"
        by (rule triple_post [OF enter_child_current_enters [OF assms(5)]]) auto
      show "triple (?at ?out) (ret ()) (\<lambda>_. ?Q) (\<lambda>_. True)" if "\<not> cb_enter_child br"
        using that assms(1) by (intro triple_ret) (simp add: child_active_def)
    qed
    show ?thesis
      unfolding reach_target_def Let_def by (rule triple_then_do [OF replace triple_then_do [OF hooks enter]])
  qed
  have change: "triple (?at st) (change_slot env code ParentSlot br sd actions) (\<lambda>_. ?Q) (\<lambda>_. True)"
    if "preserves (?at st) actions" for sd actions
    unfolding change_slot_def
    by (rule triple_then_do [OF _ triple_then_do [OF _ triple_bind [OF top [OF that] reach]]];
        rule triple_post, rule leave_source_keeps put_exit_skip_keeps, rule callbacks, simp_all)
  have acts: "preserves (?at st) (run_steps (guard_code env e sd td) (action_code env e sd td) steps data)" for e sd td steps data
    by (intro run_steps_keeps guard_code_keeps action_code_keeps callbacks)
  let ?R = "\<lambda>b k. if b then ?Q k else ?at st k"
  have internal: "triple (?at st) (then_do (run_steps (guard_code env e sd td) (action_code env e sd td) steps data) (ret True)) ?R (\<lambda>_. True)"
    for e sd td steps data
    by (rule triple_then_do [OF top [OF acts]], rule triple_ret) (use assms(6) in \<open>simp add: child_active_def\<close>)
  have external: "triple (?at st) (then_do (change_slot env code ParentSlot br sd
      (run_steps (guard_code env e sd' td) (action_code env e sd' td) steps data)) (ret True)) ?R (\<lambda>_. True)" for e sd sd' td steps data
    by (rule triple_then_do [OF change [OF acts]], rule triple_ret) simp
  have guarded: "triple (?at st) (guard_code env e sd td g) (\<lambda>_. ?at st) (\<lambda>_. True)" for e sd td g
    by (rule triple_post [OF guard_code_keeps [OF callbacks]]) auto
  have skip: "triple (?at st) (ret False) ?R (\<lambda>_. True)" by (rule triple_ret) simp
  show ?thesis
    unfolding run_row_def Let_def composite_drain_def if_not_P [OF assms(2)] if_not_P [OF assms(4)] assms(3) for_each.simps
      then_do_ret
    by (rule triple_with_core, rule triple_pre [of _ "?at st"], simp,
        intro triple_if triple_case_option triple_bind [OF guarded] internal external skip)
qed

lemma parent_rows_enter:
  assumes "\<And>br. br \<in> set brs \<Longrightarrow> (cb_enter_child br \<longleftrightarrow> cd_out_state br = cc_child_variant code) \<and> \<not> cd_defer br \<and>
      cd_process br = []"
    and "\<not> cc_has_deferred code" "\<not> cc_child_history code" "st \<noteq> cc_child_variant code"
  shows "triple (\<lambda>k. variant (parent_state k) = st) (run_rows env code rec n ParentSlot td brs)
    (\<lambda>_ k. child_active code k \<longrightarrow> child_entered env code k) (\<lambda>_. True)"
  using assms(1)
proof (induction brs)
  case Nil
  show ?case using assms(4) by (simp, intro triple_ret) (simp add: child_active_def)
next
  case (Cons br brs)
  have row: "triple (\<lambda>k. variant (parent_state k) = st) (run_row env code rec n ParentSlot td br)
      (\<lambda>b k. if b then child_active code k \<longrightarrow> child_entered env code k else variant (parent_state k) = st) (\<lambda>_. True)"
    by (rule parent_row_enters) (use Cons.prems assms(2-4) in auto)
  have "triple (\<lambda>k. if b then child_active code k \<longrightarrow> child_entered env code k else variant (parent_state k) = st)
      (if b then ret (Some (cb_moves br)) else run_rows env code rec n ParentSlot td brs)
      (\<lambda>_ k. child_active code k \<longrightarrow> child_entered env code k) (\<lambda>_. True)" for b
    using Cons by (cases b) (auto intro!: triple_ret)
  then show ?case unfolding run_rows.simps by (rule triple_bind [OF row])
qed

text \<open>
  C24. In a pair of tables without completion, exception and queue rows whose child keeps no history,
  an event that takes the parent from another state into the composite state leaves the child in its
  initial state, with its default payload, and without a pending exit skip.
\<close>

theorem entry_resets_child:
  assumes "composite_code_of parent child r = Ok code" "plain_table parent" "plain_table child"
    and "composite_names_marked r parent" "\<not> cc_child_history code"
    and "\<not> child_active code k" "child_active code k'"
    and "composite_process_event (Suc (Suc n)) env code e k = Some (k', Ok ())"
  shows "child_state k' = table_initial env (cc_child code) \<and> \<not> child_exit_skip k'"
proof -
  let ?k1 = "composite_log (CompositeEvent (variant e)) k"
  let ?rows = "event_rows (tc_events (slot_table code ParentSlot)) (variant (parent_state k)) (variant e)"
  let ?run = "run_rows env code (composite_process_sync (Suc n) env code) (Suc n) ParentSlot (event_trigger_data e) ?rows"
  have other: "variant (parent_state k) \<noteq> cc_child_variant code" using assms(6) by (simp add: child_active_def)
  note plain = plain_code [OF assms(1-3)]
  have rows: "triple (\<lambda>k'. variant (parent_state k') = variant (parent_state k)) ?run
      (\<lambda>_ k. child_active code k \<longrightarrow> child_entered env code k) (\<lambda>_. True)"
    by (rule parent_rows_enter)
      (use parent_rows_fields [OF assms(1,2,4) _ other] plain(2) assms(5) other in auto)
  have child_first: "child_first code (\<lambda>s. dispatch_table_rows env code (composite_process_sync (Suc n) env code) (Suc n) s e) ?k1 =
      bind ?run (\<lambda>h. ret (h \<noteq> None)) ?k1"
    using assms(6)
    by (simp add: child_first_def child_active_def dispatch_table_rows_def slot_state_def with_core_def bind_def ret_def)
  from assms(8) obtain h where "?run ?k1 = Some (k', Ok h)"
    unfolding plain_process [OF assms(1-3)] Let_def child_first
    by (auto simp: bind_def ret_def split: if_splits option.splits sum.splits)
  from triple_value [OF rows this] assms(7) show ?thesis by simp
qed

text \<open>The device leaves its child in \<open>High\<close> and finds it in \<open>Low\<close> when it comes back.\<close>

theorem entry_resets_child_witness:
  "variant (child_state (device_after False [''Enter'', ''Next'', ''Leave''])) = ''High'' \<and>
   child_state (device_after False [''Enter'', ''Next'', ''Leave'', ''Enter'']) = Variant ''Low'' None"
proof -
  let ?k = "device_after False [''Enter'', ''Next'', ''Leave'']"
  have facts: "plain_table (device False)" "plain_table sub_table" "composite_names_marked ''Sub'' (device False)"
    "\<not> cc_child_history (device_code False)" "\<not> child_active (device_code False) ?k"
    "child_active (device_code False) (device_after False [''Enter'', ''Next'', ''Leave'', ''Enter''])" by code_simp+
  have run: "composite_process_event (Suc (Suc 2)) composite_test_env (device_code False) (Variant ''Enter'' None) ?k =
    Some (device_after False [''Enter'', ''Next'', ''Leave'', ''Enter''], Ok ())" by code_simp
  have left: "variant (child_state ?k) = ''High''" by code_simp
  have initial: "table_initial composite_test_env (cc_child (device_code False)) = Variant ''Low'' None" by code_simp
  from entry_resets_child [OF device_generated facts run] left initial show ?thesis by simp
qed

end
