(* ===== verification/Tree_Nodes.thy ===== *)
theory Tree_Nodes
  imports Composite_Codegen
begin

text \<open>
  The tables of a composite tree (\<open>generate_multi_code\<close> of macros/src/composite_codegen.rs): the
  breadth-first walk from the root that finds the table, the owner and the depth of every node and
  rejects a table with two owners; the walks up the owners; the numbers of the settle sites.
\<close>

section \<open>The walk\<close>

text \<open>
  The four collections that the loop fills: \<open>all_child_references\<close>, \<open>node_parents\<close>, \<open>node_depths\<close>,
  \<open>normalized_children\<close>.
\<close>

record tree_walk =
  tw_names :: "string list"
  tw_parents :: "(string \<times> string) list"
  tw_depths :: "(string \<times> nat) list"
  tw_tables :: "state_machine list"

definition no_walk :: tree_walk where
  "no_walk = \<lparr>tw_names = [], tw_parents = [], tw_depths = [], tw_tables = []\<rparr>"

definition visit_node :: "string list \<Rightarrow> string \<times> string \<times> nat \<Rightarrow> state_machine \<Rightarrow> tree_walk \<Rightarrow> tree_walk" where
  "visit_node children = (\<lambda>(r, p, d) sm w.
     w\<lparr>tw_names := tw_names w @ [r], tw_parents := AList.update r p (tw_parents w),
       tw_depths := AList.update r d (tw_depths w), tw_tables := tw_tables w @ [normalize_table children sm]\<rparr>)"

definition unvisited :: "state_machine list \<Rightarrow> tree_walk \<Rightarrow> state_machine list" where
  "unvisited sms w = filter (\<lambda>sm. \<exists>n \<in> set_option (machine_name sm). n \<notin> set (tw_names w)) sms"

lemma table_named_Some:
  assumes "table_named sms r = Some sm"
  shows "sm \<in> set sms" "machine_name sm = Some r"
  using assms unfolding table_named_def by (auto simp: find_Some_iff dest: nth_mem)

lemma table_named_is_Some: "table_named sms r \<noteq> None \<longleftrightarrow> r \<in> set (machine_names sms)"
proof -
  have "r \<in> set (option_list x) \<longleftrightarrow> x = Some r" for x by (cases x) (auto simp: option_list_def)
  then show ?thesis by (auto simp: table_named_def machine_names_def find_None_iff)
qed

lemma unvisited_less:
  assumes "table_named sms r = Some sm" "r \<notin> set (tw_names w)"
  shows "length (unvisited sms (visit_node children (r, p, d) sm' w)) < length (unvisited sms w)"
proof -
  note sm = table_named_Some [OF assms(1)]
  have "unvisited sms (visit_node children (r, p, d) sm' w) = filter (\<lambda>sm. machine_name sm \<noteq> Some r) (unvisited sms w)"
    by (auto simp: unvisited_def visit_node_def intro!: filter_cong)
  moreover have "sm \<in> set (unvisited sms w)" using sm assms(2) by (simp add: unvisited_def)
  ultimately show ?thesis using sm(2) length_filter_less [of sm "unvisited sms w"] by auto
qed

text \<open>\<open>while let Some((reference, node_parent, depth)) = queue.pop_front()\<close>.\<close>

function walk_tree ::
  "state_machine list \<Rightarrow> state_machine \<Rightarrow> (string \<times> string \<times> nat) list \<Rightarrow> tree_walk \<Rightarrow> (string, tree_walk) rust_result" where
  "walk_tree sms root [] w = Ok w"
| "walk_tree sms root ((r, p, d) # queue) w =
     (if r \<in> set (tw_names w)
      then Err ''a composite table cannot be owned by multiple parents or form a cycle''
      else case table_named sms r of
          None \<Rightarrow> Err (''missing child table `'' @ r @ ''`'')
        | Some original \<Rightarrow>
            (case validate_composite root original of
               Inl e \<Rightarrow> Err e
             | Inr _ \<Rightarrow>
                 let children = child_references (machine_names sms) original in
                 walk_tree sms root (queue @ map (\<lambda>c. (c, r, Suc d)) children) (visit_node children (r, p, d) original w)))"
  by pat_completeness auto
termination
  by (relation "measure (\<lambda>(sms, _, _, w). length (unvisited sms w))") (auto intro: unvisited_less)

definition seed_queue :: "string list \<Rightarrow> string \<Rightarrow> (string \<times> string \<times> nat) list" where
  "seed_queue children root = map (\<lambda>c. (c, root, 1)) children"

text \<open>The first loops of \<open>generate_multi_code\<close>: the normal form of the root, and the walk.\<close>

definition tree_tables :: "state_machine list \<Rightarrow> state_machine \<Rightarrow> string list \<Rightarrow> (string, state_machine \<times> tree_walk) rust_result" where
  "tree_tables sms parent children =
     (let root = normalize_table children parent in
      case machine_name parent of
        None \<Rightarrow> Err ''composite parent must be named''
      | Some name \<Rightarrow>
          try_then (walk_tree sms root (seed_queue children name) no_walk) (\<lambda>w.
          try_then (validate_name_collisions_many (root # tw_tables w)) (\<lambda>_. Ok (root, w))))"

section \<open>Walks up the owners\<close>

definition tree_children :: "tree_walk \<Rightarrow> string \<Rightarrow> nat list" where
  "tree_children w owner =
     filter (\<lambda>i. map_of (tw_parents w) (tw_names w ! i) = Some owner) [0..<length (tw_names w)]"

text \<open>
  \<open>while let Some(parent) = parents.get(top)\<close>: the pairs \<open>(top, parent)\<close> on the way up. The number of
  entries bounds the way, as \<open>climb_to_root\<close> shows.
\<close>

fun climb :: "nat \<Rightarrow> (string \<times> string) list \<Rightarrow> string \<Rightarrow> (string \<times> string) list" where
  "climb 0 parents node = []"
| "climb (Suc n) parents node =
     (case map_of parents node of None \<Rightarrow> [] | Some p \<Rightarrow> (node, p) # climb n parents p)"

definition tree_path :: "(string \<times> string) list \<Rightarrow> string \<Rightarrow> (string \<times> string) list" where
  "tree_path parents node = climb (length parents) parents node"

definition tree_is_descendant :: "(string \<times> string) list \<Rightarrow> string \<Rightarrow> string \<Rightarrow> bool" where
  "tree_is_descendant parents node ancestor \<longleftrightarrow> list_ex (\<lambda>(_, p). p = ancestor) (tree_path parents node)"

definition region_holding :: "region list \<Rightarrow> string \<Rightarrow> nat option" where
  "region_holding regions s =
     map_option fst (find (\<lambda>(_, r). s \<in> set (rg_states r)) (enumerate 0 regions))"

text \<open>\<open>tree_root_region\<close> is the case in which the owner is the root.\<close>

definition tree_descendant_region :: "(string \<times> string) list \<Rightarrow> string \<Rightarrow> string \<Rightarrow> region list \<Rightarrow> nat option" where
  "tree_descendant_region parents node owner regions =
     (case find (\<lambda>(_, p). p = owner) (tree_path parents node) of
        None \<Rightarrow> None
      | Some (child, _) \<Rightarrow> region_holding regions (state_ident child))"

section \<open>Settle sites\<close>

text \<open>A range of sites is the list of its numbers; \<open>ts_count\<close> is the end of the last range.\<close>

record tree_settle_sites =
  ts_nodes :: "(string \<times> nat list) list"
  ts_root :: "nat list"
  ts_count :: nat

definition node_regions :: "state_machine \<Rightarrow> (string, nat) rust_result" where
  "node_regions sm = (if several_starts sm then try_then (discover_regions sm) (\<lambda>rs. Ok (length rs)) else Ok 1)"

fun number_nodes ::
  "nat \<Rightarrow> (state_machine \<times> string) list \<Rightarrow> (string, (string \<times> nat list) list \<times> nat) rust_result" where
  "number_nodes k [] = Ok ([], k)"
| "number_nodes k ((sm, r) # rest) =
     try_then (node_regions sm) (\<lambda>count.
     try_then (number_nodes (k + count) rest) (\<lambda>(ranges, stop).
       Ok ((r, [k..<k + count]) # ranges, stop)))"

definition number_sites :: "tree_walk \<Rightarrow> region list option \<Rightarrow> (string, tree_settle_sites) rust_result" where
  "number_sites w root_regions =
     try_then (number_nodes 0 (zip (tw_tables w) (tw_names w))) (\<lambda>(ranges, stop).
       let stop' = stop + (case root_regions of None \<Rightarrow> 1 | Some rs \<Rightarrow> length rs) in
       Ok \<lparr>ts_nodes = ranges, ts_root = [stop..<stop'], ts_count = stop'\<rparr>)"

definition node_sites :: "tree_settle_sites \<Rightarrow> string \<Rightarrow> nat list" where
  "node_sites s r = (case map_of (ts_nodes s) r of None \<Rightarrow> [] | Some sites \<Rightarrow> sites)"

definition subtree_sites :: "tree_settle_sites \<Rightarrow> tree_walk \<Rightarrow> string \<Rightarrow> nat list" where
  "subtree_sites s w node =
     concat (map (node_sites s) (filter (\<lambda>c. c = node \<or> tree_is_descendant (tw_parents w) c node) (tw_names w)))"

definition region_paths :: "tree_settle_sites \<Rightarrow> tree_walk \<Rightarrow> nat list \<Rightarrow> string \<Rightarrow> region list \<Rightarrow> nat list list" where
  "region_paths s w own owner regions =
     map (\<lambda>(region, site). site # concat (map (node_sites s)
         (filter (\<lambda>c. tree_descendant_region (tw_parents w) c owner regions = Some region) (tw_names w))))
       (enumerate 0 own)"

end
