(* ===== verification/Tree_Codegen.thy ===== *)
theory Tree_Codegen
  imports Tree_Nodes
begin

text \<open>
  The generator of macros/src/composite_codegen.rs for composite trees (\<open>generate_multi_code\<close>) and the
  orthogonal nodes in them (\<open>generate_embedded\<close> of macros/src/orthogonal_codegen.rs). Every table has
  one place for its state, or one for each region. The root is table 0, the nodes follow in the order
  of the walk. Both kinds of tables emit the same branches; they differ in how rows are grouped.
\<close>

section \<open>Arms of a place\<close>

text \<open>A completion row carries whether it waits for the nested table to end.\<close>

record tree_region =
  tr_initial :: string
  tr_initial_data :: bool
  tr_hooks :: "(string \<times> lifecycle) list"
  tr_events :: event_arms
  tr_origin :: "((string \<times> string) \<times> (bool \<times> composite_branch) list) list"
  tr_anonymous :: "(string \<times> (bool \<times> composite_branch) list) list"
  tr_exceptions :: "(string \<times> composite_branch list) list"

definition waiting_rows :: "('k \<times> bool \<times> composite_branch list) list \<Rightarrow> ('k \<times> (bool \<times> composite_branch) list) list" where
  "waiting_rows arms = map (\<lambda>(key, waits, bs). (key, map (Pair waits) bs)) arms"

definition scalar_region ::
  "(string \<times> event_info) list \<Rightarrow> string list \<Rightarrow> state_machine \<Rightarrow> (string, tree_region) rust_result" where
  "scalar_region events children sm =
     (let hooks = collect_lifecycle sm in
      try_then (collect_state_types_excluding sm children) (\<lambda>types.
      try_then (initial_state sm) (\<lambda>initial.
      try_then (dispatch_code True hooks sm) (\<lambda>dispatch.
      try_then (completion_code True hooks events sm) (\<lambda>completion.
      try_then (exception_code True hooks sm) (\<lambda>exception.
        Ok \<lparr>tr_initial = initial, tr_initial_data = (map_of types initial \<noteq> None), tr_hooks = hooks,
            tr_events = dispatch, tr_origin = waiting_rows (ca_origin completion),
            tr_anonymous = waiting_rows (ca_anonymous completion), tr_exceptions = exception\<rparr>))))))"

section \<open>Orthogonal nodes\<close>

text \<open>A structural state has no payload; other \<open>state<T>\<close> marks are dropped.\<close>

definition embedded_row :: "string list \<Rightarrow> state_transition \<Rightarrow> state_transition" where
  "embedded_row children t =
     (let structural = (\<lambda>c. \<exists>r \<in> set_option c. r \<in> set children) in
      t\<lparr>st_in := (if structural (in_composite (st_in t)) then (st_in t)\<lparr>in_data_type := None\<rparr>
          else (st_in t)\<lparr>in_composite := None\<rparr>),
        st_out := (if structural (out_composite (st_out t)) then (st_out t)\<lparr>out_data_type := None\<rparr>
          else (st_out t)\<lparr>out_composite := None\<rparr>)\<rparr>)"

definition embedded_table :: "string list \<Rightarrow> state_machine \<Rightarrow> state_machine" where
  "embedded_table children sm = sm\<lparr>transitions := map (embedded_row children) (transitions sm)\<rparr>"

text \<open>\<open>generate_transition_branch\<close> with the exits and entries of nested tables.\<close>

definition embedded_branch ::
  "(string \<times> lifecycle) list \<Rightarrow> bool \<Rightarrow> nat \<Rightarrow> state_transition \<Rightarrow> (string, composite_branch) rust_result" where
  "embedded_branch hooks has_event_data index t =
     try_then (generate_transition_branch hooks has_event_data index t) (\<lambda>b.
       Ok (candidate.extend (candidate.truncate b) (composite_branch.fields (br_out_data b) (br_exit b) (br_entry b)
         (fst (composite_lifecycle True t)) (snd (composite_lifecycle True t)) (br_moves b))))"

definition typed_event :: "state_transition \<Rightarrow> bool" where
  "typed_event t \<longleftrightarrow> ev_data_type (st_event t) \<noteq> None"

definition rows_in_states :: "(string \<Rightarrow> state_transition list) \<Rightarrow> region \<Rightarrow> state_transition list" where
  "rows_in_states rows r = concat (map rows (rg_states r))"

definition region_event_sites :: "state_machine \<Rightarrow> region \<Rightarrow> (string \<times> string) list" where
  "region_event_sites sm r =
     concat (map (\<lambda>s. map (Pair s) (sort (push_new [] (map (\<lambda>t. ev_ident (st_event t)) (rows_of_kind sm s Normal)))))
       (rg_states r))"

definition region_event_arms ::
  "(string \<times> lifecycle) list \<Rightarrow> state_machine \<Rightarrow> region \<Rightarrow> (string, event_arms) rust_result" where
  "region_event_arms hooks sm r =
     try_then (try_map (\<lambda>(s, e).
         try_then (try_map (\<lambda>(i, t). embedded_branch hooks (typed_event t) i t)
             (enumerate 0 (filter (\<lambda>t. ev_ident (st_event t) = e) (rows_of_kind sm s Normal))))
           (\<lambda>bs. Ok ((s, e), bs))) (region_event_sites sm r)) (\<lambda>normal.
     try_then (try_map (\<lambda>t. try_then (embedded_branch hooks (typed_event t) 0 t) (\<lambda>b. Ok (site t, b)))
         (rows_in_states (\<lambda>s. specific_rows (rows_of_kind sm s Unexpected)) r)) (\<lambda>unexpected.
     try_then (try_map (\<lambda>t. try_then (embedded_branch hooks False 0 t) (\<lambda>b. Ok (in_ident (st_in t), b)))
         (rows_in_states (\<lambda>s. take 1 (wildcard_rows (rows_of_kind sm s Unexpected))) r)) (\<lambda>any.
       Ok \<lparr>ea_normal = normal, ea_unexpected = unexpected, ea_unexpected_wildcard = any\<rparr>)))"

definition waiting_branch ::
  "(string \<times> lifecycle) list \<Rightarrow> bool \<Rightarrow> state_transition \<Rightarrow> (string, bool \<times> composite_branch) rust_result" where
  "waiting_branch hooks typed t =
     try_then (embedded_branch hooks typed 0 t) (\<lambda>b. Ok (in_composite (st_in t) \<noteq> None, b))"

definition region_completion_arms ::
  "(string \<times> lifecycle) list \<Rightarrow> state_machine \<Rightarrow> region
    \<Rightarrow> (string, ((string \<times> string) \<times> (bool \<times> composite_branch) list) list \<times> (string \<times> (bool \<times> composite_branch) list) list) rust_result" where
  "region_completion_arms hooks sm r =
     try_then (try_map (\<lambda>t. try_then (waiting_branch hooks (transition_event_type sm t \<noteq> None) t) (\<lambda>b. Ok (site t, [b])))
         (rows_in_states (\<lambda>s. specific_rows (rows_of_kind sm s Completion)) r)) (\<lambda>origin.
     try_then (try_map (\<lambda>s. try_then (try_map (waiting_branch hooks False) (wildcard_rows (rows_of_kind sm s Completion)))
           (\<lambda>bs. Ok (s, bs)))
         (filter (\<lambda>s. wildcard_rows (rows_of_kind sm s Completion) \<noteq> []) (rg_states r))) (\<lambda>anonymous.
       Ok (origin, anonymous)))"

definition region_exception_arms ::
  "(string \<times> lifecycle) list \<Rightarrow> state_machine \<Rightarrow> region \<Rightarrow> (string, (string \<times> composite_branch list) list) rust_result" where
  "region_exception_arms hooks sm r =
     (if list_ex (\<lambda>t. st_defer t \<or> st_process_events t \<noteq> []) (rows_in_states (\<lambda>s. rows_of_kind sm s Exception) r)
      then Err ''exception handlers cannot defer or process events''
      else try_map (\<lambda>s. try_then (try_map (\<lambda>t. embedded_branch hooks (\<not> ev_wildcard (st_event t)) 0 t)
            (typed_first (rows_of_kind sm s Exception))) (\<lambda>bs. Ok (s, bs)))
        (filter (\<lambda>s. rows_of_kind sm s Exception \<noteq> []) (rg_states r)))"

definition embedded_region ::
  "state_machine \<Rightarrow> (string \<times> rust_type) list \<Rightarrow> region \<Rightarrow> (string, tree_region) rust_result" where
  "embedded_region sm types r =
     (let hooks = collect_lifecycle sm in
      try_then (region_event_arms hooks sm r) (\<lambda>dispatch.
      try_then (region_completion_arms hooks sm r) (\<lambda>(origin, anonymous).
      try_then (region_exception_arms hooks sm r) (\<lambda>exception.
        Ok \<lparr>tr_initial = rg_initial r, tr_initial_data = (map_of types (rg_initial r) \<noteq> None),
            tr_hooks = filter (\<lambda>(s, _). s \<in> set (rg_states r)) hooks,
            tr_events = dispatch, tr_origin = origin, tr_anonymous = anonymous, tr_exceptions = exception\<rparr>))))"

definition generate_embedded :: "string list \<Rightarrow> state_machine \<Rightarrow> (string, tree_region list) rust_result" where
  "generate_embedded children sm0 =
     (let sm = embedded_table children sm0 in
      try_then (validate_supported sm) (\<lambda>_.
      try_then (discover_regions sm) (\<lambda>regions.
      try_then (collect_state_types_excluding sm children) (\<lambda>types.
        try_map (embedded_region sm types) regions))))"

text \<open>
  The enum that a \<open>/ defer\<close> row of an orthogonal table names, from the name of the states enum; the
  states enum of a node in a tree is called after the root and the node.
\<close>

function trim_end_matches :: "string \<Rightarrow> string \<Rightarrow> string" where
  "trim_end_matches ending s =
     (if ending \<noteq> [] \<and> length ending \<le> length s \<and> drop (length s - length ending) s = ending
      then trim_end_matches ending (take (length s - length ending) s) else s)"
  by pat_completeness auto
termination
proof (relation "measure (\<lambda>(_, s). length s)", goal_cases)
  case (2 ending s)
  then have "0 < length ending" "length ending \<le> length s" by simp_all
  then have "length s - length ending < length s" by linarith
  then show ?case by simp
qed simp

declare trim_end_matches.simps [simp del]

definition defer_events_name :: "string \<Rightarrow> string" where
  "defer_events_name states_name = trim_end_matches ''States'' states_name @ ''Events''"

definition tree_states_name :: "string \<Rightarrow> string \<Rightarrow> string" where
  "tree_states_name root node = root @ state_ident node @ ''States''"

section \<open>The tables of a tree\<close>

text \<open>
  \<open>tt_children\<close> gives the table entered in a state, \<open>tt_active\<close> the conditions under which the table is
  active (a table and the state that one of its places must be in), \<open>tt_nested\<close> the tables below each
  place whose handling of an event suppresses the place, \<open>tt_sites\<close>, \<open>tt_subtree\<close> and \<open>tt_paths\<close> the
  numbers of the settle sites of its places, of the table with all below it, and of each region.
\<close>

record tree_table =
  tt_name :: string
  tt_variant :: string
  tt_children :: "(string \<times> nat) list"
  tt_active :: "(nat \<times> string) list"
  tt_nested :: "nat list list"
  tt_orthogonal :: bool
  tt_history :: bool
  tt_has_terminal :: bool
  tt_types :: "(string \<times> rust_type) list"
  tt_regions :: "tree_region list"
  tt_sites :: "nat list"
  tt_subtree :: "nat list"
  tt_paths :: "nat list list"

definition direct_names :: "tree_walk \<Rightarrow> string \<Rightarrow> string list" where
  "direct_names w owner = map ((!) (tw_names w)) (tree_children w owner)"

definition child_arms :: "tree_walk \<Rightarrow> string \<Rightarrow> (string \<times> nat) list" where
  "child_arms w owner = map (\<lambda>i. (state_ident (tw_names w ! i), Suc i)) (tree_children w owner)"

definition table_index :: "string \<Rightarrow> tree_walk \<Rightarrow> string \<Rightarrow> (string, nat) rust_result" where
  "table_index root w n =
     (if n = root then Ok 0
      else case find (\<lambda>(_, m). m = n) (enumerate 1 (tw_names w)) of
          Some (i, _) \<Rightarrow> Ok i
        | None \<Rightarrow> Err ''composite tree parent is missing a generated machine node'')"

text \<open>The path of a node up to and including the step to the root.\<close>

fun upto_root :: "string \<Rightarrow> (string \<times> string) list \<Rightarrow> (string \<times> string) list" where
  "upto_root root [] = []"
| "upto_root root ((n, p) # path) = (n, p) # (if p = root then [] else upto_root root path)"

definition tree_active_condition :: "string \<Rightarrow> tree_walk \<Rightarrow> string \<Rightarrow> (string, (nat \<times> string) list) rust_result" where
  "tree_active_condition root w node =
     try_map (\<lambda>(n, p). try_then (table_index root w p) (\<lambda>i. Ok (i, state_ident n)))
       (upto_root root (tree_path (tw_parents w) node))"

text \<open>
  Suppression: a region by the nodes below it, the scalar root by all nodes. The emitted dispatch of a
  scalar node does not test the flags of the nodes below it.
\<close>

definition nested_tables :: "bool \<Rightarrow> string \<Rightarrow> tree_walk \<Rightarrow> state_machine \<Rightarrow> (string, nat list list) rust_result" where
  "nested_tables is_root owner w sm =
     (if several_starts sm
      then try_then (discover_regions sm) (\<lambda>regions.
        Ok (map (\<lambda>j. map fst (filter (\<lambda>(_, n). tree_descendant_region (tw_parents w) n owner regions = Some j)
            (enumerate 1 (tw_names w)))) [0..<length regions]))
      else Ok [if is_root then [1..<Suc (length (tw_names w))] else []])"

definition table_regions ::
  "(string \<times> event_info) list \<Rightarrow> string list \<Rightarrow> state_machine \<Rightarrow> (string, tree_region list) rust_result" where
  "table_regions events children sm =
     (if several_starts sm then generate_embedded children sm
      else try_then (scalar_region events children sm) (\<lambda>r. Ok [r]))"

definition table_paths :: "tree_settle_sites \<Rightarrow> tree_walk \<Rightarrow> nat list \<Rightarrow> string \<Rightarrow> state_machine \<Rightarrow> (string, nat list list) rust_result" where
  "table_paths sites w own owner sm =
     (if several_starts sm then try_then (discover_regions sm) (\<lambda>regions. Ok (region_paths sites w own owner regions))
      else Ok [])"

definition generate_tree_table ::
  "bool \<Rightarrow> string \<Rightarrow> tree_walk \<Rightarrow> tree_settle_sites option \<Rightarrow> (string \<times> event_info) list \<Rightarrow> string \<times> state_machine
    \<Rightarrow> (string, tree_table) rust_result" where
  "generate_tree_table is_root root w sites events = (\<lambda>(name, sm).
     let children = direct_names w name;
         own = (case sites of None \<Rightarrow> [] | Some s \<Rightarrow> if is_root then ts_root s else node_sites s name);
         subtree = (case sites of None \<Rightarrow> [] | Some s \<Rightarrow> if is_root then [0..<ts_count s] else subtree_sites s w name) in
     try_then (if is_root then Ok [] else tree_active_condition root w name) (\<lambda>active.
     try_then (nested_tables is_root name w sm) (\<lambda>nested.
     try_then (collect_state_types_excluding sm children) (\<lambda>types.
     try_then (table_regions events children sm) (\<lambda>regions.
     try_then (case sites of None \<Rightarrow> Ok [] | Some s \<Rightarrow> table_paths s w own name sm) (\<lambda>paths.
       Ok \<lparr>tt_name = name, tt_variant = state_ident name, tt_children = child_arms w name, tt_active = active,
           tt_nested = nested, tt_orthogonal = several_starts sm,
           tt_history = (\<not> several_starts sm \<and> list_ex (\<lambda>t. in_history (st_in t)) (transitions sm)),
           tt_has_terminal = (''X'' \<in> set (collect_states sm)), tt_types = types, tt_regions = regions,
           tt_sites = own, tt_subtree = subtree, tt_paths = paths\<rparr>))))))"

section \<open>The emitted tree\<close>

text \<open>\<open>tm_order\<close>: the nodes, deepest first, otherwise in the order of the walk.\<close>

record tree_code =
  tm_tables :: "tree_table list"
  tm_order :: "nat list"
  tm_async_queue :: bool
  tm_has_deferred :: bool
  tm_has_exception :: bool
  tm_sites :: "nat option"

definition shared_types :: "string \<Rightarrow> rust_type list \<Rightarrow> (string, rust_type option) rust_result" where
  "shared_types msg types =
     (if list_ex (\<lambda>(a, b). a \<noteq> b) (zip types (tl types)) then Err msg
      else Ok (case types of [] \<Rightarrow> None | ty # _ \<Rightarrow> Some ty))"

definition deepest_first :: "tree_walk \<Rightarrow> nat list" where
  "deepest_first w =
     (let depth = (\<lambda>i. case map_of (tw_depths w) (tw_names w ! (i - 1)) of None \<Rightarrow> 0 | Some d \<Rightarrow> d)
      in sort_key (\<lambda>i. - int (depth i)) [1..<Suc (length (tw_names w))])"

definition track_settle_sites :: "state_machine \<Rightarrow> state_machine list \<Rightarrow> bool" where
  "track_settle_sites root nodes \<longleftrightarrow>
     list_ex orth_has_exceptions (root # nodes) \<and> (several_starts root \<or> list_ex several_starts nodes)"

definition tree_sites :: "state_machine \<Rightarrow> tree_walk \<Rightarrow> (string, tree_settle_sites option) rust_result" where
  "tree_sites root w =
     try_then (if several_starts root then try_then (discover_regions root) (\<lambda>rs. Ok (Some rs)) else Ok None) (\<lambda>regions.
       if track_settle_sites root (tw_tables w)
       then try_then (number_sites w regions) (\<lambda>s. Ok (Some s)) else Ok None)"

definition generate_multi_code ::
  "state_machine list \<Rightarrow> state_machine \<Rightarrow> string list \<Rightarrow> (string, tree_code) rust_result" where
  "generate_multi_code sms parent children =
     try_then (tree_tables sms parent children) (\<lambda>(root, w).
       let all = root # tw_tables w; name = the (machine_name parent) in
       try_then (tree_sites root w) (\<lambda>sites.
       try_then (shared_types ''all tables in a composite tree must use the same exception error type''
         (concat (map (\<lambda>sm. option_list (fixed_error_type sm)) all))) (\<lambda>_.
       try_then (shared_types ''all tables in a composite tree must use the same temporary context type''
         (concat (map (\<lambda>sm. option_list (temporary_context_type sm)) all))) (\<lambda>_.
       try_then (collect_events_many all) (\<lambda>events.
       try_then (err_if (list_ex (\<lambda>(_, e). ei_external e \<and> ei_type e = None) events)
         ''external events must have a concrete payload type'') (\<lambda>_.
       try_then (context_methods_many all events) (\<lambda>_.
       try_then (generate_tree_table True name w sites events (name, root)) (\<lambda>first.
       try_then (try_map (generate_tree_table False name w sites events) (zip (tw_names w) (tw_tables w))) (\<lambda>nodes.
         Ok \<lparr>tm_tables = first # nodes, tm_order = deepest_first w,
             tm_async_queue = (list_ex is_async_machine all \<and> list_ex orth_has_queue_actions all),
             tm_has_deferred = list_ex orth_has_deferred all,
             tm_has_exception = list_ex orth_has_exceptions all,
             tm_sites = map_option ts_count sites\<rparr>)))))))))"

end
