(* ===== verification/Tree_Machine.thy ===== *)
theory Tree_Machine
  imports Tree_Codegen Composite_Machine
begin

text \<open>
  The meaning of the code that macros/src/composite_codegen.rs emits for a composite tree. A place is a
  table and one of its regions; a scalar table has one place. Events go to the active tables deepest
  first. The environment and the fuel are those of orthogonal machines.
\<close>

section \<open>Core\<close>

type_synonym place = "nat \<times> nat"

datatype tree_observation =
    TreeEvent string
  | TreeGuard string string bool
  | TreeAction string string
  | TreeCallback place string string
  | TreeChange string string

record ('c, 'v, 'q) tree_core =
  tree_states :: "'v variant_value list list"
  tree_skips :: "bool list list"
  tree_context :: 'c
  tree_deferred :: 'q
  tree_pending :: 'q
  tree_observed :: "tree_observation list"

type_synonym ('c, 'v, 'err, 'q, 'a) tree_step = "(('c, 'v, 'q) tree_core, 'err machine_error, 'a) step"

type_synonym ('c, 'v, 'err, 'q) tree_processor = "'v variant_value \<Rightarrow> ('c, 'v, 'err, 'q, unit) tree_step"

definition tree_log :: "tree_observation \<Rightarrow> ('c, 'v, 'q) tree_core \<Rightarrow> ('c, 'v, 'q) tree_core" where
  "tree_log x k = k\<lparr>tree_observed := tree_observed k @ [x]\<rparr>"

definition at_place :: "place \<Rightarrow> 'a list list \<Rightarrow> 'a" where
  "at_place p xss = xss ! fst p ! snd p"

definition put_place :: "place \<Rightarrow> 'a \<Rightarrow> 'a list list \<Rightarrow> 'a list list" where
  "put_place p x xss = xss[fst p := (xss ! fst p)[snd p := x]]"

definition tree_state :: "place \<Rightarrow> ('c, 'v, 'q) tree_core \<Rightarrow> 'v variant_value" where
  "tree_state p k = at_place p (tree_states k)"

definition put_tree_state :: "place \<Rightarrow> 'v variant_value \<Rightarrow> ('c, 'v, 'q) tree_core \<Rightarrow> ('c, 'v, 'q) tree_core" where
  "put_tree_state p v k = k\<lparr>tree_states := put_place p v (tree_states k)\<rparr>"

definition put_tree_skip :: "place \<Rightarrow> bool \<Rightarrow> ('c, 'v, 'q) tree_core \<Rightarrow> ('c, 'v, 'q) tree_core" where
  "put_tree_skip p b k = k\<lparr>tree_skips := put_place p b (tree_skips k)\<rparr>"

definition place_region :: "tree_code \<Rightarrow> place \<Rightarrow> tree_region" where
  "place_region code p = tt_regions (tm_tables code ! fst p) ! snd p"

definition table_places :: "tree_code \<Rightarrow> nat \<Rightarrow> place list" where
  "table_places code i = map (Pair i) [0..<length (tt_regions (tm_tables code ! i))]"

text \<open>\<open>tree_active_condition\<close>: \<open>matches!\<close> on a scalar owner, \<open>iter().any(..)\<close> on an orthogonal one.\<close>

definition table_active :: "tree_code \<Rightarrow> nat \<Rightarrow> ('c, 'v, 'q) tree_core \<Rightarrow> bool" where
  "table_active code i k \<longleftrightarrow>
     list_all (\<lambda>(j, s). list_ex (\<lambda>v. variant v = s) (tree_states k ! j)) (tt_active (tm_tables code ! i))"

text \<open>The table that the state of a place enters.\<close>

definition place_child :: "tree_code \<Rightarrow> place \<Rightarrow> ('c, 'v, 'q) tree_core \<Rightarrow> nat option" where
  "place_child code p k = map_of (tt_children (tm_tables code ! fst p)) (variant (tree_state p k))"

definition table_terminal :: "tree_code \<Rightarrow> nat \<Rightarrow> ('c, 'v, 'q) tree_core \<Rightarrow> bool" where
  "table_terminal code i k \<longleftrightarrow> tt_has_terminal (tm_tables code ! i) \<and> list_all (\<lambda>v. variant v = ''X'') (tree_states k ! i)"

definition tree_child_terminal :: "tree_code \<Rightarrow> place \<Rightarrow> ('c, 'v, 'q) tree_core \<Rightarrow> bool" where
  "tree_child_terminal code p k = (case place_child code p k of None \<Rightarrow> False | Some i \<Rightarrow> table_terminal code i k)"

section \<open>Callbacks\<close>

definition tree_call_guard ::
  "('c, 'v, 'err, 'q) region_env \<Rightarrow> string \<Rightarrow> 'v option \<Rightarrow> ('v, 'err) trigger_data \<Rightarrow> ('c, 'v, 'q) tree_core
    \<Rightarrow> async_ident \<Rightarrow> ('c, 'v, 'q) tree_core \<times> ('err machine_error, bool) rust_result" where
  "tree_call_guard env event sd td k g =
     (case rv_guard env (ident g) (tree_context k) sd td of
        Inl e \<Rightarrow> (k, Err (GuardFailed e))
      | Inr b \<Rightarrow> (tree_log (TreeGuard (ident g) event b) k, Ok b))"

definition tree_guard_code ::
  "('c, 'v, 'err, 'q) region_env \<Rightarrow> string \<Rightarrow> 'v option \<Rightarrow> ('v, 'err) trigger_data \<Rightarrow> guard_expression
    \<Rightarrow> ('c, 'v, 'err, 'q, bool) tree_step" where
  "tree_guard_code env event sd td g = lift_step (\<lambda>k. eval_guard (tree_call_guard env event sd td) k g)"

definition tree_action_code ::
  "('c, 'v, 'err, 'q) region_env \<Rightarrow> string \<Rightarrow> 'v option \<Rightarrow> ('v, 'err) trigger_data \<Rightarrow> async_ident
    \<Rightarrow> ('c, 'v, 'err, 'q, 'v option) tree_step" where
  "tree_action_code env event sd td a = lift_step (\<lambda>k.
     case rv_action env (ident a) (tree_context k) sd td of
       (c, Inl e) \<Rightarrow> (k\<lparr>tree_context := c\<rparr>, Err (ActionFailed e))
     | (c, Inr v) \<Rightarrow> (tree_log (TreeAction (ident a) event) (k\<lparr>tree_context := c\<rparr>), Ok v))"

definition tree_hook_calls ::
  "('c, 'v, 'err, 'q) region_env \<Rightarrow> async_ident list \<Rightarrow> 'v option \<Rightarrow> ('c, 'v, 'err, 'q, unit) tree_step" where
  "tree_hook_calls env actions sd = for_each (tree_action_code env [] sd NoData) actions"

text \<open>The hooks of the state of a place.\<close>

definition place_hooks ::
  "('c, 'v, 'err, 'q) region_env \<Rightarrow> tree_code \<Rightarrow> (lifecycle \<Rightarrow> async_ident list option) \<Rightarrow> place
    \<Rightarrow> ('c, 'v, 'err, 'q, unit) tree_step" where
  "place_hooks env code which p = with_core (\<lambda>k.
     let v = tree_state p k in
     tree_hook_calls env (hook_actions which (tr_hooks (place_region code p)) (variant v))
       (if map_of (tt_types (tm_tables code ! fst p)) (variant v) = None then None else payload v))"

section \<open>Entering and leaving tables\<close>

definition region_initial :: "('c, 'v, 'err, 'q) region_env \<Rightarrow> tree_region \<Rightarrow> 'v variant_value" where
  "region_initial env r = Variant (tr_initial r) (if tr_initial_data r then Some (rv_default env (tr_initial r)) else None)"

definition table_start :: "('c, 'v, 'err, 'q) region_env \<Rightarrow> tree_table \<Rightarrow> 'v variant_value list" where
  "table_start env t = map (region_initial env) (tt_regions t)"

definition reset_table :: "('c, 'v, 'err, 'q) region_env \<Rightarrow> tree_code \<Rightarrow> nat \<Rightarrow> ('c, 'v, 'q) tree_core \<Rightarrow> ('c, 'v, 'q) tree_core" where
  "reset_table env code i k =
     (let t = tm_tables code ! i in
      if tt_history t then k else k\<lparr>tree_states := (tree_states k)[i := table_start env t]\<rparr>)"

text \<open>
  The emitted entries nest as deep as the tables; the fuel is their depth, for which the number of
  tables is enough.
\<close>

fun tree_enter_node ::
  "nat \<Rightarrow> ('c, 'v, 'err, 'q) region_env \<Rightarrow> tree_code \<Rightarrow> nat \<Rightarrow> ('c, 'v, 'err, 'q, unit) tree_step"
  and tree_enter_place ::
  "nat \<Rightarrow> ('c, 'v, 'err, 'q) region_env \<Rightarrow> tree_code \<Rightarrow> place \<Rightarrow> ('c, 'v, 'err, 'q, unit) tree_step"
  and tree_enter_children ::
  "nat \<Rightarrow> ('c, 'v, 'err, 'q) region_env \<Rightarrow> tree_code \<Rightarrow> place \<Rightarrow> ('c, 'v, 'err, 'q, unit) tree_step"
where
  "tree_enter_node m env code i =
     then_do (update (reset_table env code i)) (for_each (tree_enter_place m env code) (table_places code i))"
| "tree_enter_place m env code p =
     then_do (update (put_tree_skip p False))
       (then_do (place_hooks env code lc_entry p) (tree_enter_children m env code p))"
| "tree_enter_children 0 env code p = (\<lambda>_. None)"
| "tree_enter_children (Suc m) env code p = with_core (\<lambda>k.
     case place_child code p k of None \<Rightarrow> ret () | Some i \<Rightarrow> tree_enter_node m env code i)"

text \<open>Leaving goes from the innermost tables outwards; a place that has been left is skipped.\<close>

fun tree_exit_node ::
  "nat \<Rightarrow> ('c, 'v, 'err, 'q) region_env \<Rightarrow> tree_code \<Rightarrow> nat \<Rightarrow> ('c, 'v, 'err, 'q, unit) tree_step"
  and tree_exit_place ::
  "nat \<Rightarrow> ('c, 'v, 'err, 'q) region_env \<Rightarrow> tree_code \<Rightarrow> place \<Rightarrow> ('c, 'v, 'err, 'q, unit) tree_step"
  and tree_exit_children ::
  "nat \<Rightarrow> ('c, 'v, 'err, 'q) region_env \<Rightarrow> tree_code \<Rightarrow> place \<Rightarrow> ('c, 'v, 'err, 'q, unit) tree_step"
where
  "tree_exit_node m env code i = for_each (tree_exit_place m env code) (table_places code i)"
| "tree_exit_place m env code p = with_core (\<lambda>k.
     if at_place p (tree_skips k) then ret ()
     else then_do (tree_exit_children m env code p)
       (then_do (place_hooks env code lc_exit p) (update (put_tree_skip p True))))"
| "tree_exit_children 0 env code p = (\<lambda>_. None)"
| "tree_exit_children (Suc m) env code p = with_core (\<lambda>k.
     case place_child code p k of None \<Rightarrow> ret () | Some i \<Rightarrow> tree_exit_node m env code i)"

definition enter_below :: "('c, 'v, 'err, 'q) region_env \<Rightarrow> tree_code \<Rightarrow> place \<Rightarrow> ('c, 'v, 'err, 'q, unit) tree_step" where
  "enter_below env code = tree_enter_children (length (tm_tables code)) env code"

definition exit_below :: "('c, 'v, 'err, 'q) region_env \<Rightarrow> tree_code \<Rightarrow> place \<Rightarrow> ('c, 'v, 'err, 'q, unit) tree_step" where
  "exit_below env code = tree_exit_children (length (tm_tables code)) env code"

section \<open>Queue actions\<close>

definition push_tree_queue ::
  "(('c, 'v, 'q) tree_core \<Rightarrow> 'q \<Rightarrow> ('c, 'v, 'q) tree_core)
    \<Rightarrow> (('c, 'v, 'q) tree_core \<Rightarrow> 'q \<times> (queue_full, unit) rust_result) \<Rightarrow> ('c, 'v, 'err, 'q, unit) tree_step" where
  "push_tree_queue upd push = lift_step (\<lambda>k.
     case push k of (q, r) \<Rightarrow> (upd k q, (case r of Inl _ \<Rightarrow> Err QueueFullError | Inr _ \<Rightarrow> Ok ())))"

definition tree_defer :: "('c, 'v, 'err, 'q) region_env \<Rightarrow> ('c, 'v, 'err, 'q) tree_processor" where
  "tree_defer env e = push_tree_queue (\<lambda>k q. k\<lparr>tree_deferred := q\<rparr>) (\<lambda>k. rv_queue_defer env (tree_deferred k) e)"

definition tree_pend :: "('c, 'v, 'err, 'q) region_env \<Rightarrow> ('c, 'v, 'err, 'q) tree_processor" where
  "tree_pend env e = push_tree_queue (\<lambda>k q. k\<lparr>tree_pending := q\<rparr>) (\<lambda>k. rv_queue_process env (tree_pending k) e)"

definition tree_pop_deferred :: "('c, 'v, 'err, 'q) region_env \<Rightarrow> ('c, 'v, 'err, 'q, 'v variant_value option) tree_step" where
  "tree_pop_deferred env = lift_step (\<lambda>k. case rv_queue_pop env (tree_deferred k) of (q, e) \<Rightarrow> (k\<lparr>tree_deferred := q\<rparr>, Ok e))"

definition tree_pop_pending :: "('c, 'v, 'err, 'q) region_env \<Rightarrow> ('c, 'v, 'err, 'q, 'v variant_value option) tree_step" where
  "tree_pop_pending env = lift_step (\<lambda>k. case rv_queue_pop env (tree_pending k) of (q, e) \<Rightarrow> (k\<lparr>tree_pending := q\<rparr>, Ok e))"

definition tree_process ::
  "('c, 'v, 'err, 'q) region_env \<Rightarrow> tree_code \<Rightarrow> ('c, 'v, 'err, 'q) tree_processor \<Rightarrow> 'v option
    \<Rightarrow> ('v, 'err) trigger_data \<Rightarrow> rust_expr \<Rightarrow> ('c, 'v, 'err, 'q, unit) tree_step" where
  "tree_process env code rec sd td x = with_core (\<lambda>k.
     let e = rv_event env x (tree_context k) sd td in
     if tm_async_queue code then tree_pend env e else rec e)"

definition tree_drain_step ::
  "('c, 'v, 'err, 'q) region_env \<Rightarrow> tree_code \<Rightarrow> ('c, 'v, 'err, 'q) tree_processor \<Rightarrow> ('c, 'v, 'err, 'q, bool) tree_step" where
  "tree_drain_step env code rec =
     bind (tree_pop_deferred env) (\<lambda>popped.
       case popped of
         None \<Rightarrow> ret False
       | Some e \<Rightarrow>
           then_do
             (if tm_async_queue code then tree_pend env e
              else catch (rec e)
                (\<lambda>err. if err = InvalidEvent \<or> err = TransitionsFailed then ret () else raise err))
             (ret True))"

definition tree_drain ::
  "('c, 'v, 'err, 'q) region_env \<Rightarrow> tree_code \<Rightarrow> ('c, 'v, 'err, 'q) tree_processor \<Rightarrow> nat \<Rightarrow> ('c, 'v, 'err, 'q, unit) tree_step" where
  "tree_drain env code rec n =
     (if tm_has_deferred code then while_ok n (tree_drain_step env code rec) else ret ())"

section \<open>Branches\<close>

definition tree_leave_source ::
  "('c, 'v, 'err, 'q) region_env \<Rightarrow> tree_code \<Rightarrow> place \<Rightarrow> composite_branch \<Rightarrow> 'v option \<Rightarrow> ('c, 'v, 'err, 'q, unit) tree_step" where
  "tree_leave_source env code p br sd = with_core (\<lambda>k.
     if at_place p (tree_skips k) then update (put_tree_skip p False)
     else then_do (if cb_exit_child br then exit_below env code p else ret ())
       (tree_hook_calls env (cb_exit br) sd))"

text \<open>
  The callback of a change also reports it to the logger of the policy, except that of an exception
  row of a scalar node.
\<close>

definition change_logged :: "tree_code \<Rightarrow> place \<Rightarrow> composite_branch \<Rightarrow> bool" where
  "change_logged code p br \<longleftrightarrow> \<not> (cd_kind br = Exception \<and> fst p \<noteq> 0 \<and> \<not> tt_orthogonal (tm_tables code ! fst p))"

definition place_replaced :: "bool \<Rightarrow> place \<Rightarrow> 'v variant_value \<Rightarrow> ('c, 'v, 'q) tree_core \<Rightarrow> ('c, 'v, 'q) tree_core" where
  "place_replaced logged p v k =
     (let old = variant (tree_state p k);
          k' = tree_log (TreeCallback p old (variant v)) (put_tree_skip p False (put_tree_state p v k)) in
      if logged then tree_log (TreeChange old (variant v)) k' else k')"

definition tree_reach_target ::
  "('c, 'v, 'err, 'q) region_env \<Rightarrow> tree_code \<Rightarrow> place \<Rightarrow> composite_branch \<Rightarrow> 'v option \<Rightarrow> ('c, 'v, 'err, 'q, unit) tree_step" where
  "tree_reach_target env code p br data =
     (let new = (if cd_default_output br then Some (rv_default env (cd_out_state br)) else data) in
      then_do (update (place_replaced (change_logged code p br) p (Variant (cd_out_state br) new)))
        (then_do (tree_hook_calls env (cb_entry br) (if cb_out_data br then new else None))
          (if cb_enter_child br then enter_below env code p else ret ())))"

definition change_place ::
  "('c, 'v, 'err, 'q) region_env \<Rightarrow> tree_code \<Rightarrow> place \<Rightarrow> composite_branch \<Rightarrow> 'v option
    \<Rightarrow> ('c, 'v, 'err, 'q, 'v option) tree_step \<Rightarrow> ('c, 'v, 'err, 'q, unit) tree_step" where
  "change_place env code p br sd actions =
     then_do (tree_leave_source env code p br sd)
       (then_do (update (put_tree_skip p True)) (bind actions (tree_reach_target env code p br)))"

definition tree_run_row ::
  "('c, 'v, 'err, 'q) region_env \<Rightarrow> tree_code \<Rightarrow> ('c, 'v, 'err, 'q) tree_processor \<Rightarrow> nat \<Rightarrow> place
    \<Rightarrow> ('v, 'err) trigger_data \<Rightarrow> composite_branch \<Rightarrow> ('c, 'v, 'err, 'q, bool) tree_step" where
  "tree_run_row env code rec n p td0 br = with_core (\<lambda>k.
     let sd = (if cd_state_data br then payload (tree_state p k) else None);
         td = (if cd_event_data br then td0 else NoData);
         guard = tree_guard_code env (cd_event br) sd td;
         actions = run_steps guard (tree_action_code env (cd_event br) sd td) (cd_steps br) None;
         defer_code = (if cd_defer br
           then tree_defer env (Variant (cd_event br) (case td of EventData v \<Rightarrow> Some v | _ \<Rightarrow> None)) else ret ());
         processes = for_each (tree_process env code rec sd td) (cd_process br);
         body = (if cd_internal br
           then then_do actions (then_do defer_code (then_do processes (ret True)))
           else then_do (change_place env code p br sd actions)
             (then_do defer_code (then_do processes (then_do (tree_drain env code rec n) (ret True)))));
         dispatched = (if cd_kind br = Normal \<or> cd_kind br = Unexpected
           then rv_candidate env (cd_in_state br) (cd_event br) (cd_index br) else True)
     in if dispatched
        then (case cd_guard br of None \<Rightarrow> body | Some g \<Rightarrow> bind (guard g) (\<lambda>b. if b then body else ret False))
        else ret False)"

fun tree_run_rows ::
  "('c, 'v, 'err, 'q) region_env \<Rightarrow> tree_code \<Rightarrow> ('c, 'v, 'err, 'q) tree_processor \<Rightarrow> nat \<Rightarrow> place
    \<Rightarrow> ('v, 'err) trigger_data \<Rightarrow> composite_branch list \<Rightarrow> ('c, 'v, 'err, 'q, bool option) tree_step"
where
  "tree_run_rows env code rec n p td [] = ret None"
| "tree_run_rows env code rec n p td (br # brs) =
     bind (tree_run_row env code rec n p td br) (\<lambda>handled.
       if handled then ret (Some (cb_moves br)) else tree_run_rows env code rec n p td brs)"

section \<open>Events\<close>

definition dispatch_place ::
  "('c, 'v, 'err, 'q) region_env \<Rightarrow> tree_code \<Rightarrow> ('c, 'v, 'err, 'q) tree_processor \<Rightarrow> nat \<Rightarrow> 'v variant_value \<Rightarrow> place
    \<Rightarrow> ('c, 'v, 'err, 'q, bool) tree_step" where
  "dispatch_place env code rec n e p =
     bind (with_core (\<lambda>k. tree_run_rows env code rec n p (event_trigger_data e)
         (event_rows (tr_events (place_region code p)) (variant (tree_state p k)) (variant e))))
       (\<lambda>h. ret (h \<noteq> None))"

text \<open>
  The places of a table, each suppressed when a table below it (\<open>tt_nested\<close>) is among those that
  handled the event.
\<close>

fun dispatch_places ::
  "('c, 'v, 'err, 'q) region_env \<Rightarrow> tree_code \<Rightarrow> ('c, 'v, 'err, 'q) tree_processor \<Rightarrow> nat \<Rightarrow> 'v variant_value \<Rightarrow> nat list
    \<Rightarrow> place list \<Rightarrow> ('c, 'v, 'err, 'q, bool) tree_step" where
  "dispatch_places env code rec n e flags [] = ret False"
| "dispatch_places env code rec n e flags (p # ps) =
     (let below = list_ex (\<lambda>i. i \<in> set flags) (tt_nested (tm_tables code ! fst p) ! snd p) in
      bind (if below then ret False else dispatch_place env code rec n e p) (\<lambda>h.
      bind (dispatch_places env code rec n e flags ps) (\<lambda>handled. ret (below \<or> h \<or> handled))))"

definition dispatch_node ::
  "('c, 'v, 'err, 'q) region_env \<Rightarrow> tree_code \<Rightarrow> ('c, 'v, 'err, 'q) tree_processor \<Rightarrow> nat \<Rightarrow> 'v variant_value \<Rightarrow> nat
    \<Rightarrow> nat list \<Rightarrow> ('c, 'v, 'err, 'q, nat list) tree_step" where
  "dispatch_node env code rec n e i flags =
     bind (with_core (\<lambda>k. if table_active code i k then dispatch_places env code rec n e flags (table_places code i)
         else ret False))
       (\<lambda>h. ret (if h then flags @ [i] else flags))"

fun dispatch_nodes ::
  "('c, 'v, 'err, 'q) region_env \<Rightarrow> tree_code \<Rightarrow> ('c, 'v, 'err, 'q) tree_processor \<Rightarrow> nat \<Rightarrow> 'v variant_value \<Rightarrow> nat list
    \<Rightarrow> nat list \<Rightarrow> ('c, 'v, 'err, 'q, nat list) tree_step" where
  "dispatch_nodes env code rec n e [] flags = ret flags"
| "dispatch_nodes env code rec n e (i # is) flags =
     bind (dispatch_node env code rec n e i flags) (dispatch_nodes env code rec n e is)"

text \<open>The nodes below a place of the root, then the place when none of them handled the event.\<close>

fun dispatch_root ::
  "('c, 'v, 'err, 'q) region_env \<Rightarrow> tree_code \<Rightarrow> ('c, 'v, 'err, 'q) tree_processor \<Rightarrow> nat \<Rightarrow> 'v variant_value
    \<Rightarrow> place list \<Rightarrow> ('c, 'v, 'err, 'q, bool) tree_step" where
  "dispatch_root env code rec n e [] = ret False"
| "dispatch_root env code rec n e (p # ps) =
     (let nested = tt_nested (tm_tables code ! 0) ! snd p in
      bind (dispatch_nodes env code rec n e (filter (\<lambda>i. i \<in> set nested) (tm_order code)) []) (\<lambda>flags.
      bind (if flags \<noteq> [] then ret True else dispatch_place env code rec n e p) (\<lambda>h.
      bind (dispatch_root env code rec n e ps) (\<lambda>handled. ret (h \<or> handled)))))"

section \<open>Exceptions\<close>

definition mark_sites :: "nat list \<Rightarrow> bool list \<Rightarrow> bool list" where
  "mark_sites sites exited = map (\<lambda>(s, x). x \<or> s \<in> set sites) (enumerate 0 exited)"

definition exception_step ::
  "('c, 'v, 'err, 'q) region_env \<Rightarrow> tree_code \<Rightarrow> ('c, 'v, 'err, 'q) tree_processor \<Rightarrow> nat \<Rightarrow> 'err \<Rightarrow> place
    \<Rightarrow> ('c, 'v, 'err, 'q, bool option) tree_step" where
  "exception_step env code rec n err p = with_core (\<lambda>k.
     tree_run_rows env code rec n p (ErrorData err)
       (case map_of (tr_exceptions (place_region code p)) (variant (tree_state p k)) of None \<Rightarrow> [] | Some bs \<Rightarrow> bs))"

text \<open>Every region of an orthogonal table gets the error; a scalar table only when it is unhandled.\<close>

fun recover_places ::
  "('c, 'v, 'err, 'q) region_env \<Rightarrow> tree_code \<Rightarrow> ('c, 'v, 'err, 'q) tree_processor \<Rightarrow> nat \<Rightarrow> 'err \<Rightarrow> nat option
    \<Rightarrow> place list \<Rightarrow> bool option \<times> bool list \<Rightarrow> ('c, 'v, 'err, 'q, bool option \<times> bool list) tree_step" where
  "recover_places env code rec n err fault [] acc = ret acc"
| "recover_places env code rec n err fault (p # ps) (recovery, exited) =
     (let path = tt_paths (tm_tables code ! fst p) ! snd p in
      bind (exception_step env code rec n err p) (\<lambda>h.
        recover_places env code rec n err fault ps
          (case h of
             None \<Rightarrow> (recovery, exited)
           | Some moved \<Rightarrow> (Some (moved \<and> fault \<in> Some ` set path \<or> recovery = Some True),
               if moved then mark_sites path exited else exited))))"

definition recover_table_of ::
  "('c, 'v, 'err, 'q) region_env \<Rightarrow> tree_code \<Rightarrow> ('c, 'v, 'err, 'q) tree_processor \<Rightarrow> nat \<Rightarrow> 'err \<Rightarrow> nat option \<Rightarrow> nat
    \<Rightarrow> bool option \<times> bool list \<Rightarrow> ('c, 'v, 'err, 'q, bool option \<times> bool list) tree_step" where
  "recover_table_of env code rec n err fault i = (\<lambda>(recovery, exited). with_core (\<lambda>k.
     let t = tm_tables code ! i in
     if \<not> table_active code i k then ret (recovery, exited)
     else if tt_orthogonal t then recover_places env code rec n err fault (table_places code i) (recovery, exited)
     else if recovery \<noteq> None then ret (recovery, exited)
     else bind (exception_step env code rec n err (i, 0)) (\<lambda>h. ret (case h of
         None \<Rightarrow> (None, exited)
       | Some moved \<Rightarrow>
           if tm_sites code = None then (Some moved, exited)
           else (Some (moved \<and> (i = 0 \<or> fault \<in> Some ` set (tt_subtree t))),
             if moved then mark_sites (tt_subtree t) exited else exited)))))"

fun recover_tables ::
  "('c, 'v, 'err, 'q) region_env \<Rightarrow> tree_code \<Rightarrow> ('c, 'v, 'err, 'q) tree_processor \<Rightarrow> nat \<Rightarrow> 'err \<Rightarrow> nat option \<Rightarrow> nat list
    \<Rightarrow> bool option \<times> bool list \<Rightarrow> ('c, 'v, 'err, 'q, bool option \<times> bool list) tree_step" where
  "recover_tables env code rec n err fault [] acc = ret acc"
| "recover_tables env code rec n err fault (i # is) acc =
     bind (recover_table_of env code rec n err fault i acc) (recover_tables env code rec n err fault is)"

text \<open>\<open>recover_walk\<close>: from the deepest active table to the root.\<close>

definition inner_first :: "tree_code \<Rightarrow> nat list" where
  "inner_first code = tm_order code @ [0]"

definition tree_recover_walk ::
  "('c, 'v, 'err, 'q) region_env \<Rightarrow> tree_code \<Rightarrow> ('c, 'v, 'err, 'q) tree_processor \<Rightarrow> nat \<Rightarrow> 'err \<Rightarrow> nat option
    \<Rightarrow> ('c, 'v, 'err, 'q, bool option \<times> bool list) tree_step" where
  "tree_recover_walk env code rec n err fault =
     recover_tables env code rec n err fault (inner_first code)
       (None, replicate (case tm_sites code of None \<Rightarrow> 0 | Some c \<Rightarrow> c) False)"

definition tree_attempt ::
  "('c, 'v, 'err, 'q) region_env \<Rightarrow> tree_code \<Rightarrow> ('c, 'v, 'err, 'q) tree_processor \<Rightarrow> nat \<Rightarrow> 'v variant_value
    \<Rightarrow> ('c, 'v, 'err, 'q, bool \<times> bool) tree_step" where
  "tree_attempt env code rec n e =
     (let attempt = bind (dispatch_root env code rec n e (table_places code 0)) (\<lambda>h. ret (h, False)) in
      if tm_has_exception code
      then catch attempt (\<lambda>error.
        case callback_error error of
          None \<Rightarrow> raise error
        | Some err \<Rightarrow>
            bind (tree_recover_walk env code rec n err None) (\<lambda>(recovery, _).
              if recovery \<noteq> None then ret (True, True) else raise error))
      else attempt)"

section \<open>Completions\<close>

definition eligible :: "bool \<Rightarrow> (bool \<times> composite_branch) list option \<Rightarrow> composite_branch list" where
  "eligible terminal arm = (case arm of None \<Rightarrow> [] | Some rows \<Rightarrow> map snd (filter (\<lambda>(waits, _). waits \<longrightarrow> terminal) rows))"

definition complete_place ::
  "('c, 'v, 'err, 'q) region_env \<Rightarrow> tree_code \<Rightarrow> ('c, 'v, 'err, 'q) tree_processor \<Rightarrow> nat \<Rightarrow> 'v variant_value option \<Rightarrow> place
    \<Rightarrow> ('c, 'v, 'err, 'q, bool) tree_step" where
  "complete_place env code rec n origin p =
     (let r = place_region code p in
      bind
        (case origin of
           None \<Rightarrow> ret None
         | Some e \<Rightarrow> with_core (\<lambda>k. tree_run_rows env code rec n p (event_trigger_data e)
             (eligible (tree_child_terminal code p k) (map_of (tr_origin r) (variant (tree_state p k), variant e)))))
        (\<lambda>h. if h \<noteq> None then ret True
          else bind (with_core (\<lambda>k. tree_run_rows env code rec n p NoData
              (eligible (tree_child_terminal code p k) (map_of (tr_anonymous r) (variant (tree_state p k))))))
            (\<lambda>h. ret (h \<noteq> None))))"

definition place_site :: "tree_code \<Rightarrow> place \<Rightarrow> nat" where
  "place_site code p = (if tm_sites code = None then 0 else tt_sites (tm_tables code ! fst p) ! snd p)"

text \<open>
  The places of a table that are not settled: whether one progressed, or the callback error with the
  site at which it happened.
\<close>

fun complete_places ::
  "('c, 'v, 'err, 'q) region_env \<Rightarrow> tree_code \<Rightarrow> ('c, 'v, 'err, 'q) tree_processor \<Rightarrow> nat \<Rightarrow> 'v variant_value option \<Rightarrow> bool list
    \<Rightarrow> place list \<Rightarrow> ('c, 'v, 'err, 'q, nat \<times> 'err machine_error + bool) tree_step" where
  "complete_places env code rec n origin settled [] = ret (Inr False)"
| "complete_places env code rec n origin settled (p # ps) =
     (let s = place_site code p in
      if tm_sites code \<noteq> None \<and> settled ! s then complete_places env code rec n origin settled ps
      else bind
        (let step = bind (complete_place env code rec n origin p) (\<lambda>h. ret (Inr h)) in
         if tm_has_exception code
         then catch step (\<lambda>error. if callback_error error = None then raise error else ret (Inl (s, error)))
         else step)
        (\<lambda>r. case r of
            Inl fault \<Rightarrow> ret (Inl fault)
          | Inr h \<Rightarrow>
              bind (complete_places env code rec n origin settled ps) (\<lambda>r'.
                ret (case r' of Inl fault \<Rightarrow> Inl fault | Inr h' \<Rightarrow> Inr (h \<or> h')))))"

text \<open>\<open>completion_step\<close>: from the deepest active table to the root, up to the first that progresses.\<close>

fun complete_tables ::
  "('c, 'v, 'err, 'q) region_env \<Rightarrow> tree_code \<Rightarrow> ('c, 'v, 'err, 'q) tree_processor \<Rightarrow> nat \<Rightarrow> 'v variant_value option \<Rightarrow> bool list
    \<Rightarrow> nat list \<Rightarrow> ('c, 'v, 'err, 'q, nat \<times> 'err machine_error + bool) tree_step" where
  "complete_tables env code rec n origin settled [] = ret (Inr False)"
| "complete_tables env code rec n origin settled (i # is) =
     bind (with_core (\<lambda>k. if table_active code i k
         then complete_places env code rec n origin settled (table_places code i) else ret (Inr False)))
       (\<lambda>r. if r = Inr False then complete_tables env code rec n origin settled is else ret r)"

fun tree_stabilize ::
  "nat \<Rightarrow> ('c, 'v, 'err, 'q) region_env \<Rightarrow> tree_code \<Rightarrow> ('c, 'v, 'err, 'q) tree_processor \<Rightarrow> nat \<Rightarrow> 'v variant_value option
    \<Rightarrow> bool list \<Rightarrow> ('c, 'v, 'err, 'q, unit) tree_step" where
  "tree_stabilize 0 env code rec n origin settled = (\<lambda>_. None)"
| "tree_stabilize (Suc m) env code rec n origin settled =
     bind (complete_tables env code rec n origin settled (inner_first code)) (\<lambda>r.
       case r of
         Inr handled \<Rightarrow> if handled then tree_stabilize m env code rec n origin settled else ret ()
       | Inl (fault, error) \<Rightarrow>
           (case callback_error error of
              None \<Rightarrow> raise error
            | Some err \<Rightarrow>
                bind (tree_recover_walk env code rec n err (Some fault)) (\<lambda>(recovery, exited).
                  let settled' = map2 (\<lambda>s x. s \<and> \<not> x) settled exited in
                  case recovery of
                    None \<Rightarrow> raise error
                  | Some moved \<Rightarrow>
                      if moved then tree_stabilize m env code rec n None settled'
                      else if tm_sites code = None then ret ()
                      else tree_stabilize m env code rec n origin (settled'[fault := True]))))"

definition stabilize_tree ::
  "('c, 'v, 'err, 'q) region_env \<Rightarrow> tree_code \<Rightarrow> ('c, 'v, 'err, 'q) tree_processor \<Rightarrow> nat \<Rightarrow> 'v variant_value option
    \<Rightarrow> ('c, 'v, 'err, 'q, unit) tree_step" where
  "stabilize_tree env code rec n origin =
     tree_stabilize n env code rec n origin (replicate (case tm_sites code of None \<Rightarrow> 0 | Some c \<Rightarrow> c) False)"

section \<open>Processing, construction and queries\<close>

definition tree_dispatch ::
  "('c, 'v, 'err, 'q) region_env \<Rightarrow> tree_code \<Rightarrow> ('c, 'v, 'err, 'q) tree_processor \<Rightarrow> nat \<Rightarrow> ('c, 'v, 'err, 'q) tree_processor" where
  "tree_dispatch env code rec n e =
     then_do (update (tree_log (TreeEvent (variant e))))
       (if rv_dispatch env (variant e)
        then bind (tree_attempt env code rec n e) (\<lambda>(handled, recovered).
          if handled then stabilize_tree env code rec n (if recovered then None else Some e)
          else raise InvalidEvent)
        else raise InvalidEvent)"

primrec tree_process_sync ::
  "nat \<Rightarrow> ('c, 'v, 'err, 'q) region_env \<Rightarrow> tree_code \<Rightarrow> ('c, 'v, 'err, 'q) tree_processor" where
  "tree_process_sync 0 env code e = (\<lambda>_. None)"
| "tree_process_sync (Suc n) env code e = tree_dispatch env code (tree_process_sync n env code) n e"

definition tree_process_async ::
  "nat \<Rightarrow> ('c, 'v, 'err, 'q) region_env \<Rightarrow> tree_code \<Rightarrow> ('c, 'v, 'err, 'q) tree_processor" where
  "tree_process_async n env code e =
     then_do (tree_pend env e)
       (while_ok n (bind (tree_pop_pending env) (\<lambda>popped.
          case popped of
            None \<Rightarrow> ret False
          | Some e' \<Rightarrow> then_do (tree_dispatch env code (\<lambda>_ _. None) n e') (ret True))))"

definition tree_process_event ::
  "nat \<Rightarrow> ('c, 'v, 'err, 'q) region_env \<Rightarrow> tree_code \<Rightarrow> ('c, 'v, 'err, 'q) tree_processor" where
  "tree_process_event n env code e =
     (if tm_async_queue code then tree_process_async n env code e else tree_process_sync n env code e)"

definition new_tree_core :: "('c, 'v, 'err, 'q) region_env \<Rightarrow> tree_code \<Rightarrow> 'c \<Rightarrow> ('c, 'v, 'q) tree_core" where
  "new_tree_core env code ctx =
     \<lparr>tree_states = map (table_start env) (tm_tables code),
      tree_skips = map (\<lambda>t. replicate (length (tt_regions t)) False) (tm_tables code), tree_context = ctx,
      tree_deferred = rv_queue_new env, tree_pending = rv_queue_new env, tree_observed = []\<rparr>"

definition root_initial_entry :: "('c, 'v, 'err, 'q) region_env \<Rightarrow> tree_code \<Rightarrow> ('c, 'v, 'err, 'q, unit) tree_step" where
  "root_initial_entry env code = with_core (\<lambda>k.
     let r = place_region code (0, 0) in
     tree_hook_calls env (hook_actions lc_entry (tr_hooks r) (tr_initial r))
       (if tr_initial_data r then payload (tree_state (0, 0) k) else None))"

definition tree_initialize :: "nat \<Rightarrow> ('c, 'v, 'err, 'q) region_env \<Rightarrow> tree_code \<Rightarrow> ('c, 'v, 'err, 'q, unit) tree_step" where
  "tree_initialize n env code =
     then_do (if tt_orthogonal (tm_tables code ! 0)
         then for_each (tree_enter_place (length (tm_tables code)) env code) (table_places code 0)
         else then_do (root_initial_entry env code) (enter_below env code (0, 0)))
       (stabilize_tree env code (tree_process_event n env code) n None)"

text \<open>\<open>set_current_states\<close> of the root and \<open>set_<node>_state\<close> of a scalar node.\<close>

definition set_table_states ::
  "nat \<Rightarrow> 'v variant_value list \<Rightarrow> ('c, 'v, 'q) tree_core \<Rightarrow> ('c, 'v, 'q) tree_core \<times> 'v variant_value list" where
  "set_table_states i vs k =
     (k\<lparr>tree_skips := (tree_skips k)[i := map (\<lambda>_. False) (tree_skips k ! i)], tree_states := (tree_states k)[i := vs]\<rparr>,
      tree_states k ! i)"

definition table_is :: "nat \<Rightarrow> 'v variant_value list \<Rightarrow> ('c, 'v, 'q) tree_core \<Rightarrow> bool" where
  "table_is i expected k \<longleftrightarrow> map variant (tree_states k ! i) = map variant expected"

definition root_is_region :: "nat \<Rightarrow> 'v variant_value \<Rightarrow> ('c, 'v, 'q) tree_core \<Rightarrow> bool" where
  "root_is_region j expected k \<longleftrightarrow> j < length (tree_states k ! 0) \<and> variant (tree_states k ! 0 ! j) = variant expected"

definition tree_is_terminated :: "tree_code \<Rightarrow> ('c, 'v, 'q) tree_core \<Rightarrow> bool" where
  "tree_is_terminated code k \<longleftrightarrow> table_terminal code 0 k"

inductive tree_reachable :: "('c, 'v, 'err, 'q) region_env \<Rightarrow> tree_code \<Rightarrow> ('c, 'v, 'q) tree_core \<Rightarrow> bool"
  for env code where
  tree_initialized: "tree_initialize n env code (new_tree_core env code ctx) = Some (k, r) \<Longrightarrow> tree_reachable env code k"
| tree_processed: "tree_reachable env code k \<Longrightarrow> tree_process_event n env code e k = Some (k', r) \<Longrightarrow>
    tree_reachable env code k'"

end
