(* ===== verification/Tree_Runs.thy ===== *)
theory Tree_Runs
  imports Tree_Machine Composite_Runs
begin

text \<open>
  Invariants of composite trees. The locale \<open>tree_invariant\<close> says what a property must satisfy to hold
  in every run: the change of a place along a branch and the reset of a table are its obligations.
\<close>

section \<open>Well-formed trees\<close>

definition place_ok :: "tree_code \<Rightarrow> place \<Rightarrow> bool" where
  "place_ok code p \<longleftrightarrow> fst p < length (tm_tables code) \<and> snd p < length (tt_regions (tm_tables code ! fst p))"

text \<open>The tables that the code refers to exist, nothing enters the root, and a scalar table has one place.\<close>

definition tree_ok :: "tree_code \<Rightarrow> bool" where
  "tree_ok code \<longleftrightarrow> 0 < length (tm_tables code) \<and> (\<forall>i \<in> set (tm_order code). i < length (tm_tables code)) \<and>
     (\<forall>t \<in> set (tm_tables code). (\<forall>i \<in> snd ` set (tt_children t). 0 < i \<and> i < length (tm_tables code)) \<and>
        (\<not> tt_orthogonal t \<longrightarrow> length (tt_regions t) = 1))"

lemma table_places_ok: "i < length (tm_tables code) \<Longrightarrow> p \<in> set (table_places code i) \<Longrightarrow> place_ok code p"
  by (auto simp: table_places_def place_ok_def)

lemma place_child_ok:
  assumes "tree_ok code" "place_ok code p" "place_child code p k = Some i"
  shows "0 < i" "i < length (tm_tables code)"
proof -
  from assms(2) have "tm_tables code ! fst p \<in> set (tm_tables code)" by (simp add: place_ok_def)
  moreover from assms(3) have "i \<in> snd ` set (tt_children (tm_tables code ! fst p))"
    by (force simp: place_child_def dest: map_of_SomeD)
  ultimately show "0 < i" "i < length (tm_tables code)" using assms(1) unfolding tree_ok_def by blast+
qed

lemma scalar_place_ok:
  assumes "tree_ok code" "i < length (tm_tables code)" "\<not> tt_orthogonal (tm_tables code ! i)"
  shows "place_ok code (i, 0)"
  using assms unfolding tree_ok_def place_ok_def by auto

lemma inner_first_ok: "tree_ok code \<Longrightarrow> i \<in> set (inner_first code) \<Longrightarrow> i < length (tm_tables code)"
  by (auto simp: inner_first_def tree_ok_def)

section \<open>Properties that callbacks keep\<close>

definition tree_callbacks_keep :: "(('c, 'v, 'q) tree_core \<Rightarrow> bool) \<Rightarrow> bool" where
  "tree_callbacks_keep P \<longleftrightarrow>
     (\<forall>k c. P k \<longrightarrow> P (k\<lparr>tree_context := c\<rparr>)) \<and>
     (\<forall>k q. P k \<longrightarrow> P (k\<lparr>tree_deferred := q\<rparr>)) \<and>
     (\<forall>k q. P k \<longrightarrow> P (k\<lparr>tree_pending := q\<rparr>)) \<and>
     (\<forall>k p b. P k \<longrightarrow> P (put_tree_skip p b k)) \<and>
     (\<forall>k x. P k \<longrightarrow> (case x of TreeEvent _ \<Rightarrow> True | TreeGuard _ _ _ \<Rightarrow> True | TreeAction _ _ \<Rightarrow> True | _ \<Rightarrow> False)
        \<longrightarrow> P (tree_log x k))"

lemma tree_callbacks_keepD:
  assumes "tree_callbacks_keep P" "P k"
  shows "P (k\<lparr>tree_context := c\<rparr>)" "P (k\<lparr>tree_deferred := q\<rparr>)" "P (k\<lparr>tree_pending := q\<rparr>)" "P (put_tree_skip p b k)"
    "P (tree_log (TreeEvent e) k)" "P (tree_log (TreeGuard g e b) k)" "P (tree_log (TreeAction a e) k)"
  using assms unfolding tree_callbacks_keep_def by (cases p; simp)+

lemma tree_state_updates [simp]:
  "tree_state p (k\<lparr>tree_context := c\<rparr>) = tree_state p k"
  "tree_state p (k\<lparr>tree_deferred := q\<rparr>) = tree_state p k"
  "tree_state p (k\<lparr>tree_pending := q\<rparr>) = tree_state p k"
  "tree_state p (put_tree_skip p' b k) = tree_state p k"
  "tree_state p (tree_log x k) = tree_state p k"
  by (simp_all add: tree_state_def tree_log_def put_tree_skip_def)

lemma tree_callbacks_keep_at:
  "tree_callbacks_keep P \<Longrightarrow> tree_callbacks_keep (\<lambda>k. P k \<and> variant (tree_state p k) = st)"
  unfolding tree_callbacks_keep_def by simp

lemma tree_guard_code_keeps [step_inv]:
  "tree_callbacks_keep P \<Longrightarrow> preserves P (tree_guard_code env e sd td g)"
  unfolding tree_guard_code_def
  by (rule preserves_lift_step, rule eval_guard_keeps)
     (auto simp: tree_call_guard_def tree_callbacks_keepD split: sum.splits)

lemma tree_action_code_keeps [step_inv]:
  "tree_callbacks_keep P \<Longrightarrow> preserves P (tree_action_code env e sd td a)"
  unfolding tree_action_code_def
  by (rule preserves_lift_step) (auto simp: tree_callbacks_keepD split: prod.splits sum.splits)

lemma tree_hook_calls_keeps [step_inv]: "tree_callbacks_keep P \<Longrightarrow> preserves P (tree_hook_calls env as sd)"
  unfolding tree_hook_calls_def by (intro step_inv)

lemma place_hooks_keeps [step_inv]: "tree_callbacks_keep P \<Longrightarrow> preserves P (place_hooks env code w p)"
  unfolding place_hooks_def Let_def by (intro step_inv)

lemma put_tree_skip_keeps [step_inv]: "tree_callbacks_keep P \<Longrightarrow> preserves P (update (put_tree_skip p b))"
  by (rule preserves_update) (rule tree_callbacks_keepD)

lemma tree_exit_keeps:
  assumes P: "tree_callbacks_keep P"
  shows "preserves P (tree_exit_children m env code p)" "preserves P (tree_exit_node m env code i)"
proof -
  have place: "preserves P (tree_exit_place m env code p)" if "\<And>p. preserves P (tree_exit_children m env code p)" for m p
    by (simp only: tree_exit_place.simps) (intro step_inv P that)
  have node: "preserves P (tree_exit_node m env code i)" if "\<And>p. preserves P (tree_exit_children m env code p)" for m i
    by (simp only: tree_exit_node.simps) (intro preserves_for_each place that)
  have children: "preserves P (tree_exit_children m env code p)" for m p
  proof (induction m arbitrary: p)
    case (Suc m)
    from node [OF this] show ?case by (simp only: tree_exit_children.simps) (intro step_inv)
  qed simp
  show "preserves P (tree_exit_children m env code p)" "preserves P (tree_exit_node m env code i)"
    by (rule children) (rule node [OF children])
qed

lemma tree_leave_source_keeps [step_inv]: "tree_callbacks_keep P \<Longrightarrow> preserves P (tree_leave_source env code p br sd)"
  unfolding tree_leave_source_def exit_below_def
  by (intro preserves_with_core preserves_if put_tree_skip_keeps preserves_then_do tree_exit_keeps
      tree_hook_calls_keeps triple_ret)

lemma tree_queue_steps_keep [step_inv]:
  assumes "tree_callbacks_keep P"
  shows "preserves P (tree_defer env e)" "preserves P (tree_pend env e)"
    "preserves P (tree_pop_deferred env)" "preserves P (tree_pop_pending env)"
  unfolding tree_defer_def tree_pend_def tree_pop_deferred_def tree_pop_pending_def
  using assms
  by (auto intro!: preserves_lift_step simp: push_tree_queue_def tree_callbacks_keepD split: prod.splits)

lemma tree_process_keeps [step_inv]:
  "tree_callbacks_keep P \<Longrightarrow> (\<And>e. preserves P (rec e)) \<Longrightarrow> preserves P (tree_process env code rec sd td x)"
  unfolding tree_process_def Let_def by (intro step_inv) auto

lemma tree_drain_keeps [step_inv]:
  "tree_callbacks_keep P \<Longrightarrow> (\<And>e. preserves P (rec e)) \<Longrightarrow> preserves P (tree_drain env code rec n)"
  unfolding tree_drain_def tree_drain_step_def by (intro step_inv) (auto intro!: step_inv)

section \<open>Branches of a state\<close>

definition branch_in :: "tree_code \<Rightarrow> place \<Rightarrow> string \<Rightarrow> composite_branch \<Rightarrow> bool" where
  "branch_in code p st br \<longleftrightarrow>
     (let r = place_region code p in
      (\<exists>e. br \<in> set (event_rows (tr_events r) st e)) \<or>
      (\<exists>e w rows. ((st, e), rows) \<in> set (tr_origin r) \<and> (w, br) \<in> set rows) \<or>
      (\<exists>w rows. (st, rows) \<in> set (tr_anonymous r) \<and> (w, br) \<in> set rows) \<or>
      (\<exists>bs. (st, bs) \<in> set (tr_exceptions r) \<and> br \<in> set bs))"

lemma eligible_subset: "br \<in> set (eligible b x) \<Longrightarrow> \<exists>rows w. x = Some rows \<and> (w, br) \<in> set rows"
  by (auto simp: eligible_def split: option.splits)

lemma selected_place_rows:
  "br \<in> set (event_rows (tr_events (place_region code p)) st e) \<Longrightarrow> branch_in code p st br"
  "br \<in> set (eligible b (map_of (tr_origin (place_region code p)) (st, e))) \<Longrightarrow> branch_in code p st br"
  "br \<in> set (eligible b (map_of (tr_anonymous (place_region code p)) st)) \<Longrightarrow> branch_in code p st br"
  "br \<in> set (case map_of (tr_exceptions (place_region code p)) st of None \<Rightarrow> [] | Some bs \<Rightarrow> bs) \<Longrightarrow> branch_in code p st br"
  unfolding branch_in_def Let_def
     apply blast
    apply (blast dest: eligible_subset map_of_SomeD)
   apply (blast dest: eligible_subset map_of_SomeD)
  apply (cases "map_of (tr_exceptions (place_region code p)) st"; force dest: map_of_SomeD)
  done

section \<open>Invariants of runs\<close>

locale tree_invariant =
  fixes env :: "('c, 'v, 'err, 'q) region_env" and code :: tree_code
    and P :: "('c, 'v, 'q) tree_core \<Rightarrow> bool"
  assumes callbacks: "tree_callbacks_keep P"
    and change: "\<And>p st br k v b. place_ok code p \<Longrightarrow> branch_in code p st br \<Longrightarrow> \<not> cd_internal br \<Longrightarrow> P k \<Longrightarrow>
      variant (tree_state p k) = st \<Longrightarrow> variant v = cd_out_state br \<Longrightarrow> P (place_replaced b p v k)"
    and reset: "\<And>i k. 0 < i \<Longrightarrow> i < length (tm_tables code) \<Longrightarrow> P k \<Longrightarrow> P (reset_table env code i k)"
begin

abbreviation in_place_state :: "place \<Rightarrow> string \<Rightarrow> ('c, 'v, 'q) tree_core \<Rightarrow> bool" where
  "in_place_state p st k \<equiv> P k \<and> variant (tree_state p k) = st"

lemmas at_keep = tree_callbacks_keep_at [OF callbacks]

lemma enter_below_keeps:
  assumes ok: "tree_ok code" "place_ok code p"
  shows "preserves P (tree_enter_children m env code p)" "preserves P (tree_enter_place m env code p)"
proof -
  have place: "preserves P (tree_enter_place m env code p)" if "preserves P (tree_enter_children m env code p)" for m p
    by (simp only: tree_enter_place.simps) (intro step_inv callbacks that)
  have "place_ok code p \<longrightarrow> preserves P (tree_enter_children m env code p)" for m p
  proof (induction m arbitrary: p)
    case (Suc m)
    have node: "preserves P (tree_enter_node m env code i)" if i: "0 < i" "i < length (tm_tables code)" for i
      unfolding tree_enter_node.simps
      using Suc table_places_ok [OF i(2)]
      by (intro preserves_then_do preserves_update reset [OF i] preserves_for_each place) auto
    show ?case
    proof
      assume p: "place_ok code p"
      show "preserves P (tree_enter_children (Suc m) env code p)"
        unfolding tree_enter_children.simps
        by (intro preserves_with_core preserves_case_option triple_ret node) (auto dest: place_child_ok [OF ok(1) p])
    qed
  qed simp
  then show "preserves P (tree_enter_children m env code p)" using ok by blast
  then show "preserves P (tree_enter_place m env code p)" by (rule place)
qed

lemma at_weaken:
  "preserves (in_place_state p st) m \<Longrightarrow> triple (in_place_state p st) m (\<lambda>_. in_place_state p st) P"
  for m :: "('c, 'v, 'err, 'q, 'a) tree_step"
  by (erule triple_post) auto

lemma change_place_keeps:
  assumes ok: "tree_ok code" "place_ok code p" and br: "branch_in code p st br" "\<not> cd_internal br"
    and actions: "preserves (in_place_state p st) actions"
  shows "triple (in_place_state p st) (change_place env code p br sd actions) (\<lambda>_. P) P"
proof -
  have replace: "triple (in_place_state p st) (update (place_replaced b p (Variant (cd_out_state br) new))) (\<lambda>_. P) P" for b new
    using br by (intro triple_update) (auto intro: change [OF ok(2)])
  have enter: "preserves P (if cb_enter_child br then enter_below env code p else ret ())"
    unfolding enter_below_def by (intro preserves_if enter_below_keeps ok triple_ret)
  have "triple (in_place_state p st) (tree_reach_target env code p br data) (\<lambda>_. P) P" for data
    unfolding tree_reach_target_def Let_def
    by (rule triple_then_do [OF replace preserves_then_do [OF tree_hook_calls_keeps [OF callbacks] enter]])
  then show ?thesis
    unfolding change_place_def
    by (intro triple_then_do [OF at_weaken [OF tree_leave_source_keeps [OF at_keep]]]
        triple_then_do [OF at_weaken [OF put_tree_skip_keeps [OF at_keep]]] triple_bind [OF at_weaken [OF actions]])
qed

lemma tree_run_row_keeps:
  assumes ok: "tree_ok code" "place_ok code p" and br: "branch_in code p st br" and rec: "\<And>e. preserves P (rec e)"
  shows "triple (in_place_state p st) (tree_run_row env code rec n p td br) (\<lambda>b k. P k \<and> (\<not> b \<longrightarrow> in_place_state p st k)) P"
proof -
  have acts: "preserves (in_place_state p st) (run_steps (tree_guard_code env e sd td) (tree_action_code env e sd td) steps None)"
    for e sd td steps
    by (intro run_steps_keeps tree_guard_code_keeps tree_action_code_keeps at_keep)
  show ?thesis
    unfolding tree_run_row_def Let_def
    by (rule triple_with_core, rule triple_pre [of _ "in_place_state p st"], simp,
        intro emitted_row_keeps tree_guard_code_keeps at_keep acts change_place_keeps ok br step_inv callbacks rec) simp
qed

lemma tree_run_rows_keeps:
  assumes ok: "tree_ok code" "place_ok code p"
    and "\<And>br. br \<in> set brs \<Longrightarrow> branch_in code p st br" and rec: "\<And>e. preserves P (rec e)"
  shows "triple (in_place_state p st) (tree_run_rows env code rec n p td brs) (\<lambda>_. P) P"
  using assms(3)
proof (induction brs)
  case Nil
  show ?case by (auto intro: triple_ret)
next
  case (Cons br brs)
  have "triple (\<lambda>k. P k \<and> (\<not> b \<longrightarrow> in_place_state p st k))
      (if b then ret (Some (cb_moves br)) else tree_run_rows env code rec n p td brs) (\<lambda>_. P) P" for b
    using Cons by (cases b) (auto intro!: triple_ret)
  then show ?case
    unfolding tree_run_rows.simps by (intro triple_bind [OF tree_run_row_keeps [OF ok]]) (simp_all add: Cons.prems rec)
qed

text \<open>Rows selected by the state of the place.\<close>

lemma selected_place_rows_keep:
  assumes ok: "tree_ok code" "place_ok code p"
    and rows: "\<And>k br. br \<in> set (rows k) \<Longrightarrow> branch_in code p (variant (tree_state p k)) br"
    and rec: "\<And>e. preserves P (rec e)"
  shows "preserves P (with_core (\<lambda>k. tree_run_rows env code rec n p td (rows k)))"
proof (rule triple_with_core)
  fix k0
  have "triple (in_place_state p (variant (tree_state p k0))) (tree_run_rows env code rec n p td (rows k0)) (\<lambda>_. P) P"
    by (rule tree_run_rows_keeps [OF ok rows rec])
  then show "triple (\<lambda>k. k = k0 \<and> P k) (tree_run_rows env code rec n p td (rows k0)) (\<lambda>_. P) P"
    by (rule triple_pre [rotated]) simp
qed

lemma place_steps_keep:
  assumes ok: "tree_ok code" "place_ok code p" and rec: "\<And>e. preserves P (rec e)"
  shows "preserves P (dispatch_place env code rec n e p)" "preserves P (exception_step env code rec n err p)"
    "preserves P (complete_place env code rec n origin p)"
proof -
  show "preserves P (dispatch_place env code rec n e p)"
    unfolding dispatch_place_def
    by (intro preserves_bind selected_place_rows_keep ok rec) (auto intro: selected_place_rows triple_ret)
  show "preserves P (exception_step env code rec n err p)"
    unfolding exception_step_def by (rule selected_place_rows_keep [OF ok selected_place_rows(4) rec])
  have origin: "preserves P (with_core (\<lambda>k. tree_run_rows env code rec n p td
      (eligible (tree_child_terminal code p k) (map_of (tr_origin (place_region code p)) (variant (tree_state p k), e)))))" for td e
    by (rule selected_place_rows_keep [OF ok selected_place_rows(2) rec])
  have anonymous: "preserves P (with_core (\<lambda>k. tree_run_rows env code rec n p NoData
      (eligible (tree_child_terminal code p k) (map_of (tr_anonymous (place_region code p)) (variant (tree_state p k))))))"
    by (rule selected_place_rows_keep [OF ok selected_place_rows(3) rec])
  show "preserves P (complete_place env code rec n origin p)"
    unfolding complete_place_def Let_def
    by (intro preserves_bind preserves_case_option preserves_if origin anonymous) (auto intro: triple_ret)
qed

lemma dispatch_places_keeps:
  assumes ok: "tree_ok code" and rec: "\<And>e. preserves P (rec e)"
  shows "(\<And>p. p \<in> set ps \<Longrightarrow> place_ok code p) \<Longrightarrow> preserves P (dispatch_places env code rec n e flags ps)"
proof (induction ps)
  case (Cons p ps)
  then show ?case
    unfolding dispatch_places.simps Let_def
    by (intro preserves_bind preserves_if place_steps_keep(1) ok rec triple_ret) auto
qed (simp add: triple_ret)

lemma dispatch_nodes_keeps:
  assumes ok: "tree_ok code" and rec: "\<And>e. preserves P (rec e)"
  shows "(\<And>i. i \<in> set is \<Longrightarrow> i < length (tm_tables code)) \<Longrightarrow> preserves P (dispatch_nodes env code rec n e is flags)"
proof (induction "is" arbitrary: flags)
  case (Cons i "is")
  have "preserves P (dispatch_node env code rec n e i flags)"
    unfolding dispatch_node_def using Cons.prems [of i]
    by (intro preserves_bind preserves_with_core preserves_if dispatch_places_keeps ok rec triple_ret)
      (auto intro: table_places_ok)
  then show ?case unfolding dispatch_nodes.simps using Cons by (intro preserves_bind) auto
qed (simp add: triple_ret)

lemma dispatch_root_keeps:
  assumes ok: "tree_ok code" and rec: "\<And>e. preserves P (rec e)"
  shows "(\<And>p. p \<in> set ps \<Longrightarrow> place_ok code p) \<Longrightarrow> preserves P (dispatch_root env code rec n e ps)"
proof (induction ps)
  case (Cons p ps)
  have "preserves P (dispatch_nodes env code rec n e (filter (\<lambda>i. i \<in> set nested) (tm_order code)) [])" for nested
    using ok by (intro dispatch_nodes_keeps ok rec) (auto simp: tree_ok_def)
  with Cons show ?case
    unfolding dispatch_root.simps Let_def
    by (intro preserves_bind preserves_if place_steps_keep(1) ok rec triple_ret) auto
qed (simp add: triple_ret)

lemma recover_places_keeps:
  assumes ok: "tree_ok code" and rec: "\<And>e. preserves P (rec e)"
  shows "(\<And>p. p \<in> set ps \<Longrightarrow> place_ok code p) \<Longrightarrow> preserves P (recover_places env code rec n err fault ps acc)"
proof (induction ps arbitrary: acc)
  case (Cons p ps)
  have rest: "preserves P (recover_places env code rec n err fault ps acc)" for acc using Cons by auto
  obtain recovery exited where "acc = (recovery, exited)" by (cases acc)
  then show ?case
    by (simp only: recover_places.simps Let_def) (intro preserves_bind place_steps_keep(2) ok rec rest, simp add: Cons.prems)
qed (simp add: triple_ret)

lemma tree_recover_walk_keeps:
  assumes ok: "tree_ok code" and rec: "\<And>e. preserves P (rec e)"
  shows "preserves P (tree_recover_walk env code rec n err fault)"
proof -
  have table: "preserves P (recover_table_of env code rec n err fault i acc)" if i: "i < length (tm_tables code)" for i acc
    unfolding recover_table_of_def Let_def
    by (cases acc; simp only: prod.case)
      (intro preserves_with_core preserves_if preserves_bind recover_places_keeps place_steps_keep(2) ok rec triple_ret
        scalar_place_ok [OF ok i]; blast intro: table_places_ok [OF i])
  have "(\<And>i. i \<in> set is \<Longrightarrow> i < length (tm_tables code)) \<Longrightarrow> preserves P (recover_tables env code rec n err fault is acc)" for "is" acc
    by (induction "is" arbitrary: acc) (auto intro!: preserves_bind table triple_ret)
  then show ?thesis unfolding tree_recover_walk_def using inner_first_ok [OF ok] by blast
qed

lemma tree_attempt_keeps:
  assumes ok: "tree_ok code" and rec: "\<And>e. preserves P (rec e)"
  shows "preserves P (tree_attempt env code rec n e)"
proof -
  have "0 < length (tm_tables code)" using ok by (simp add: tree_ok_def)
  then have "preserves P (dispatch_root env code rec n e (table_places code 0))"
    by (intro dispatch_root_keeps ok rec table_places_ok) auto
  then show ?thesis
    unfolding tree_attempt_def Let_def
    by (intro step_inv tree_recover_walk_keeps ok rec; simp add: triple_ret triple_raise split: prod.split)
qed

lemma complete_places_keeps:
  assumes ok: "tree_ok code" and rec: "\<And>e. preserves P (rec e)"
  shows "(\<And>p. p \<in> set ps \<Longrightarrow> place_ok code p) \<Longrightarrow> preserves P (complete_places env code rec n origin settled ps)"
proof (induction ps)
  case (Cons p ps)
  then have ps: "preserves P (complete_places env code rec n origin settled ps)" and p: "place_ok code p" by auto
  show ?case
    unfolding complete_places.simps Let_def
    by (intro preserves_if ps preserves_bind preserves_catch place_steps_keep(3) ok p rec triple_ret triple_raise)
      (auto intro!: preserves_bind ps triple_ret split: sum.split)
qed (simp add: triple_ret)

lemma complete_tables_keeps:
  assumes ok: "tree_ok code" and rec: "\<And>e. preserves P (rec e)"
  shows "(\<And>i. i \<in> set is \<Longrightarrow> i < length (tm_tables code)) \<Longrightarrow> preserves P (complete_tables env code rec n origin settled is)"
proof (induction "is")
  case (Cons i "is")
  then have "i < length (tm_tables code)" by simp
  with Cons show ?case
    unfolding complete_tables.simps
    by (intro preserves_bind preserves_with_core preserves_if complete_places_keeps ok rec triple_ret)
      (auto intro: table_places_ok)
qed (simp add: triple_ret)

lemma tree_stabilize_keeps:
  assumes ok: "tree_ok code" and rec: "\<And>e. preserves P (rec e)"
  shows "preserves P (tree_stabilize m env code rec n origin settled)"
proof (induction m arbitrary: origin settled)
  case (Suc m)
  have pass: "preserves P (complete_tables env code rec n origin settled (inner_first code))"
    by (rule complete_tables_keeps [OF ok rec inner_first_ok [OF ok]])
  show ?case
    unfolding tree_stabilize.simps
    by (intro preserves_bind pass)
      (auto intro!: preserves_bind preserves_case_option tree_recover_walk_keeps ok rec Suc.IH triple_ret triple_raise
        simp: Let_def split: sum.split prod.split)
qed simp

lemma tree_dispatch_keeps:
  assumes ok: "tree_ok code" and rec: "\<And>e. preserves P (rec e)"
  shows "preserves P (tree_dispatch env code rec n e)"
proof -
  have "preserves P (update (tree_log (TreeEvent (variant e))))"
    by (rule preserves_update) (rule tree_callbacks_keepD [OF callbacks])
  then show ?thesis
    unfolding tree_dispatch_def stabilize_tree_def
    by (auto intro!: step_inv tree_attempt_keeps tree_stabilize_keeps ok rec split: prod.split)
qed

theorem tree_process_event_keeps:
  assumes ok: "tree_ok code"
  shows "preserves P (tree_process_event n env code e)"
proof -
  have sync: "preserves P (tree_process_sync n env code e)" for n e
    by (induction n arbitrary: e) (simp_all add: tree_dispatch_keeps ok)
  have "preserves P (tree_process_async n env code e)"
    unfolding tree_process_async_def using callbacks
    by (intro step_inv) (auto intro!: step_inv tree_dispatch_keeps ok)
  then show ?thesis using sync by (simp add: tree_process_event_def)
qed

lemma tree_initialize_keeps:
  assumes ok: "tree_ok code"
  shows "preserves P (tree_initialize n env code)"
proof -
  have n: "0 < length (tm_tables code)" using ok by (simp add: tree_ok_def)
  have places: "preserves P (for_each (tree_enter_place m env code) (table_places code 0))" for m
    by (intro preserves_for_each enter_below_keeps ok table_places_ok [OF n])
  have below: "preserves P (enter_below env code (0, 0))" if "\<not> tt_orthogonal (tm_tables code ! 0)"
    unfolding enter_below_def by (rule enter_below_keeps [OF ok scalar_place_ok [OF ok n that]])
  show ?thesis
    unfolding tree_initialize_def root_initial_entry_def stabilize_tree_def Let_def
    by (intro step_inv places below tree_stabilize_keeps ok tree_process_event_keeps callbacks)
qed

lemma tree_reachable_keeps:
  assumes "tree_reachable env code k" "tree_ok code" and start: "\<And>ctx. P (new_tree_core env code ctx)"
  shows "P k"
  using assms(1)
proof induction
  case (tree_initialized n ctx k r)
  from preservesD [OF tree_initialize_keeps [OF assms(2)] tree_initialized start] show ?case .
next
  case (tree_processed k n e k' r)
  then show ?case by (blast intro: preservesD [OF tree_process_event_keeps [OF assms(2)]])
qed

end

end
