(* ===== verification/Tree_Forest.thy ===== *)
theory Tree_Forest
  imports Tree_Nodes
begin

text \<open>
  What the walk over the tables of a composite tree finds: when it accepts, the tables that can be
  reached from the root form a tree. Every table but the root has exactly one owner, no table is
  below itself, and owners and depths are as recorded.
\<close>

section \<open>Ownership\<close>

definition child_names :: "state_machine list \<Rightarrow> string \<Rightarrow> string list" where
  "child_names sms r = (case table_named sms r of None \<Rightarrow> [] | Some sm \<Rightarrow> child_references (machine_names sms) sm)"

definition owns :: "state_machine list \<Rightarrow> (string \<times> string) set" where
  "owns sms = {(p, c). c \<in> set (child_names sms p)}"

text \<open>The entries that the visited nodes put into the queue.\<close>

definition queued_by :: "state_machine list \<Rightarrow> string \<times> string \<times> nat \<Rightarrow> (string \<times> string \<times> nat) list" where
  "queued_by sms = (\<lambda>(r, _, d). map (\<lambda>c. (c, r, Suc d)) (child_names sms r))"

definition entries :: "tree_walk \<Rightarrow> (string \<times> string \<times> nat) list" where
  "entries w = map (\<lambda>r. (r, the (map_of (tw_parents w) r), the (map_of (tw_depths w) r))) (tw_names w)"

definition walk_ok :: "tree_walk \<Rightarrow> bool" where
  "walk_ok w \<longleftrightarrow> distinct (tw_names w) \<and> map fst (tw_parents w) = tw_names w \<and> map fst (tw_depths w) = tw_names w \<and>
     length (tw_tables w) = length (tw_names w)"

lemma update_new: "k \<notin> set (map fst al) \<Longrightarrow> AList.update k v al = al @ [(k, v)]"
  by (induction al) auto

lemma visit_node_ok:
  assumes "walk_ok w" "r \<notin> set (tw_names w)"
  shows "walk_ok (visit_node children (r, p, d) sm w)" "entries (visit_node children (r, p, d) sm w) = entries w @ [(r, p, d)]"
proof -
  from assms have new: "r \<notin> set (map fst (tw_parents w))" "r \<notin> set (map fst (tw_depths w))" by (simp_all add: walk_ok_def)
  from assms show "walk_ok (visit_node children (r, p, d) sm w)"
    by (simp add: walk_ok_def visit_node_def update_new [OF new(1)] update_new [OF new(2)])
  from assms(2) show "entries (visit_node children (r, p, d) sm w) = entries w @ [(r, p, d)]"
    by (auto simp: entries_def visit_node_def update_conv')
qed

text \<open>The walk visits what was queued, in the order in which it was queued.\<close>

lemma walk_tree_entries:
  assumes "walk_tree sms root queue w = Ok w'" "walk_ok w" "entries w @ queue = seed @ concat (map (queued_by sms) (entries w))"
  shows "walk_ok w' \<and> entries w' = seed @ concat (map (queued_by sms) (entries w'))"
  using assms
proof (induction sms root queue w rule: walk_tree.induct)
  case (1 sms root w)
  then show ?case by simp
next
  case (2 sms root r p d queue w)
  from "2.prems"(1) obtain original where
    new: "r \<notin> set (tw_names w)" and table: "table_named sms r = Some original" and valid: "validate_composite root original = Inr ()"
    by (auto split: if_splits option.splits sum.splits)
  let ?children = "child_references (machine_names sms) original"
  let ?queue = "queue @ map (\<lambda>c. (c, r, Suc d)) ?children" and ?w = "visit_node ?children (r, p, d) original w"
  from "2.prems"(1) new table valid have run: "walk_tree sms root ?queue ?w = Ok w'" by (simp add: Let_def)
  have "queued_by sms (r, p, d) = map (\<lambda>c. (c, r, Suc d)) ?children"
    using table by (simp add: queued_by_def child_names_def)
  with "2.prems"(3) have "entries ?w @ ?queue = seed @ concat (map (queued_by sms) (entries ?w))"
    by (simp add: visit_node_ok(2) [OF "2.prems"(2) new])
  from "2.IH" [OF new table valid refl run visit_node_ok(1) [OF "2.prems"(2) new] this] show ?case .
qed

section \<open>The tree\<close>

definition accepted_walk :: "state_machine list \<Rightarrow> string \<Rightarrow> tree_walk \<Rightarrow> bool" where
  "accepted_walk sms root w \<longleftrightarrow> walk_ok w \<and> child_names sms root \<noteq> [] \<and>
     entries w = seed_queue (child_names sms root) root @ concat (map (queued_by sms) (entries w))"

lemma accepted_walkD:
  assumes "accepted_walk sms root w"
  shows "walk_ok w" "child_names sms root \<noteq> []"
    "entries w = seed_queue (child_names sms root) root @ concat (map (queued_by sms) (entries w))"
  using assms unfolding accepted_walk_def by blast+

abbreviation walk_names :: "tree_walk \<Rightarrow> string set" where "walk_names w \<equiv> set (tw_names w)"

abbreviation walk_depth :: "tree_walk \<Rightarrow> string \<Rightarrow> nat" where "walk_depth w n \<equiv> the (map_of (tw_depths w) n)"

lemma entries_names: "map fst (entries w) = tw_names w"
  by (simp add: entries_def o_def)

lemma known: "walk_ok w \<Longrightarrow> n \<in> walk_names w \<Longrightarrow> map_of (tw_parents w) n \<noteq> None \<and> map_of (tw_depths w) n \<noteq> None"
  by (metis map_of_eq_None_iff list.set_map walk_ok_def)

lemma entryD:
  assumes "walk_ok w" "(n, p, d) \<in> set (entries w)"
  shows "n \<in> walk_names w" "map_of (tw_parents w) n = Some p" "map_of (tw_depths w) n = Some d"
  using assms known [of w n] by (auto simp: entries_def)

lemma entryI: "n \<in> walk_names w \<Longrightarrow> (n, the (map_of (tw_parents w) n), walk_depth w n) \<in> set (entries w)"
  by (simp add: entries_def)

lemma entry_cases:
  assumes acc: "accepted_walk sms root w" and "(n, p, d) \<in> set (entries w)"
  obtains (root) "p = root" "d = 1" "(root, n) \<in> owns sms"
    | (node) "p \<in> walk_names w" "d = Suc (walk_depth w p)" "(p, n) \<in> owns sms"
proof -
  from assms(2) have "(n, p, d) \<in> set (seed_queue (child_names sms root) root @ concat (map (queued_by sms) (entries w)))"
    by (simp only: accepted_walkD(3) [OF acc, symmetric])
  then have "(n, p, d) \<in> set (seed_queue (child_names sms root) root) \<or>
      (\<exists>e \<in> set (entries w). (n, p, d) \<in> set (queued_by sms e))" by auto
  then show thesis
  proof
    assume "(n, p, d) \<in> set (seed_queue (child_names sms root) root)"
    then show thesis by (intro that(1)) (auto simp: seed_queue_def owns_def)
  next
    assume "\<exists>e \<in> set (entries w). (n, p, d) \<in> set (queued_by sms e)"
    then obtain q e where "(p, q, e) \<in> set (entries w)" "d = Suc e" "n \<in> set (child_names sms p)"
      by (auto simp: queued_by_def)
    then show thesis using entryD [OF accepted_walkD(1) [OF acc], of p q e] by (intro that(2)) (auto simp: owns_def)
  qed
qed

lemma children_visited:
  assumes acc: "accepted_walk sms root w"
  shows "(root, c) \<in> owns sms \<Longrightarrow> (c, root, 1) \<in> set (entries w)"
    and "n \<in> walk_names w \<Longrightarrow> (n, c) \<in> owns sms \<Longrightarrow> (c, n, Suc (walk_depth w n)) \<in> set (entries w)"
proof -
  show "(c, root, 1) \<in> set (entries w)" if "(root, c) \<in> owns sms"
    using that by (subst accepted_walkD(3) [OF acc]) (auto simp: seed_queue_def owns_def)
  show "(c, n, Suc (walk_depth w n)) \<in> set (entries w)" if "n \<in> walk_names w" "(n, c) \<in> owns sms"
    using that entryI [OF that(1)] by (subst accepted_walkD(3) [OF acc]) (force simp: queued_by_def owns_def)
qed

lemma child_recorded:
  assumes acc: "accepted_walk sms root w"
  shows "(root, c) \<in> owns sms \<Longrightarrow> c \<in> walk_names w \<and> map_of (tw_parents w) c = Some root \<and> map_of (tw_depths w) c = Some 1"
    and "n \<in> walk_names w \<Longrightarrow> (n, c) \<in> owns sms \<Longrightarrow>
      c \<in> walk_names w \<and> map_of (tw_parents w) c = Some n \<and> map_of (tw_depths w) c = Some (Suc (walk_depth w n))"
  using entryD [OF accepted_walkD(1) [OF acc]] children_visited [OF acc] by blast+

lemma root_not_visited:
  assumes acc: "accepted_walk sms root w"
  shows "root \<notin> walk_names w"
proof
  assume visited: "root \<in> walk_names w"
  from accepted_walkD(2) [OF acc] obtain c where c: "c \<in> set (child_names sms root)" by (cases "child_names sms root") auto
  let ?seed = "seed_queue (child_names sms root) root" and ?rest = "concat (map (queued_by sms) (entries w))"
  from c have "c \<in> fst ` set ?seed" by (force simp: seed_queue_def)
  moreover from c entryI [OF visited] have "c \<in> fst ` set ?rest" by (force simp: queued_by_def)
  moreover have "distinct (map fst (?seed @ ?rest))"
    using accepted_walkD(1) [OF acc] entries_names [of w] by (simp only: accepted_walkD(3) [OF acc, symmetric] walk_ok_def)
  ultimately show False by auto
qed

lemma below_visited:
  assumes acc: "accepted_walk sms root w" and "(a, b) \<in> (owns sms)\<^sup>+" "a \<in> walk_names w"
  shows "b \<in> walk_names w \<and> walk_depth w a < walk_depth w b"
  using assms(2)
proof induction
  case (base c)
  from child_recorded(2) [OF acc assms(3) base] show ?case by simp
next
  case (step c b)
  then have "c \<in> walk_names w" by simp
  from child_recorded(2) [OF acc this step(2)] step.IH show ?case by simp
qed

lemma visited_reached:
  assumes acc: "accepted_walk sms root w"
  shows "n \<in> walk_names w \<Longrightarrow> (root, n) \<in> (owns sms)\<^sup>+"
proof (induction "walk_depth w n" arbitrary: n rule: less_induct)
  case less
  from acc entryI [OF less.prems] show ?case
  proof (cases rule: entry_cases)
    case root
    then show ?thesis by blast
  next
    case node
    with less.hyps [OF _ node(1)] show ?thesis by (auto intro: trancl_into_trancl)
  qed
qed

lemma visited_iff:
  assumes acc: "accepted_walk sms root w"
  shows "walk_names w = (owns sms)\<^sup>+ `` {root}"
proof
  show "walk_names w \<subseteq> (owns sms)\<^sup>+ `` {root}" using visited_reached [OF acc] by blast
  show "(owns sms)\<^sup>+ `` {root} \<subseteq> walk_names w"
  proof
    fix n assume "n \<in> (owns sms)\<^sup>+ `` {root}"
    then obtain c where c: "(root, c) \<in> owns sms" "c = n \<or> (c, n) \<in> (owns sms)\<^sup>+"
      by (metis ImageE singletonD tranclD rtranclD)
    with child_recorded(1) [OF acc c(1)] below_visited [OF acc] show "n \<in> walk_names w" by blast
  qed
qed

lemma no_cycle:
  assumes acc: "accepted_walk sms root w"
  shows "n \<in> insert root (walk_names w) \<Longrightarrow> (n, n) \<notin> (owns sms)\<^sup>+"
  using below_visited [OF acc] root_not_visited [OF acc] visited_iff [OF acc] by blast

text \<open>Climbing from a visited node passes visited nodes only and ends at the root.\<close>

lemma climb_visited:
  assumes acc: "accepted_walk sms root w"
  shows "n \<in> walk_names w \<Longrightarrow> walk_depth w n \<le> m \<Longrightarrow> climb m (tw_parents w) n \<noteq> [] \<and>
    snd (last (climb m (tw_parents w) n)) = root \<and> set (map fst (climb m (tw_parents w) n)) \<subseteq> walk_names w"
proof (induction m arbitrary: n)
  case 0
  from acc entryI [OF "0.prems"(1)] "0.prems"(2) show ?case by (cases rule: entry_cases) auto
next
  case (Suc m)
  let ?p = "the (map_of (tw_parents w) n)"
  from known [OF accepted_walkD(1) [OF acc] Suc.prems(1)]
  have climb: "climb (Suc m) (tw_parents w) n = (n, ?p) # climb m (tw_parents w) ?p" by auto
  from acc entryI [OF Suc.prems(1)] show ?case
  proof (cases rule: entry_cases)
    case root
    have "map_of (tw_parents w) root = None"
      using root_not_visited [OF acc] accepted_walkD(1) [OF acc] by (metis map_of_eq_None_iff list.set_map walk_ok_def)
    then have "climb m (tw_parents w) root = []" by (cases m) auto
    with climb root Suc.prems(1) show ?thesis by simp
  next
    case node
    with Suc.IH [OF node(1)] Suc.prems climb show ?thesis by auto
  qed
qed

lemma depth_bound:
  assumes acc: "accepted_walk sms root w" and "n \<in> walk_names w"
  shows "walk_depth w n \<le> length (tw_names w)"
proof -
  have "n \<in> walk_names w \<Longrightarrow> \<exists>S \<subseteq> walk_names w. card S = walk_depth w n \<and> (\<forall>s \<in> S. walk_depth w s \<le> walk_depth w n)" for n
  proof (induction "walk_depth w n" arbitrary: n rule: less_induct)
    case less
    from acc entryI [OF less.prems] show ?case
    proof (cases rule: entry_cases)
      case root
      then show ?thesis using less.prems by (intro exI [of _ "{n}"]) auto
    next
      case node
      with less.hyps [OF _ node(1)] obtain S where
        S: "S \<subseteq> walk_names w" "card S = walk_depth w (the (map_of (tw_parents w) n))" "\<forall>s \<in> S. walk_depth w s < walk_depth w n"
        by fastforce
      then have "n \<notin> S" by blast
      moreover have "finite S" using S(1) by (rule finite_subset) simp
      ultimately show ?thesis using S less.prems node by (intro exI [of _ "insert n S"]) auto
    qed
  qed
  from this [OF assms(2)] show ?thesis by (metis List.finite_set card_length card_mono order_trans)
qed

lemma climb_to_root:
  assumes acc: "accepted_walk sms root w" and "n \<in> walk_names w"
  shows "tree_path (tw_parents w) n \<noteq> [] \<and> snd (last (tree_path (tw_parents w) n)) = root \<and>
    set (map fst (tree_path (tw_parents w) n)) \<subseteq> walk_names w"
proof -
  have "length (tw_parents w) = length (tw_names w)" using accepted_walkD(1) [OF acc] by (metis length_map walk_ok_def)
  then show ?thesis using climb_visited [OF acc assms(2) depth_bound [OF assms]] by (simp add: tree_path_def)
qed

lemma tree_tables_accepted:
  assumes "tree_tables sms parent (child_references (machine_names sms) parent) = Ok (table, w)"
    and "machine_name parent = Some root" "table_named sms root = Some parent"
    and "child_references (machine_names sms) parent \<noteq> []"
  shows "accepted_walk sms root w"
proof -
  have children: "child_names sms root = child_references (machine_names sms) parent"
    using assms(3) by (simp add: child_names_def)
  from assms(1,2) have "walk_tree sms table (seed_queue (child_names sms root) root) no_walk = Ok w"
    by (auto simp: tree_tables_def try_then_Inr_iff children Let_def)
  moreover have "walk_ok no_walk" "entries no_walk = []" by (simp_all add: walk_ok_def no_walk_def entries_def)
  ultimately show ?thesis
    using walk_tree_entries [of sms table _ no_walk w "seed_queue (child_names sms root) root"] assms(4) children
    by (simp only: accepted_walk_def append_Nil list.map concat.simps append_Nil2 not_False_eq_True simp_thms)
qed

section \<open>Owners come first\<close>

definition owners_first :: "string \<Rightarrow> tree_walk \<Rightarrow> bool" where
  "owners_first root w \<longleftrightarrow> (\<forall>j < length (tw_names w). \<forall>p. map_of (tw_parents w) (tw_names w ! j) = Some p \<longrightarrow>
     p = root \<or> p \<in> set (take j (tw_names w)))"

lemma walk_owners_first:
  assumes "walk_tree sms table queue w = Ok w'" "walk_ok w" "owners_first root w"
    and "\<forall>(c, p, d) \<in> set queue. p = root \<or> p \<in> walk_names w"
  shows "owners_first root w'"
  using assms
proof (induction sms table queue w rule: walk_tree.induct)
  case (1 sms table w)
  then show ?case by simp
next
  case (2 sms table r p d queue w)
  from "2.prems"(1) obtain original where
    new: "r \<notin> set (tw_names w)" and orig: "table_named sms r = Some original" and valid: "validate_composite table original = Inr ()"
    by (auto split: if_splits option.splits sum.splits)
  let ?children = "child_references (machine_names sms) original"
  let ?w = "visit_node ?children (r, p, d) original w"
  from "2.prems"(1) new orig valid have run: "walk_tree sms table (queue @ map (\<lambda>c. (c, r, Suc d)) ?children) ?w = Ok w'"
    by (simp add: Let_def)
  have first: "owners_first root ?w"
    unfolding owners_first_def
  proof (intro allI impI)
    fix j q assume j: "j < length (tw_names ?w)" and owner: "map_of (tw_parents ?w) (tw_names ?w ! j) = Some q"
    show "q = root \<or> q \<in> set (take j (tw_names ?w))"
    proof (cases "j = length (tw_names w)")
      case True
      with owner have "q = p" by (simp add: visit_node_def update_conv')
      with "2.prems"(4) True show ?thesis by (simp add: visit_node_def)
    next
      case False
      with j have j: "j < length (tw_names w)" by (simp add: visit_node_def)
      with new have "tw_names w ! j \<noteq> r" by (metis nth_mem)
      with owner j have "map_of (tw_parents w) (tw_names w ! j) = Some q"
        by (simp add: visit_node_def update_conv' nth_append)
      with "2.prems"(3) j show ?thesis by (auto simp: owners_first_def visit_node_def)
    qed
  qed
  from "2.prems"(4) have "\<forall>(c, p, d) \<in> set (queue @ map (\<lambda>c. (c, r, Suc d)) ?children). p = root \<or> p \<in> walk_names ?w"
    by (auto simp: visit_node_def)
  from "2.IH" [OF new orig valid refl run visit_node_ok(1) [OF "2.prems"(2) new] first this] show ?case .
qed

lemma tree_tables_owners_first:
  assumes "tree_tables sms parent children = Ok (table, w)" "machine_name parent = Some root"
  shows "owners_first root w"
proof -
  from assms have run: "walk_tree sms table (seed_queue children root) no_walk = Ok w"
    by (auto simp: tree_tables_def Let_def try_then_Inr_iff)
  show ?thesis
    by (rule walk_owners_first [OF run]) (auto simp: walk_ok_def owners_first_def no_walk_def seed_queue_def)
qed

end
