(* ===== verification/Tree_Rows.thy ===== *)
theory Tree_Rows
  imports Tree_Runs Composite_Rows Tree_Forest
begin

text \<open>
  The rows behind the branches of a composite tree, and the invariant that every place moves along the
  rows of its table: its state is the initial one or the target of a row, its changes are rows, and
  those of the root form a path.
\<close>

section \<open>Rows behind the arms of an orthogonal node\<close>

lemma embedded_branch_fields:
  assumes "embedded_branch hooks typed i t = Ok br"
  shows "cd_in_state br = in_ident (st_in t)" "cd_internal br = st_internal t" "cd_out_state br = out_ident (st_out t)"
    "cd_defer br = st_defer t" "cd_process br = st_process_events t"
  using assms
  by (auto simp: embedded_branch_def generate_transition_branch_def Let_def try_then_Inr_iff candidate.defs composite_branch.defs
      split: if_splits)

lemma embedded_behind:
  assumes "t \<in> set (transitions sm)" "in_ident (st_in t) = s" "embedded_branch hooks typed i t = Ok br"
  shows "behind sm s br"
  unfolding behind_def using assms(1,2) embedded_branch_fields [OF assms(3)] by auto

lemma rows_of_kind_member: "t \<in> set (rows_of_kind sm s k) \<Longrightarrow> t \<in> set (transitions sm) \<and> in_ident (st_in t) = s"
  by (simp add: rows_of_kind_def)

lemma rows_in_states_member:
  "t \<in> set (rows_in_states (\<lambda>s. f (rows_of_kind sm s k)) r) \<Longrightarrow> (\<And>ts. set (f ts) \<subseteq> set ts) \<Longrightarrow> t \<in> set (transitions sm)"
  by (auto simp: rows_in_states_def dest!: subsetD rows_of_kind_member)

lemma region_event_arms_behind:
  assumes "region_event_arms hooks sm r = Ok arms" "br \<in> set (event_rows arms s e)"
  shows "behind sm s br"
proof -
  from assms(1) have gen:
    "try_map (\<lambda>(s, e). try_then (try_map (\<lambda>(i, t). embedded_branch hooks (typed_event t) i t)
       (enumerate 0 (filter (\<lambda>t. ev_ident (st_event t) = e) (rows_of_kind sm s Normal)))) (\<lambda>bs. Ok ((s, e), bs)))
       (region_event_sites sm r) = Ok (ea_normal arms)"
    "try_map (\<lambda>t. try_then (embedded_branch hooks (typed_event t) 0 t) (\<lambda>b. Ok (site t, b)))
       (rows_in_states (\<lambda>s. specific_rows (rows_of_kind sm s Unexpected)) r) = Ok (ea_unexpected arms)"
    "try_map (\<lambda>t. try_then (embedded_branch hooks False 0 t) (\<lambda>b. Ok (in_ident (st_in t), b)))
       (rows_in_states (\<lambda>s. take 1 (wildcard_rows (rows_of_kind sm s Unexpected))) r) = Ok (ea_unexpected_wildcard arms)"
    by (auto simp: region_event_arms_def try_then_Inr_iff)
  consider (normal) bs where "((s, e), bs) \<in> set (ea_normal arms)" "br \<in> set bs"
    | (unexpected) "((s, e), br) \<in> set (ea_unexpected arms)" | (any) "(s, br) \<in> set (ea_unexpected_wildcard arms)"
    using assms(2) by (auto simp: event_rows_def split: option.splits dest: map_of_SomeD)
  then show ?thesis
  proof cases
    case (normal bs)
    from try_map_member [OF gen(1) normal(1)] obtain key where
      "(\<lambda>(s, e). try_then (try_map (\<lambda>(i, t). embedded_branch hooks (typed_event t) i t)
        (enumerate 0 (filter (\<lambda>t. ev_ident (st_event t) = e) (rows_of_kind sm s Normal)))) (\<lambda>bs. Ok ((s, e), bs))) key =
        Ok ((s, e), bs)" .
    then have
      "try_map (\<lambda>(i, t). embedded_branch hooks (typed_event t) i t)
        (enumerate 0 (filter (\<lambda>t. ev_ident (st_event t) = e) (rows_of_kind sm s Normal))) = Ok bs"
      by (cases key) (auto simp: try_then_Inr_iff)
    from try_map_member [OF this normal(2)] obtain i t where
      t: "(i, t) \<in> set (enumerate 0 (filter (\<lambda>t. ev_ident (st_event t) = e) (rows_of_kind sm s Normal)))"
        "embedded_branch hooks (typed_event t) i t = Ok br" by auto
    from t(1) have "t \<in> set (filter (\<lambda>t. ev_ident (st_event t) = e) (rows_of_kind sm s Normal))"
      by (auto simp: in_set_enumerate_eq dest: nth_mem)
    with t(2) show ?thesis by (auto dest: rows_of_kind_member intro: embedded_behind)
  next
    case unexpected
    from try_map_member [OF gen(2) this] obtain t where
      t: "t \<in> set (rows_in_states (\<lambda>s. specific_rows (rows_of_kind sm s Unexpected)) r)"
        "site t = (s, e)" "embedded_branch hooks (typed_event t) 0 t = Ok br" by (auto simp: try_then_Inr_iff)
    from rows_in_states_member [OF t(1)] t(2,3) show ?thesis
      by (auto simp: specific_rows_def site_def intro: embedded_behind)
  next
    case any
    from try_map_member [OF gen(3) this] obtain t where
      t: "t \<in> set (rows_in_states (\<lambda>s. take 1 (wildcard_rows (rows_of_kind sm s Unexpected))) r)"
        "in_ident (st_in t) = s" "embedded_branch hooks False 0 t = Ok br" by (auto simp: try_then_Inr_iff)
    have "t \<in> set (transitions sm)"
      by (rule rows_in_states_member [OF t(1)]) (auto simp: wildcard_rows_def dest: in_set_takeD)
    with t(2,3) show ?thesis by (auto intro: embedded_behind)
  qed
qed

lemma region_completion_arms_behind:
  assumes "region_completion_arms hooks sm r = Ok (origin, anonymous)" "(w, br) \<in> set rows"
  shows "((s, e), rows) \<in> set origin \<Longrightarrow> behind sm s br" "(s, rows) \<in> set anonymous \<Longrightarrow> behind sm s br"
proof -
  from assms(1) have gen:
    "try_map (\<lambda>t. try_then (waiting_branch hooks (transition_event_type sm t \<noteq> None) t) (\<lambda>b. Ok (site t, [b])))
       (rows_in_states (\<lambda>s. specific_rows (rows_of_kind sm s Completion)) r) = Ok origin"
    "try_map (\<lambda>s. try_then (try_map (waiting_branch hooks False) (wildcard_rows (rows_of_kind sm s Completion)))
       (\<lambda>bs. Ok (s, bs))) (filter (\<lambda>s. wildcard_rows (rows_of_kind sm s Completion) \<noteq> []) (rg_states r)) = Ok anonymous"
    by (auto simp: region_completion_arms_def try_then_Inr_iff)
  show "behind sm s br" if "((s, e), rows) \<in> set origin"
  proof -
    from try_map_member [OF gen(1) that] obtain t where
      "t \<in> set (rows_in_states (\<lambda>s. specific_rows (rows_of_kind sm s Completion)) r)"
      "try_then (waiting_branch hooks (transition_event_type sm t \<noteq> None) t) (\<lambda>b. Ok (site t, [b])) = Ok ((s, e), rows)" .
    with assms(2) obtain typed where
      t: "t \<in> set (rows_in_states (\<lambda>s. specific_rows (rows_of_kind sm s Completion)) r)"
        "site t = (s, e)" "embedded_branch hooks typed 0 t = Ok br" by (auto simp: try_then_Inr_iff waiting_branch_def)
    from rows_in_states_member [OF t(1)] t(2,3) show ?thesis
      by (auto simp: specific_rows_def site_def intro: embedded_behind)
  qed
  show "behind sm s br" if "(s, rows) \<in> set anonymous"
  proof -
    from try_map_member [OF gen(2) that] obtain s' where
      "try_then (try_map (waiting_branch hooks False) (wildcard_rows (rows_of_kind sm s' Completion))) (\<lambda>bs. Ok (s', bs)) =
        Ok (s, rows)" .
    then have "try_map (waiting_branch hooks False) (wildcard_rows (rows_of_kind sm s Completion)) = Ok rows"
      by (auto simp: try_then_Inr_iff)
    from try_map_member [OF this assms(2)] obtain t where
      "t \<in> set (wildcard_rows (rows_of_kind sm s Completion))" "embedded_branch hooks False 0 t = Ok br"
      by (auto simp: try_then_Inr_iff waiting_branch_def)
    then show ?thesis by (auto simp: wildcard_rows_def dest: rows_of_kind_member intro: embedded_behind)
  qed
qed

lemma region_exception_arms_behind:
  assumes "region_exception_arms hooks sm r = Ok arms" "(s, bs) \<in> set arms" "br \<in> set bs"
  shows "behind sm s br"
proof -
  from assms(1) have "try_map (\<lambda>s. try_then (try_map (\<lambda>t. embedded_branch hooks (\<not> ev_wildcard (st_event t)) 0 t)
      (typed_first (rows_of_kind sm s Exception))) (\<lambda>bs. Ok (s, bs)))
      (filter (\<lambda>s. rows_of_kind sm s Exception \<noteq> []) (rg_states r)) = Ok arms"
    by (simp add: region_exception_arms_def split: if_splits)
  from try_map_member [OF this assms(2)] obtain s' where
    "try_then (try_map (\<lambda>t. embedded_branch hooks (\<not> ev_wildcard (st_event t)) 0 t)
      (typed_first (rows_of_kind sm s' Exception))) (\<lambda>bs. Ok (s', bs)) = Ok (s, bs)" .
  then have "try_map (\<lambda>t. embedded_branch hooks (\<not> ev_wildcard (st_event t)) 0 t) (typed_first (rows_of_kind sm s Exception)) = Ok bs"
    by (auto simp: try_then_Inr_iff)
  from try_map_member [OF this assms(3)] obtain t where
    "t \<in> set (typed_first (rows_of_kind sm s Exception))" "embedded_branch hooks (\<not> ev_wildcard (st_event t)) 0 t = Ok br" .
  then show ?thesis
    by (auto simp: typed_first_def specific_rows_def wildcard_rows_def dest: rows_of_kind_member intro: embedded_behind)
qed

section \<open>Rows behind the arms of a place\<close>

definition region_rows :: "tree_region \<Rightarrow> string \<Rightarrow> composite_branch \<Rightarrow> bool" where
  "region_rows r st br \<longleftrightarrow>
     (\<exists>e. br \<in> set (event_rows (tr_events r) st e)) \<or>
     (\<exists>e w rows. ((st, e), rows) \<in> set (tr_origin r) \<and> (w, br) \<in> set rows) \<or>
     (\<exists>w rows. (st, rows) \<in> set (tr_anonymous r) \<and> (w, br) \<in> set rows) \<or>
     (\<exists>bs. (st, bs) \<in> set (tr_exceptions r) \<and> br \<in> set bs)"

lemma branch_in_region: "branch_in code p st br \<longleftrightarrow> region_rows (place_region code p) st br"
  by (simp add: branch_in_def region_rows_def Let_def)

lemma embedded_region_behind:
  assumes "embedded_region sm types r = Ok tr" "region_rows tr st br"
  shows "behind sm st br"
proof -
  let ?hooks = "collect_lifecycle sm"
  from assms(1) obtain origin anonymous where gen: "region_event_arms ?hooks sm r = Ok (tr_events tr)"
    "region_completion_arms ?hooks sm r = Ok (tr_origin tr, tr_anonymous tr)"
    "region_exception_arms ?hooks sm r = Ok (tr_exceptions tr)"
    by (auto simp: embedded_region_def Let_def try_then_Inr_iff)
  from assms(2) region_event_arms_behind [OF gen(1)] region_completion_arms_behind [OF gen(2)]
    region_exception_arms_behind [OF gen(3)] show ?thesis
    unfolding region_rows_def by blast
qed

lemma embedded_row_fields [simp]:
  "in_ident (st_in (embedded_row children t)) = in_ident (st_in t)"
  "out_ident (st_out (embedded_row children t)) = out_ident (st_out t)"
  "st_internal (embedded_row children t) = st_internal t"
  by (simp_all add: embedded_row_def Let_def)

lemma behind_embedded: "behind (embedded_table children sm) s br \<longleftrightarrow> behind sm s br"
proof -
  have "behind (embedded_table children sm) s br \<longleftrightarrow> (\<exists>t \<in> embedded_row children ` set (transitions sm).
      in_ident (st_in t) = s \<and> cd_internal br = st_internal t \<and> cd_out_state br = out_ident (st_out t))"
    by (simp add: behind_def embedded_table_def)
  then show ?thesis by (simp add: behind_def)
qed

lemma waiting_rows_member:
  "(key, rows) \<in> set (waiting_rows arms) \<Longrightarrow> (w, br) \<in> set rows \<Longrightarrow> \<exists>w bs. (key, w, bs) \<in> set arms \<and> br \<in> set bs"
  by (force simp: waiting_rows_def)

lemma scalar_region_behind:
  assumes "scalar_region evs children sm = Ok tr" "region_rows tr st br"
  shows "behind sm st br"
proof -
  let ?hooks = "collect_lifecycle sm"
  from assms(1) obtain completion where gen: "dispatch_code True ?hooks sm = Ok (tr_events tr)"
    "completion_code True ?hooks evs sm = Ok completion" "exception_code True ?hooks sm = Ok (tr_exceptions tr)"
    and arms: "tr_origin tr = waiting_rows (ca_origin completion)" "tr_anonymous tr = waiting_rows (ca_anonymous completion)"
    by (auto simp: scalar_region_def Let_def try_then_Inr_iff)
  from assms(2) dispatch_code_behind [OF gen(1)] completion_code_behind [OF gen(2)] exception_code_behind [OF gen(3)] show ?thesis
    unfolding region_rows_def arms by (blast dest: waiting_rows_member)
qed

lemma table_regions_behind:
  assumes "table_regions evs children sm = Ok rs" "r \<in> set rs" "region_rows r st br"
  shows "behind sm st br"
proof (cases "several_starts sm")
  case True
  with assms(1) obtain types regions where "try_map (embedded_region (embedded_table children sm) types) regions = Ok rs"
    by (auto simp: table_regions_def generate_embedded_def Let_def try_then_Inr_iff)
  from try_map_member [OF this assms(2)] obtain region where "embedded_region (embedded_table children sm) types region = Ok r" .
  from embedded_region_behind [OF this assms(3)] show ?thesis by (simp add: behind_embedded)
next
  case False
  with assms(1,2) have "scalar_region evs children sm = Ok r" by (auto simp: table_regions_def try_then_Inr_iff)
  from scalar_region_behind [OF this assms(3)] show ?thesis .
qed

section \<open>The generated tables\<close>

lemma walk_tree_ok:
  assumes "walk_tree sms root queue no_walk = Ok w"
  shows "walk_ok w"
proof -
  have "walk_ok no_walk" "entries no_walk = []" by (simp_all add: walk_ok_def no_walk_def entries_def)
  with walk_tree_entries [OF assms, of queue] show ?thesis by simp
qed

lemma generated_table_of:
  assumes "generate_multi_code sms parent children = Ok code"
  obtains root w name sites evs where "tree_tables sms parent children = Ok (root, w)" "walk_ok w"
    "machine_name parent = Some name" "tm_order code = deepest_first w"
    "list_all2 (\<lambda>(b, n, sm) t. generate_tree_table b name w sites evs (n, sm) = Ok t)
      ((True, name, root) # map (Pair False) (zip (tw_names w) (tw_tables w))) (tm_tables code)"
proof -
  from assms obtain root w sites evs first nodes where
    tables: "tree_tables sms parent children = Ok (root, w)"
    and gen: "generate_tree_table True (the (machine_name parent)) w sites evs (the (machine_name parent), root) = Ok first"
      "try_map (generate_tree_table False (the (machine_name parent)) w sites evs) (zip (tw_names w) (tw_tables w)) = Ok nodes"
    and code: "tm_tables code = first # nodes" "tm_order code = deepest_first w"
    by (auto simp: generate_multi_code_def Let_def try_then_Inr_iff)
  from tables obtain name where name: "machine_name parent = Some name"
    by (auto simp: tree_tables_def Let_def split: option.splits)
  from tables name have "walk_tree sms root (seed_queue children name) no_walk = Ok w"
    by (auto simp: tree_tables_def Let_def try_then_Inr_iff)
  from walk_tree_ok [OF this] have "walk_ok w" .
  moreover have "list_all2 (\<lambda>(b, n, sm) t. generate_tree_table b name w sites evs (n, sm) = Ok t)
      ((True, name, root) # map (Pair False) (zip (tw_names w) (tw_tables w))) (tm_tables code)"
    using gen try_map_Inr [OF gen(2)] name code by (simp add: list_all2_map1 split_def)
  ultimately show thesis using that tables name code(2) by blast
qed

lemma generated_tree_table:
  assumes "generate_tree_table b root w sites evs (name, sm) = Ok t"
  shows "tt_children t = child_arms w name" "tt_orthogonal t = several_starts sm" "tt_name t = name"
    "table_regions evs (direct_names w name) sm = Ok (tt_regions t)"
    "tt_history t \<longleftrightarrow> \<not> several_starts sm \<and> list_ex (\<lambda>t. in_history (st_in t)) (transitions sm)"
    "nested_tables b name w sm = Ok (tt_nested t)"
    "(if b then Ok [] else tree_active_condition root w name) = Ok (tt_active t)"
  using assms by (auto simp: generate_tree_table_def Let_def try_then_Inr_iff)

lemma generated_nth:
  assumes "generate_multi_code sms parent children = Ok code" "tree_tables sms parent children = Ok (root, w)"
    and "machine_name parent = Some name"
  shows "length (tm_tables code) = Suc (length (tw_names w))"
    and "i < length (tm_tables code) \<Longrightarrow> \<exists>sites evs. generate_tree_table (i = 0) name w sites evs
      ((name # tw_names w) ! i, (root # tw_tables w) ! i) = Ok (tm_tables code ! i)"
proof -
  obtain root' w' name' sites evs where gen: "tree_tables sms parent children = Ok (root', w')" "walk_ok w'"
    "machine_name parent = Some name'" "tm_order code = deepest_first w'"
    "list_all2 (\<lambda>(b, n, sm) t. generate_tree_table b name' w' sites evs (n, sm) = Ok t)
      ((True, name', root') # map (Pair False) (zip (tw_names w') (tw_tables w'))) (tm_tables code)"
    by (rule generated_table_of [OF assms(1)])
  from gen(1,3) assms(2,3) have same: "root' = root" "w' = w" "name' = name" by simp_all
  note w = gen(2) [unfolded same] and all = gen(5) [unfolded same]
  have len: "length (tw_tables w) = length (tw_names w)" using w by (simp add: walk_ok_def)
  from list_all2_lengthD [OF all] len show n: "length (tm_tables code) = Suc (length (tw_names w))" by simp
  assume "i < length (tm_tables code)"
  with list_all2_nthD2 [OF all this] n len
  show "\<exists>sites evs. generate_tree_table (i = 0) name w sites evs ((name # tw_names w) ! i, (root # tw_tables w) ! i) =
      Ok (tm_tables code ! i)"
    by (cases i) auto
qed

lemma scalar_table_regions: "table_regions evs children sm = Ok rs \<Longrightarrow> \<not> several_starts sm \<Longrightarrow> length rs = 1"
  by (auto simp: table_regions_def try_then_Inr_iff)

lemma generated_tree_ok:
  assumes gen: "generate_multi_code sms parent children = Ok code"
  shows "tree_ok code"
proof -
  from generated_table_of [OF gen] obtain root w name where
    w: "tree_tables sms parent children = Ok (root, w)" "machine_name parent = Some name" "tm_order code = deepest_first w" by metis
  note nth = generated_nth [OF gen w(1,2)]
  have "(\<forall>j \<in> snd ` set (tt_children t). 0 < j \<and> j < length (tm_tables code)) \<and>
      (\<not> tt_orthogonal t \<longrightarrow> length (tt_regions t) = 1)" if t: "t \<in> set (tm_tables code)" for t
  proof -
    from t obtain i where "i < length (tm_tables code)" "t = tm_tables code ! i" by (auto simp: in_set_conv_nth)
    with nth(2) obtain b n sm sites evs where "generate_tree_table b name w sites evs (n, sm) = Ok t" by metis
    note t = generated_tree_table [OF this]
    from t(2,4) scalar_table_regions have "\<not> tt_orthogonal t \<longrightarrow> length (tt_regions t) = 1" by simp
    with t(1) nth(1) show ?thesis by (auto simp: child_arms_def tree_children_def)
  qed
  moreover have "\<forall>i \<in> set (tm_order code). i < length (tm_tables code)"
    using w(3) nth(1) by (auto simp: deepest_first_def Let_def)
  ultimately show ?thesis using nth(1) by (simp add: tree_ok_def)
qed

lemma tree_branch_behind:
  assumes gen: "generate_multi_code sms parent children = Ok code" "tree_tables sms parent children = Ok (root, w)"
    and p: "place_ok code p" and br: "branch_in code p st br"
  shows "behind ((root # tw_tables w) ! fst p) st br"
proof -
  from generated_table_of [OF gen(1)] obtain name where name: "machine_name parent = Some name" by metis
  from p generated_nth(2) [OF gen name, of "fst p"] obtain sites evs where
    "generate_tree_table (fst p = 0) name w sites evs ((name # tw_names w) ! fst p, (root # tw_tables w) ! fst p) =
      Ok (tm_tables code ! fst p)" by (auto simp: place_ok_def)
  moreover have "place_region code p \<in> set (tt_regions (tm_tables code ! fst p))"
    using p by (simp add: place_region_def place_ok_def)
  ultimately show ?thesis using table_regions_behind [OF generated_tree_table(4)] br by (auto simp: branch_in_region)
qed

section \<open>The invariant of all tables\<close>

definition place_changes :: "place \<Rightarrow> ('c, 'v, 'q) tree_core \<Rightarrow> (string \<times> string) list" where
  "place_changes p k = concat (map (\<lambda>x. case x of TreeCallback p' a b \<Rightarrow> if p' = p then [(a, b)] else [] | _ \<Rightarrow> [])
     (tree_observed k))"

definition place_follows :: "state_machine \<Rightarrow> tree_code \<Rightarrow> place \<Rightarrow> ('c, 'v, 'q) tree_core \<Rightarrow> bool" where
  "place_follows sm code p k \<longleftrightarrow>
     (variant (tree_state p k) = tr_initial (place_region code p) \<or> row_target sm (variant (tree_state p k))) \<and>
     list_all (\<lambda>(a, b). row_between sm a b) (place_changes p k) \<and>
     (fst p = 0 \<longrightarrow> row_path sm (tr_initial (place_region code p)) (place_changes p k) (variant (tree_state p k)))"

definition tree_follows :: "state_machine list \<Rightarrow> tree_code \<Rightarrow> ('c, 'v, 'q) tree_core \<Rightarrow> bool" where
  "tree_follows sms code k \<longleftrightarrow>
     map length (tree_states k) = map (length \<circ> tt_regions) (tm_tables code) \<and>
     (\<forall>p. place_ok code p \<longrightarrow> place_follows (sms ! fst p) code p k)"

lemma place_changes_log [simp]:
  "place_changes p (tree_log x k) =
     place_changes p k @ (case x of TreeCallback p' a b \<Rightarrow> if p' = p then [(a, b)] else [] | _ \<Rightarrow> [])"
  "place_changes p (k\<lparr>tree_states := vs\<rparr>) = place_changes p k" "place_changes p (k\<lparr>tree_skips := bs\<rparr>) = place_changes p k"
  "place_changes p (k\<lparr>tree_context := c\<rparr>) = place_changes p k" "place_changes p (k\<lparr>tree_deferred := q\<rparr>) = place_changes p k"
  "place_changes p (k\<lparr>tree_pending := q\<rparr>) = place_changes p k" "place_changes p (put_tree_skip p' b k) = place_changes p k"
  "place_changes p (put_tree_state p' v k) = place_changes p k"
  by (simp_all add: place_changes_def tree_log_def put_tree_skip_def put_tree_state_def)

lemma tree_states_fields [simp]:
  "tree_states (tree_log x k) = tree_states k" "tree_states (put_tree_skip p b k) = tree_states k"
  by (simp_all add: tree_log_def put_tree_skip_def)

lemma tree_follows_callbacks: "tree_callbacks_keep (tree_follows sms code)"
  unfolding tree_callbacks_keep_def tree_follows_def place_follows_def
  by (simp split: tree_observation.split)

lemma put_place_other: "p \<noteq> q \<Longrightarrow> at_place q (put_place p x xss) = at_place q xss"
  by (cases "fst p < length xss") (auto simp: at_place_def put_place_def nth_list_update list_update_beyond prod_eq_iff)

lemma tree_follows_place:
  assumes "map length (tree_states k) = map (length \<circ> tt_regions) (tm_tables code)" "place_ok code p"
  shows "fst p < length (tree_states k)" "snd p < length (tree_states k ! fst p)"
proof -
  from assms(1) have "length (tree_states k) = length (tm_tables code)" by (metis length_map)
  with assms(2) show n: "fst p < length (tree_states k)" by (simp add: place_ok_def)
  from arg_cong [OF assms(1), of "\<lambda>xs. xs ! fst p"] n assms(2) show "snd p < length (tree_states k ! fst p)"
    by (simp add: place_ok_def)
qed

lemma put_place_same: "fst p < length xss \<Longrightarrow> snd p < length (xss ! fst p) \<Longrightarrow> at_place p (put_place p x xss) = x"
  by (simp add: at_place_def put_place_def)

lemma put_place_lengths: "map length (put_place p x xss) = map length xss"
proof (rule nth_equalityI)
  fix i assume "i < length (map length (put_place p x xss))"
  then show "map length (put_place p x xss) ! i = map length xss ! i"
    by (cases "i = fst p") (simp_all add: put_place_def)
qed (simp add: put_place_def)

lemma tree_followsD: "tree_follows sms code k \<Longrightarrow> place_ok code q \<Longrightarrow> place_follows (sms ! fst q) code q k"
  unfolding tree_follows_def by blast

lemma tree_follows_replaced:
  assumes follows: "tree_follows sms code k" and p: "place_ok code p"
    and row: "row_between (sms ! fst p) (variant (tree_state p k)) (variant v)"
  shows "tree_follows sms code (place_replaced b p v k)"
proof -
  let ?k = "place_replaced b p v k"
  have states: "tree_states ?k = put_place p v (tree_states k)"
    by (simp add: place_replaced_def Let_def put_tree_state_def put_tree_skip_def tree_log_def)
  have changes: "place_changes q ?k = place_changes q k @ (if p = q then [(variant (tree_state p k), variant v)] else [])" for q
    by (simp add: place_replaced_def Let_def)
  note here = tree_follows_place [OF _ p, of k]
  have "place_follows (sms ! fst q) code q ?k" if q: "place_ok code q" for q
  proof (cases "p = q")
    case True
    have "tree_state q ?k = v" using here follows by (simp add: True [symmetric] tree_state_def states put_place_same tree_follows_def)
    moreover have "row_target (sms ! fst q) (variant v)" using row True by (auto simp: row_between_def row_target_def list_ex_iff)
    ultimately show ?thesis
      using tree_followsD [OF follows p] row unfolding True [symmetric]
      by (auto simp: place_follows_def changes row_path_snoc)
  next
    case False
    then have "tree_state q ?k = tree_state q k" by (simp add: tree_state_def states put_place_other)
    with tree_followsD [OF follows q] False show ?thesis by (simp add: place_follows_def changes)
  qed
  then show ?thesis using follows by (simp add: tree_follows_def states put_place_lengths)
qed

lemma tree_follows_reset:
  assumes follows: "tree_follows sms code k" and i: "0 < i" "i < length (tm_tables code)"
  shows "tree_follows sms code (reset_table env code i k)"
proof (cases "tt_history (tm_tables code ! i)")
  case False
  let ?t = "tm_tables code ! i" and ?k = "reset_table env code i k"
  from False have k: "?k = k\<lparr>tree_states := (tree_states k)[i := table_start env ?t]\<rparr>" by (simp add: reset_table_def Let_def)
  have n: "length (tree_states k) = length (tm_tables code)" using follows by (metis length_map tree_follows_def)
  have "place_follows (sms ! fst q) code q ?k" if q: "place_ok code q" for q
  proof (cases "fst q = i")
    case True
    with q i n have "tree_state q ?k = region_initial env (place_region code q)"
      by (simp add: k tree_state_def at_place_def table_start_def place_region_def place_ok_def)
    moreover have "place_follows (sms ! fst q) code q k" by (rule tree_followsD [OF follows q])
    ultimately show ?thesis using True i(1) by (simp add: place_follows_def k region_initial_def)
  next
    case False
    then have "tree_state q ?k = tree_state q k" by (simp add: k tree_state_def at_place_def)
    with tree_followsD [OF follows q] show ?thesis by (simp add: place_follows_def k)
  qed
  moreover have "map length (tree_states ?k) = map (length \<circ> tt_regions) (tm_tables code)"
    using follows i(2) by (simp add: tree_follows_def k map_update table_start_def list_update_same_conv)
  ultimately show ?thesis by (simp add: tree_follows_def)
qed (simp add: reset_table_def follows)

interpretation trees: tree_invariant env code
    "\<lambda>k. generate_multi_code sms parent children = Ok code \<and> tree_tables sms parent children = Ok (root, w) \<longrightarrow>
      tree_follows (root # tw_tables w) code k"
  for env :: "('c, 'v, 'err, 'q) region_env" and code sms parent children root w
proof (rule tree_invariant.intro, goal_cases)
  case 1
  then show ?case using tree_follows_callbacks [of "root # tw_tables w" code] by (auto simp: tree_callbacks_keep_def)
next
  case (2 p st br k v b)
  show ?case
  proof
    assume gen: "generate_multi_code sms parent children = Ok code \<and> tree_tables sms parent children = Ok (root, w)"
    with tree_branch_behind [of sms parent children code root w, OF _ _ 2(1,2)] 2(3,5,6)
    have "row_between ((root # tw_tables w) ! fst p) (variant (tree_state p k)) (variant v)"
      by (auto simp: behind_def row_between_def list_ex_iff)
    with 2(1,4) gen show "tree_follows (root # tw_tables w) code (place_replaced b p v k)" by (simp add: tree_follows_replaced)
  qed
next
  case (3 i k)
  then show ?case by (simp add: tree_follows_reset)
qed

end
