(* ===== verification/Tree_Examples.thy ===== *)
theory Tree_Examples
  imports Tree_Machine Composite_Correctness
begin

text \<open>A composite tree with three tables and its runs.\<close>

section \<open>A chain of three tables\<close>

definition exception_row :: "string \<Rightarrow> string \<Rightarrow> state_transition" where
  "exception_row s s' = (table_row False s ''_'' None s')\<lparr>st_event := (on_event ''_'')\<lparr>ev_kind := Exception, ev_wildcard := True\<rparr>\<rparr>"

text \<open>
  \<open>Leaf { *Low + Next = High, Low + on_exit<_> / low_out, High + on_entry<_> / high_in, High + on_exit<_> / high_out,
  Low + on_entry<_> / low_in, Low + Break / fragile = Low, Low + exception<_> = High }\<close>, \<open>Mid { *state<Leaf> + Next / mid_next = Away, Away + Back = state<Leaf> }\<close> and
  \<open>Top { *Idle + Enter = state<Mid>, state<Mid> + Leave = Idle, state<Mid> + Next = Idle }\<close>
\<close>

definition leaf_table :: state_machine where
  "leaf_table = StateMachine_new\<lparr>machine_name := Some ''Leaf'', transitions :=
     [table_row True ''Low'' ''Next'' None ''High'', hook_row Entry ''Low'' ''low_in'', hook_row Exit ''Low'' ''low_out'',
      hook_row Entry ''High'' ''high_in'', hook_row Exit ''High'' ''high_out'',
      table_row False ''Low'' ''Break'' (Some ''fragile'') ''Low'', exception_row ''Low'' ''High'']\<rparr>"

definition mid_table :: state_machine where
  "mid_table = StateMachine_new\<lparr>machine_name := Some ''Mid'', transitions :=
     [from_child ''Leaf'' (table_row True '''' ''Next'' (Some ''mid_next'') ''Away''),
      into_child ''Leaf'' (table_row False ''Away'' ''Back'' None ''''),
      from_child ''Leaf'' (hook_row Entry '''' ''mid_in''), from_child ''Leaf'' (hook_row Exit '''' ''mid_out'')]\<rparr>"

definition top_table :: "bool \<Rightarrow> state_machine" where
  "top_table starts_inside = StateMachine_new\<lparr>machine_name := Some ''Top'', transitions :=
     [into_child ''Mid'' (table_row (\<not> starts_inside) ''Idle'' ''Enter'' None ''''),
      from_child ''Mid'' (table_row starts_inside '''' ''Leave'' (Some ''fragile'') ''Idle''),
      from_child ''Mid'' (table_row False '''' ''Next'' (Some ''top_next'') ''Idle'')]\<rparr>"

definition chain :: "bool \<Rightarrow> state_machine list" where
  "chain starts_inside = [leaf_table, mid_table, top_table starts_inside]"

text \<open>What the generator emits for the chain; \<open>leaf_code\<close>, \<open>mid_code\<close> and \<open>top_code\<close> are the tables of \<open>chain_code\<close>.\<close>

definition sync_call :: "string \<Rightarrow> async_ident" where
  "sync_call a = \<lparr>ident = a, is_async = False\<rparr>"

definition emitted :: "string \<Rightarrow> string \<Rightarrow> string list \<Rightarrow> string \<Rightarrow> string list \<Rightarrow> string list \<Rightarrow> composite_branch" where
  "emitted s e actions s' out into =
     \<lparr>cd_index = 0, cd_in_state = s, cd_event = e, cd_wildcard = False, cd_kind = Normal, cd_state_data = False,
      cd_event_data = False, cd_guard = None, cd_steps = map (\<lambda>a. ActionStep False (sync_call a)) actions,
      cd_default_output = False, cd_defer = False, cd_process = [], cd_internal = False, cd_out_state = s',
      cb_out_data = False, cb_exit = map sync_call out, cb_entry = map sync_call into, cb_exit_child = False,
      cb_enter_child = False, cb_moves = (s \<noteq> s')\<rparr>"

definition on_events :: "composite_branch list \<Rightarrow> event_arms" where
  "on_events bs = \<lparr>ea_normal = map (\<lambda>b. ((cd_in_state b, cd_event b), [b])) bs, ea_unexpected = [], ea_unexpected_wildcard = []\<rparr>"

definition hooks_of :: "string \<Rightarrow> string \<Rightarrow> string \<Rightarrow> string \<times> lifecycle" where
  "hooks_of s i out = (s, \<lparr>lc_entry = Some [sync_call i], lc_exit = Some [sync_call out]\<rparr>)"

definition scalar_code ::
  "string \<Rightarrow> (string \<times> nat) list \<Rightarrow> (nat \<times> string) list \<Rightarrow> nat list \<Rightarrow> tree_region \<Rightarrow> tree_table" where
  "scalar_code n children active nested r =
     \<lparr>tt_name = n, tt_variant = n, tt_children = children, tt_active = active, tt_nested = [nested], tt_orthogonal = False,
      tt_history = False, tt_has_terminal = False, tt_types = [], tt_regions = [r], tt_sites = [], tt_subtree = [],
      tt_paths = []\<rparr>"

definition top_code :: "bool \<Rightarrow> tree_table" where
  "top_code starts_inside = scalar_code ''Top'' [(''Mid'', 1)] [] [1, 2]
     \<lparr>tr_initial = (if starts_inside then ''Mid'' else ''Idle''), tr_initial_data = False, tr_hooks = [],
      tr_events = on_events
        [(emitted ''Idle'' ''Enter'' [] ''Mid'' [] [])\<lparr>cb_enter_child := True\<rparr>,
         (emitted ''Mid'' ''Leave'' [''fragile''] ''Idle'' [] [])\<lparr>cb_exit_child := True\<rparr>,
         (emitted ''Mid'' ''Next'' [''top_next''] ''Idle'' [] [])\<lparr>cb_exit_child := True\<rparr>],
      tr_origin = [], tr_anonymous = [], tr_exceptions = []\<rparr>"

definition mid_code :: tree_table where
  "mid_code = scalar_code ''Mid'' [(''Leaf'', 2)] [(0, ''Mid'')] []
     \<lparr>tr_initial = ''Leaf'', tr_initial_data = False, tr_hooks = [hooks_of ''Leaf'' ''mid_in'' ''mid_out''],
      tr_events = on_events
        [(emitted ''Leaf'' ''Next'' [''mid_next''] ''Away'' [''mid_out''] [])\<lparr>cb_exit_child := True\<rparr>,
         (emitted ''Away'' ''Back'' [] ''Leaf'' [] [''mid_in''])\<lparr>cb_enter_child := True\<rparr>],
      tr_origin = [], tr_anonymous = [], tr_exceptions = []\<rparr>"

definition leaf_code :: tree_table where
  "leaf_code = scalar_code ''Leaf'' [] [(1, ''Leaf''), (0, ''Mid'')] []
     \<lparr>tr_initial = ''Low'', tr_initial_data = False,
      tr_hooks = [hooks_of ''Low'' ''low_in'' ''low_out'', hooks_of ''High'' ''high_in'' ''high_out''],
      tr_events = on_events
        [emitted ''Low'' ''Next'' [] ''High'' [''low_out''] [''high_in''],
         emitted ''Low'' ''Break'' [''fragile''] ''Low'' [''low_out''] [''low_in'']],
      tr_origin = [], tr_anonymous = [],
      tr_exceptions = [(''Low'', [(emitted ''Low'' ''_'' [] ''High'' [''low_out''] [''high_in''])
        \<lparr>cd_wildcard := True, cd_kind := Exception\<rparr>])]\<rparr>"

definition chain_code :: "bool \<Rightarrow> tree_code" where
  "chain_code starts_inside =
     \<lparr>tm_tables = [top_code starts_inside, mid_code, leaf_code], tm_order = [2, 1], tm_async_queue = False,
      tm_has_deferred = False, tm_has_exception = True, tm_sites = None\<rparr>"

lemma chain_generated: "generate_multi_code (chain b) (top_table b) [''Mid''] = Ok (chain_code b)"
  by (cases b; simp only:; code_simp)

definition tree_run :: "tree_code \<Rightarrow> string list \<Rightarrow> (nat, nat, nat variant_value event_queue) tree_core" where
  "tree_run code es =
     fold (\<lambda>e k. fst (the (tree_process_event 4 composite_test_env code (Variant e None) k))) es
       (fst (the (tree_initialize 4 composite_test_env code (new_tree_core composite_test_env code 0))))"

definition chain_after :: "bool \<Rightarrow> string list \<Rightarrow> (nat, nat, nat variant_value event_queue) tree_core" where
  "chain_after b es = tree_run (chain_code b) es"

definition tree_actions :: "('c, 'v, 'q) tree_core \<Rightarrow> string list" where
  "tree_actions k = concat (map (\<lambda>x. case x of TreeAction a _ \<Rightarrow> [a] | _ \<Rightarrow> []) (tree_observed k))"

end
