(* ===== verification/Tree_Correctness.thy ===== *)
theory Tree_Correctness
  imports Tree_Rows Tree_Examples
begin

text \<open>
  Properties of composite trees: the accepted tables form a tree, the emitted entries and exits of
  nested tables return, a table that was left is not left again, every place moves along the rows of
  its table; and runs in which the generated tree does not do what the documentation says.
\<close>

section \<open>The accepted tables\<close>

text \<open>
  C25. When the walk over the tables of a composite tree accepts, the tables below the root form a
  tree: the recorded nodes are exactly the tables that can be reached from the root, each is recorded
  once, none is below itself, and each has one owner, the recorded one, at one less than its depth.
\<close>

theorem composite_tables_form_tree:
  assumes "tree_tables sms parent (child_references (machine_names sms) parent) = Ok (table, w)"
    and "machine_name parent = Some root" "table_named sms root = Some parent"
    and "child_references (machine_names sms) parent \<noteq> []"
  shows "distinct (tw_names w) \<and> set (tw_names w) = (owns sms)\<^sup>+ `` {root} \<and>
    (\<forall>n \<in> insert root (set (tw_names w)). (n, n) \<notin> (owns sms)\<^sup>+) \<and>
    (\<forall>p \<in> insert root (set (tw_names w)). \<forall>c. (p, c) \<in> owns sms \<longrightarrow> map_of (tw_parents w) c = Some p \<and>
      map_of (tw_depths w) c = Some (if p = root then 1 else Suc (the (map_of (tw_depths w) p))))"
proof -
  note acc = tree_tables_accepted [OF assms]
  have "distinct (tw_names w)" using accepted_walkD(1) [OF acc] by (simp add: walk_ok_def)
  moreover have "map_of (tw_parents w) c = Some p \<and>
      map_of (tw_depths w) c = Some (if p = root then 1 else Suc (the (map_of (tw_depths w) p)))"
    if "p \<in> insert root (set (tw_names w))" "(p, c) \<in> owns sms" for p c
    using that child_recorded [OF acc] root_not_visited [OF acc] by auto
  ultimately show ?thesis using visited_iff [OF acc] no_cycle [OF acc] by blast
qed
lemma chain_call:
  "machine_name (top_table b) = Some ''Top''" "table_named (chain b) ''Top'' = Some (top_table b)"
  "child_references (machine_names (chain b)) (top_table b) = [''Mid'']"
  by (cases b; code_simp)+

definition chain_walk :: tree_walk where
  "chain_walk = (case tree_tables (chain False) (top_table False) [''Mid''] of Inr (_, w) \<Rightarrow> w | Inl _ \<Rightarrow> no_walk)"

definition chain_root :: state_machine where
  "chain_root = (case tree_tables (chain False) (top_table False) [''Mid''] of Inr (r, _) \<Rightarrow> r | Inl _ \<Rightarrow> leaf_table)"

lemma chain_tables: "tree_tables (chain False) (top_table False) [''Mid''] = Ok (chain_root, chain_walk)"
  by code_simp

theorem composite_tables_form_tree_witness:
  "(owns (chain False))\<^sup>+ `` {''Top''} = {''Mid'', ''Leaf''} \<and> (''Top'', ''Top'') \<notin> (owns (chain False))\<^sup>+"
proof -
  have call: "tree_tables (chain False) (top_table False) (child_references (machine_names (chain False)) (top_table False)) =
      Ok (chain_root, chain_walk)" using chain_tables by (simp add: chain_call)
  have "set (tw_names chain_walk) = {''Mid'', ''Leaf''}" by code_simp
  with composite_tables_form_tree [OF call chain_call(1,2)] show ?thesis by (simp add: chain_call(3))
qed

section \<open>Entering and leaving nested tables\<close>

lemma node_position:
  assumes "distinct names" "i < length names" "names ! i \<in> set (take j names)" "j \<le> length names"
  shows "i < j"
  using assms by (auto simp: in_set_conv_nth nth_eq_iff_index_eq)

text \<open>A nested table has a higher number than its owner.\<close>

lemma nested_table_later:
  assumes "generate_multi_code sms parent (child_references (machine_names sms) parent) = Ok code"
    and "machine_name parent = Some root" "table_named sms root = Some parent"
    and "child_references (machine_names sms) parent \<noteq> []"
    and p: "place_ok code p" and child: "place_child code p k = Some j"
  shows "fst p < j" "j < length (tm_tables code)"
proof -
  from generated_table_of [OF assms(1)] obtain table w where
    tables: "tree_tables sms parent (child_references (machine_names sms) parent) = Ok (table, w)" and w: "walk_ok w" by metis
  note nth = generated_nth [OF assms(1) tables assms(2)]
  from nth(2) [of "fst p"] p obtain sites evs where "generate_tree_table (fst p = 0) root w sites evs
      ((root # tw_names w) ! fst p, (table # tw_tables w) ! fst p) = Ok (tm_tables code ! fst p)" by (auto simp: place_ok_def)
  from generated_tree_table(1) [OF this] have
    arms: "tt_children (tm_tables code ! fst p) = child_arms w ((root # tw_names w) ! fst p)" .
  from child have "j \<in> snd ` set (tt_children (tm_tables code ! fst p))"
    by (force simp: place_child_def dest: map_of_SomeD)
  then obtain i where i: "j = Suc i" "i < length (tw_names w)"
    "map_of (tw_parents w) (tw_names w ! i) = Some ((root # tw_names w) ! fst p)"
    by (auto simp: arms child_arms_def tree_children_def)
  then show "j < length (tm_tables code)" using nth(1) by simp
  show "fst p < j"
  proof (cases "fst p")
    case (Suc m)
    from p nth(1) Suc have m: "m < length (tw_names w)" by (simp add: place_ok_def)
    have "root \<notin> set (tw_names w)" by (rule root_not_visited [OF tree_tables_accepted [OF tables assms(2-4)]])
    with m have "tw_names w ! m \<noteq> root" by (metis nth_mem)
    with tree_tables_owners_first [OF tables assms(2)] i(2,3) Suc have "tw_names w ! m \<in> set (take i (tw_names w))"
      by (auto simp: owners_first_def)
    from node_position [OF _ m this] w i(2) show ?thesis by (simp add: walk_ok_def i(1) Suc)
  qed (simp add: i(1))
qed

lemma for_each_collects:
  assumes place: "\<And>p S. p \<in> set ps \<Longrightarrow> triple (I S) (f p) (\<lambda>_. I (insert p S)) (\<lambda>_. True)"
  shows "triple (I S) (for_each f ps) (\<lambda>_. I (set ps \<union> S)) (\<lambda>_. True)"
  using place
proof (induction ps arbitrary: S)
  case Nil
  show ?case by (simp, intro triple_ret) simp
next
  case (Cons p ps)
  have "triple (I (insert p S)) (for_each f ps) (\<lambda>_. I (set ps \<union> insert p S)) (\<lambda>_. True)"
    by (rule Cons.IH) (simp add: Cons.prems)
  moreover have "triple (I S) (f p) (\<lambda>_. I (insert p S)) (\<lambda>_. True)"
    by (simp add: Cons.prems)
  ultimately have "triple (I S) (then_do (f p) (for_each f ps)) (\<lambda>_. I (set ps \<union> insert p S)) (\<lambda>_. True)"
    by (rule triple_then_do [rotated])
  then show ?case by simp
qed

lemma tree_hook_calls_return [step_total]: "returns (tree_hook_calls env as sd)" "returns (place_hooks env code which p)"
  unfolding place_hooks_def tree_hook_calls_def tree_action_code_def Let_def by (intro step_total)+

lemma nested_children_return:
  fixes env :: "('c, 'v, 'err, 'q) region_env"
  assumes later: "\<And>p (k :: ('c, 'v, 'q) tree_core) j. place_ok code p \<Longrightarrow> place_child code p k = Some j \<Longrightarrow> fst p < j \<and> j < length (tm_tables code)"
  shows "place_ok code p \<Longrightarrow> length (tm_tables code) \<le> m + fst p \<Longrightarrow>
    returns (tree_enter_children m env code p) \<and> returns (tree_exit_children m env code p)"
proof (induction m arbitrary: p)
  case 0
  then show ?case by (simp add: place_ok_def)
next
  case (Suc m)
  have node: "returns (tree_enter_node m env code j) \<and> returns (tree_exit_node m env code j)"
    if j: "fst p < j" "j < length (tm_tables code)" for j
  proof -
    have "returns (tree_enter_children m env code q) \<and> returns (tree_exit_children m env code q)"
      if "q \<in> set (table_places code j)" for q
    proof (rule Suc.IH)
      show "place_ok code q" by (rule table_places_ok [OF j(2) that])
      show "length (tm_tables code) \<le> m + fst q" using that j Suc.prems by (auto simp: table_places_def)
    qed
    then have "returns (tree_enter_place m env code q)" "returns (tree_exit_place m env code q)"
      if "q \<in> set (table_places code j)" for q
      using that by (simp_all only: tree_enter_place.simps tree_exit_place.simps) (intro step_total; blast)+
    then show ?thesis
      by (simp only: tree_enter_node.simps tree_exit_node.simps) (intro conjI step_total)
  qed
  show ?case
    unfolding tree_enter_children.simps tree_exit_children.simps
    by (intro conjI step_total; use node later [OF Suc.prems(1)] in metis)
qed

text \<open>
  C29. Entering and leaving what is nested in a place of a composite tree returns: the recursion over
  nested tables that the generator unfolds ends, with as many levels as there are tables.
\<close>

theorem nested_walks_return:
  assumes "generate_multi_code sms parent (child_references (machine_names sms) parent) = Ok code"
    and "machine_name parent = Some root" "table_named sms root = Some parent"
    and "child_references (machine_names sms) parent \<noteq> []" "place_ok code p"
  shows "(\<exists>k' r. enter_below env code p k = Some (k', r)) \<and> (\<exists>k' r. exit_below env code p k = Some (k', r))"
proof -
  have "returns (tree_enter_children (length (tm_tables code)) env code p) \<and>
      returns (tree_exit_children (length (tm_tables code)) env code p)"
    by (rule nested_children_return) (use assms nested_table_later [OF assms(1-4)] in auto)
  then show ?thesis unfolding enter_below_def exit_below_def returns_def by (metis not_None_eq surj_pair)
qed

theorem nested_walks_return_witness:
  "(\<exists>k' r. enter_below composite_test_env (chain_code False) (0, 0) (chain_after False [''Enter'']) = Some (k', r)) \<and>
   (\<exists>k' r. exit_below composite_test_env (chain_code False) (0, 0) (chain_after False [''Enter'']) = Some (k', r))"
proof -
  have ok: "place_ok (chain_code False) (0, 0)" by code_simp
  have "generate_multi_code (chain False) (top_table False) (child_references (machine_names (chain False)) (top_table False)) =
      Ok (chain_code False)" by (simp add: chain_call(3) chain_generated)
  from nested_walks_return [OF this chain_call(1,2) _ ok] show ?thesis by (simp add: chain_call(3))
qed

section \<open>What is entered starts fresh\<close>

text \<open>The tables that the states \<open>xss\<close> make active from table \<open>i\<close> on.\<close>

inductive inside :: "tree_code \<Rightarrow> 'v variant_value list list \<Rightarrow> nat \<Rightarrow> nat \<Rightarrow> bool" for code xss i where
  inside_here: "inside code xss i i"
| inside_below: "inside code xss i j \<Longrightarrow> p \<in> set (table_places code j) \<Longrightarrow>
    map_of (tt_children (tm_tables code ! j)) (variant (at_place p xss)) = Some c \<Longrightarrow> inside code xss i c"

inductive_cases insideE: "inside code xss i j"

definition fresh_table :: "('c, 'v, 'err, 'q) region_env \<Rightarrow> tree_code \<Rightarrow> 'v variant_value list list \<Rightarrow> nat \<Rightarrow> bool" where
  "fresh_table env code xss j \<longleftrightarrow> tt_history (tm_tables code ! j) \<or> xss ! j = table_start env (tm_tables code ! j)"

definition fresh_below :: "('c, 'v, 'err, 'q) region_env \<Rightarrow> tree_code \<Rightarrow> nat \<Rightarrow> 'v variant_value list list \<Rightarrow> bool" where
  "fresh_below env code i xss \<longleftrightarrow> (\<forall>j. inside code xss i j \<longrightarrow> fresh_table env code xss j)"

lemma table_places_fst: "p \<in> set (table_places code j) \<Longrightarrow> fst p = j"
  by (auto simp: table_places_def)

lemma inside_first:
  "inside code xss i j \<Longrightarrow> j = i \<or> (\<exists>p \<in> set (table_places code i). \<exists>c.
     map_of (tt_children (tm_tables code ! i)) (variant (at_place p xss)) = Some c \<and> inside code xss c j)"
proof (induction rule: inside.induct)
  case (inside_below j p c)
  then show ?case by (metis inside.intros)
qed simp

definition reset_states :: "('c, 'v, 'err, 'q) region_env \<Rightarrow> tree_code \<Rightarrow> nat \<Rightarrow> 'v variant_value list list \<Rightarrow> 'v variant_value list list" where
  "reset_states env code i xss =
     (if tt_history (tm_tables code ! i) then xss else xss[i := table_start env (tm_tables code ! i)])"

lemma reset_table_states: "tree_states (reset_table env code i k) = reset_states env code i (tree_states k)"
  by (simp add: reset_table_def reset_states_def Let_def)

lemma reset_fresh_same: "fresh_table env code xss j \<Longrightarrow> reset_states env code i xss ! j = xss ! j"
  by (cases "i = j"; cases "i < length xss") (auto simp: fresh_table_def reset_states_def list_update_beyond)

lemma reset_fresh: "fresh_table env code xss j \<Longrightarrow> fresh_table env code (reset_states env code i xss) j"
  by (metis fresh_table_def reset_fresh_same)

lemma reset_fresh_below:
  assumes "fresh_below env code i xss"
  shows "fresh_below env code i (reset_states env code c xss)"
proof -
  have "inside code xss i j" if "inside code (reset_states env code c xss) i j" for j
    using that
  proof (induction rule: inside.induct)
    case (inside_below j p d)
    then have "fresh_table env code xss j" using assms by (simp add: fresh_below_def)
    from reset_fresh_same [OF this] inside_below show ?case
      by (intro inside.inside_below [OF inside_below.IH]) (auto simp: at_place_def dest: table_places_fst)
  qed (rule inside_here)
  with assms show ?thesis
    by (auto simp: fresh_below_def reset_fresh)
qed

lemma hooks_keep_states: "preserves (\<lambda>k. Q (tree_states k)) (place_hooks env code which p)"
proof -
  have action: "preserves (\<lambda>k. Q (tree_states k)) (tree_action_code env e sd td a)" for e sd td a
    unfolding tree_action_code_def
    by (rule preserves_lift_step) (auto simp: tree_log_def split: prod.splits sum.splits)
  show ?thesis unfolding place_hooks_def tree_hook_calls_def Let_def
    by (intro preserves_with_core preserves_for_each action)
qed

lemma enter_keeps:
  assumes reset: "\<And>c xss. Q xss \<Longrightarrow> Q (reset_states env code c xss)"
  shows "preserves (\<lambda>k. Q (tree_states k)) (tree_enter_children m env code p)"
    and "preserves (\<lambda>k. Q (tree_states k)) (tree_enter_place m env code p)"
proof -
  have place: "preserves (\<lambda>k. Q (tree_states k)) (tree_enter_place m env code p)"
    if "preserves (\<lambda>k. Q (tree_states k)) (tree_enter_children m env code p)" for m p
    unfolding tree_enter_place.simps
    by (intro preserves_then_do preserves_update hooks_keep_states that) (simp add: put_tree_skip_def)
  have "preserves (\<lambda>k. Q (tree_states k)) (tree_enter_children m env code p)" for m p
  proof (induction m arbitrary: p)
    case (Suc m)
    have "preserves (\<lambda>k. Q (tree_states k)) (tree_enter_node m env code i)" for i
      unfolding tree_enter_node.simps
      by (intro preserves_then_do preserves_update preserves_for_each place Suc.IH) (simp add: reset_table_states reset)
    then show ?case unfolding tree_enter_children.simps
      by (intro preserves_with_core preserves_case_option triple_ret)
  qed simp
  then show "preserves (\<lambda>k. Q (tree_states k)) (tree_enter_children m env code p)" .
  then show "preserves (\<lambda>k. Q (tree_states k)) (tree_enter_place m env code p)" by (rule place)
qed

text \<open>The places \<open>S\<close> of a table that was entered have been entered, with all that is below them.\<close>

definition entered_in ::
  "('c, 'v, 'err, 'q) region_env \<Rightarrow> tree_code \<Rightarrow> nat \<Rightarrow> 'v variant_value list \<Rightarrow> place set \<Rightarrow> 'v variant_value list list \<Rightarrow> bool"
where
  "entered_in env code i vs S xss \<longleftrightarrow>
     length xss = length (tm_tables code) \<and> xss ! i = vs \<and> fresh_table env code xss i \<and>
     (\<forall>p \<in> S. \<forall>c. map_of (tt_children (tm_tables code ! i)) (variant (vs ! snd p)) = Some c \<longrightarrow> fresh_below env code c xss)"

lemma entered_in_reset: "entered_in env code i vs S xss \<Longrightarrow> entered_in env code i vs S (reset_states env code c xss)"
  unfolding entered_in_def by (simp add: reset_fresh_below reset_fresh_same reset_fresh) (simp add: reset_states_def)

lemma entered_in_start:
  assumes "length xss = length (tm_tables code)" "i < length (tm_tables code)"
  shows "entered_in env code i (reset_states env code i xss ! i) {} (reset_states env code i xss)"
  using assms by (simp add: entered_in_def reset_states_def fresh_table_def)

lemma entered_in_all:
  assumes entered: "entered_in env code i vs (set (table_places code i)) xss"
  shows "fresh_below env code i xss"
  unfolding fresh_below_def
proof (intro allI impI)
  fix j assume "inside code xss i j"
  from inside_first [OF this] show "fresh_table env code xss j"
  proof
    assume "j = i"
    with entered show ?thesis by (simp add: entered_in_def)
  next
    assume "\<exists>p \<in> set (table_places code i). \<exists>c.
      map_of (tt_children (tm_tables code ! i)) (variant (at_place p xss)) = Some c \<and> inside code xss c j"
    then obtain p c where p: "p \<in> set (table_places code i)" "inside code xss c j"
      "map_of (tt_children (tm_tables code ! i)) (variant (at_place p xss)) = Some c" by blast
    with entered table_places_fst [OF p(1)] have "fresh_below env code c xss"
      by (auto simp: entered_in_def at_place_def)
    with p(2) show ?thesis by (simp add: fresh_below_def)
  qed
qed

lemma triple_from_core: "(\<And>k0. P k0 \<Longrightarrow> triple (\<lambda>k. k = k0) m Q E) \<Longrightarrow> triple P m Q E"
  unfolding triple_def by blast

lemma triple_conj: "triple P m Q E \<Longrightarrow> triple P' m Q' E' \<Longrightarrow> triple (\<lambda>k. P k \<and> P' k) m (\<lambda>a k. Q a k \<and> Q' a k) (\<lambda>_. True)"
  by (rule tripleI) (auto dest: triple_value)

lemma entered_node:
  fixes env :: "('c, 'v, 'err, 'q) region_env"
  assumes i: "i < length (tm_tables code)"
    and children: "\<And>p vs S. p \<in> set (table_places code i) \<Longrightarrow>
      triple (\<lambda>k :: ('c, 'v, 'q) tree_core. entered_in env code i vs S (tree_states k)) (tree_enter_children m env code p)
        (\<lambda>_ k. entered_in env code i vs (insert p S) (tree_states k)) (\<lambda>_. True)"
  shows "triple (\<lambda>k :: ('c, 'v, 'q) tree_core. length (tree_states k) = length (tm_tables code)) (tree_enter_node m env code i)
      (\<lambda>_ k. fresh_below env code i (tree_states k)) (\<lambda>_. True)"
proof -
  let ?I = "\<lambda>vs S (k :: ('c, 'v, 'q) tree_core). entered_in env code i vs S (tree_states k)"
  have place: "triple (?I vs S) (tree_enter_place m env code p) (\<lambda>_. ?I vs (insert p S)) (\<lambda>_. True)"
    if "p \<in> set (table_places code i)" for vs S p
  proof -
    have hooks: "triple (?I vs S) (place_hooks env code lc_entry p) (\<lambda>_. ?I vs S) (\<lambda>_. True)"
      by (rule triple_post [OF hooks_keep_states]) auto
    show ?thesis unfolding tree_enter_place.simps
      by (rule triple_then_do [OF triple_update triple_then_do [OF hooks children [OF that]]]) (simp add: put_tree_skip_def)
  qed
  have "triple (\<lambda>k. k = k0) (tree_enter_node m env code i) (\<lambda>_ k. fresh_below env code i (tree_states k)) (\<lambda>_. True)"
    if k0: "length (tree_states k0) = length (tm_tables code)" for k0 :: "('c, 'v, 'q) tree_core"
  proof -
    let ?vs = "reset_states env code i (tree_states k0) ! i"
    have "triple (?I ?vs {}) (for_each (tree_enter_place m env code) (table_places code i))
        (\<lambda>_. ?I ?vs (set (table_places code i) \<union> {})) (\<lambda>_. True)"
      by (rule for_each_collects [where I = "?I ?vs", OF place])
    then have all: "triple (?I ?vs {}) (for_each (tree_enter_place m env code) (table_places code i))
        (\<lambda>_ k. fresh_below env code i (tree_states k)) (\<lambda>_. True)"
      by (rule triple_post) (auto intro: entered_in_all)
    show ?thesis unfolding tree_enter_node.simps
      by (rule triple_then_do [OF triple_update all]) (simp add: reset_table_states entered_in_start k0 i)
  qed
  then show ?thesis by (rule triple_from_core)
qed

lemma tree_enter_fresh:
  fixes env :: "('c, 'v, 'err, 'q) region_env"
  assumes ok: "tree_ok code"
  shows "i < length (tm_tables code) \<Longrightarrow>
    triple (\<lambda>k :: ('c, 'v, 'q) tree_core. length (tree_states k) = length (tm_tables code)) (tree_enter_node m env code i)
      (\<lambda>_ k. fresh_below env code i (tree_states k)) (\<lambda>_. True)"
proof (induction m arbitrary: i)
  case 0
  then show ?case by (rule entered_node) simp
next
  case (Suc m)
  show ?case
  proof (rule entered_node [OF Suc.prems])
    fix p vs S assume p: "p \<in> set (table_places code i)"
    let ?I = "\<lambda>S (k :: ('c, 'v, 'q) tree_core). entered_in env code i vs S (tree_states k)"
    have "triple (\<lambda>k. k = k0 \<and> ?I S k)
        (case place_child code p k0 of None \<Rightarrow> ret () | Some j \<Rightarrow> tree_enter_node m env code j) (\<lambda>_. ?I (insert p S)) (\<lambda>_. True)"
      for k0
    proof (cases "?I S k0")
      case True
      then have child: "place_child code p k0 = map_of (tt_children (tm_tables code ! i)) (variant (vs ! snd p))"
        using table_places_fst [OF p] by (simp add: place_child_def tree_state_def at_place_def entered_in_def)
      show ?thesis
      proof (rule triple_case_option)
        assume "place_child code p k0 = None"
        with child show "triple (\<lambda>k. k = k0 \<and> ?I S k) (ret ()) (\<lambda>_. ?I (insert p S)) (\<lambda>_. True)"
          by (intro triple_ret) (auto simp: entered_in_def)
      next
        fix j assume j: "place_child code p k0 = Some j"
        have "j < length (tm_tables code)" by (rule place_child_ok(2) [OF ok table_places_ok [OF Suc.prems p] j])
        have keep: "preserves (?I S) (tree_enter_node m env code j)" unfolding tree_enter_node.simps
          by (intro preserves_then_do preserves_update preserves_for_each enter_keeps(2)) (simp_all add: reset_table_states entered_in_reset)
        from triple_conj [OF keep Suc.IH [OF \<open>j < length (tm_tables code)\<close>]]
        show "triple (\<lambda>k. k = k0 \<and> ?I S k) (tree_enter_node m env code j) (\<lambda>_. ?I (insert p S)) (\<lambda>_. True)"
          by (rule triple_pre [rotated, OF triple_post]) (use child j in \<open>auto simp: entered_in_def\<close>)
      qed
    next
      case False
      then show ?thesis by (simp add: triple_def)
    qed
    then show "triple (?I S) (tree_enter_children (Suc m) env code p) (\<lambda>_. ?I (insert p S)) (\<lambda>_. True)"
      unfolding tree_enter_children.simps by (rule triple_with_core)
  qed
qed

text \<open>
  C27. After the entry of a table of a composite tree, that table and every table that is active below it
  is in the initial states of its regions, unless it is a scalar table with a history mark; so an
  orthogonal table forgets its states although one of its rows has the mark \<open>(H)\<close>.
\<close>

theorem entered_tables_start_fresh:
  assumes "generate_multi_code sms parent children = Ok code" "tree_tables sms parent children = Ok (root, w)"
    and "machine_name parent = Some name" "length (tree_states k) = length (tm_tables code)" "i < length (tm_tables code)"
    and "tree_enter_node m env code i k = Some (k', Ok ())" "inside code (tree_states k') i j" "j < length (tm_tables code)"
    and "several_starts ((root # tw_tables w) ! j) \<or> \<not> list_ex (\<lambda>t. in_history (st_in t)) (transitions ((root # tw_tables w) ! j))"
  shows "tree_states k' ! j = table_start env (tm_tables code ! j)"
proof -
  from generated_nth(2) [OF assms(1-3,8)] assms(9) have "\<not> tt_history (tm_tables code ! j)"
    by (auto dest: generated_tree_table(5))
  moreover have "fresh_below env code i (tree_states k')"
    by (rule triple_value [OF tree_enter_fresh [OF generated_tree_ok [OF assms(1)] assms(5)] assms(6,4)])
  ultimately show ?thesis using assms(7) by (auto simp: fresh_below_def fresh_table_def)
qed

theorem entered_tables_start_fresh_witness:
  "tree_states (chain_after False [''Enter'', ''Next'']) ! 2 = [Variant ''High'' None] \<and>
   tree_states (fst (the (tree_enter_node 3 composite_test_env (chain_code False) 1 (chain_after False [''Enter'', ''Next''])))) ! 2 =
     [Variant ''Low'' None]"
proof -
  let ?code = "chain_code False" and ?k = "chain_after False [''Enter'', ''Next'']"
  define k' where "k' = fst (the (tree_enter_node 3 composite_test_env ?code 1 ?k))"
  have shape: "length (tree_states ?k) = length (tm_tables ?code)" "1 < length (tm_tables ?code)" "2 < length (tm_tables ?code)"
    by code_simp+
  have run: "tree_enter_node 3 composite_test_env ?code 1 ?k = Some (k', Ok ())" unfolding k'_def by code_simp
  have place: "(1, 0) \<in> set (table_places ?code 1)" by code_simp
  have "map_of (tt_children (tm_tables ?code ! 1)) (variant (at_place (1, 0) (tree_states k'))) = Some 2"
    unfolding k'_def by code_simp
  from inside_below [OF inside_here place this] have below: "inside ?code (tree_states k') 1 2" .
  have plain: "\<not> list_ex (\<lambda>t. in_history (st_in t)) (transitions ((chain_root # tw_tables chain_walk) ! 2))" by code_simp
  have start: "table_start composite_test_env (tm_tables ?code ! 2) = [Variant ''Low'' None]" by code_simp
  have before: "tree_states ?k ! 2 = [Variant ''High'' None]" by code_simp
  from entered_tables_start_fresh [OF chain_generated chain_tables chain_call(1) shape(1,2) run below shape(3)] plain start before
  show ?thesis by (simp add: k'_def)
qed

text \<open>The places that have been left, with skip tokens of the right shape.\<close>

definition left_places :: "tree_code \<Rightarrow> place set \<Rightarrow> ('c, 'v, 'q) tree_core \<Rightarrow> bool" where
  "left_places code S k \<longleftrightarrow> map length (tree_skips k) = map (length \<circ> tt_regions) (tm_tables code) \<and>
     (\<forall>p \<in> S. at_place p (tree_skips k))"

lemma left_places_hooks: "preserves (left_places code S) (place_hooks env code' which p)"
proof -
  have action: "preserves (left_places code S) (tree_action_code env e sd td a)" for e sd td a
    unfolding tree_action_code_def
    by (rule preserves_lift_step) (auto simp: left_places_def tree_log_def split: prod.splits sum.splits)
  show ?thesis unfolding place_hooks_def tree_hook_calls_def Let_def
    by (intro preserves_with_core preserves_for_each action)
qed

lemma left_places_skip:
  assumes "left_places code S k" "place_ok code p"
  shows "left_places code (insert p S) (put_tree_skip p True k)"
proof -
  let ?xs = "tree_skips k"
  have len: "map length ?xs = map (length \<circ> tt_regions) (tm_tables code)" using assms(1) by (simp add: left_places_def)
  then have "fst p < length ?xs" using assms(2) by (metis length_map place_ok_def)
  moreover from arg_cong [OF len, of "\<lambda>xs. xs ! fst p"] this assms(2) have "snd p < length (?xs ! fst p)"
    by (simp add: place_ok_def)
  ultimately have "at_place q (put_place p True ?xs)" if "q = p \<or> at_place q ?xs" for q
    using that by (cases "q = p") (simp_all add: put_place_same put_place_other)
  with assms(1) show ?thesis by (auto simp: left_places_def put_tree_skip_def put_place_lengths)
qed

lemma left_places_mono: "left_places code S k \<Longrightarrow> T \<subseteq> S \<Longrightarrow> left_places code T k"
  by (auto simp: left_places_def)

lemma tree_exit_leaves:
  fixes env :: "('c, 'v, 'err, 'q) region_env"
  assumes ok: "tree_ok code"
  shows "place_ok code p \<Longrightarrow> triple (left_places code S) (tree_exit_children m env code p) (\<lambda>_. left_places code S) (\<lambda>_. True)"
    and "place_ok code p \<Longrightarrow> triple (left_places code S) (tree_exit_place m env code p) (\<lambda>_. left_places code (insert p S)) (\<lambda>_. True)"
proof -
  have place: "triple (left_places code S) (tree_exit_place m env code p) (\<lambda>_. left_places code (insert p S)) (\<lambda>_. True)"
    if p: "place_ok code p" and
      children: "triple (left_places code S) (tree_exit_children m env code p) (\<lambda>_. left_places code S) (\<lambda>_. True)" for m p S
  proof -
    have hooks: "triple (left_places code S) (place_hooks env code lc_exit p) (\<lambda>_. left_places code S) (\<lambda>_. True)"
      by (rule triple_post [OF left_places_hooks]) auto
    have skip: "triple (left_places code S) (update (put_tree_skip p True)) (\<lambda>_. left_places code (insert p S)) (\<lambda>_. True)"
      by (rule triple_update) (rule left_places_skip [OF _ p])
    have "triple (\<lambda>k. k = k0 \<and> left_places code S k) (if at_place p (tree_skips k0) then ret ()
        else then_do (tree_exit_children m env code p) (then_do (place_hooks env code lc_exit p) (update (put_tree_skip p True))))
        (\<lambda>_. left_places code (insert p S)) (\<lambda>_. True)" for k0
    proof (rule triple_if)
      assume "at_place p (tree_skips k0)"
      then show "triple (\<lambda>k. k = k0 \<and> left_places code S k) (ret ()) (\<lambda>_. left_places code (insert p S)) (\<lambda>_. True)"
        by (intro triple_ret) (auto simp: left_places_def)
    next
      show "triple (\<lambda>k. k = k0 \<and> left_places code S k)
          (then_do (tree_exit_children m env code p) (then_do (place_hooks env code lc_exit p) (update (put_tree_skip p True))))
          (\<lambda>_. left_places code (insert p S)) (\<lambda>_. True)"
        by (rule triple_pre [OF _ triple_then_do [OF children triple_then_do [OF hooks skip]]]) simp
    qed
    then show ?thesis unfolding tree_exit_place.simps by (rule triple_with_core)
  qed
  have all: "place_ok code p \<longrightarrow> (\<forall>S. triple (left_places code S) (tree_exit_children m env code p) (\<lambda>_. left_places code S) (\<lambda>_. True))" for m p
  proof (induction m arbitrary: p)
    case (Suc m)
    show ?case
    proof (intro impI allI)
      fix S assume p: "place_ok code p"
      have "triple (left_places code S) (tree_exit_node m env code i) (\<lambda>_. left_places code S) (\<lambda>_. True)"
        if "i < length (tm_tables code)" for i
      proof -
        have "triple (left_places code T) (tree_exit_place m env code q) (\<lambda>_. left_places code (insert q T)) (\<lambda>_. True)"
          if "q \<in> set (table_places code i)" for q T
          using place Suc.IH table_places_ok [OF \<open>i < length (tm_tables code)\<close> that] by blast
        from for_each_collects [where I = "left_places code", OF this, of _ S] show ?thesis
          unfolding tree_exit_node.simps by (rule triple_post) (auto intro: left_places_mono)
      qed
      then have child: "triple (left_places code S)
          (case place_child code p k0 of None \<Rightarrow> ret () | Some i \<Rightarrow> tree_exit_node m env code i)
          (\<lambda>_. left_places code S) (\<lambda>_. True)" for k0 :: "('c, 'v, 'q) tree_core"
        by (intro triple_case_option triple_ret) (simp_all add: place_child_ok(2) [OF ok p])
      show "triple (left_places code S) (tree_exit_children (Suc m) env code p) (\<lambda>_. left_places code S) (\<lambda>_. True)"
        unfolding tree_exit_children.simps by (rule triple_with_core, rule triple_pre [OF _ child]) simp
    qed
  qed simp
  show "place_ok code p \<Longrightarrow> triple (left_places code S) (tree_exit_children m env code p) (\<lambda>_. left_places code S) (\<lambda>_. True)"
    using all by blast
  then show "place_ok code p \<Longrightarrow> triple (left_places code S) (tree_exit_place m env code p) (\<lambda>_. left_places code (insert p S)) (\<lambda>_. True)"
    using place by blast
qed

lemma left_place_skipped:
  assumes "at_place p (tree_skips k)"
  shows "tree_exit_place m env code p k = Some (k, Ok ())"
  using assms by (simp add: with_core_def ret_def)

text \<open>
  C28. A table of a composite tree whose exit has succeeded is not left again: leaving it once more runs
  no exit hook, changes nothing and succeeds.
\<close>

theorem left_table_stays_left:
  assumes "generate_multi_code sms parent children = Ok code" "i < length (tm_tables code)"
    and "map length (tree_skips k) = map (length \<circ> tt_regions) (tm_tables code)"
    and "tree_exit_node m env code i k = Some (k', Ok ())"
  shows "tree_exit_node m' env code i k' = Some (k', Ok ())"
proof -
  note ok = generated_tree_ok [OF assms(1)]
  have "triple (left_places code {}) (tree_exit_node m env code i) (\<lambda>_. left_places code (set (table_places code i) \<union> {})) (\<lambda>_. True)"
    unfolding tree_exit_node.simps
    by (intro for_each_collects tree_exit_leaves(2) [OF ok] table_places_ok [OF assms(2)])
  from triple_value [OF this assms(4)] assms(3) have "\<forall>p \<in> set (table_places code i). at_place p (tree_skips k')"
    by (simp add: left_places_def)
  then have "for_each (tree_exit_place m' env code) ps k' = Some (k', Ok ())" if "set ps \<subseteq> set (table_places code i)" for ps
    using that
    by (induction ps) (auto simp: then_do_def bind_def left_place_skipped ret_def simp del: tree_exit_place.simps)
  then show ?thesis by (simp del: tree_exit_place.simps)
qed

theorem left_table_stays_left_witness:
  "tree_actions (fst (the (tree_exit_node 3 composite_test_env (chain_code False) 1 (chain_after False [''Enter''])))) =
     [''mid_in'', ''low_in'', ''low_out'', ''mid_out''] \<and>
   (let k' = fst (the (tree_exit_node 3 composite_test_env (chain_code False) 1 (chain_after False [''Enter'']))) in
    tree_exit_node 3 composite_test_env (chain_code False) 1 k' = Some (k', Ok ()))"
proof -
  let ?code = "chain_code False" and ?k = "chain_after False [''Enter'']"
  define k' where "k' = fst (the (tree_exit_node 3 composite_test_env ?code 1 ?k))"
  have shape: "1 < length (tm_tables ?code)" "map length (tree_skips ?k) = map (length \<circ> tt_regions) (tm_tables ?code)"
    by code_simp+
  have run: "tree_exit_node 3 composite_test_env ?code 1 ?k = Some (k', Ok ())" unfolding k'_def by code_simp
  have "tree_actions k' = [''mid_in'', ''low_in'', ''low_out'', ''mid_out'']" unfolding k'_def by code_simp
  with left_table_stays_left [OF chain_generated shape run] show ?thesis by (simp only: k'_def [symmetric] Let_def simp_thms)
qed

section \<open>Every place moves along its rows\<close>

text \<open>
  C26. In every reachable configuration of a composite tree the state of every place is the initial one
  of its region or the target of a row of its table, every change of the place is an external row of
  the table, and the changes of the root form a path from its initial state.
\<close>

theorem tree_follows_tables:
  assumes "generate_multi_code sms parent children = Ok code" "tree_tables sms parent children = Ok (root, w)"
    and "tree_reachable env code k" "place_ok code p"
  shows "(variant (tree_state p k) = tr_initial (place_region code p) \<or>
      row_target ((root # tw_tables w) ! fst p) (variant (tree_state p k))) \<and>
    list_all (\<lambda>(a, b). row_between ((root # tw_tables w) ! fst p) a b) (place_changes p k) \<and>
    (fst p = 0 \<longrightarrow> row_path root (tr_initial (place_region code p)) (place_changes p k) (variant (tree_state p k)))"
proof -
  have "generate_multi_code sms parent children = Ok code \<and> tree_tables sms parent children = Ok (root, w) \<longrightarrow>
      tree_follows (root # tw_tables w) code k"
  proof (rule trees.tree_reachable_keeps [OF assms(3) generated_tree_ok [OF assms(1)]])
    fix ctx
    have "place_follows ((root # tw_tables w) ! fst q) code q (new_tree_core env code ctx)" if "place_ok code q" for q
      using that by (cases "fst q = 0") (auto simp: place_follows_def new_tree_core_def place_changes_def tree_state_def at_place_def
          table_start_def region_initial_def place_region_def place_ok_def)
    then show "generate_multi_code sms parent children = Ok code \<and> tree_tables sms parent children = Ok (root, w) \<longrightarrow>
        tree_follows (root # tw_tables w) code (new_tree_core env code ctx)"
      by (simp add: tree_follows_def) (simp add: new_tree_core_def table_start_def)
  qed
  with assms(1,2) have "place_follows ((root # tw_tables w) ! fst p) code p k" using tree_followsD assms(4) by blast
  then show ?thesis by (auto simp: place_follows_def)
qed

lemma chain_reachable: "tree_reachable composite_test_env (chain_code False) (chain_after False [''Enter'', ''Next''])"
proof -
  let ?env = composite_test_env and ?code = "chain_code False"
  have init: "tree_initialize 4 ?env ?code (new_tree_core ?env ?code 0) = Some (chain_after False [], Ok ())" by code_simp
  have enter: "tree_process_event 4 ?env ?code (Variant ''Enter'' None) (chain_after False []) =
      Some (chain_after False [''Enter''], Ok ())" by code_simp
  have step: "tree_process_event 4 ?env ?code (Variant ''Next'' None) (chain_after False [''Enter'']) =
      Some (chain_after False [''Enter'', ''Next''], Ok ())" by code_simp
  show ?thesis by (rule tree_processed [OF tree_processed [OF tree_initialized [OF init] enter] step])
qed

theorem tree_follows_tables_witness:
  "place_changes (2, 0) (chain_after False [''Enter'', ''Next'']) = [(''Low'', ''High'')] \<and> row_between leaf_table ''Low'' ''High''"
proof -
  have ok: "place_ok (chain_code False) (2, 0)" by code_simp
  have "place_changes (2, 0) (chain_after False [''Enter'', ''Next'']) = [(''Low'', ''High'')]" by code_simp
  moreover have "(chain_root # tw_tables chain_walk) ! 2 = leaf_table" by code_simp
  ultimately show ?thesis using tree_follows_tables [OF chain_generated chain_tables chain_reachable ok] by simp
qed

section \<open>Runs that the documentation rules out\<close>

lemma place_changes_callbacks:
  "place_changes p k = concat (map (\<lambda>x. case x of TreeCallback p' a b \<Rightarrow> if p' = p then [(a, b)] else [] | _ \<Rightarrow> [])
     (filter (\<lambda>x. case x of TreeCallback _ _ _ \<Rightarrow> True | _ \<Rightarrow> False) (tree_observed k)))"
proof -
  have "concat (map f (filter P xs)) = concat (map f xs)" if "\<And>x. \<not> P x \<Longrightarrow> f x = []"
    for f :: "tree_observation \<Rightarrow> (string \<times> string) list" and P xs
    using that by (induction xs) auto
  note dropped = this
  show ?thesis unfolding place_changes_def
    by (rule sym, rule dropped) (auto split: tree_observation.splits)
qed

text \<open>
  One event can be handled by a table and by the table that owns it: in the chain, \<open>Next\<close> moves
  \<open>Leaf\<close> from \<open>Low\<close> to \<open>High\<close> and then also runs the row of \<open>Mid\<close> for \<open>state<Leaf>\<close>, because the emitted
  dispatch of a scalar node is not suppressed by the tables below it, while the root is.
\<close>

theorem middle_table_also_handles:
  "tree_process_event 4 composite_test_env (chain_code True) (Variant ''Next'' None) (chain_after True []) =
     Some (chain_after True [''Next''], Ok ()) \<and>
   place_changes (2, 0) (chain_after True [''Next'']) = [(''Low'', ''High'')] \<and>
   place_changes (1, 0) (chain_after True [''Next'']) = [(''Leaf'', ''Away'')] \<and>
   place_changes (0, 0) (chain_after True [''Next'']) = []"
proof (intro conjI)
  show "tree_process_event 4 composite_test_env (chain_code True) (Variant ''Next'' None) (chain_after True []) =
      Some (chain_after True [''Next''], Ok ())" by code_simp
  have "filter (\<lambda>x. case x of TreeCallback _ _ _ \<Rightarrow> True | _ \<Rightarrow> False) (tree_observed (chain_after True [''Next''])) =
      [TreeCallback (2, 0) ''Low'' ''High'', TreeCallback (1, 0) ''Leaf'' ''Away'']" by code_simp
  then show "place_changes (2, 0) (chain_after True [''Next'']) = [(''Low'', ''High'')]"
    "place_changes (1, 0) (chain_after True [''Next'']) = [(''Leaf'', ''Away'')]"
    "place_changes (0, 0) (chain_after True [''Next'']) = []" by (simp_all add: place_changes_callbacks)
qed

lemma concat_replicate_snoc: "concat (replicate (Suc n) xs) = concat (replicate n xs) @ xs"
  by (induction n) simp_all

lemma trim_copies: "\<exists>n. s = trim_end_matches ending s @ concat (replicate n ending)"
proof (induction ending s rule: trim_end_matches.induct)
  case (1 ending s)
  show ?case
  proof (cases "ending \<noteq> [] \<and> length ending \<le> length s \<and> drop (length s - length ending) s = ending")
    case True
    from 1 [OF this] obtain n where n: "take (length s - length ending) s =
        trim_end_matches ending (take (length s - length ending) s) @ concat (replicate n ending)" by blast
    have "s = take (length s - length ending) s @ ending" using True by (metis append_take_drop_id)
    with n have "s = trim_end_matches ending (take (length s - length ending) s) @ concat (replicate n ending) @ ending"
      by (metis append_assoc)
    then have "s = trim_end_matches ending (take (length s - length ending) s) @ concat (replicate (Suc n) ending)"
      by (simp only: concat_replicate_snoc)
    moreover have "trim_end_matches ending s = trim_end_matches ending (take (length s - length ending) s)"
      using True by (subst trim_end_matches.simps) simp
    ultimately show ?thesis by metis
  next
    case False
    then show ?thesis by (subst trim_end_matches.simps) (auto intro: exI [of _ 0])
  qed
qed

text \<open>
  The event enumeration that a deferring row of an orthogonal node names is derived from the
  enumeration of the states of the node, so it carries the name of the node; the enumeration that
  the tree declares carries only that of the root.
\<close>

theorem embedded_defer_names_no_enum:
  assumes "\<And>n. state_ident node \<noteq> concat (replicate n ''States'')"
  shows "defer_events_name (tree_states_name root node) \<noteq> root @ ''Events''"
proof
  assume "defer_events_name (tree_states_name root node) = root @ ''Events''"
  then have trimmed: "trim_end_matches ''States'' (root @ state_ident node @ ''States'') = root"
    by (simp add: defer_events_name_def tree_states_name_def)
  obtain n where "root @ state_ident node @ ''States'' = root @ concat (replicate n ''States'')"
    using trim_copies [of "root @ state_ident node @ ''States''" "''States''"] by (auto simp: trimmed)
  then have "state_ident node @ ''States'' = concat (replicate n ''States'')" by simp
  moreover from this obtain m where "n = Suc m" by (cases n) simp_all
  ultimately have "state_ident node @ ''States'' = concat (replicate m ''States'') @ ''States''"
    by (simp only: concat_replicate_snoc)
  then show False using assms [of m] by simp
qed

theorem embedded_defer_names_no_enum_witness: "defer_events_name (tree_states_name ''Top'' ''Mid'') \<noteq> ''TopEvents''"
proof -
  have "state_ident ''Mid'' \<noteq> concat (replicate n ''States'')" for n
  proof -
    have "state_ident ''Mid'' = ''Mid''" by code_simp
    then show ?thesis by (cases n) simp_all
  qed
  from embedded_defer_names_no_enum [OF this, of "''Top''"] show ?thesis by simp
qed

end
