(* ===== verification/Scheduled_Machines.thy ===== *)
theory Scheduled_Machines
  imports Fifo_Safety Tree_Machine Parsed_Correctness
begin

text \<open>
  Generated machines behind a scheduler: the \<open>SyncMachineStep\<close> that codegen.rs and \<open>scheduled_items\<close> of
  composite_codegen.rs emit for a machine, and what the machine does when it is shared. In every
  interleaving of callers the shared machine is the one that runs the finished events alone, one
  after the other, in an order in which the queue accepted them; so every property of the histories
  of a machine holds for the shared one.
\<close>

section \<open>The emitted step\<close>

text \<open>
  \<open>start\<close> and \<open>step\<close> return whether the call succeeded. The fuel is that of the emitted calls: a call
  that needs more of it counts as a start that fails, or as a step that panics.
\<close>

definition accepted_start :: "('k \<Rightarrow> ('k \<times> ('e, unit) rust_result) option) \<Rightarrow> 'k \<Rightarrow> 'k \<times> bool" where
  "accepted_start initialize k = (case initialize k of None \<Rightarrow> (k, False) | Some (k', r) \<Rightarrow> (k', is_ok r))"

definition accepted_step ::
  "('v \<Rightarrow> 'k \<Rightarrow> ('k \<times> ('e, unit) rust_result) option) \<Rightarrow> 'k \<Rightarrow> 'v \<Rightarrow> 'k \<times> bool option" where
  "accepted_step process k e = (case process e k of None \<Rightarrow> (k, None) | Some (k', r) \<Rightarrow> (k', Some (is_ok r)))"

definition scheduled_flat ::
  "nat \<Rightarrow> ('c, 'v, 'err, 'q) machine_env \<Rightarrow> flat_code \<Rightarrow> (('c, 'v, 'q) core, 'v variant_value) sync_machine" where
  "scheduled_flat n env code =
     \<lparr>start_fn = accepted_start (initialize_unlocked n env code), step_fn = accepted_step (process_event_unlocked n env code),
      terminated_fn = is_terminated code\<rparr>"

definition scheduled_orthogonal ::
  "nat \<Rightarrow> ('c, 'v, 'err, 'q) region_env \<Rightarrow> orth_code \<Rightarrow> (('c, 'v, 'q) orth_core, 'v variant_value) sync_machine" where
  "scheduled_orthogonal n env code =
     \<lparr>start_fn = accepted_start (orth_initialize n env code), step_fn = accepted_step (orth_process_event n env code),
      terminated_fn = orth_is_terminated\<rparr>"

definition scheduled_composite ::
  "nat \<Rightarrow> ('c, 'v, 'err, 'q) region_env \<Rightarrow> composite_code \<Rightarrow> (('c, 'v, 'q) composite_core, 'v variant_value) sync_machine" where
  "scheduled_composite n env code =
     \<lparr>start_fn = accepted_start (composite_initialize n env code), step_fn = accepted_step (composite_process_event n env code),
      terminated_fn = composite_is_terminated code\<rparr>"

definition scheduled_tree ::
  "nat \<Rightarrow> ('c, 'v, 'err, 'q) region_env \<Rightarrow> tree_code \<Rightarrow> (('c, 'v, 'q) tree_core, 'v variant_value) sync_machine" where
  "scheduled_tree n env code =
     \<lparr>start_fn = accepted_start (tree_initialize n env code), step_fn = accepted_step (tree_process_event n env code),
      terminated_fn = tree_is_terminated code\<rparr>"

section \<open>Whose event it is\<close>

text \<open>\<open>ev\<close> gives the event that each completion submits; a position carries only events of their completions.\<close>

fun carries :: "(nat \<Rightarrow> 'e) \<Rightarrow> nat \<Rightarrow> 'e pc \<Rightarrow> bool" where
  "carries ev c (Offering e m) = (ev c = e)"
| "carries ev c (Owned (WaitRoom e)) = (ev c = e)"
| "carries ev c (Forgetting (WaitRoom e)) = (ev c = e)"
| "carries ev c (Running e tk fin m) = (ev (item c tk) = e)"
| "carries ev c (InStep e tk fin m) = (ev (item c tk) = e)"
| "carries ev c (WakeRoom ws (Some (e, t)) tm fin m) = (ev t = e)"
| "carries ev c (Waking w p) = carries ev c p"
| "carries ev c (UnwindLock p) = carries ev c p"
| "carries ev c (UnwindQueue tm p) = carries ev c p"
| "carries ev c (UnwindResolve ts ws p) = carries ev c p"
| "carries ev c (UnwindWake ws p) = carries ev c p"
| "carries ev c p = True"

lemma carries_WakeRoom [simp]:
  "carries ev c (WakeRoom ws popped tm fin m) \<longleftrightarrow> (case popped of None \<Rightarrow> True | Some (e, t) \<Rightarrow> ev t = e)"
  by (cases popped) auto

lemma carries_returned [simp]: "carries ev c (returned c fin m)"
  by (cases m; cases fin; simp add: returned_def hand_over_def)

lemma carries_hand_over [simp]:
  "carries ev c (hand_over (WaitDone b) m)" "carries ev c (hand_over (WaitQueued t) m)"
  "carries ev c (hand_over (WaitRoom e) m) \<longleftrightarrow> m = TrySubmit \<or> ev c = e"
  by (cases m; simp add: hand_over_def)+

text \<open>The events whose steps have ended, in the order of the log.\<close>

definition finished :: "step_log list \<Rightarrow> nat list" where
  "finished log = concat (map (\<lambda>x. case x of Begin _ \<Rightarrow> [] | End i _ \<Rightarrow> [i]) log)"

lemma finished_simps [simp]:
  "finished [] = []" "finished (log @ [Begin i]) = finished log" "finished (log @ [End i r]) = finished log @ [i]"
  by (simp_all add: finished_def)

lemma begun_finished:
  "log_now log = Some st \<Longrightarrow> begun log = finished log @ option_list st"
proof (induction log arbitrary: st rule: rev_induct)
  case (snoc x log)
  then show ?case
    by (cases x; cases "log_now log"; cases "the (log_now log)") (auto simp: option_list_def split: if_splits)
qed (simp add: option_list_def)

section \<open>The shared machine runs alone\<close>

definition run_alone :: "('m, 'e) sync_machine \<Rightarrow> 'm \<Rightarrow> 'e list \<Rightarrow> 'm" where
  "run_alone mach m es = foldl (\<lambda>m e. fst (step_fn mach m e)) (fst (start_fn mach m)) es"

definition serial :: "('m, 'e) sync_machine \<Rightarrow> 'm \<Rightarrow> (nat \<Rightarrow> 'e) \<Rightarrow> ('m, 'e) fifo_sys \<Rightarrow> bool" where
  "serial mach m ev s \<longleftrightarrow>
     (\<forall>(e, t) \<in> set (queued (shared_queue s)). ev t = e) \<and> (\<forall>c. carries ev c (pcs s c)) \<and>
     shared_machine s = run_alone mach m (map ev (finished (step_log s)))"

fun offers :: "(nat \<Rightarrow> 'e) \<Rightarrow> 'e action \<Rightarrow> bool" where
  "offers ev (NewSubmit c e) = (ev c = e)"
| "offers ev (NewTrySubmit c e) = (ev c = e)"
| "offers ev _ = True"

lemma serial_move:
  assumes inv: "serial mach m ev s" and p: "pcs s c = p" "pcs s' = (pcs s)(c := p')"
    and same: "carries ev c p \<Longrightarrow> carries ev c p'" "shared_machine s' = shared_machine s"
      "finished (step_log s') = finished (step_log s)"
      "carries ev c p \<Longrightarrow> set (queued (shared_queue s')) \<subseteq> set (queued (shared_queue s)) \<union> {(ev c, c)}"
  shows "serial mach m ev s'"
proof -
  have c: "carries ev c p" using inv p(1) by (auto simp: serial_def)
  have "carries ev d (pcs s' d)" for d using inv same(1) [OF c] by (simp add: p(2) serial_def)
  moreover have "ev t = e" if "(e, t) \<in> set (queued (shared_queue s'))" for e t
    using inv same(4) [OF c] that by (auto simp: serial_def)
  ultimately show ?thesis using inv same(2,3) by (auto simp: serial_def)
qed

lemma serial_ended:
  assumes inv: "serial mach m ev s" and c: "pcs s c = InStep e tk fin k" and step: "step_fn mach (shared_machine s) e = (m', r)"
    and s': "pcs s' = (pcs s)(c := p')" "carries ev c p'" "shared_machine s' = m'"
      "step_log s' = step_log s @ [End (item c tk) r]" "shared_queue s' = shared_queue s"
  shows "serial mach m ev s'"
proof -
  from inv c have "ev (item c tk) = e" by (auto simp: serial_def dest: spec [of _ c])
  with inv step have "m' = run_alone mach m (map ev (finished (step_log s')))"
    by (simp add: serial_def s' run_alone_def)
  with inv show ?thesis by (simp add: serial_def s')
qed

lemma serial_step:
  assumes "fifo_step mach n s s'" "serial mach m ev s"
    and "\<And>c e k. pcs s c = Absent \<Longrightarrow> pcs s' c = Offering e k \<Longrightarrow> ev c = e"
  shows "serial mach m ev s'"
  using assms
proof (induction rule: fifo_step.induct)
  case (submitted s c k e)
  have "ev c = e" by (rule submitted(4) [OF submitted(1)]) simp
  then show ?case by (intro serial_move [OF submitted(3,1)]) auto
next
  case (ended s c e tk fin k m' b)
  then show ?case by (intro serial_ended [OF ended(3,1,2)]) auto
next
  case (panicked s c e tk fin k m')
  then show ?case by (intro serial_ended [OF panicked(3,1,2)]) auto
next
  case (took_older s c e k es older t es')
  then have "ev t = older" "ev c = e" by (auto simp: serial_def dest: spec [of _ c])
  with took_older show ?case by (intro serial_move [OF took_older(6,1)]) (auto simp: accepted_def)
next
  case (took_next s c tm fin k es e t)
  then have "ev t = e" by (auto simp: serial_def)
  with took_next show ?case by (intro serial_move [OF took_next(4,1)]) auto
next
  case (woke s c w p)
  then show ?case by (intro serial_move [OF woke(2,1)]) (auto simp: wake_task_def)
next
  case (unwind_next s c p room p' q)
  then show ?case by (intro serial_move [OF unwind_next(3,1), where p' = q]) auto
qed (erule serial_move, assumption, simp add: accepted_def,
     (auto simp: accepted_def FifoCell_forget_def split: wait.splits)[4])+

lemma serial_initial: "serial mach m ev (initial_sys mach n m)"
proof -
  have "EventQueue_ok n (EventQueue_new n)" by (rule evq.new_inv)
  then show ?thesis
    by (auto simp: serial_def initial_sys_def FifoScheduler_cell_def run_alone_def EventQueue_new_contents split: prod.splits)
qed

lemma advance_others:
  assumes "advance mach panicking d s = Some s'" "c \<noteq> d"
  shows "pcs s' c = pcs s c"
  using assms
  by (cases "pcs s d")
    (auto simp: advance_def offer_section_def accepted_def resolve_ticket_def begin_step_def end_step_def next_section_def
      unwind_section_def wake_waiter_def wake_task_def Let_def
      split: prod.splits offered.splits offer.splits option.splits if_splits list.splits wait.splits)

lemma offered_event:
  assumes "perform mach panicking a s = Some s'" "offers ev a" "pcs s c = Absent" "pcs s' c = Offering e k"
  shows "ev c = e"
proof (cases a)
  case (Advance d)
  have "d \<noteq> c" using assms(1,3) by (auto simp: Advance advance_def)
  with advance_others assms(1) have "pcs s' c = pcs s c" by (fastforce simp: Advance)
  with assms(3,4) show ?thesis by simp
qed (use assms in \<open>auto simp: poll_start_def drop_completion_def Let_def split: if_splits pc.splits wait.splits\<close>)

lemma serial_run:
  assumes "fifo_run mach (\<lambda>_. False) as s = Some s'" "list_all (offers ev) as" "serial mach m ev s"
    and "fifo_reachable mach (\<lambda>_. False) n s"
  shows "serial mach m ev s'"
  using assms
proof (induction as arbitrary: s)
  case (Cons a as)
  then obtain s1 where a: "perform mach (\<lambda>_. False) a s = Some s1" "fifo_run mach (\<lambda>_. False) as s1 = Some s'"
    by (auto split: option.splits)
  have step: "fifo_step mach n s s1"
    by (rule perform_step [OF _ fifo_inv_queue_ok [OF fifo_inv_reachable [OF Cons.prems(4)]] a(1)]) simp
  have "serial mach m ev s1"
    by (rule serial_step [OF step Cons.prems(3)]) (use offered_event [OF a(1)] Cons.prems(2) in auto)
  with Cons.IH [OF a(2)] Cons.prems(2) fifo_action [OF Cons.prems(4) a(1)] show ?case by simp
qed simp

lemma subseq_prefix: "subseq xs (xs @ ys)"
  by (meson prefixI prefix_imp_subseq)

text \<open>
  C17. A shared machine runs as if alone: in every interleaving of callers whose threads were not
  unwinding before, the machine is the one that has run the finished events one after the other,
  each the event that its completion submitted, and these are, in order, among the accepted events.
\<close>

theorem scheduled_runs_alone:
  assumes "fifo_run mach (\<lambda>_. False) as (initial_sys mach n m) = Some s" "list_all (offers ev) as"
  shows "shared_machine s = run_alone mach m (map ev (finished (step_log s))) \<and>
    subseq (finished (step_log s)) (accepted_order s)"
proof -
  have reach: "fifo_reachable mach (\<lambda>_. False) n s" by (rule fifo_run_reachable [OF assms(1) fifo_start])
  have inv: "fifo_inv n s" by (rule fifo_inv_reachable [OF reach])
  then obtain st where "log_now (step_log s) = Some st" by (auto simp: fifo_inv_def drain_ok_def)
  from begun_finished [OF this] have "subseq (finished (step_log s)) (begun (step_log s))"
    by (simp add: subseq_prefix)
  also have "subseq \<dots> (taken_order s)" using inv by (intro order_ok_begun) (simp add: fifo_inv_def)
  also have "subseq \<dots> (accepted_order s)" using inv by (simp add: fifo_inv_def order_ok_def subseq_prefix)
  finally show ?thesis using serial_run [OF assms serial_initial fifo_start] by (simp add: serial_def)
qed

text \<open>The lamp of \<open>Parsed_Correctness\<close>, switched by caller 0 while caller 1 resets it.\<close>

definition lamp_machine :: "((nat, nat, nat variant_value event_queue) core, nat variant_value) sync_machine" where
  "lamp_machine = scheduled_flat 3 test_env (code_of lamp_parsed)"

definition lamp_core :: "(nat, nat, nat variant_value event_queue) core" where
  "lamp_core = new_core test_env (code_of lamp_parsed) 0 None"

definition lamp_event :: "nat \<Rightarrow> nat variant_value" where
  "lamp_event c = plain_event (if c = 0 then ''Toggle'' else ''Reset'')"

definition lamp_calls :: "nat variant_value action list" where
  "lamp_calls = [NewSubmit 0 (lamp_event 0), Advance 0, Advance 0, NewSubmit 1 (lamp_event 1), Advance 1, Advance 0,
     Advance 0, Advance 0, Advance 0, Advance 0, Advance 0]"

lemma lamp_run:
  "case fifo_run lamp_machine (\<lambda>_. False) lamp_calls (initial_sys lamp_machine 2 lamp_core) of None \<Rightarrow> False
   | Some s \<Rightarrow> finished (step_log s) = [0, 1] \<and> accepted_order s = [0, 1]"
  by code_simp

lemma lamp_offers: "list_all (offers lamp_event) lamp_calls"
  by code_simp

theorem scheduled_runs_alone_witness:
  "\<exists>s. fifo_run lamp_machine (\<lambda>_. False) lamp_calls (initial_sys lamp_machine 2 lamp_core) = Some s \<and>
     shared_machine s = run_alone lamp_machine lamp_core [plain_event ''Toggle'', plain_event ''Reset''] \<and>
     subseq [0, 1] (accepted_order s)"
proof -
  obtain s where s: "fifo_run lamp_machine (\<lambda>_. False) lamp_calls (initial_sys lamp_machine 2 lamp_core) = Some s"
      "finished (step_log s) = [0, 1]"
    using lamp_run by (auto split: option.splits)
  from scheduled_runs_alone [OF s(1) lamp_offers] s show ?thesis by (auto simp: lamp_event_def)
qed

section \<open>Flat machines\<close>

lemma run_alone_reachable:
  assumes "initialize_unlocked n env code (new_core env code ctx data) = Some (k, r)"
  shows "reachable env code (run_alone (scheduled_flat n env code) (new_core env code ctx data) es)"
proof -
  have "reachable env code (foldl (\<lambda>m e. fst (step_fn (scheduled_flat n env code) m e)) k' es)"
    if "reachable env code k'" for k'
    using that
    by (induction es arbitrary: k')
      (auto simp: scheduled_flat_def accepted_step_def split: option.splits intro: processed)
  with initialized [OF assms] show ?thesis
    by (simp add: run_alone_def scheduled_flat_def accepted_start_def assms)
qed

text \<open>
  C18. A machine generated from a table whose starting row is no wildcard, and whose initialization
  returns, is shared through the scheduler by callers whose threads were not unwinding before: then in
  every interleaving it is in a declared state of the table.
\<close>

theorem scheduled_state_declared:
  assumes "ParsedStateMachine_new sm = Ok p"
    and "list_all (\<lambda>t. in_start (st_in t) \<longrightarrow> \<not> in_wildcard (st_in t)) (transitions sm)" "generate_code p = Ok code"
    and "initialize_unlocked n env code (new_core env code ctx data) = Some (k, r)"
    and "fifo_run (scheduled_flat n env code) (\<lambda>_. False) as (initial_sys (scheduled_flat n env code) cap (new_core env code ctx data)) = Some s"
    and "list_all (offers ev) as"
  shows "variant (state (shared_machine s)) \<in> declared p"
proof -
  have "reachable env code (shared_machine s)"
    using scheduled_runs_alone [OF assms(5,6)] run_alone_reachable [OF assms(4)] by simp
  from parsed_reachable_state_in(2) [OF assms(1-3) this] show ?thesis by (simp add: state_in_def)
qed

theorem scheduled_state_declared_witness:
  "\<exists>s. fifo_run lamp_machine (\<lambda>_. False) lamp_calls (initial_sys lamp_machine 2 lamp_core) = Some s \<and>
     variant (state (shared_machine s)) \<in> declared lamp_parsed"
proof -
  obtain s where s: "fifo_run lamp_machine (\<lambda>_. False) lamp_calls (initial_sys lamp_machine 2 lamp_core) = Some s"
    using lamp_run by (auto split: option.splits)
  let ?init = "initialize_unlocked 3 test_env (code_of lamp_parsed) lamp_core"
  have code: "generate_code lamp_parsed = Ok (code_of lamp_parsed)" by code_simp
  have init: "?init = Some (fst (the ?init), snd (the ?init))" by code_simp
  from scheduled_state_declared [OF lamp_parses lamp_start code init [unfolded lamp_core_def]
      s [unfolded lamp_machine_def lamp_core_def] lamp_offers] s
  show ?thesis by blast
qed

end
