(* ===== verification/Event_Specs.thy ===== *)
theory Event_Specs
  imports Composite_Correctness Lifetimes Parsed_Machine "HOL-Library.List_Lexorder" "HOL-Library.Char_ord" "HOL-Library.Multiset"
begin

text \<open>
  Event specifications and the query for the events of the current states:
  macros/src/event_codegen.rs and its uses in the generators of flat, orthogonal and composite tables. Types are keys by
  their printed tokens; how the crate \<open>syn\<close> prints a type is the parameter \<open>print\<close>. Identifiers and printed types are
  compared as byte strings, which is the lexicographic order of the library.
\<close>

section \<open>Sorted maps\<close>

text \<open>A \<open>BTreeMap\<close> as the list of its entries in the order of the keys.\<close>

fun btree_insert :: "'k :: linorder \<Rightarrow> 'v \<Rightarrow> ('k \<times> 'v) list \<Rightarrow> ('k \<times> 'v) list" where
  "btree_insert k v [] = [(k, v)]"
| "btree_insert k v ((k', v') # m) =
     (if k < k' then (k, v) # (k', v') # m
      else if k = k' then (k, v) # m
      else (k', v') # btree_insert k v m)"

definition btree :: "('k :: linorder \<times> 'v) list \<Rightarrow> bool" where
  "btree m \<longleftrightarrow> sorted_wrt (<) (map fst m)"

lemma btree_simps [simp]: "btree []" "btree (x # m) \<longleftrightarrow> (\<forall>y \<in> set m. fst x < fst y) \<and> btree m"
  by (auto simp: btree_def)

lemma btree_insert_keys: "fst ` set (btree_insert k v m) = insert k (fst ` set m)"
  by (induction k v m rule: btree_insert.induct) auto

lemma btree_insert_sorted [simp]: "btree m \<Longrightarrow> btree (btree_insert k v m)"
proof (induction k v m rule: btree_insert.induct)
  case (2 k v k' v' m)
  have "y \<in> set (btree_insert k v m) \<Longrightarrow> fst y = k \<or> fst y \<in> fst ` set m" for y
    using btree_insert_keys [of k v m] by blast
  with 2 show ?case by (fastforce dest: order_less_trans)
qed simp

lemma map_of_btree_insert: "btree m \<Longrightarrow> map_of (btree_insert k v m) = (map_of m)(k \<mapsto> v)"
proof (induction k v m rule: btree_insert.induct)
  case (2 k v k' v' m)
  then show ?case by (cases k k' rule: linorder_cases) auto
qed simp

lemma btree_distinct: "btree m \<Longrightarrow> distinct (map fst m)"
  by (simp add: btree_def strict_sorted_iff)

lemma btree_unique:
  assumes "btree m" "btree m'" "map_of m = map_of m'"
  shows "m = m'"
proof -
  have set: "set m = set m'"
    using assms(3) set_map_of_compr [OF btree_distinct [OF assms(1)]] set_map_of_compr [OF btree_distinct [OF assms(2)]] by simp
  show ?thesis
    using map_sorted_distinct_set_unique [of fst m m'] assms(1,2) set btree_distinct [OF assms(1)] btree_distinct [OF assms(2)]
    by (auto simp: btree_def strict_sorted_iff distinct_map)
qed

section \<open>Specifications\<close>

record event_spec =
  spec_ty :: rust_type
  spec_name :: string

type_synonym event_specs = "(string \<times> event_spec) list"

definition is_query_event :: "event_kind \<Rightarrow> bool \<Rightarrow> bool" where
  "is_query_event kind wildcard \<longleftrightarrow> kind \<in> {Normal, Unexpected} \<and> \<not> wildcard"

definition is_static_type :: "rust_type \<Rightarrow> bool" where
  "is_static_type ty = (case Lifetimes_from_type ty of Inl _ \<Rightarrow> False | Inr ls \<Rightarrow> list_all (\<lambda>l. l = ''static'') ls)"

lemma is_static_type_iff: "is_static_type ty \<longleftrightarrow> \<not> elided_reference ty \<and> free_lifetimes ty \<subseteq> {''static''}"
  using from_type_cases [of ty]
  by (auto simp: is_static_type_def list_all_iff split: sum.splits)

definition add_spec ::
  "(rust_type \<Rightarrow> string) \<Rightarrow> string \<Rightarrow> event_kind \<Rightarrow> bool \<Rightarrow> rust_type option \<Rightarrow> event_specs \<Rightarrow> event_specs" where
  "add_spec print name kind wildcard ty specs =
     (if \<not> is_query_event kind wildcard then specs
      else case ty of
          None \<Rightarrow> specs
        | Some ty \<Rightarrow>
            if \<not> is_static_type ty then specs
            else let key = print ty in
              case map_of specs key of
                Some existing \<Rightarrow>
                  if spec_name existing \<le> name then specs
                  else btree_insert key \<lparr>spec_ty = ty, spec_name = name\<rparr> specs
              | None \<Rightarrow> btree_insert key \<lparr>spec_ty = ty, spec_name = name\<rparr> specs)"

text \<open>The emitted calls of the visitor, as the list of the types, and the emitted table of names.\<close>

definition visit_calls :: "event_specs \<Rightarrow> rust_type list" where
  "visit_calls specs = map (spec_ty \<circ> snd) specs"

definition names_table :: "event_specs \<Rightarrow> string list" where
  "names_table specs = map (spec_name \<circ> snd) specs"

section \<open>Flat machines\<close>

definition mapping_type :: "parsed_state_machine \<Rightarrow> event_mapping \<Rightarrow> rust_type option" where
  "mapping_type sm m = map_of (data_types (p_event_data sm)) (m_event m)"

definition add_mapping_spec ::
  "(rust_type \<Rightarrow> string) \<Rightarrow> parsed_state_machine \<Rightarrow> event_mapping \<Rightarrow> event_specs \<Rightarrow> event_specs" where
  "add_mapping_spec print sm m specs =
     (case mapping_type sm m of
        Some ty \<Rightarrow>
          if type_uses_event_generics (p_event_generics sm) ty then specs
          else add_spec print (m_event m) (m_event_kind m) (m_event_wildcard m) (Some ty) specs
      | None \<Rightarrow> add_spec print (m_event m) (m_event_kind m) (m_event_wildcard m) None specs)"

definition state_event_specs :: "(rust_type \<Rightarrow> string) \<Rightarrow> parsed_state_machine \<Rightarrow> event_mappings \<Rightarrow> event_specs" where
  "state_event_specs print sm ms = fold (add_mapping_spec print sm \<circ> snd) ms []"

definition machine_event_specs :: "(rust_type \<Rightarrow> string) \<Rightarrow> parsed_state_machine \<Rightarrow> event_specs" where
  "machine_event_specs print sm =
     fold (\<lambda>(_, ms). fold (add_mapping_spec print sm \<circ> snd) ms) (p_states_events_mapping sm) []"

text \<open>The arms of the emitted query, one for each state of the table.\<close>

definition current_event_query_arms ::
  "(rust_type \<Rightarrow> string) \<Rightarrow> parsed_state_machine \<Rightarrow> (string, (string \<times> rust_type list) list) rust_result" where
  "current_event_query_arms print sm =
     try_map (\<lambda>(s, ms).
         if map_of (p_states sm) s = None
         then Err (''state `'' @ s @ ''` is missing from the parsed state table'')
         else Ok (s, visit_calls (state_event_specs print sm ms)))
       (p_states_events_mapping sm)"

definition flat_visit_current_events :: "(string \<times> rust_type list) list \<Rightarrow> ('c, 'v, 'q) core \<Rightarrow> rust_type list" where
  "flat_visit_current_events arms k = (case map_of arms (variant (state k)) of None \<Rightarrow> [] | Some tys \<Rightarrow> tys)"

section \<open>Orthogonal and composite machines\<close>

text \<open>\<open>event_queries\<close>: for each type the conditions under which it is visited.\<close>

type_synonym 'cond event_queries = "(string \<times> rust_type \<times> 'cond list) list"

definition add_query :: "(rust_type \<Rightarrow> string) \<Rightarrow> rust_type \<times> 'cond \<Rightarrow> 'cond event_queries \<Rightarrow> 'cond event_queries" where
  "add_query print = (\<lambda>(ty, c) qs.
     case map_of qs (print ty) of
       None \<Rightarrow> btree_insert (print ty) (ty, [c]) qs
     | Some (ty', cs) \<Rightarrow> btree_insert (print ty) (ty', cs @ [c]) qs)"

definition event_queries :: "(rust_type \<Rightarrow> string) \<Rightarrow> (rust_type \<times> 'cond) list \<Rightarrow> 'cond event_queries" where
  "event_queries print rows = fold (add_query print) rows []"

definition event_query_calls :: "('cond \<Rightarrow> bool) \<Rightarrow> 'cond event_queries \<Rightarrow> rust_type list" where
  "event_query_calls holds qs = map (fst \<circ> snd) (filter (\<lambda>(_, _, cs). list_ex holds cs) qs)"

definition query_type :: "state_transition \<Rightarrow> rust_type option" where
  "query_type t =
     (if \<not> is_query_event (ev_kind (st_event t)) (ev_wildcard (st_event t)) then None
      else case ev_data_type (st_event t) of
          None \<Rightarrow> None
        | Some ty \<Rightarrow> if is_static_type ty then Some ty else None)"

fun region_position :: "region list \<Rightarrow> string \<Rightarrow> nat option" where
  "region_position [] s = None"
| "region_position (r # rs) s = (if s \<in> set (rg_states r) then Some 0 else map_option Suc (region_position rs s))"

definition region_query_rows :: "region list \<Rightarrow> state_machine \<Rightarrow> (rust_type \<times> nat \<times> string) list" where
  "region_query_rows regions sm = concat (map (\<lambda>t.
     case (query_type t, region_position regions (in_ident (st_in t))) of
       (Some ty, Some i) \<Rightarrow> [(ty, i, in_ident (st_in t))]
     | _ \<Rightarrow> []) (transitions sm))"

definition orth_visit_current_events ::
  "(rust_type \<Rightarrow> string) \<Rightarrow> region list \<Rightarrow> state_machine \<Rightarrow> ('c, 'v, 'q) orth_core \<Rightarrow> rust_type list" where
  "orth_visit_current_events print regions sm k =
     event_query_calls (\<lambda>(i, s). variant (region_states k ! i) = s) (event_queries print (region_query_rows regions sm))"

definition table_query_rows :: "'p \<Rightarrow> state_machine \<Rightarrow> (rust_type \<times> 'p \<times> string) list" where
  "table_query_rows s sm = concat (map (\<lambda>t.
     case query_type t of
       Some ty \<Rightarrow> if in_wildcard (st_in t) then [] else [(ty, s, in_ident (st_in t))]
     | None \<Rightarrow> []) (transitions sm))"

definition slot_condition :: "composite_code \<Rightarrow> ('c, 'v, 'q) composite_core \<Rightarrow> slot \<times> string \<Rightarrow> bool" where
  "slot_condition code k = (\<lambda>(s, st). (s = ChildSlot \<longrightarrow> child_active code k) \<and> variant (slot_state s k) = st)"

definition composite_visit_current_events ::
  "(rust_type \<Rightarrow> string) \<Rightarrow> state_machine \<Rightarrow> state_machine \<Rightarrow> composite_code \<Rightarrow> ('c, 'v, 'q) composite_core \<Rightarrow> rust_type list" where
  "composite_visit_current_events print parent child code k =
     event_query_calls (slot_condition code k)
       (event_queries print (table_query_rows ParentSlot parent @ table_query_rows ChildSlot child))"

section \<open>The types that are visited\<close>

lemma add_query_btree: "btree qs \<Longrightarrow> btree (add_query print q qs)"
  by (auto simp: add_query_def split: prod.splits option.splits)

text \<open>The conditions that a type has collected, with the types of a key kept apart by \<open>print\<close>.\<close>

lemma event_queries_entries:
  assumes "inj_on print A" "fst ` set rows \<subseteq> A" "btree qs"
    and "\<forall>key ty cs. map_of qs key = Some (ty, cs) \<longrightarrow> ty \<in> A \<and> key = print ty"
  shows "btree (fold (add_query print) rows qs) \<and>
    (\<forall>key ty cs. map_of (fold (add_query print) rows qs) key = Some (ty, cs) \<longrightarrow> ty \<in> A \<and> key = print ty) \<and>
    (\<forall>ty \<in> A. (case map_of (fold (add_query print) rows qs) (print ty) of None \<Rightarrow> [] | Some (_, cs) \<Rightarrow> cs) =
      (case map_of qs (print ty) of None \<Rightarrow> [] | Some (_, cs) \<Rightarrow> cs) @ map snd (filter (\<lambda>r. fst r = ty) rows))"
  using assms(2-4)
proof (induction rows arbitrary: qs)
  case Nil
  then show ?case by simp
next
  case (Cons q rows)
  obtain ty c where q: "q = (ty, c)" by (cases q)
  with Cons.prems(1) have ty: "ty \<in> A" by simp
  have known: "ty' = ty" if "map_of qs (print ty) = Some (ty', cs)" for ty' cs
    using Cons.prems(3) that assms(1) ty by (blast dest: inj_onD)
  have step: "map_of (add_query print q qs) = (map_of qs)(print ty \<mapsto>
      (ty, (case map_of qs (print ty) of None \<Rightarrow> [] | Some (_, cs) \<Rightarrow> cs) @ [c]))"
    using Cons.prems(2) known
    by (auto simp: q add_query_def map_of_btree_insert split: option.split prod.split)
  have keys: "\<forall>key ty' cs. map_of (add_query print q qs) key = Some (ty', cs) \<longrightarrow> ty' \<in> A \<and> key = print ty'"
    using Cons.prems(3) ty by (auto simp: step)
  have "fst ` set rows \<subseteq> A" using Cons.prems(1) by simp
  note IH = Cons.IH [OF this add_query_btree [OF Cons.prems(2)] keys]
  have "(case map_of (add_query print q qs) (print ty') of None \<Rightarrow> [] | Some (_, cs) \<Rightarrow> cs) =
      (case map_of qs (print ty') of None \<Rightarrow> [] | Some (_, cs) \<Rightarrow> cs) @ (if ty = ty' then [c] else [])" if "ty' \<in> A" for ty'
    using assms(1) ty that by (auto simp: step dest: inj_onD)
  with IH show ?case by (simp add: q)
qed

lemma event_query_calls_set:
  fixes rows :: "(rust_type \<times> 'a) list"
  assumes "inj_on print (fst ` set rows)"
  shows "set (event_query_calls holds (event_queries print rows)) = {ty. \<exists>c. (ty, c) \<in> set rows \<and> holds c}"
    and "sorted_wrt (<) (map print (event_query_calls holds (event_queries print rows)))"
proof -
  let ?qs = "event_queries print rows"
  have none: "\<forall>key ty cs. map_of ([] :: 'a event_queries) key = Some (ty, cs) \<longrightarrow> ty \<in> fst ` set rows \<and> key = print ty" by simp
  note all = event_queries_entries [OF assms order_refl btree_simps(1) none, folded event_queries_def]
  have sorted: "btree ?qs" by (rule all [THEN conjunct1])
  have keys: "ty \<in> fst ` set rows \<and> key = print ty" if "map_of ?qs key = Some (ty, cs)" for key ty cs
    by (rule all [THEN conjunct2, THEN conjunct1, rule_format, OF that])
  have conds: "(case map_of ?qs (print ty) of None \<Rightarrow> [] | Some (_, cs) \<Rightarrow> cs) = map snd (filter (\<lambda>r. fst r = ty) rows)"
    if "ty \<in> fst ` set rows" for ty
    using all [THEN conjunct2, THEN conjunct2, rule_format, OF that] by simp
  note qs = sorted keys conds
  have entry: "(key, ty, cs) \<in> set ?qs \<longleftrightarrow> map_of ?qs key = Some (ty, cs)" for key ty cs
    using btree_distinct [OF qs(1)] by simp
  have conds: "cs = map snd (filter (\<lambda>r. fst r = ty) rows)" if "(key, ty, cs) \<in> set ?qs" for key ty cs
  proof -
    from that have found: "map_of ?qs key = Some (ty, cs)" by (simp add: entry)
    with qs(2) [OF this] qs(3) [of ty] show ?thesis by simp
  qed
  show "set (event_query_calls holds ?qs) = {ty. \<exists>c. (ty, c) \<in> set rows \<and> holds c}"
  proof (intro equalityI subsetI)
    fix ty assume "ty \<in> set (event_query_calls holds ?qs)"
    then obtain key cs where e: "(key, ty, cs) \<in> set ?qs" "list_ex holds cs" by (auto simp: event_query_calls_def)
    with conds [OF e(1)] show "ty \<in> {ty. \<exists>c. (ty, c) \<in> set rows \<and> holds c}" by (auto simp: list_ex_iff)
  next
    fix ty assume "ty \<in> {ty. \<exists>c. (ty, c) \<in> set rows \<and> holds c}"
    then obtain c where c: "(ty, c) \<in> set rows" "holds c" by blast
    then have ty: "ty \<in> fst ` set rows" by force
    from c have "c \<in> set (case map_of ?qs (print ty) of None \<Rightarrow> [] | Some (_, cs) \<Rightarrow> cs)"
      unfolding qs(3) [OF ty] by force
    then obtain ty' cs where e: "map_of ?qs (print ty) = Some (ty', cs)" "c \<in> set cs"
      by (cases "map_of ?qs (print ty)") auto
    from qs(2) [OF e(1)] assms ty have "ty' = ty" by (auto dest: inj_onD)
    with e c(2) have "(print ty, ty, cs) \<in> set ?qs" "list_ex holds cs" by (auto simp: entry list_ex_iff)
    then show "ty \<in> set (event_query_calls holds ?qs)" by (force simp: event_query_calls_def)
  qed
  have "map (print \<circ> (fst \<circ> snd)) (filter P ?qs) = map fst (filter P ?qs)" for P
    using qs(2) by (auto simp: entry [symmetric])
  moreover have "sorted_wrt (<) (map fst (filter P ?qs))" for P
    using qs(1) unfolding btree_def by (simp add: sorted_wrt_map sorted_wrt_filter)
  ultimately have "sorted_wrt (<) (map (print \<circ> (fst \<circ> snd)) (filter P ?qs))" for P by (simp only:)
  then show "sorted_wrt (<) (map print (event_query_calls holds ?qs))" unfolding event_query_calls_def map_map .
qed

lemma query_rows_member:
  "(ty, i, s) \<in> set (region_query_rows regions sm) \<longleftrightarrow>
     (\<exists>t \<in> set (transitions sm). query_type t = Some ty \<and> in_ident (st_in t) = s \<and> region_position regions s = Some i)"
  "(ty, p', st) \<in> set (table_query_rows p sm) \<longleftrightarrow>
     p' = p \<and> (\<exists>t \<in> set (transitions sm). query_type t = Some ty \<and> in_ident (st_in t) = st \<and> \<not> in_wildcard (st_in t))"
proof -
  have "(ty, i, s) \<in> set (case (query_type t, region_position regions (in_ident (st_in t))) of
      (Some ty, Some i) \<Rightarrow> [(ty, i, in_ident (st_in t))] | _ \<Rightarrow> []) \<longleftrightarrow>
    query_type t = Some ty \<and> in_ident (st_in t) = s \<and> region_position regions s = Some i" for t
    by (auto split: option.splits)
  then show "(ty, i, s) \<in> set (region_query_rows regions sm) \<longleftrightarrow>
     (\<exists>t \<in> set (transitions sm). query_type t = Some ty \<and> in_ident (st_in t) = s \<and> region_position regions s = Some i)"
    unfolding region_query_rows_def set_concat set_map UN_iff image_image by blast
  have "(ty, p', st) \<in> set (case query_type t of Some ty \<Rightarrow> if in_wildcard (st_in t) then [] else [(ty, p, in_ident (st_in t))]
      | None \<Rightarrow> []) \<longleftrightarrow> p' = p \<and> query_type t = Some ty \<and> in_ident (st_in t) = st \<and> \<not> in_wildcard (st_in t)" for t
    by (auto split: option.splits)
  then show "(ty, p', st) \<in> set (table_query_rows p sm) \<longleftrightarrow>
     p' = p \<and> (\<exists>t \<in> set (transitions sm). query_type t = Some ty \<and> in_ident (st_in t) = st \<and> \<not> in_wildcard (st_in t))"
    unfolding table_query_rows_def set_concat set_map UN_iff image_image by blast
qed

text \<open>The static payload types of a table.\<close>

definition query_types :: "state_machine \<Rightarrow> rust_type set" where
  "query_types sm = set (concat (map (\<lambda>t. option_list (query_type t)) (transitions sm)))"

lemma query_types_iff: "ty \<in> query_types sm \<longleftrightarrow> (\<exists>t \<in> set (transitions sm). query_type t = Some ty)"
proof -
  have "ty \<in> set (option_list x) \<longleftrightarrow> x = Some ty" for x by (cases x) (auto simp: option_list_def)
  then show ?thesis by (simp add: query_types_def)
qed

lemma query_rows_types:
  "fst ` set (region_query_rows regions sm) \<subseteq> query_types sm" "fst ` set (table_query_rows s sm) \<subseteq> query_types sm"
  by (auto simp: query_rows_member query_types_iff)

lemma orth_visits:
  assumes "inj_on print (query_types sm)"
  shows "set (orth_visit_current_events print regions sm k) = {ty. \<exists>t \<in> set (transitions sm). query_type t = Some ty \<and>
    (\<exists>i. region_position regions (in_ident (st_in t)) = Some i \<and> variant (region_states k ! i) = in_ident (st_in t))}"
  unfolding orth_visit_current_events_def event_query_calls_set(1) [OF inj_on_subset [OF assms query_rows_types(1)]]
  by (rule Collect_cong) (auto simp: split_paired_Ex query_rows_member, metis)

lemma ex_slot: "(\<exists>c. P c) \<longleftrightarrow> (\<exists>st. P (ParentSlot, st)) \<or> (\<exists>st. P (ChildSlot, st))"
proof
  assume "\<exists>c. P c"
  then obtain s st where "P (s, st)" by (metis surj_pair)
  then show "(\<exists>st. P (ParentSlot, st)) \<or> (\<exists>st. P (ChildSlot, st))" by (cases s) auto
qed blast

text \<open>
  The event query of a composite machine visits exactly the static payload types of the events
  that a row without wildcard source admits in the current state of the parent or, while the child is
  active, in that of the child; each type once, in the order of the printed types.
\<close>

theorem composite_visits_current_rows:
  assumes "inj_on print (query_types parent \<union> query_types child)"
  shows "set (composite_visit_current_events print parent child code k) =
      {ty. (\<exists>t \<in> set (transitions parent). query_type t = Some ty \<and> \<not> in_wildcard (st_in t) \<and>
          in_ident (st_in t) = variant (parent_state k)) \<or>
        child_active code k \<and> (\<exists>t \<in> set (transitions child). query_type t = Some ty \<and> \<not> in_wildcard (st_in t) \<and>
          in_ident (st_in t) = variant (child_state k))} \<and>
    sorted_wrt (<) (map print (composite_visit_current_events print parent child code k))"
proof
  have "fst ` set (table_query_rows ParentSlot parent @ table_query_rows ChildSlot child) \<subseteq> query_types parent \<union> query_types child"
    using query_rows_types(2) [of ParentSlot parent] query_rows_types(2) [of ChildSlot child] by auto
  note calls = event_query_calls_set [OF inj_on_subset [OF assms this]]
  have "(\<exists>c. (ty, c) \<in> set (table_query_rows ParentSlot parent @ table_query_rows ChildSlot child) \<and> slot_condition code k c) \<longleftrightarrow>
      (\<exists>t \<in> set (transitions parent). query_type t = Some ty \<and> \<not> in_wildcard (st_in t) \<and>
          in_ident (st_in t) = variant (parent_state k)) \<or>
        child_active code k \<and> (\<exists>t \<in> set (transitions child). query_type t = Some ty \<and> \<not> in_wildcard (st_in t) \<and>
          in_ident (st_in t) = variant (child_state k))" for ty
    unfolding ex_slot by (auto simp: query_rows_member slot_condition_def slot_state_def)
  then show "set (composite_visit_current_events print parent child code k) =
      {ty. (\<exists>t \<in> set (transitions parent). query_type t = Some ty \<and> \<not> in_wildcard (st_in t) \<and>
          in_ident (st_in t) = variant (parent_state k)) \<or>
        child_active code k \<and> (\<exists>t \<in> set (transitions child). query_type t = Some ty \<and> \<not> in_wildcard (st_in t) \<and>
          in_ident (st_in t) = variant (child_state k))}"
    unfolding composite_visit_current_events_def calls(1) by (rule Collect_cong)
  show "sorted_wrt (<) (map print (composite_visit_current_events print parent child code k))"
    unfolding composite_visit_current_events_def by (rule calls(2))
qed

text \<open>The device whose events have payloads, in the composite state.\<close>

definition named_type :: "string \<Rightarrow> rust_type" where
  "named_type n = TypePath None False [PathSegment n []]"

fun print_named :: "rust_type \<Rightarrow> string" where
  "print_named (TypePath None False [PathSegment n []]) = n"
| "print_named _ = ''?''"

definition with_payloads :: "state_machine \<Rightarrow> state_machine" where
  "with_payloads sm = sm\<lparr>transitions := map (\<lambda>t. if ev_wildcard (st_event t) then t
     else t\<lparr>st_event := (st_event t)\<lparr>ev_data_type := Some (named_type (ev_ident (st_event t)))\<rparr>\<rparr>) (transitions sm)\<rparr>"

lemma print_named_inj: "inj_on print_named (named_type ` N)"
  by (rule inj_onI) (auto simp: named_type_def)

theorem composite_visits_current_rows_witness:
  "composite_visit_current_events print_named (with_payloads (device False)) (with_payloads sub_table) (device_code False)
     (device_after False [''Enter'']) = [named_type ''Leave'', named_type ''Next''] \<and>
   {ty. (\<exists>t \<in> set (transitions (with_payloads (device False))). query_type t = Some ty \<and> \<not> in_wildcard (st_in t) \<and>
          in_ident (st_in t) = variant (parent_state (device_after False [''Enter'']))) \<or>
        child_active (device_code False) (device_after False [''Enter'']) \<and>
        (\<exists>t \<in> set (transitions (with_payloads sub_table)). query_type t = Some ty \<and> \<not> in_wildcard (st_in t) \<and>
          in_ident (st_in t) = variant (child_state (device_after False [''Enter''])))} = {named_type ''Leave'', named_type ''Next''}"
proof -
  have types: "query_types (with_payloads (device False)) \<union> query_types (with_payloads sub_table) =
      named_type ` {''Enter'', ''Leave'', ''Next''}"
    unfolding query_types_def by code_simp
  have visited: "composite_visit_current_events print_named (with_payloads (device False)) (with_payloads sub_table) (device_code False)
     (device_after False [''Enter'']) = [named_type ''Leave'', named_type ''Next'']" by code_simp
  have inj: "inj_on print_named (query_types (with_payloads (device False)) \<union> query_types (with_payloads sub_table))"
    unfolding types by (rule print_named_inj)
  from composite_visits_current_rows [OF inj, of "device_code False" "device_after False [''Enter'']"] visited
  show ?thesis by simp
qed

section \<open>The table of names\<close>

text \<open>What a mapping adds to the specifications.\<close>

definition mapping_spec :: "parsed_state_machine \<Rightarrow> event_mapping \<Rightarrow> (string \<times> rust_type) list" where
  "mapping_spec sm m =
     (case mapping_type sm m of
        None \<Rightarrow> []
      | Some ty \<Rightarrow>
          if is_query_event (m_event_kind m) (m_event_wildcard m) \<and> is_static_type ty \<and>
            \<not> type_uses_event_generics (p_event_generics sm) ty
          then [(m_event m, ty)] else [])"

definition static_events :: "parsed_state_machine \<Rightarrow> (string \<times> rust_type) list" where
  "static_events sm = concat (map (\<lambda>(_, ms). concat (map (mapping_spec sm \<circ> snd) ms)) (p_states_events_mapping sm))"

definition add_static :: "(rust_type \<Rightarrow> string) \<Rightarrow> string \<times> rust_type \<Rightarrow> event_specs \<Rightarrow> event_specs" where
  "add_static print = (\<lambda>(name, ty) specs.
     case map_of specs (print ty) of
       Some existing \<Rightarrow> if spec_name existing \<le> name then specs else btree_insert (print ty) \<lparr>spec_ty = ty, spec_name = name\<rparr> specs
     | None \<Rightarrow> btree_insert (print ty) \<lparr>spec_ty = ty, spec_name = name\<rparr> specs)"

lemma add_static_entry:
  "add_static print (name, ty) specs =
     (case map_of specs (print ty) of
       Some existing \<Rightarrow> if spec_name existing \<le> name then specs else btree_insert (print ty) \<lparr>spec_ty = ty, spec_name = name\<rparr> specs
     | None \<Rightarrow> btree_insert (print ty) \<lparr>spec_ty = ty, spec_name = name\<rparr> specs)"
  by (simp add: add_static_def)

lemma add_mapping_spec_static: "add_mapping_spec print sm m = fold (add_static print) (mapping_spec sm m)"
  by (rule ext) (auto simp: add_mapping_spec_def mapping_spec_def add_spec_def add_static_def Let_def split: option.split)

lemma machine_event_specs_static: "machine_event_specs print sm = fold (add_static print) (static_events sm) []"
proof -
  have inner: "fold (add_mapping_spec print sm \<circ> snd) ms = fold (add_static print) (concat (map (mapping_spec sm \<circ> snd) ms))" for ms :: event_mappings
    by (induction ms) (simp_all add: add_mapping_spec_static)
  have "fold (\<lambda>(_, ms). fold (add_mapping_spec print sm \<circ> snd) ms) tm specs =
      fold (add_static print) (concat (map (\<lambda>(_, ms). concat (map (mapping_spec sm \<circ> snd) ms)) tm)) specs" for tm :: transition_map and specs
    by (induction tm arbitrary: specs) (auto simp: inner)
  then show ?thesis by (simp add: machine_event_specs_def static_events_def)
qed

lemma add_statics_entries:
  assumes "inj_on print A" "snd ` set rows \<subseteq> A"
  shows "btree (fold (add_static print) rows []) \<and>
    (\<forall>ty \<in> A. map_of (fold (add_static print) rows []) (print ty) =
      (if \<exists>name. (name, ty) \<in> set rows then Some \<lparr>spec_ty = ty, spec_name = Min {name. (name, ty) \<in> set rows}\<rparr> else None)) \<and>
    (\<forall>key. key \<notin> print ` A \<longrightarrow> map_of (fold (add_static print) rows []) key = None)"
  using assms(2)
proof (induction rows rule: rev_induct)
  case Nil
  then show ?case by simp
next
  case (snoc q rows)
  obtain name ty where q: "q = (name, ty)" by (cases q)
  with snoc.prems have ty: "ty \<in> A" by simp
  let ?S = "fold (add_static print) rows []"
  have S: "btree ?S" "\<And>ty. ty \<in> A \<Longrightarrow> map_of ?S (print ty) =
      (if \<exists>name. (name, ty) \<in> set rows then Some \<lparr>spec_ty = ty, spec_name = Min {name. (name, ty) \<in> set rows}\<rparr> else None)"
    "\<And>key. key \<notin> print ` A \<Longrightarrow> map_of ?S key = None" using snoc by auto
  have fin: "finite {name. (name, ty) \<in> set rows}" for ty
    by (rule finite_subset [of _ "fst ` set rows"]) force+
  have names: "{x. (x, ty) \<in> set (rows @ [q])} = insert name {x. (x, ty) \<in> set rows}" by (auto simp: q)
  have other: "{x. (x, ty') \<in> set (rows @ [q])} = {x. (x, ty') \<in> set rows}" if "ty' \<noteq> ty" for ty'
    using that by (auto simp: q)
  have added: "map_of (add_static print q ?S) = (map_of ?S)(print ty \<mapsto>
      \<lparr>spec_ty = ty, spec_name = Min {x. (x, ty) \<in> set (rows @ [q])}\<rparr>)"
  proof (cases "\<exists>x. (x, ty) \<in> set rows")
    case False
    then have "{x. (x, ty) \<in> set rows} = {}" by simp
    with False S(2) [OF ty] show ?thesis unfolding names by (simp add: q add_static_entry map_of_btree_insert [OF S(1)])
  next
    case True
    then have "Min (insert name {x. (x, ty) \<in> set rows}) = min name (Min {x. (x, ty) \<in> set rows})"
      using fin by (intro Min_insert) auto
    with True S(2) [OF ty] show ?thesis
      unfolding names by (auto simp: q add_static_entry map_of_btree_insert [OF S(1)] min_def fun_upd_idem)
  qed
  have "btree (add_static print q ?S)"
    using S(1) by (auto simp: q add_static_entry split: option.split)
  moreover have "map_of (add_static print q ?S) (print ty') =
      (if \<exists>x. (x, ty') \<in> set (rows @ [q]) then Some \<lparr>spec_ty = ty', spec_name = Min {x. (x, ty') \<in> set (rows @ [q])}\<rparr> else None)"
    if "ty' \<in> A" for ty'
  proof (cases "ty' = ty")
    case True
    then show ?thesis by (simp add: added) (auto simp: q)
  next
    case False
    with assms(1) ty that have "print ty' \<noteq> print ty" by (auto dest: inj_onD)
    with False show ?thesis unfolding added other [OF False] using S(2) [OF that] by (auto simp: q)
  qed
  ultimately show ?case using S(3) ty by (auto simp: added)
qed

text \<open>
  Tables that differ in the order of their hash maps only: the same states, each with the same
  mappings.
\<close>

definition same_entries :: "transition_map \<Rightarrow> transition_map \<Rightarrow> bool" where
  "same_entries tm tm' \<longleftrightarrow> mset (map (\<lambda>(s, ms). (s, mset ms)) tm) = mset (map (\<lambda>(s, ms). (s, mset ms)) tm')"

lemma mset_concat_image: "mset (concat (map f xs)) = (\<Sum>x \<in># mset xs. mset (f x))"
  by (induction xs) simp_all

lemma same_entries_rows:
  assumes "same_entries tm tm'"
  shows "mset (concat (map (\<lambda>(s, ms). concat (map (f s) ms)) tm)) = mset (concat (map (\<lambda>(s, ms). concat (map (f s) ms)) tm'))"
proof -
  let ?g = "\<lambda>(s, ms). (\<Sum>x \<in># ms. mset (f s x))"
  have rows: "mset (concat (map (\<lambda>(s, ms). concat (map (f s) ms)) tm)) =
      (\<Sum>x \<in># mset (map (\<lambda>(s, ms). (s, mset ms)) tm). ?g x)" for tm
    by (induction tm) (auto simp: mset_concat_image)
  from assms show ?thesis unfolding rows same_entries_def by simp
qed

text \<open>
  The table \<open>EVENT_NAMES\<close> of a flat machine does not depend on the order in which its hash maps are
  walked, and it holds for each static payload type the least of the names of its events.
\<close>

theorem event_names_deterministic:
  assumes "same_entries (p_states_events_mapping sm) (p_states_events_mapping sm')"
    and "p_event_data sm' = p_event_data sm" "p_event_generics sm' = p_event_generics sm"
    and "inj_on print (snd ` set (static_events sm))"
  shows "names_table (machine_event_specs print sm') = names_table (machine_event_specs print sm) \<and>
    set (names_table (machine_event_specs print sm)) =
      (\<lambda>ty. Min {name. (name, ty) \<in> set (static_events sm)}) ` snd ` set (static_events sm)"
proof -
  let ?A = "snd ` set (static_events sm)"
  have same: "mapping_spec sm' = mapping_spec sm" unfolding mapping_spec_def mapping_type_def assms(2,3) ..
  have "mset (static_events sm) = mset (static_events sm')"
    using same_entries_rows [OF assms(1), of "\<lambda>_. mapping_spec sm \<circ> snd"] unfolding static_events_def same .
  then have sets: "set (static_events sm') = set (static_events sm)" by (metis set_mset_mset)
  note entries = add_statics_entries [OF assms(4) order_refl]
  have "snd ` set (static_events sm') \<subseteq> ?A" using sets by simp
  note entries' = add_statics_entries [OF assms(4) this]
  have "map_of (machine_event_specs print sm') key = map_of (machine_event_specs print sm) key" for key
  proof (cases "key \<in> print ` ?A")
    case True
    then obtain ty where ty: "ty \<in> ?A" "key = print ty" by blast
    from entries [THEN conjunct2, THEN conjunct1, rule_format, OF ty(1)]
      entries' [THEN conjunct2, THEN conjunct1, rule_format, OF ty(1)]
    show ?thesis unfolding ty(2) machine_event_specs_static sets by simp
  next
    case False
    from entries [THEN conjunct2, THEN conjunct2, rule_format, OF False]
      entries' [THEN conjunct2, THEN conjunct2, rule_format, OF False]
    show ?thesis unfolding machine_event_specs_static by simp
  qed
  then have eq: "machine_event_specs print sm' = machine_event_specs print sm"
    using entries entries' by (intro btree_unique) (auto simp: machine_event_specs_static)
  let ?S = "machine_event_specs print sm"
  have S: "btree ?S" using entries by (simp add: machine_event_specs_static)
  have spec: "map_of ?S (print ty) = Some \<lparr>spec_ty = ty, spec_name = Min {name. (name, ty) \<in> set (static_events sm)}\<rparr>"
    if "ty \<in> ?A" for ty
  proof -
    from that have "\<exists>name. (name, ty) \<in> set (static_events sm)" by auto
    with entries [THEN conjunct2, THEN conjunct1, rule_format, OF that] show ?thesis
      unfolding machine_event_specs_static by simp
  qed
  have "spec \<in> snd ` set ?S \<longleftrightarrow> spec \<in> (\<lambda>ty. \<lparr>spec_ty = ty, spec_name = Min {name. (name, ty) \<in> set (static_events sm)}\<rparr>) ` ?A" for spec
  proof -
    have "spec \<in> snd ` set ?S \<longleftrightarrow> (\<exists>key. map_of ?S key = Some spec)"
      using btree_distinct [OF S] by force
    also have "\<dots> \<longleftrightarrow> (\<exists>ty \<in> ?A. map_of ?S (print ty) = Some spec)"
      using entries unfolding machine_event_specs_static by (metis (no_types, lifting) image_iff option.distinct(1))
    also have "\<dots> \<longleftrightarrow> spec \<in> (\<lambda>ty. \<lparr>spec_ty = ty, spec_name = Min {name. (name, ty) \<in> set (static_events sm)}\<rparr>) ` ?A"
      unfolding image_iff by (rule bex_cong) (auto simp: spec)
    finally show ?thesis .
  qed
  then have "snd ` set ?S = (\<lambda>ty. \<lparr>spec_ty = ty, spec_name = Min {name. (name, ty) \<in> set (static_events sm)}\<rparr>) ` ?A" by blast
  then have "set (names_table ?S) = spec_name ` (\<lambda>ty. \<lparr>spec_ty = ty, spec_name = Min {name. (name, ty) \<in> set (static_events sm)}\<rparr>) ` ?A"
    unfolding names_table_def by (metis image_image list.set_map comp_apply image_comp)
  then have "set (names_table ?S) = (\<lambda>ty. Min {name. (name, ty) \<in> set (static_events sm)}) ` ?A" by (simp add: image_image)
  with eq show ?thesis by simp
qed

definition typed_mapping :: "string \<Rightarrow> string \<Rightarrow> event_mapping" where
  "typed_mapping s e = \<lparr>m_in_state = s, m_event = e, m_event_kind = Normal, m_event_wildcard = False, m_event_external = False,
     m_transitions = []\<rparr>"

definition two_names :: "transition_map \<Rightarrow> parsed_state_machine" where
  "two_names tm = door\<lparr>p_states_events_mapping := tm,
     p_event_data := DataDefinitions_new\<lparr>data_types := [(''Beta'', named_type ''u8''), (''Alpha'', named_type ''u8'')]\<rparr>\<rparr>"

theorem event_names_deterministic_witness:
  "names_table (machine_event_specs print_named
      (two_names [(''S'', [(''k'', typed_mapping ''S'' ''Beta'')]), (''T'', [(''l'', typed_mapping ''T'' ''Alpha'')])])) = [''Alpha''] \<and>
   names_table (machine_event_specs print_named
      (two_names [(''T'', [(''l'', typed_mapping ''T'' ''Alpha'')]), (''S'', [(''k'', typed_mapping ''S'' ''Beta'')])])) = [''Alpha'']"
proof -
  let ?sm = "two_names [(''S'', [(''k'', typed_mapping ''S'' ''Beta'')]), (''T'', [(''l'', typed_mapping ''T'' ''Alpha'')])]"
  let ?sm' = "two_names [(''T'', [(''l'', typed_mapping ''T'' ''Alpha'')]), (''S'', [(''k'', typed_mapping ''S'' ''Beta'')])]"
  have entries: "same_entries (p_states_events_mapping ?sm) (p_states_events_mapping ?sm')"
    by (simp add: same_entries_def two_names_def add_mset_commute)
  have data: "p_event_data ?sm' = p_event_data ?sm" "p_event_generics ?sm' = p_event_generics ?sm"
    by (simp_all add: two_names_def)
  have "static_events ?sm = [(''Beta'', named_type ''u8''), (''Alpha'', named_type ''u8'')]" by code_simp
  then have inj: "inj_on print_named (snd ` set (static_events ?sm))" by simp
  have first: "names_table (machine_event_specs print_named ?sm) = [''Alpha'']" by code_simp
  from event_names_deterministic [OF entries data inj] first show ?thesis by simp
qed

end
