(* ===== verification/Tree_Events.thy ===== *)
theory Tree_Events
  imports Event_Specs Tree_Rows Tree_Examples
begin

text \<open>
  The event query of composite trees (\<open>__sml_visit_current_events\<close> in \<open>generate_multi_code\<close>): which
  payload types are visited in a configuration. \<open>tables\<close> are the tables of the tree, the root first.
\<close>

definition tree_query_rows :: "state_machine list \<Rightarrow> (rust_type \<times> nat \<times> string) list" where
  "tree_query_rows tables = concat (map (\<lambda>(i, sm). table_query_rows i sm) (enumerate 0 tables))"

text \<open>The root is always active; the states of a scalar table are one.\<close>

definition tree_condition :: "tree_code \<Rightarrow> ('c, 'v, 'q) tree_core \<Rightarrow> nat \<times> string \<Rightarrow> bool" where
  "tree_condition code k = (\<lambda>(i, s). (i = 0 \<or> table_active code i k) \<and> list_ex (\<lambda>v. variant v = s) (tree_states k ! i))"

definition tree_visit_current_events ::
  "(rust_type \<Rightarrow> string) \<Rightarrow> state_machine list \<Rightarrow> tree_code \<Rightarrow> ('c, 'v, 'q) tree_core \<Rightarrow> rust_type list" where
  "tree_visit_current_events print tables code k =
     event_query_calls (tree_condition code k) (event_queries print (tree_query_rows tables))"

section \<open>Rows that are asked for\<close>

text \<open>
  A row that admits an event with a payload of type \<open>ty\<close> in a named state: a normal or unexpected
  trigger that is no wildcard, with a payload whose lifetimes are all \<open>'static\<close>.
\<close>

definition admits_payload :: "state_transition \<Rightarrow> rust_type \<Rightarrow> string \<Rightarrow> bool" where
  "admits_payload t ty s \<longleftrightarrow>
     (ev_kind (st_event t) = Normal \<or> ev_kind (st_event t) = Unexpected) \<and> \<not> ev_wildcard (st_event t) \<and>
     ev_data_type (st_event t) = Some ty \<and> \<not> elided_reference ty \<and> free_lifetimes ty \<subseteq> {''static''} \<and>
     \<not> in_wildcard (st_in t) \<and> in_ident (st_in t) = s"

lemma admits_payload_iff:
  "admits_payload t ty s \<longleftrightarrow> query_type t = Some ty \<and> in_ident (st_in t) = s \<and> \<not> in_wildcard (st_in t)"
  by (auto simp: admits_payload_def query_type_def is_query_event_def is_static_type_iff split: option.splits)

lemma tree_query_member:
  "(ty, i, s) \<in> set (tree_query_rows tables) \<longleftrightarrow>
     i < length tables \<and> (\<exists>t \<in> set (transitions (tables ! i)). admits_payload t ty s)"
proof -
  have "(ty, i, s) \<in> set (tree_query_rows tables) \<longleftrightarrow> (\<exists>j < length tables. (ty, i, s) \<in> set (table_query_rows j (tables ! j)))"
    by (auto simp: tree_query_rows_def in_set_enumerate_eq Bex_def split_paired_Ex)
  then show ?thesis by (auto simp: query_rows_member admits_payload_iff)
qed

lemma tree_query_types:
  "fst ` set (tree_query_rows tables) \<subseteq> {ty. \<exists>sm \<in> set tables. \<exists>t \<in> set (transitions sm). ev_data_type (st_event t) = Some ty}"
proof (rule image_subsetI)
  fix r assume "r \<in> set (tree_query_rows tables)"
  moreover obtain ty i s where r: "r = (ty, i, s)" by (cases r)
  ultimately have "i < length tables" "\<exists>t \<in> set (transitions (tables ! i)). admits_payload t ty s" by (simp_all add: tree_query_member)
  then show "fst r \<in> {ty. \<exists>sm \<in> set tables. \<exists>t \<in> set (transitions sm). ev_data_type (st_event t) = Some ty}"
    using nth_mem by (fastforce simp: r admits_payload_def)
qed

section \<open>Active tables\<close>

text \<open>
  A table below the root is active when its owner is in the state for it and the owner is the root or
  active itself. \<open>st p\<close> are the current states of the table \<open>p\<close>.
\<close>

inductive active_table :: "state_machine list \<Rightarrow> string \<Rightarrow> (string \<Rightarrow> string set) \<Rightarrow> string \<Rightarrow> bool" for sms root st where
  owned: "(p, n) \<in> owns sms \<Longrightarrow> state_ident n \<in> st p \<Longrightarrow> p = root \<or> active_table sms root st p \<Longrightarrow>
    active_table sms root st n"

inductive_cases active_tableE: "active_table sms root st n"

lemma climb_active:
  assumes acc: "accepted_walk sms root w"
  shows "n \<in> walk_names w \<Longrightarrow> walk_depth w n \<le> m \<Longrightarrow>
    list_all (\<lambda>(n, p). state_ident n \<in> st p) (upto_root root (climb m (tw_parents w) n)) \<longleftrightarrow> active_table sms root st n"
proof (induction m arbitrary: n)
  case 0
  from acc entryI [OF "0.prems"(1)] "0.prems"(2) show ?case by (cases rule: entry_cases) auto
next
  case (Suc m)
  let ?p = "the (map_of (tw_parents w) n)"
  from known [OF accepted_walkD(1) [OF acc] Suc.prems(1)]
  have climb: "climb (Suc m) (tw_parents w) n = (n, ?p) # climb m (tw_parents w) ?p" by auto
  have owner: "q = ?p" if "(q, n) \<in> owns sms" "q = root \<or> active_table sms root st q" for q
  proof -
    have "q \<in> insert root (walk_names w)"
    proof (cases "q = root")
      case False
      with that(2) have "active_table sms root st q" by simp
      then have "(root, q) \<in> (owns sms)\<^sup>+" by induction (auto intro: trancl_into_trancl)
      then show ?thesis using visited_iff [OF acc] by simp
    qed simp
    then show ?thesis using child_recorded [OF acc] that(1) by auto
  qed
  then have active: "active_table sms root st n \<longleftrightarrow>
      (?p, n) \<in> owns sms \<and> state_ident n \<in> st ?p \<and> (?p = root \<or> active_table sms root st ?p)"
    by (metis active_tableE owned)
  from acc entryI [OF Suc.prems(1)] show ?case
  proof (cases rule: entry_cases)
    case root
    with climb active show ?thesis by simp
  next
    case node
    have "?p \<noteq> root" using node(1) root_not_visited [OF acc] by metis
    with climb active node Suc.IH [OF node(1)] Suc.prems(2) show ?thesis by simp
  qed
qed

text \<open>The current states of a table, by its name.\<close>

definition states_of :: "string list \<Rightarrow> ('c, 'v, 'q) tree_core \<Rightarrow> string \<Rightarrow> string set" where
  "states_of names k p = {variant v |v j. j < length names \<and> names ! j = p \<and> v \<in> set (tree_states k ! j)}"

lemma table_index_nth:
  assumes "table_index root w p = Ok j" "distinct (root # tw_names w)"
  shows "j < Suc (length (tw_names w)) \<and> (root # tw_names w) ! j = p"
  using assms
  by (auto simp: table_index_def find_Some_iff nth_enumerate_eq split: if_splits option.splits)

lemma states_of_nth:
  assumes "distinct names" "j < length names" "names ! j = p"
  shows "states_of names k p = variant ` set (tree_states k ! j)"
  using assms by (auto simp: states_of_def nth_eq_iff_index_eq)

lemma table_active_iff:
  assumes gen: "generate_multi_code sms parent children = Ok code" "tree_tables sms parent children = Ok (table, w)"
    and name: "machine_name parent = Some root" and acc: "accepted_walk sms root w"
    and i: "0 < i" "i < Suc (length (tw_names w))"
  shows "table_active code i k \<longleftrightarrow> active_table sms root (states_of (root # tw_names w) k) ((root # tw_names w) ! i)"
proof -
  let ?names = "root # tw_names w" and ?n = "(root # tw_names w) ! i" and ?st = "states_of (root # tw_names w) k"
  have distinct: "distinct ?names"
    using accepted_walkD(1) [OF acc] root_not_visited [OF acc] by (simp add: walk_ok_def)
  have n: "?n \<in> walk_names w" using i by (cases i) auto
  note nth = generated_nth [OF gen name]
  from i(2) nth(1) have "i < length (tm_tables code)" by simp
  from nth(2) [OF this] obtain sites evs where
    "generate_tree_table (i = 0) root w sites evs (?n, (table # tw_tables w) ! i) = Ok (tm_tables code ! i)" by blast
  from generated_tree_table(7) [OF this] i(1)
  have "tree_active_condition root w ?n = Ok (tt_active (tm_tables code ! i))" by simp
  then have all: "list_all2 (\<lambda>(n, p) (j, s). table_index root w p = Ok j \<and> s = state_ident n)
      (upto_root root (tree_path (tw_parents w) ?n)) (tt_active (tm_tables code ! i))"
    unfolding tree_active_condition_def
    by (rule list_all2_mono [OF try_map_Inr]) (auto simp: try_then_Inr_iff)
  have same: "list_ex (\<lambda>v. variant v = s) (tree_states k ! j) \<longleftrightarrow> s \<in> ?st p" if "table_index root w p = Ok j" for j s p
  proof -
    from table_index_nth [OF that distinct] have "?st p = variant ` set (tree_states k ! j)"
      by (intro states_of_nth [OF distinct]) simp_all
    then show ?thesis by (simp add: list_ex_iff image_iff) metis
  qed
  have "table_active code i k \<longleftrightarrow> list_all (\<lambda>(n, p). state_ident n \<in> ?st p) (upto_root root (tree_path (tw_parents w) ?n))"
    unfolding table_active_def using all by (induction rule: list_all2_induct) (auto simp: same)
  moreover have "length (tw_parents w) = length (tw_names w)"
    using accepted_walkD(1) [OF acc] by (metis length_map walk_ok_def)
  ultimately show ?thesis using climb_active [OF acc n depth_bound [OF acc n], of ?st] by (simp add: tree_path_def)
qed

lemma tree_condition_iff:
  "tree_condition code k (i, s) \<longleftrightarrow> (i = 0 \<or> table_active code i k) \<and> s \<in> variant ` set (tree_states k ! i)"
  by (auto simp: tree_condition_def list_ex_iff)

text \<open>
  C32. The event query of a composite tree visits exactly the types of payload that some row of the
  root or of an active table admits in a current state of that table: rows for normal and unexpected
  events without wildcards, with payloads whose lifetimes are \<open>'static\<close>. A table is active when every
  table from it up to the root is entered by the current state of its owner. Each type is visited
  once, in the order of the printed types.
\<close>

theorem tree_visits_current_rows:
  assumes "generate_multi_code sms parent (child_references (machine_names sms) parent) = Ok code"
    and "tree_tables sms parent (child_references (machine_names sms) parent) = Ok (table, w)"
    and "machine_name parent = Some root" "table_named sms root = Some parent"
    and "child_references (machine_names sms) parent \<noteq> []"
    and "inj_on print {ty. \<exists>sm \<in> set (table # tw_tables w). \<exists>t \<in> set (transitions sm). ev_data_type (st_event t) = Some ty}"
  shows "set (tree_visit_current_events print (table # tw_tables w) code k) =
      {ty. \<exists>i < Suc (length (tw_names w)).
         (i = 0 \<or> active_table sms root (states_of (root # tw_names w) k) ((root # tw_names w) ! i)) \<and>
         (\<exists>t \<in> set (transitions ((table # tw_tables w) ! i)). \<exists>v \<in> set (tree_states k ! i). admits_payload t ty (variant v))} \<and>
    sorted_wrt (<) (map print (tree_visit_current_events print (table # tw_tables w) code k))"
proof -
  let ?tables = "table # tw_tables w"
  note acc = tree_tables_accepted [OF assms(2-5)]
  have len: "length ?tables = Suc (length (tw_names w))" using accepted_walkD(1) [OF acc] by (simp add: walk_ok_def)
  note calls = event_query_calls_set [OF inj_on_subset [OF assms(6) tree_query_types]]
  have asked: "(\<exists>c. (ty, c) \<in> set (tree_query_rows ?tables) \<and> tree_condition code k c) \<longleftrightarrow>
      (\<exists>i < Suc (length (tw_names w)). (i = 0 \<or> table_active code i k) \<and>
         (\<exists>t \<in> set (transitions (?tables ! i)). \<exists>v \<in> set (tree_states k ! i). admits_payload t ty (variant v)))" for ty
    unfolding split_paired_Ex tree_query_member tree_condition_iff len by blast
  have active: "i = 0 \<or> table_active code i k \<longleftrightarrow>
      i = 0 \<or> active_table sms root (states_of (root # tw_names w) k) ((root # tw_names w) ! i)"
    if "i < Suc (length (tw_names w))" for i
    using table_active_iff [OF assms(1-3) acc _ that] by (cases i) auto
  have "(\<exists>c. (ty, c) \<in> set (tree_query_rows ?tables) \<and> tree_condition code k c) \<longleftrightarrow>
      (\<exists>i < Suc (length (tw_names w)).
         (i = 0 \<or> active_table sms root (states_of (root # tw_names w) k) ((root # tw_names w) ! i)) \<and>
         (\<exists>t \<in> set (transitions (?tables ! i)). \<exists>v \<in> set (tree_states k ! i). admits_payload t ty (variant v)))" for ty
    by (simp only: asked active cong: conj_cong)
  then show ?thesis unfolding tree_visit_current_events_def calls(1) using calls(2) by auto
qed

section \<open>The claim at a tree\<close>

text \<open>The chain of three tables with payloads and without actions, in its innermost state.\<close>

definition payload_table :: "state_machine \<Rightarrow> state_machine" where
  "payload_table sm = (let sm' = with_payloads sm in
     sm'\<lparr>transitions := map (\<lambda>t. if ev_wildcard (st_event t) then t else t\<lparr>st_action := None\<rparr>) (transitions sm')\<rparr>)"

definition payload_chain :: "state_machine list" where
  "payload_chain = map payload_table (chain False)"

definition payload_code :: tree_code where
  "payload_code =
     (case generate_multi_code payload_chain (payload_table (top_table False)) [''Mid''] of Inr c \<Rightarrow> c | Inl _ \<Rightarrow> chain_code False)"

definition payload_tables :: "state_machine \<times> tree_walk" where
  "payload_tables =
     (case tree_tables payload_chain (payload_table (top_table False)) [''Mid''] of Inr r \<Rightarrow> r | Inl _ \<Rightarrow> (leaf_table, no_walk))"

definition payload_core :: "(nat, nat, nat variant_value event_queue) tree_core" where
  "payload_core = (new_tree_core composite_test_env payload_code 0)
     \<lparr>tree_states := [[Variant ''Mid'' None], [Variant ''Leaf'' None], [Variant ''Low'' None]]\<rparr>"

lemma payload_generated:
  "generate_multi_code payload_chain (payload_table (top_table False)) [''Mid''] = Ok payload_code"
  "tree_tables payload_chain (payload_table (top_table False)) [''Mid''] = Ok (fst payload_tables, snd payload_tables)"
  "child_references (machine_names payload_chain) (payload_table (top_table False)) = [''Mid'']"
  "machine_name (payload_table (top_table False)) = Some ''Top''"
  "table_named payload_chain ''Top'' = Some (payload_table (top_table False))"
  by code_simp+

theorem tree_visits_current_rows_witness:
  "map print_named (tree_visit_current_events print_named (fst payload_tables # tw_tables (snd payload_tables)) payload_code payload_core) =
     [''Break'', ''Leave'', ''Next''] \<and>
   (\<exists>i < 3. (i = 0 \<or> active_table payload_chain ''Top'' (states_of [''Top'', ''Mid'', ''Leaf''] payload_core) ([''Top'', ''Mid'', ''Leaf''] ! i)) \<and>
      (\<exists>t \<in> set (transitions ((fst payload_tables # tw_tables (snd payload_tables)) ! i)).
         \<exists>v \<in> set (tree_states payload_core ! i). admits_payload t (named_type ''Break'') (variant v)))"
proof -
  let ?tables = "fst payload_tables # tw_tables (snd payload_tables)"
  let ?visited = "tree_visit_current_events print_named ?tables payload_code payload_core"
  have visited: "?visited = map named_type [''Break'', ''Leave'', ''Next'']" by code_simp
  have names: "tw_names (snd payload_tables) = [''Mid'', ''Leaf'']" by code_simp
  have "list_all (\<lambda>sm. list_all (\<lambda>t. case ev_data_type (st_event t) of None \<Rightarrow> True | Some ty \<Rightarrow> ty = named_type (print_named ty))
      (transitions sm)) ?tables" by code_simp
  then have "{ty. \<exists>sm \<in> set ?tables. \<exists>t \<in> set (transitions sm). ev_data_type (st_event t) = Some ty} \<subseteq> named_type ` UNIV"
    by (fastforce simp: list_all_iff)
  then have inj: "inj_on print_named {ty. \<exists>sm \<in> set ?tables. \<exists>t \<in> set (transitions sm). ev_data_type (st_event t) = Some ty}"
    using print_named_inj inj_on_subset by blast
  have "named_type ''Break'' \<in> set ?visited" by (simp add: visited)
  with tree_visits_current_rows [OF _ _ payload_generated(4,5) _ inj, unfolded payload_generated(3), OF payload_generated(1,2), of payload_core]
  show ?thesis by (simp add: visited names named_type_def numeral_3_eq_3)
qed

end
