(* ===== verification/Flat_Callbacks.thy ===== *)
theory Flat_Callbacks
  imports Validation
begin

text \<open>
  The callbacks of a flat machine in macros/src/codegen.rs: the methods of the context trait, declared
  at the first use of each name, and the calls that the generated code makes, each with the types
  of its argument expressions. The temporary context, the first parameter of every method and the
  first argument of every call when a machine has one, is left out, and so are lifetimes of borrows
  and moves: two types match here up to deref coercion.
\<close>

section \<open>Declared parameters\<close>

fun is_reference :: "rust_type \<Rightarrow> bool" where
  "is_reference (TypeReference _ _ _) = True"
| "is_reference _ = False"

definition borrowed :: "rust_type \<Rightarrow> rust_type" where
  "borrowed ty = TypeReference None False ty"

definition state_payload :: "parsed_state_machine \<Rightarrow> string \<Rightarrow> rust_type option" where
  "state_payload p s = map_of (data_types (p_state_data p)) s"

definition event_payload :: "parsed_state_machine \<Rightarrow> event_mapping \<Rightarrow> rust_type option" where
  "event_payload p m = map_of (data_types (p_event_data p)) (m_event m)"

definition state_parameter :: "parsed_state_machine \<Rightarrow> string \<Rightarrow> rust_type list" where
  "state_parameter p s =
     (case state_payload p s of None \<Rightarrow> [] | Some st \<Rightarrow> if is_reference st then [st] else [borrowed st])"

definition guard_event_parameter :: "parsed_state_machine \<Rightarrow> event_mapping \<Rightarrow> rust_type list" where
  "guard_event_parameter p m =
     (case event_payload p m of None \<Rightarrow> [] | Some et \<Rightarrow> if is_reference et then [et] else [borrowed et])"

text \<open>An event that no \<open>event<T>\<close> or \<open>unexpected_event<T>\<close> trigger names is handed over by value.\<close>

definition eval_event_parameter :: "parsed_state_machine \<Rightarrow> event_mapping \<Rightarrow> rust_type list" where
  "eval_event_parameter p m =
     (case event_payload p m of
        None \<Rightarrow> []
      | Some et \<Rightarrow> if is_reference et \<and> m_event_external m then [et] else if m_event_external m then [borrowed et] else [et])"

definition typed_exception :: "event_mapping \<Rightarrow> bool" where
  "typed_exception m \<longleftrightarrow> m_event_kind m = Exception \<and> \<not> m_event_wildcard m"

definition action_event_parameter ::
  "parsed_state_machine \<Rightarrow> event_mapping \<Rightarrow> (string, rust_type list) rust_result" where
  "action_event_parameter p m =
     (if typed_exception m
      then (case p_fixed_error_type p of None \<Rightarrow> Err ''typed exception is missing its callback error type'' | Some e \<Rightarrow> Ok [borrowed e])
      else Ok (case event_payload p m of
          None \<Rightarrow> []
        | Some et \<Rightarrow> if is_reference et \<and> m_event_external m then [et] else if m_event_external m then [borrowed et] else [et]))"

record callback_method =
  cm_name :: string
  cm_async :: bool
  cm_parameters :: "rust_type list"
  cm_result :: "rust_type option"

definition method_for :: "rust_type list \<Rightarrow> rust_type option \<Rightarrow> async_ident \<Rightarrow> callback_method" where
  "method_for params result a = \<lparr>cm_name = ident a, cm_async = is_async a, cm_parameters = params, cm_result = result\<rparr>"

text \<open>Only the first use of a name declares a method.\<close>

definition add_method :: "callback_method \<Rightarrow> callback_method list \<Rightarrow> callback_method list" where
  "add_method m ms = (if cm_name m \<in> set (map cm_name ms) then ms else ms @ [m])"

definition declared_method :: "callback_method list \<Rightarrow> string \<Rightarrow> callback_method option" where
  "declared_method ms a = find (\<lambda>m. cm_name m = a) ms"

text \<open>The guards of a row, then those of its \<open>eval\<close>s, each expression from its last guard to its first.\<close>

definition row_guard_methods :: "parsed_state_machine \<Rightarrow> string \<Rightarrow> event_mapping \<Rightarrow> transition \<Rightarrow> callback_method list" where
  "row_guard_methods p s m t =
     concat (map (\<lambda>g. map (method_for (state_parameter p s @ guard_event_parameter p m) None) (rev (guards_of g)))
       (option_list (t_guard t) @ map ea_guard (t_eval_actions t)))"

definition guard_methods :: "parsed_state_machine \<Rightarrow> callback_method list" where
  "guard_methods p =
     fold add_method (over_mappings p (\<lambda>s k m. concat (map (row_guard_methods p s m) (m_transitions m)))) []"

text \<open>The last action of a row returns the payload of the new state, except on entry and exit rows.\<close>

definition row_output :: "parsed_state_machine \<Rightarrow> event_mapping \<Rightarrow> transition \<Rightarrow> rust_type option" where
  "row_output p m t =
     (if m_event_kind m = Entry \<or> m_event_kind m = Exit then None else state_payload p (t_out_state t))"

fun own_methods ::
  "parsed_state_machine \<Rightarrow> string \<Rightarrow> (string, rust_type list) rust_result \<Rightarrow> rust_type option \<Rightarrow> async_ident list
    \<Rightarrow> (string, callback_method list) rust_result" where
  "own_methods p s param out [] = Ok []"
| "own_methods p s param out (a # as) =
     try_then param (\<lambda>ev.
     try_then (own_methods p s param out as) (\<lambda>ms.
       Ok (method_for (state_parameter p s @ ev) (if as = [] then out else None) a # ms)))"

definition row_action_methods ::
  "parsed_state_machine \<Rightarrow> string \<Rightarrow> event_mapping \<Rightarrow> transition \<Rightarrow> (string, callback_method list) rust_result" where
  "row_action_methods p s m t =
     try_then (own_methods p s (action_event_parameter p m) (row_output p m t) (transition_actions t)) (\<lambda>ms.
       Ok (ms @ map (\<lambda>y. method_for (state_parameter p s @ eval_event_parameter p m) None (ea_action y)) (t_eval_actions t)))"

definition action_methods :: "parsed_state_machine \<Rightarrow> (string, callback_method list) rust_result" where
  "action_methods p =
     try_then (try_map (\<lambda>r. r) (over_mappings p (\<lambda>s k m. map (row_action_methods p s m) (m_transitions m))))
       (\<lambda>ms. Ok (fold add_method (concat ms) []))"

section \<open>Emitted calls\<close>

text \<open>
  The argument expressions \<open>state_data\<close>, \<open>&state_data\<close>, \<open>event_data\<close>, \<open>&event_data\<close>, \<open>*event_data\<close>,
  \<open>core::clone::Clone::clone(event_data)\<close> and \<open>error_data\<close>.
\<close>

datatype argument = StateData | RefStateData | EventData | RefEventData | DerefEventData | CloneEventData | ErrorData

definition state_argument :: "parsed_state_machine \<Rightarrow> string \<Rightarrow> argument list" where
  "state_argument p s =
     (case state_payload p s of None \<Rightarrow> [] | Some st \<Rightarrow> if is_reference st then [StateData] else [RefStateData])"

definition guard_parameters_at :: "parsed_state_machine \<Rightarrow> string \<Rightarrow> event_mapping \<Rightarrow> argument list" where
  "guard_parameters_at p s m = state_argument p s @
     (case event_payload p m of
        None \<Rightarrow> []
      | Some et \<Rightarrow>
          if m_event_kind m = Completion then if is_reference et then [DerefEventData] else [EventData]
          else if is_reference et then [EventData] else [RefEventData])"

definition action_parameters_at :: "parsed_state_machine \<Rightarrow> string \<Rightarrow> event_mapping \<Rightarrow> argument list" where
  "action_parameters_at p s m = state_argument p s @
     (if typed_exception m then [ErrorData]
      else case event_payload p m of
        None \<Rightarrow> []
      | Some et \<Rightarrow>
          if is_reference et \<and> m_event_external m then [EventData]
          else if m_event_external m \<and> m_event_kind m = Completion then [EventData]
          else if m_event_external m then [RefEventData]
          else if m_event_kind m = Completion then [CloneEventData]
          else [EventData])"

record callback_call =
  cc_name :: string
  cc_await :: bool
  cc_arguments :: "argument list"

definition call_of :: "argument list \<Rightarrow> async_ident \<Rightarrow> callback_call" where
  "call_of args a = \<lparr>cc_name = ident a, cc_await = is_async a, cc_arguments = args\<rparr>"

text \<open>
  The calls in the code block of a row; its steps are the actions with the \<open>eval\<close>s between them. The
  blocks of entry and exit mappings get into no arm of the generated code.
\<close>

definition lifecycle_mapping :: "event_mapping \<Rightarrow> bool" where
  "lifecycle_mapping m \<longleftrightarrow> m_event_kind m = Entry \<or> m_event_kind m = Exit"

definition row_guard_calls :: "parsed_state_machine \<Rightarrow> string \<Rightarrow> event_mapping \<Rightarrow> transition \<Rightarrow> callback_call list" where
  "row_guard_calls p s m t =
     (if lifecycle_mapping m then []
      else concat (map (\<lambda>g. map (call_of (guard_parameters_at p s m)) (guards_of g))
        (option_list (t_guard t) @ map ea_guard (t_eval_actions t))))"

definition row_action_calls :: "parsed_state_machine \<Rightarrow> string \<Rightarrow> event_mapping \<Rightarrow> transition \<Rightarrow> callback_call list" where
  "row_action_calls p s m t =
     (if lifecycle_mapping m then []
      else map (call_of (action_parameters_at p s m)) (transition_actions t @ map ea_action (t_eval_actions t)))"

text \<open>On entry to or exit from a state, the actions of the first row of the mapping are called without arguments.\<close>

definition lifecycle_calls :: "event_mapping \<Rightarrow> callback_call list" where
  "lifecycle_calls m =
     (if lifecycle_mapping m then
        (case m_transitions m of [] \<Rightarrow> [] | t # _ \<Rightarrow> map (call_of []) (transition_actions t))
      else [])"

section \<open>Types of the arguments\<close>

text \<open>
  The variables in scope of a code block. A state pattern binds \<open>ref state_data\<close>. A dispatch arm matches
  the event by value and a completion arm its origin by reference; an exception arm binds no
  event, but \<open>error_data\<close>, a reference to the error, when the error type is fixed.
\<close>

record bindings =
  bd_state :: "rust_type option"
  bd_event :: "rust_type option"
  bd_error :: "rust_type option"

definition block_bindings :: "parsed_state_machine \<Rightarrow> string \<Rightarrow> event_mapping \<Rightarrow> bindings" where
  "block_bindings p s m =
     \<lparr>bd_state = map_option borrowed (state_payload p s),
      bd_event = (if m_event_wildcard m then None
        else case m_event_kind m of
          Normal \<Rightarrow> event_payload p m
        | Unexpected \<Rightarrow> event_payload p m
        | Completion \<Rightarrow> map_option borrowed (event_payload p m)
        | _ \<Rightarrow> None),
      bd_error = (if m_event_kind m = Exception then map_option borrowed (p_fixed_error_type p) else None)\<rparr>"

text \<open>What can be copied or cloned out of a reference; a mutable reference cannot.\<close>

fun copied :: "rust_type \<Rightarrow> rust_type option" where
  "copied (TypeReference _ _ ty) = (if is_mutable_reference ty then None else Some ty)"
| "copied _ = None"

fun argument_type :: "bindings \<Rightarrow> argument \<Rightarrow> rust_type option" where
  "argument_type b StateData = bd_state b"
| "argument_type b RefStateData = map_option borrowed (bd_state b)"
| "argument_type b EventData = bd_event b"
| "argument_type b RefEventData = map_option borrowed (bd_event b)"
| "argument_type b DerefEventData = Option.bind (bd_event b) copied"
| "argument_type b CloneEventData = Option.bind (bd_event b) copied"
| "argument_type b ErrorData = bd_error b"

text \<open>
  A reference to a reference is accepted where the inner reference is expected (deref coercion), a
  mutable one only behind mutable references.
\<close>

fun coerces :: "rust_type \<Rightarrow> rust_type \<Rightarrow> bool" where
  "coerces (TypeReference l mu ty) to =
     (TypeReference l mu ty = to \<or> is_reference ty \<and> (mu \<or> \<not> is_mutable_reference to) \<and> coerces ty to)"
| "coerces ty to = (ty = to)"

definition accepts :: "rust_type option \<Rightarrow> rust_type \<Rightarrow> bool" where
  "accepts arg param \<longleftrightarrow> (case arg of None \<Rightarrow> False | Some ty \<Rightarrow> coerces ty param)"

definition call_fits :: "callback_method list \<Rightarrow> bindings \<Rightarrow> callback_call \<Rightarrow> bool" where
  "call_fits ms b c \<longleftrightarrow>
     (case declared_method ms (cc_name c) of
        None \<Rightarrow> False
      | Some d \<Rightarrow> cm_async d = cc_await c \<and> list_all2 accepts (map (argument_type b) (cc_arguments c)) (cm_parameters d))"

section \<open>Calls fit their declarations\<close>

lemma find_snoc: "find P (xs @ [x]) = (case find P xs of Some y \<Rightarrow> Some y | None \<Rightarrow> if P x then Some x else None)"
  by (induction xs) simp_all

lemma find_known: "find (\<lambda>m. cm_name m = a) ms = None \<longleftrightarrow> a \<notin> cm_name ` set ms"
  by (auto simp: find_None_iff)

lemma declared_fold:
  "declared_method (fold add_method us ms) a =
     (case declared_method ms a of Some m \<Rightarrow> Some m | None \<Rightarrow> find (\<lambda>m. cm_name m = a) us)"
proof (induction us arbitrary: ms)
  case (Cons u us)
  have "declared_method (add_method u ms) a = (case declared_method ms a of Some m \<Rightarrow> Some m
      | None \<Rightarrow> if cm_name u = a then Some u else None)"
    using find_known [of a ms] by (auto simp: add_method_def declared_method_def find_snoc split: option.split)
  then show ?case by (simp add: Cons.IH split: option.split)
qed (simp add: declared_method_def split: option.split)

lemma declared_first: "declared_method (fold add_method us []) a = find (\<lambda>m. cm_name m = a) us"
  by (simp add: declared_fold) (simp add: declared_method_def)

text \<open>What matters of a method for its calls.\<close>

definition method_key :: "callback_method \<Rightarrow> string \<times> bool \<times> rust_type list" where
  "method_key d = (cm_name d, cm_async d, cm_parameters d)"

text \<open>A payload is lent, unless it is a reference.\<close>

definition lent :: "rust_type \<Rightarrow> rust_type" where
  "lent ty = (if is_reference ty then ty else borrowed ty)"

text \<open>If one name has one signature, its first method has the parameters of each.\<close>

lemma declared_signature:
  assumes occur: "\<And>d. d \<in> set us \<Longrightarrow> \<exists>sg. occurs (cm_name d) sg \<and> cm_async d = sg_async sg \<and> cm_parameters d = map lent (sg_arguments sg)"
    and unique: "right_unique occurs" and at: "n \<in> cm_name ` set us" "occurs n sg"
  shows "\<exists>d. declared_method (fold add_method us []) n = Some d \<and> cm_async d = sg_async sg \<and> cm_parameters d = map lent (sg_arguments sg)"
proof -
  from at(1) obtain d where d: "find (\<lambda>m. cm_name m = n) us = Some d"
    using find_known [of n us] by blast
  then have "d \<in> set us" "cm_name d = n" by (auto simp: find_Some_iff)
  with occur [OF this(1)] at(2) unique d show ?thesis unfolding declared_first by (metis right_uniqueD)
qed

lemma lent_payloads:
  "map lent (payloads p s m) = state_parameter p s @ guard_event_parameter p m"
  by (simp add: payloads_def state_parameter_def guard_event_parameter_def state_payload_def event_payload_def lent_def
      option_list_def split: option.split)

text \<open>
  Payloads that a call can hand over: no mutable reference from a state, which is behind a shared one,
  or from the origin of a completion, and no event payload where no event is bound.
\<close>

definition payloads_usable :: "parsed_state_machine \<Rightarrow> string \<Rightarrow> event_mapping \<Rightarrow> bool" where
  "payloads_usable p s m \<longleftrightarrow>
     (case state_payload p s of None \<Rightarrow> True | Some st \<Rightarrow> \<not> is_mutable_reference st) \<and>
     (case event_payload p m of None \<Rightarrow> True | Some et \<Rightarrow> \<not> m_event_wildcard m \<and>
        (m_event_kind m = Normal \<or> m_event_kind m = Unexpected \<or> m_event_kind m = Completion \<and> \<not> is_mutable_reference et))"

lemma coerces_refl [simp]: "coerces ty ty"
  by (cases ty) simp_all

lemma is_reference_borrowed [simp]: "is_reference (borrowed ty)" "\<not> is_mutable_reference (borrowed ty)"
  by (simp_all add: borrowed_def)

lemma coerces_borrowed: "is_reference ty \<Longrightarrow> coerces (borrowed ty) ty \<longleftrightarrow> \<not> is_mutable_reference ty"
  by (cases ty) (auto simp: borrowed_def)

lemma coerces_borrowed_twice [simp]: "coerces (borrowed (borrowed ty)) (borrowed ty)"
  by (simp add: coerces_borrowed)

lemma is_mutable_is_reference: "is_mutable_reference ty \<Longrightarrow> is_reference ty"
  by (cases ty) simp_all

lemma copied_borrowed [simp]: "copied (borrowed ty) = (if is_mutable_reference ty then None else Some ty)"
  by (simp add: borrowed_def)

lemmas argument_defs = payloads_usable_def payloads_def lent_def accepts_def block_bindings_def state_argument_def
  guard_parameters_at_def action_parameters_at_def option_list_def

lemma guard_arguments_fit:
  "list_all2 accepts (map (argument_type (block_bindings p s m)) (guard_parameters_at p s m)) (map lent (payloads p s m)) \<longleftrightarrow>
     payloads_usable p s m"
  using is_mutable_is_reference coerces_borrowed
  by (cases "state_payload p s"; cases "event_payload p m"; cases "m_event_kind m")
    (auto simp: argument_defs state_payload_def event_payload_def)

lemma row_guard_methods_rows:
  "(\<exists>d \<in> set (row_guard_methods p s m t). P d) \<longleftrightarrow>
     (\<exists>g \<in> set (option_list (t_guard t) @ map ea_guard (t_eval_actions t)). \<exists>x \<in> set (guards_of g).
        P (method_for (map lent (payloads p s m)) None x))"
  by (auto simp: row_guard_methods_def lent_payloads)

lemma declared_guard:
  assumes "validate p = Ok ()" and occ: "guard_occurs p n sg"
  shows "\<exists>d. declared_method (guard_methods p) n = Some d \<and> cm_async d = sg_async sg \<and> cm_parameters d = map lent (sg_arguments sg)"
  unfolding guard_methods_def
proof (rule declared_signature [where occurs = "guard_occurs p"])
  let ?us = "over_mappings p (\<lambda>s k m. concat (map (row_guard_methods p s m) (m_transitions m)))"
  show "\<exists>sg. guard_occurs p (cm_name d) sg \<and> cm_async d = sg_async sg \<and> cm_parameters d = map lent (sg_arguments sg)"
    if "d \<in> set ?us" for d
  proof -
    from that have "\<exists>x \<in> set ?us. x = d" by blast
    then obtain s k m t g x where at: "row_at p s k m t" "g \<in> set (option_list (t_guard t) @ map ea_guard (t_eval_actions t))"
        "x \<in> set (guards_of g)" and d: "d = method_for (map lent (payloads p s m)) None x"
      unfolding over_rows row_guard_methods_rows by blast
    from at have "guard_occurs p (ident x) \<lparr>sg_arguments = payloads p s m, sg_result = None, sg_async = is_async x\<rparr>"
      unfolding guard_occurs_rows by blast
    then show ?thesis by (force simp: d method_for_def)
  qed
  show "right_unique (guard_occurs p)" using assms(1) by (simp add: validate_Ok validated_guards)
  have "\<exists>d \<in> set ?us. cm_name d = n"
    using occ unfolding over_rows row_guard_methods_rows guard_occurs_rows method_for_def callback_method.select_convs by blast
  then show "n \<in> cm_name ` set ?us" by blast
qed (rule occ)

text \<open>
  C33. In the code of a machine that \<open>validate\<close> accepts, a call of a guard, in the guard of a row or of an
  \<open>eval\<close>, fits the method that the context trait declares for its name, in asynchrony and in the types of
  its arguments, exactly when the payloads of its mapping can be used: no payload is a mutable
  reference behind a shared one, and no event payload is passed where none is bound, as in the
  handler of a typed exception.
\<close>

theorem guard_calls_fit:
  assumes "validate p = Ok ()" and "row_at p s k m t" and "c \<in> set (row_guard_calls p s m t)"
  shows "call_fits (guard_methods p) (block_bindings p s m) c \<longleftrightarrow> payloads_usable p s m"
proof -
  from assms(3) obtain g x where g: "g \<in> set (option_list (t_guard t) @ map ea_guard (t_eval_actions t))" "x \<in> set (guards_of g)"
      and c: "c = call_of (guard_parameters_at p s m) x"
    by (auto simp: row_guard_calls_def split: if_splits)
  from assms(2) g have "guard_occurs p (ident x) \<lparr>sg_arguments = payloads p s m, sg_result = None, sg_async = is_async x\<rparr>"
    unfolding guard_occurs_rows by blast
  from declared_guard [OF assms(1) this] show ?thesis
    by (auto simp: call_fits_def c call_of_def guard_arguments_fit)
qed

section \<open>Actions\<close>

text \<open>A mapping whose event is lent, as all references are, and whose actions get no error.\<close>

definition lends_event :: "parsed_state_machine \<Rightarrow> event_mapping \<Rightarrow> bool" where
  "lends_event p m \<longleftrightarrow> \<not> typed_exception m \<and> (m_event_external m \<or> event_payload p m = None)"

lemma lent_parameters:
  assumes "lends_event p m"
  shows "action_event_parameter p m = Ok (guard_event_parameter p m)"
    "eval_event_parameter p m = guard_event_parameter p m"
  using assms
  by (auto simp: lends_event_def action_event_parameter_def eval_event_parameter_def guard_event_parameter_def split: option.split)

lemma action_arguments_fit:
  assumes "lends_event p m"
  shows "list_all2 accepts (map (argument_type (block_bindings p s m)) (action_parameters_at p s m)) (map lent (payloads p s m)) \<longleftrightarrow>
     payloads_usable p s m"
  using assms is_mutable_is_reference coerces_borrowed
  by (cases "state_payload p s"; cases "event_payload p m"; cases "m_event_kind m")
    (auto simp: argument_defs state_payload_def event_payload_def lends_event_def)

lemma own_methods_key:
  "\<exists>ms. own_methods p s (Ok ev) out as = Ok ms \<and>
     map method_key ms = map (\<lambda>a. (ident a, is_async a, state_parameter p s @ ev)) as"
proof (induction as)
  case (Cons a as)
  then show ?case by (fastforce simp: method_key_def method_for_def)
qed simp

definition row_actions :: "transition \<Rightarrow> async_ident list" where
  "row_actions t = transition_actions t @ map ea_action (t_eval_actions t)"

lemma row_action_methods_key:
  assumes "lends_event p m" "row_action_methods p s m t = Ok us"
  shows "map method_key us = map (\<lambda>a. (ident a, is_async a, map lent (payloads p s m))) (row_actions t)"
proof -
  obtain ms where "own_methods p s (Ok (guard_event_parameter p m)) (row_output p m t) (transition_actions t) = Ok ms"
      "map method_key ms = map (\<lambda>a. (ident a, is_async a, map lent (payloads p s m))) (transition_actions t)"
    using own_methods_key [of p s "guard_event_parameter p m"] unfolding lent_payloads by blast
  with assms show ?thesis
    by (auto simp: row_action_methods_def row_actions_def lent_parameters lent_payloads method_key_def method_for_def)
qed

lemma row_action_occurs:
  assumes "row_at p s k m t" "a \<in> set (row_actions t)"
  obtains out where "action_occurs p (ident a) \<lparr>sg_arguments = payloads p s m, sg_result = out, sg_async = is_async a\<rparr>"
proof (cases "a \<in> set (transition_actions t)")
  case True
  then obtain j where "j < length (transition_actions t)" "a = transition_actions t ! j" by (metis in_set_conv_nth)
  then show ?thesis using assms(1) that unfolding action_occurs_rows by blast
next
  case False
  then obtain y where "y \<in> set (t_eval_actions t)" "a = ea_action y" using assms(2) by (auto simp: row_actions_def)
  then show ?thesis using of_eval [OF assms(1)] that by blast
qed

lemma try_map_id: "try_map (\<lambda>r. r) rs = Ok us \<Longrightarrow> rs = map Ok us"
  by (induction rs arbitrary: us) (auto simp: try_then_Inr_iff)

text \<open>The uses that declare the actions.\<close>

lemma action_methods_uses:
  assumes "action_methods p = Ok ms"
  obtains us where "ms = fold add_method us []"
    "\<And>d. d \<in> set us \<Longrightarrow> \<exists>s k m t ds. row_at p s k m t \<and> row_action_methods p s m t = Ok ds \<and> d \<in> set ds"
    "\<And>s k m t. row_at p s k m t \<Longrightarrow> \<exists>ds. row_action_methods p s m t = Ok ds \<and> set ds \<subseteq> set us"
proof -
  let ?rows = "over_mappings p (\<lambda>s k m. map (row_action_methods p s m) (m_transitions m))"
  from assms obtain uss where rows: "?rows = map Ok uss" and ms: "ms = fold add_method (concat uss) []"
    by (auto simp: action_methods_def try_then_Inr_iff dest: try_map_id)
  have at: "r \<in> set ?rows \<longleftrightarrow> (\<exists>s k m t. row_at p s k m t \<and> r = row_action_methods p s m t)" for r
    using over_rows [of p "\<lambda>s k m t. [row_action_methods p s m t]" "\<lambda>x. x = r"]
    by (simp add: concat_map_singleton eq_commute [of r])
  show ?thesis
  proof (rule that [OF ms])
    fix d assume "d \<in> set (concat uss)"
    then obtain ds where "Ok ds \<in> set ?rows" "d \<in> set ds" unfolding rows by auto
    then show "\<exists>s k m t ds. row_at p s k m t \<and> row_action_methods p s m t = Ok ds \<and> d \<in> set ds"
      unfolding at by metis
  next
    fix s k m t assume "row_at p s k m t"
    then have "row_action_methods p s m t \<in> set ?rows" unfolding at by blast
    then show "\<exists>ds. row_action_methods p s m t = Ok ds \<and> set ds \<subseteq> set (concat uss)" unfolding rows by auto
  qed
qed

lemma mapping_of_row:
  "list_all Q (all_mappings (p_states_events_mapping p)) \<Longrightarrow> row_at p s k m t \<Longrightarrow> Q m"
  unfolding all_mappings_over list_all_over_mappings row_at_iff by fastforce

lemma declared_action:
  assumes "validate p = Ok ()" and "action_methods p = Ok ms"
    and lends: "list_all (lends_event p) (all_mappings (p_states_events_mapping p))"
    and at: "row_at p s k m t" "a \<in> set (row_actions t)"
  shows "\<exists>d. declared_method ms (ident a) = Some d \<and> cm_async d = is_async a \<and> cm_parameters d = map lent (payloads p s m)"
proof -
  obtain us where ms: "ms = fold add_method us []"
    and origin: "\<And>d. d \<in> set us \<Longrightarrow> \<exists>s k m t ds. row_at p s k m t \<and> row_action_methods p s m t = Ok ds \<and> d \<in> set ds"
    and all: "\<And>s k m t. row_at p s k m t \<Longrightarrow> \<exists>ds. row_action_methods p s m t = Ok ds \<and> set ds \<subseteq> set us"
    using assms(2) by (rule action_methods_uses) blast
  have key: "method_key ` set ds = (\<lambda>a. (ident a, is_async a, map lent (payloads p s m))) ` set (row_actions t)"
    if "row_at p s k m t" "row_action_methods p s m t = Ok ds" for s k m t ds
    using arg_cong [OF row_action_methods_key [OF mapping_of_row [OF lends that(1)] that(2)], of set] by simp
  have occurs: "\<exists>sg. action_occurs p (cm_name d) sg \<and> cm_async d = sg_async sg \<and> cm_parameters d = map lent (sg_arguments sg)"
    if d: "d \<in> set us" for d
  proof -
    from origin [OF d] obtain s k m t ds where row: "row_at p s k m t" "row_action_methods p s m t = Ok ds" "d \<in> set ds" by blast
    with key [OF row(1,2)] have "method_key d \<in> (\<lambda>a. (ident a, is_async a, map lent (payloads p s m))) ` set (row_actions t)" by blast
    then obtain x where x: "x \<in> set (row_actions t)" "method_key d = (ident x, is_async x, map lent (payloads p s m))" by blast
    obtain out where "action_occurs p (ident x) \<lparr>sg_arguments = payloads p s m, sg_result = out, sg_async = is_async x\<rparr>"
      using row_action_occurs [OF row(1) x(1)] .
    with x(2) show ?thesis unfolding method_key_def by force
  qed
  obtain ds where ds: "row_action_methods p s m t = Ok ds" "set ds \<subseteq> set us" using all [OF at(1)] by blast
  have "(ident a, is_async a, map lent (payloads p s m)) \<in> method_key ` set ds" unfolding key [OF at(1) ds(1)] using at(2) by blast
  then have named: "ident a \<in> cm_name ` set us" using ds(2) by (auto simp: method_key_def)
  obtain out where occ: "action_occurs p (ident a) \<lparr>sg_arguments = payloads p s m, sg_result = out, sg_async = is_async a\<rparr>"
    using row_action_occurs [OF at] .
  have "right_unique (action_occurs p)" using assms(1) by (simp add: validate_Ok validated_actions)
  from declared_signature [OF occurs this named occ] show ?thesis unfolding ms by simp
qed

text \<open>
  C34. In the code of a machine that \<open>validate\<close> accepts, whose events with payloads are all \<open>event<T>\<close> or
  \<open>unexpected_event<T>\<close> and that handles no typed exception, a call of an action in the code block of a
  row, an \<open>eval\<close> included, fits the method that is declared for its name, in asynchrony and in the
  types of its arguments, exactly when the payloads of its mapping can be used.
\<close>

theorem action_calls_fit:
  assumes "validate p = Ok ()" and "action_methods p = Ok ms"
    and "list_all (lends_event p) (all_mappings (p_states_events_mapping p))"
    and "row_at p s k m t" and "c \<in> set (row_action_calls p s m t)"
  shows "call_fits ms (block_bindings p s m) c \<longleftrightarrow> payloads_usable p s m"
proof -
  from assms(5) obtain a where a: "a \<in> set (row_actions t)" and c: "c = call_of (action_parameters_at p s m) a"
    by (auto simp: row_action_calls_def row_actions_def split: if_splits)
  from declared_action [OF assms(1-4) a] show ?thesis
    by (auto simp: call_fits_def c call_of_def action_arguments_fit [OF mapping_of_row [OF assms(3,4)]])
qed

text \<open>
  C35. In such a machine the calls of the actions of entry and exit rows, which pass no payload, fit
  the declared methods exactly when neither the state nor the event of the mapping has a payload:
  the action of an entry or exit row of a state with data is declared with a parameter and called
  without.
\<close>

theorem lifecycle_calls_fit:
  assumes "validate p = Ok ()" and "action_methods p = Ok ms"
    and "list_all (lends_event p) (all_mappings (p_states_events_mapping p))"
    and "row_at p s k m t" and "c \<in> set (lifecycle_calls m)"
  shows "call_fits ms b c \<longleftrightarrow> payloads p s m = []"
proof -
  obtain t' ts where ts: "m_transitions m = t' # ts" using assms(4) by (cases "m_transitions m") (auto simp: row_at_iff)
  have "c \<in> call_of [] ` set (transition_actions t')"
    using assms(5) by (cases "lifecycle_mapping m") (simp_all add: lifecycle_calls_def ts)
  then obtain a where a: "a \<in> set (row_actions t')" and c: "c = call_of [] a" by (auto simp: row_actions_def)
  have at: "row_at p s k m t'" using assms(4) ts by (auto simp: row_at_iff)
  obtain d where "declared_method ms (ident a) = Some d" "cm_async d = is_async a" "cm_parameters d = map lent (payloads p s m)"
    using declared_action [OF assms(1-3) at a] by blast
  then show ?thesis by (simp add: call_fits_def c call_of_def)
qed

section \<open>The claims at a machine\<close>

text \<open>
  \<open>*A(Meter) + event<Go> [open && ready] / log = B, B + event<Go> / eval[idle] / note = B,
  B + on_entry<_> / greet, A + on_entry<_> / show\<close>; \<open>show\<close> is declared with the payload of \<open>A\<close>.
\<close>

definition go_row :: "bool \<Rightarrow> string \<Rightarrow> string option \<Rightarrow> string \<Rightarrow> state_transition" where
  "go_row start s a s' = (table_row start s ''Go'' a s')\<lparr>st_event := (on_event ''Go'')\<lparr>ev_data_type := Some (named_type ''Go''), ev_external := True\<rparr>\<rparr>"

definition metered :: "string \<Rightarrow> input_state" where
  "metered s = (from_state (s = ''A'') s)\<lparr>in_data_type := (if s = ''A'' then Some (named_type ''Meter'') else None)\<rparr>"

definition entry_row :: "string \<Rightarrow> string \<Rightarrow> state_transition" where
  "entry_row s a = (table_row False s ''on_entry'' (Some a) s)\<lparr>st_in := (metered s)\<lparr>in_start := False\<rparr>,
     st_event := (on_event ''on_entry'')\<lparr>ev_kind := Entry\<rparr>, st_internal := True,
     st_out := (to_state s)\<lparr>out_data_type := in_data_type (metered s)\<rparr>\<rparr>"

definition gated :: state_machine where
  "gated = StateMachine_new\<lparr>transitions :=
     [(go_row True ''A'' (Some ''log'') ''B'')\<lparr>st_in := metered ''A'',
        st_guard := Some (And (Guard (sync_id ''open'')) (Guard (sync_id ''ready'')))\<rparr>,
      (go_row False ''B'' None ''B'')\<lparr>
        st_eval_actions := [\<lparr>ea_position = 0, ea_guard = Guard (sync_id ''idle''), ea_action = sync_id ''note''\<rparr>]\<rparr>,
      entry_row ''B'' ''greet'', entry_row ''A'' ''show'']\<rparr>"

definition gated_parsed :: parsed_state_machine where
  "gated_parsed = (case ParsedStateMachine_new gated of Inr p \<Rightarrow> p | Inl _ \<Rightarrow> door)"

definition gated_methods :: "callback_method list" where
  "gated_methods = (case action_methods gated_parsed of Inr ms \<Rightarrow> ms | Inl _ \<Rightarrow> [])"

definition mapping_at :: "string \<Rightarrow> string \<Rightarrow> event_mapping" where
  "mapping_at s k = the (map_of (the (map_of (p_states_events_mapping gated_parsed) s)) k)"

definition first_row :: "string \<Rightarrow> string \<Rightarrow> transition" where
  "first_row s k = hd (m_transitions (mapping_at s k))"

lemma mapping_at_row:
  assumes "case map_of (p_states_events_mapping gated_parsed) s of None \<Rightarrow> False
    | Some ms \<Rightarrow> (case map_of ms k of None \<Rightarrow> False | Some m \<Rightarrow> m_transitions m \<noteq> [])"
  shows "row_at gated_parsed s k (mapping_at s k) (first_row s k)"
proof -
  from assms obtain ms m where "map_of (p_states_events_mapping gated_parsed) s = Some ms" "map_of ms k = Some m"
      "m_transitions m \<noteq> []" by (auto split: option.splits)
  then show ?thesis unfolding row_at_iff mapping_at_def first_row_def by (auto dest: map_of_SomeD)
qed

lemma gated_accepted:
  "validate gated_parsed = Ok ()" "action_methods gated_parsed = Ok gated_methods"
  "list_all (lends_event gated_parsed) (all_mappings (p_states_events_mapping gated_parsed))"
  by code_simp+

lemma gated_rows:
  "row_at gated_parsed ''A'' ''Go'' (mapping_at ''A'' ''Go'') (first_row ''A'' ''Go'')"
  "row_at gated_parsed ''B'' ''Go'' (mapping_at ''B'' ''Go'') (first_row ''B'' ''Go'')"
  "row_at gated_parsed ''A'' ''lifecycle::entry'' (mapping_at ''A'' ''lifecycle::entry'') (first_row ''A'' ''lifecycle::entry'')"
  by (rule mapping_at_row; code_simp)+

lemma gated_calls:
  "call_of [RefStateData, RefEventData] (sync_id ''ready'') \<in>
     set (row_guard_calls gated_parsed ''A'' (mapping_at ''A'' ''Go'') (first_row ''A'' ''Go''))"
  "call_of [RefEventData] (sync_id ''note'') \<in>
     set (row_action_calls gated_parsed ''B'' (mapping_at ''B'' ''Go'') (first_row ''B'' ''Go''))"
  "call_of [] (sync_id ''show'') \<in> set (lifecycle_calls (mapping_at ''A'' ''lifecycle::entry''))"
  by code_simp+

theorem guard_calls_fit_witness:
  "call_fits (guard_methods gated_parsed) (block_bindings gated_parsed ''A'' (mapping_at ''A'' ''Go''))
     (call_of [RefStateData, RefEventData] (sync_id ''ready''))"
proof -
  have "payloads_usable gated_parsed ''A'' (mapping_at ''A'' ''Go'')" by code_simp
  with guard_calls_fit [OF gated_accepted(1) gated_rows(1) gated_calls(1)] show ?thesis by blast
qed

theorem action_calls_fit_witness:
  "call_fits gated_methods (block_bindings gated_parsed ''B'' (mapping_at ''B'' ''Go'')) (call_of [RefEventData] (sync_id ''note''))"
proof -
  have "payloads_usable gated_parsed ''B'' (mapping_at ''B'' ''Go'')" by code_simp
  with action_calls_fit [OF gated_accepted gated_rows(2) gated_calls(2)] show ?thesis by blast
qed

theorem lifecycle_calls_fit_witness:
  "\<not> call_fits gated_methods (block_bindings gated_parsed ''A'' (mapping_at ''A'' ''lifecycle::entry'')) (call_of [] (sync_id ''show''))"
proof -
  have "payloads gated_parsed ''A'' (mapping_at ''A'' ''lifecycle::entry'') \<noteq> []" by code_simp
  with lifecycle_calls_fit [OF gated_accepted gated_rows(3) gated_calls(3)] show ?thesis by blast
qed

end
