(* ===== verification/Diagrams.thy ===== *)
theory Diagrams
  imports Event_Specs "HOL-Library.Product_Lexorder"
begin

text \<open>
  The diagram generator of macros/src/diagramgen.rs: a parsed machine as a graph in the DOT language. The
  hash maps of the machine are walked in any order, so the lines are sorted; the text is the same for
  every order.
\<close>

section \<open>Lines\<close>

fun join_with :: "string \<Rightarrow> string list \<Rightarrow> string" where
  "join_with sep [] = []"
| "join_with sep [s] = s"
| "join_with sep (s # ss) = s @ sep @ join_with sep ss"

abbreviation newline :: string where "newline \<equiv> [CHR 0x0A]"
abbreviation tab :: string where "tab \<equiv> [CHR 0x09]"
abbreviation quotation :: string where "quotation \<equiv> [CHR 0x22]"

definition quoted :: "string \<Rightarrow> string" where
  "quoted s = quotation @ s @ quotation"

text \<open>The node and the label of a trigger.\<close>

definition diagram_trigger :: "event_mapping \<Rightarrow> string \<times> string" where
  "diagram_trigger m =
     (case m_event_kind m of
        Normal \<Rightarrow> (m_event m, m_event m)
      | Unexpected \<Rightarrow>
          if m_event_wildcard m then (''unexpected_any'', ''unexpected<_>'')
          else (''unexpected_'' @ m_event m, ''unexpected<'' @ m_event m @ ''>'')
      | Completion \<Rightarrow> (''completion_'' @ m_event m, ''completion<'' @ m_event m @ ''>'')
      | Entry \<Rightarrow> (''on_entry'', ''on_entry<_>'')
      | Exit \<Rightarrow> (''on_exit'', ''on_exit<_>'')
      | Exception \<Rightarrow> (''exception'', ''exception<_>''))"

definition diagram_event :: "event_mapping \<Rightarrow> transition \<Rightarrow> string \<times> string \<times> string \<times> string" where
  "diagram_event m t =
     (fst (diagram_trigger m), snd (diagram_trigger m),
      (case t_guard t of None \<Rightarrow> ''_'' | Some g \<Rightarrow> GuardExpression_fmt g),
      join_with '','' (map ident (transition_actions t)))"

definition diagram_transition :: "string \<Rightarrow> event_mapping \<Rightarrow> transition \<Rightarrow> string \<times> string \<times> string" where
  "diagram_transition s m t = (s, t_out_state t, fst (diagram_trigger m))"

definition mapping_rows :: "(string \<Rightarrow> event_mapping \<Rightarrow> transition \<Rightarrow> 'r) \<Rightarrow> transition_map \<Rightarrow> 'r list" where
  "mapping_rows f tm = concat (map (\<lambda>(s, ms). concat (map (\<lambda>(_, m). map (f s m) (m_transitions m)) ms)) tm)"

definition state_line :: "string \<Rightarrow> string" where
  "state_line s = tab @ s @ '' [shape=box color='' @ quoted ''red'' @ '' fillcolor='' @ quoted ''#ffbb33'' @ '' style=filled]''"

definition event_line :: "string \<times> string \<times> string \<times> string \<Rightarrow> string" where
  "event_line = (\<lambda>(i, label, guard, action).
     tab @ i @ '' [shape=box label='' @ quoted (label @ [CHR 0x5C] @ ''n['' @ guard @ ''] / '' @ action) @ '']'')"

definition transition_line :: "string \<times> string \<times> string \<Rightarrow> string" where
  "transition_line = (\<lambda>(s, t, e). tab @ s @ '' -> '' @ t @ '' [color=blue label='' @ e @ ''];'')"

section \<open>The diagram\<close>

definition generate_diagram :: "parsed_state_machine \<Rightarrow> string" where
  "generate_diagram sm =
     (let tm = p_states_events_mapping sm;
          diagram_states = sort (map fst (p_states sm));
          diagram_events = sort (mapping_rows (\<lambda>_. diagram_event) tm);
          diagram_transitions = sort (mapping_rows diagram_transition tm)
      in join_with newline
        [''digraph G {'',
         ''    rankdir='' @ quoted ''LR'' @ '';'',
         ''    node [fontname=Arial];'',
         ''    edge [fontname=Arial];'',
         ''    s [shape=circle size=2 color='' @ quoted ''black'' @ '' style=filled]'',
         ''    '',
         ''    s -> '' @ p_starting_state sm,
         join_with newline (map state_line diagram_states), [],
         join_with newline (map event_line diagram_events), [],
         join_with newline (map transition_line diagram_transitions),
         ''}''])"

lemma sort_same_mset: "mset xs = mset ys \<Longrightarrow> sort xs = sort ys" for xs :: "'a :: linorder list"
  by (rule properties_for_sort) simp_all

lemma mapping_rows_same:
  assumes "same_entries tm tm'"
  shows "mset (mapping_rows f tm) = mset (mapping_rows f tm')"
  using same_entries_rows [OF assms, of "\<lambda>s (_, m). map (f s m) (m_transitions m)"] by (simp add: mapping_rows_def)

text \<open>
  C36. The diagram of a machine does not depend on the order in which its hash maps are walked.
\<close>

theorem diagram_deterministic:
  assumes "same_entries (p_states_events_mapping sm) (p_states_events_mapping sm')"
    and "mset (map fst (p_states sm)) = mset (map fst (p_states sm'))" "p_starting_state sm = p_starting_state sm'"
  shows "generate_diagram sm = generate_diagram sm'"
  unfolding generate_diagram_def Let_def assms(3) sort_same_mset [OF assms(2)]
    sort_same_mset [OF mapping_rows_same [OF assms(1), of "\<lambda>_. diagram_event"]]
    sort_same_mset [OF mapping_rows_same [OF assms(1), of diagram_transition]] ..

text \<open>The door with its table reversed has the same diagram, which draws the rows as they are.\<close>

theorem diagram_deterministic_witness:
  "generate_diagram (door\<lparr>p_states_events_mapping := rev (p_states_events_mapping door)\<rparr>) = generate_diagram door \<and>
   p_states_events_mapping door \<noteq> rev (p_states_events_mapping door)"
proof -
  have "same_entries (p_states_events_mapping (door\<lparr>p_states_events_mapping := rev (p_states_events_mapping door)\<rparr>))
      (p_states_events_mapping door)"
    by (simp add: same_entries_def rev_map)
  from diagram_deterministic [OF this] show ?thesis by (simp add: door_def table_of_def)
qed

end
