(* ===== verification/Spec2Isabelle.thy ===== *)
theory Spec2Isabelle
  imports Event_Queues Utilities Flat_Correctness Flat_Queues Names Lifetimes
    Fifo_Examples Table_Examples Policies Validation Cpp_Syntax Orthogonal_Correctness Composite_Correctness
    Tree_Correctness Scheduled_Machines Tree_Events Flat_Callbacks Diagrams
begin

text \<open>
  A verification library for sml.rs, a Rust library of state machines. A machine is a transition
  table in a \<open>sml!\<close> block; the procedural macro (macros/src) reads the table and emits the code of
  a machine, which runs on the small runtime of src/src.

  \<^bold>\<open>Parts and how they interact.\<close> The macro splits a block into machines and rows (parser/cpp.rs),
  parses each row (parser/transition.rs, event.rs, input_state.rs, output_state.rs) and chooses a
  generator (lib.rs): a table with one starting state goes through \<open>ParsedStateMachine::new\<close>
  (parser/mod.rs), \<open>validate\<close> (validation.rs) and codegen.rs; one with several through
  orthogonal_codegen.rs; tables that name each other through composite_codegen.rs. The emitted
  machine queues events in \<open>EventQueue\<close> (utility.rs), asks the policies (policy.rs) for its queues
  and strategies, and may be driven by a scheduler (scheduler.rs).

  \<^bold>\<open>Theories.\<close>
  \<^item> \<open>Sml_Prelude\<close>: results, words of 64 bits, slices, rings. \<open>Step_Monad\<close>: emitted code as state
    transformers with fuel, with rules for definedness (\<open>step_mono\<close>), invariants (\<open>step_inv\<close>) and
    totality (\<open>step_total\<close>).
  \<^item> \<open>Event_Queue\<close>, \<open>Event_Queues\<close>, \<open>Utilities\<close>: utility.rs. The ring buffer refines a bounded deque (locale
    of the queue interface, interpreted on the ring); \<open>EventQueues::dispatch\<close> with deferral and retry;
    \<open>Hierarchical\<close>, \<open>DispatchTable\<close>, \<open>SmPool\<close>, \<open>OrthogonalRegions\<close>.
  \<^item> \<open>Policies\<close>: policy.rs, bundles and the \<open>sml_policies!\<close> macro.
  \<^item> \<open>Fifo_Scheduler\<close>, \<open>Fifo_Safety\<close>, \<open>Fifo_Examples\<close>: scheduler.rs. Callers are threads that take the queue
    mutex in critical sections; a step relation interleaves them. One consumer, FIFO order, and a run
    in which an unwinding caller breaks both.
  \<^item> \<open>Scheduled_Machines\<close>: the emitted machines behind the scheduler; a shared machine runs its events
    as if alone.
  \<^item> \<open>Tokens\<close>, \<open>Machine_Ast\<close>, \<open>Guard_Expr\<close>, \<open>Table_Syntax\<close>, \<open>Action_Order\<close>, \<open>Table_Examples\<close>, \<open>Cpp_Syntax\<close>: the
    syntax. Token trees stand for \<open>proc_macro2\<close>; parsers return a result and the rest of the tokens.
  \<^item> \<open>Names\<close>, \<open>Lifetimes\<close>: identifiers of quoted names and their collisions; lifetimes of payload types.
  \<^item> \<open>Parsed_Machine\<close>, \<open>Parsed_Table\<close>, \<open>Parsed_Correctness\<close>: \<open>ParsedStateMachine::new\<close>, the rows each state
    gets (wildcards expanded), well-formedness. \<open>Validation\<close>: validation.rs.
  \<^item> \<open>Flat_Codegen\<close>, \<open>Flat_Machine\<close>: the generator codegen.rs as a function from parsed machines to
    the arms it emits, and the meaning of the emitted code; \<open>Flat_Runs\<close>, \<open>Flat_Props\<close>, \<open>Flat_Dispatch\<close>,
    \<open>Flat_Transition\<close>, \<open>Flat_Correctness\<close>, \<open>Flat_Queues\<close>, \<open>Flat_Examples\<close>: its runs. \<open>Flat_Callbacks\<close>: the
    methods of the context trait, the arguments of the emitted calls and the types that they have in the
    emitted code, against \<open>Validation\<close>.
  \<^item> \<open>Region_Discovery\<close>, \<open>Orthogonal_Codegen\<close>, \<open>Orthogonal_Machine\<close>, \<open>Orthogonal_Runs\<close>, \<open>Orthogonal_Rows\<close>,
    \<open>Orthogonal_Correctness\<close>: orthogonal_codegen.rs, its generator, the emitted machine, and the
    locale \<open>region_invariant\<close> for invariants of its runs.
  \<^item> \<open>Composite_Codegen\<close>, \<open>Composite_Machine\<close>, \<open>Composite_Runs\<close>, \<open>Composite_Rows\<close>, \<open>Composite_Correctness\<close>:
    composite_codegen.rs for a parent and one child table, with the locale \<open>composite_invariant\<close>.
  \<^item> \<open>Tree_Nodes\<close>, \<open>Tree_Forest\<close>, \<open>Tree_Codegen\<close>, \<open>Tree_Machine\<close>, \<open>Tree_Runs\<close>, \<open>Tree_Rows\<close>, \<open>Tree_Examples\<close>,
    \<open>Tree_Correctness\<close>: composite_codegen.rs (\<open>generate_multi_code\<close>) and the embedded part of
    orthogonal_codegen.rs for trees of tables: the walk that numbers the tables and finds their
    owners, the code of every table, the emitted machine, whose states are addressed by places (a
    table and one of its regions), and the locale \<open>tree_invariant\<close>.
  \<^item> \<open>Event_Specs\<close>, \<open>Tree_Events\<close>: event_codegen.rs and the event queries of the generators. \<open>Diagrams\<close>: diagramgen.rs.

  \<^bold>\<open>Correspondence.\<close> Definitions carry the names of the source. A Rust \<open>Result\<close> is a sum with the error
  on the left, \<open>usize\<close> is a word of 64 bits where it may overflow and a natural number where it
  counts elements of a list in memory, hash maps are association lists, the generated code is a value
  (arms, candidates, branches) with a function that runs it. Guards, actions, hooks, event
  expressions, queues and policies of the user are the environment of a run: \<open>machine_env\<close> and
  \<open>region_env\<close> hold them as functions of the context and the data that the code passes.

  \<^bold>\<open>What the lemmas show.\<close> The properties are numbered; each follows the definitions it is about.
  In short: queues refine deques; a dispatch retries deferred events once; guards parse back from
  their printed form; a parsed machine is well-formed and has exactly the rows of its table; a flat
  machine takes the first enabled row, its changes are rows, entries and exits alternate, it keeps
  its state on errors, and it returns when its completions descend; orthogonal machines keep their
  regions apart; a composite machine moves both tables along their rows, sends events to the active
  child first and resets the child on entry; the tables of a composite tree form a tree, entering a
  table resets what it enters, leaving it twice runs its exits once, every place moves along the
  rows of its table; a machine shared through the scheduler behaves in every interleaving like one
  that runs the same events alone; \<open>validate\<close> gives each guard and action one signature, so that the
  calls in the rows of a flat machine fit the declared methods where their payloads are in scope,
  while the calls of entry and exit rows fit only without payloads; event queries visit what the rows of
  the current states admit. Some properties state divergences between code and documentation.

  \<^bold>\<open>Fuel.\<close> \<open>process_event\<close> of an emitted machine calls itself (through \<open>process\<close> and deferred events) and
  loops (completions, drains). Its model takes a number for both; \<open>None\<close> means it did not suffice, and
  results do not change with more of it. Termination is stated as enough fuel giving a result, and
  a run that never returns as \<open>None\<close> for every fuel. Parsers take the number of tokens, which bounds
  their recursion.

  \<^bold>\<open>Not modelled.\<close> Text that decides no behaviour: type declarations, name tables, documentation,
  attributes, spans and the wording of composed error messages where tokens are printed. The
  writing of diagram files. Of the type checking of emitted code, only the arguments of callbacks of
  flat machines, without moves and lifetimes of borrows. Of concurrency, the scheduler only: the
  emitted machines run under \<open>&mut self\<close>. Types, expressions, generics and attributes are read by
  the crate \<open>syn\<close>, a parameter of the syntax.
\<close>

end
